(* ===== verification/Prelude.thy ===== *)
theory Prelude
  imports Main "HOL-Library.AList" "HOL-Library.Sublist" "HOL-Library.Multiset"
begin

text \<open>
  Shared vocabulary of the development: the rule collections, decimal printing (JavaScript's
  \<open>String(n)\<close>), insertion-ordered maps (JavaScript's \<open>Map\<close>) as association lists, and the list
  lemmas several components use. A JavaScript string is a list of UTF-16 code units; here it is
  the type \<^typ>\<open>string\<close>, of which only concatenation, comparison and single-unit access are used.
\<close>

named_theorems js_simps "unfolding rules for the JavaScript primitives"

subsection \<open>Optional fields\<close>

text \<open>\<open>a ?? b\<close>: the default of an absent (\<open>null\<close> or \<open>undefined\<close>) value.\<close>

definition nullish :: "'a option \<Rightarrow> 'a \<Rightarrow> 'a" where
  "nullish x d = (case x of None \<Rightarrow> d | Some v \<Rightarrow> v)"

lemma nullish_simps [simp]: "nullish None d = d" "nullish (Some v) d = v"
  by (simp_all add: nullish_def)

text \<open>A string field is truthy when it is present and not empty.\<close>

definition truthy_str :: "string option \<Rightarrow> bool" where
  "truthy_str x = (case x of None \<Rightarrow> False | Some s \<Rightarrow> s \<noteq> [])"

lemma truthy_str_simps [simp]: "\<not> truthy_str None" "truthy_str (Some s) \<longleftrightarrow> s \<noteq> []"
  by (simp_all add: truthy_str_def)

subsection \<open>Decimal printing\<close>

definition digit_char :: "nat \<Rightarrow> char" where
  "digit_char d = ''0123456789'' ! (d mod 10)"

fun show_nat :: "nat \<Rightarrow> string" where
  "show_nat n = (if n < 10 then [digit_char n] else show_nat (n div 10) @ [digit_char (n mod 10)])"

declare show_nat.simps [simp del]

definition show_int :: "int \<Rightarrow> string" where
  "show_int i = (if i < 0 then ''-'' @ show_nat (nat (- i)) else show_nat (nat i))"

definition is_digit :: "char \<Rightarrow> bool" where
  "is_digit c \<longleftrightarrow> 48 \<le> (of_char c :: nat) \<and> (of_char c :: nat) \<le> 57"

definition digit_val :: "char \<Rightarrow> nat" where
  "digit_val c = of_char c - 48"

definition read_nat :: "string \<Rightarrow> nat" where
  "read_nat s = foldl (\<lambda>n c. 10 * n + digit_val c) 0 s"

lemma digit_char_cases:
  assumes "d < 10"
  shows "digit_val (digit_char d) = d \<and> is_digit (digit_char d)"
proof -
  from assms have "d \<in> {0, 1, 2, 3, 4, 5, 6, 7, 8, 9}" by auto
  then show ?thesis by (auto simp: digit_char_def digit_val_def is_digit_def)
qed

lemma digit_val_char [simp]: "d < 10 \<Longrightarrow> digit_val (digit_char d) = d"
  and is_digit_char [simp]: "d < 10 \<Longrightarrow> is_digit (digit_char d)"
  using digit_char_cases by blast+

lemma read_show_nat [simp]: "read_nat (show_nat n) = n"
proof (induction n rule: show_nat.induct)
  case (1 n)
  show ?case
  proof (cases "n < 10")
    case True
    then show ?thesis
      by (subst show_nat.simps) (simp add: read_nat_def)
  next
    case False
    with 1 have "read_nat (show_nat (n div 10)) = n div 10" by simp
    with False show ?thesis
      by (subst show_nat.simps) (simp add: read_nat_def)
  qed
qed

lemma show_nat_inject [simp]: "show_nat m = show_nat n \<longleftrightarrow> m = n"
  by (metis read_show_nat)

lemma show_nat_nonempty [simp]: "show_nat n \<noteq> []"
  by (subst show_nat.simps) simp

lemma show_nat_eval:
  "n < 10 \<Longrightarrow> show_nat n = [digit_char n]"
  "10 \<le> n \<Longrightarrow> show_nat n = show_nat (n div 10) @ [digit_char (n mod 10)]"
  by (subst show_nat.simps, simp)+

lemma show_nat_digits: "c \<in> set (show_nat n) \<Longrightarrow> is_digit c"
proof (induction n rule: show_nat.induct)
  case (1 n)
  then show ?case
    by (subst (asm) show_nat.simps) (auto split: if_splits)
qed

text \<open>\<open>s.padStart(w, "0")\<close>.\<close>

definition pad_start :: "nat \<Rightarrow> char \<Rightarrow> string \<Rightarrow> string" where
  "pad_start w c s = replicate (w - length s) c @ s"

lemma pad_two_digits:
  assumes "s < 60"
  shows "pad_start 2 (CHR ''0'') (show_nat s) =
         (if s < 10 then CHR ''0'' # show_nat s else show_nat s)"
  using assms by (cases "s < 10") (auto simp: pad_start_def show_nat_eval)

lemma show_nat_no_colon [simp]: "CHR '':'' \<notin> set (show_nat n)"
proof
  assume "CHR '':'' \<in> set (show_nat n)"
  then have "is_digit (CHR '':'')" by (rule show_nat_digits)
  then show False by (simp add: is_digit_def)
qed

lemma pad_two_read: "s < 60 \<Longrightarrow> read_nat (pad_start 2 (CHR ''0'') (show_nat s)) = s"
  using read_show_nat [of s] by (auto simp: pad_two_digits read_nat_def digit_val_def)

lemma drop_all_then:
  "list_all P xs \<Longrightarrow> \<not> P y \<Longrightarrow> dropWhile P (xs @ y # ys) = y # ys"
  "list_all P xs \<Longrightarrow> \<not> P y \<Longrightarrow> takeWhile P (xs @ y # ys) = xs"
  by (induction xs) auto

lemma show_nat_all_digits: "list_all is_digit (show_nat n)"
  by (auto simp: list_all_iff dest: show_nat_digits)

lemma digits_then:
  "\<not> is_digit c \<Longrightarrow> takeWhile is_digit (show_nat n @ c # s) = show_nat n"
  "\<not> is_digit c \<Longrightarrow> dropWhile is_digit (show_nat n @ c # s) = c # s"
  "takeWhile is_digit (show_nat n) = show_nat n" "dropWhile is_digit (show_nat n) = []"
  using show_nat_all_digits [of n] by (simp_all add: drop_all_then) (simp_all add: list_all_iff)

subsection \<open>Insertion-ordered maps\<close>

text \<open>
  A JavaScript \<open>Map\<close> iterates in first-insertion order and \<open>set\<close> on a present key keeps its
  place: this is \<^const>\<open>AList.update\<close> on association lists, with \<^const>\<open>map_of\<close> as \<open>get\<close>.
\<close>

type_synonym ('k, 'v) jsmap = "('k \<times> 'v) list"

abbreviation jsmap_set :: "'k \<Rightarrow> 'v \<Rightarrow> ('k, 'v) jsmap \<Rightarrow> ('k, 'v) jsmap" where
  "jsmap_set \<equiv> AList.update"

abbreviation jsmap_get :: "('k, 'v) jsmap \<Rightarrow> 'k \<Rightarrow> 'v option" where
  "jsmap_get \<equiv> map_of"

lemma jsmap_get_set [simp]: "jsmap_get (jsmap_set k v m) = (jsmap_get m)(k \<mapsto> v)"
  by (rule AList.update_conv')

lemma in_jsmap_set: "(k', v') \<in> set (jsmap_set k v m) \<Longrightarrow> (k', v') = (k, v) \<or> (k', v') \<in> set m"
  by (induction m) (auto split: if_splits)

lemma values_jsmap_set: "snd ` set (jsmap_set k v m) \<subseteq> insert v (snd ` set m)"
  by (auto dest!: in_jsmap_set)

subsection \<open>Lists\<close>

lemma filter_eq_Nil_iff: "filter P xs = [] \<longleftrightarrow> (\<forall>x\<in>set xs. \<not> P x)"
  by (induction xs) auto

lemma set_take_filter_subset: "set (take n (filter P xs)) \<subseteq> set xs"
  by (meson filter_is_subset order_trans set_take_subset)

text \<open>\<open>arr.some(p)\<close>, \<open>arr.every(p)\<close> and \<open>arr.find(p)\<close>, \<open>arr.findIndex(p)\<close>.\<close>

definition find_index :: "('a \<Rightarrow> bool) \<Rightarrow> 'a list \<Rightarrow> nat option" where
  "find_index p xs = (let i = length (takeWhile (\<lambda>x. \<not> p x) xs) in
     if i < length xs then Some i else None)"

lemma find_index_Some_iff:
  "find_index p xs = Some i \<longleftrightarrow> i < length xs \<and> p (xs ! i) \<and> (\<forall>j<i. \<not> p (xs ! j))"
proof
  assume "find_index p xs = Some i"
  then have i: "i = length (takeWhile (\<lambda>x. \<not> p x) xs)" "i < length xs"
    by (auto simp: find_index_def Let_def split: if_splits)
  then show "i < length xs \<and> p (xs ! i) \<and> (\<forall>j<i. \<not> p (xs ! j))"
    using nth_length_takeWhile [of "\<lambda>x. \<not> p x" xs]
    by (metis nth_mem set_takeWhileD takeWhile_nth)
next
  assume h: "i < length xs \<and> p (xs ! i) \<and> (\<forall>j<i. \<not> p (xs ! j))"
  then have "takeWhile (\<lambda>x. \<not> p x) xs = take i xs"
    by (intro takeWhile_eq_take_P_nth) auto
  with h show "find_index p xs = Some i" by (simp add: find_index_def)
qed

lemma find_index_None_iff: "find_index p xs = None \<longleftrightarrow> (\<forall>x\<in>set xs. \<not> p x)"
proof -
  have "length (takeWhile (\<lambda>x. \<not> p x) xs) < length xs \<longleftrightarrow> takeWhile (\<lambda>x. \<not> p x) xs \<noteq> xs"
    by (metis append_eq_conv_conj length_takeWhile_le linorder_neqE_nat linorder_not_le takeWhile_eq_take take_all_iff)
  then show ?thesis by (auto simp: find_index_def Let_def takeWhile_eq_all_conv)
qed

subsection \<open>Sorting by a comparator\<close>

text \<open>
  \<open>arr.sort(c)\<close> is stable; \<open>after a b\<close> is \<open>c(a, b) > 0\<close>. For a consistent comparator the result is
  the one the language fixes, whatever the algorithm.
\<close>

fun js_insert :: "('a \<Rightarrow> 'a \<Rightarrow> bool) \<Rightarrow> 'a \<Rightarrow> 'a list \<Rightarrow> 'a list" where
  "js_insert after x [] = [x]"
| "js_insert after x (y # ys) = (if after x y then y # js_insert after x ys else x # y # ys)"

definition js_sort :: "('a \<Rightarrow> 'a \<Rightarrow> bool) \<Rightarrow> 'a list \<Rightarrow> 'a list" where
  "js_sort after xs = foldr (js_insert after) xs []"

lemma mset_js_insert [simp]: "mset (js_insert after x ys) = add_mset x (mset ys)"
  by (induction ys) auto

lemma mset_js_sort [simp]: "mset (js_sort after xs) = mset xs"
  by (induction xs) (auto simp: js_sort_def)

lemma set_js_sort [simp]: "set (js_sort after xs) = set xs"
  using mset_js_sort by (rule mset_eq_setD)

lemma length_js_sort [simp]: "length (js_sort after xs) = length xs"
  using mset_js_sort by (rule mset_eq_length)

lemma js_sort_simps [simp]: "js_sort after [] = []" "js_sort after (x # xs) = js_insert after x (js_sort after xs)"
  by (simp_all add: js_sort_def)

lemma js_insert_insort:
  "(\<And>y. y \<in> set ys \<Longrightarrow> after x y \<longleftrightarrow> f y < (f x :: 'k :: linorder)) \<Longrightarrow> js_insert after x ys = insort_key f x ys"
  by (induction ys) auto

lemma js_sort_sort_key:
  "(\<And>x y. x \<in> set xs \<Longrightarrow> y \<in> set xs \<Longrightarrow> after x y \<longleftrightarrow> f y < (f x :: 'k :: linorder)) \<Longrightarrow> js_sort after xs = sort_key f xs"
proof (induction xs)
  case (Cons x xs)
  then have "js_sort after xs = sort_key f xs" by simp
  moreover have "js_insert after x (sort_key f xs) = insort_key f x (sort_key f xs)"
    by (rule js_insert_insort) (simp add: Cons.prems)
  ultimately show ?case by (simp add: sort_key_def)
qed simp

lemma insert_sorted_wrt:
  assumes "\<And>y. y \<in> set ys \<Longrightarrow> if after x y then R y x else R x y"
    "\<And>a b c. R a b \<Longrightarrow> R b c \<Longrightarrow> R a c" "sorted_wrt R ys"
  shows "sorted_wrt R (js_insert after x ys)"
  using assms(1,3)
proof (induction ys)
  case (Cons y ys)
  show ?case
  proof (cases "after x y")
    case True
    have "set (js_insert after x ys) = insert x (set ys)" by (metis mset_js_insert set_mset_add_mset_insert set_mset_mset)
    with True Cons show ?thesis by auto
  next
    case False
    with Cons.prems have "R x y" by auto
    with False Cons.prems(2) show ?thesis by (auto intro: assms(2))
  qed
qed simp

text \<open>
  A comparator that decides every pair towards a transitive order. What it says of two elements it
  cannot tell apart does not matter to where the order puts them.
\<close>

locale list_order =
  fixes after :: "'a \<Rightarrow> 'a \<Rightarrow> bool" and no_later :: "'a \<Rightarrow> 'a \<Rightarrow> bool"
  assumes decides: "if after x y then no_later y x else no_later x y"
    and transitive: "no_later x y \<Longrightarrow> no_later y z \<Longrightarrow> no_later x z"
begin

lemma sorts: "sorted_wrt no_later (js_sort after xs)"
  by (induction xs) (auto intro!: insert_sorted_wrt decides intro: transitive)

lemma sorts_nth: "i < j \<Longrightarrow> j < length xs \<Longrightarrow> no_later (js_sort after xs ! i) (js_sort after xs ! j)"
  using sorts [of xs] by (simp add: sorted_wrt_iff_nth_less)

end

subsection \<open>Strings\<close>

definition is_space :: "char \<Rightarrow> bool" where
  "is_space c \<longleftrightarrow> (of_char c :: nat) \<in> {9, 10, 11, 12, 13, 32, 160}"

definition trim_start :: "string \<Rightarrow> string" where
  "trim_start s = dropWhile is_space s"

definition js_trim :: "string \<Rightarrow> string" where
  "js_trim s = rev (trim_start (rev (trim_start s)))"

definition lower_char :: "char \<Rightarrow> char" where
  "lower_char c = (let n = (of_char c :: nat) in if 65 \<le> n \<and> n \<le> 90 then char_of (n + 32) else c)"

definition to_lower :: "string \<Rightarrow> string" where
  "to_lower s = map lower_char s"

text \<open>\<open>s.split(c)\<close> for a separator of one character, and \<open>parts.join(sep)\<close>.\<close>

fun js_split :: "char \<Rightarrow> string \<Rightarrow> string list" where
  "js_split c [] = [[]]"
| "js_split c (x # xs) =
     (if x = c then [] # js_split c xs
      else (case js_split c xs of [] \<Rightarrow> [[x]] | p # ps \<Rightarrow> (x # p) # ps))"

fun js_join :: "string \<Rightarrow> string list \<Rightarrow> string" where
  "js_join sep [] = []"
| "js_join sep [p] = p"
| "js_join sep (p # ps) = p @ sep @ js_join sep ps"

lemma js_split_nonempty [simp]: "js_split c s \<noteq> []"
  by (induction s) (auto split: list.split)

lemma js_split_no_sep: "c \<notin> set s \<Longrightarrow> js_split c s = [s]"
  by (induction s) auto

lemma js_split_append:
  "c \<notin> set s \<Longrightarrow> js_split c (s @ c # rest) = s # js_split c rest"
  by (induction s) auto

lemma js_join_Cons: "ps \<noteq> [] \<Longrightarrow> js_join sep (p # ps) = p @ sep @ js_join sep ps"
  by (cases ps) auto

lemma js_split_join:
  "ps \<noteq> [] \<Longrightarrow> \<forall>p \<in> set ps. c \<notin> set p \<Longrightarrow> js_split c (js_join [c] ps) = ps"
proof (induction ps rule: induct_list012)
  case (3 p q ps)
  then show ?case by (simp add: js_split_append)
qed (auto simp: js_split_no_sep)

text \<open>\<open>s.includes(p)\<close>.\<close>

fun js_includes :: "string \<Rightarrow> string \<Rightarrow> bool" where
  "js_includes p [] = (p = [])"
| "js_includes p (x # xs) = (prefix p (x # xs) \<or> js_includes p xs)"

lemma js_includes_iff: "js_includes p s \<longleftrightarrow> (\<exists>a b. s = a @ p @ b)"
proof (induction s)
  case (Cons x xs)
  show ?case
    by (simp add: Cons prefix_def, metis append_Cons append_Nil append_eq_Cons_conv)
qed simp

lemma js_trim_id:
  assumes "s \<noteq> []" "\<not> is_space (hd s)" "\<not> is_space (last s)"
  shows "js_trim s = s"
proof -
  have "trim_start s = s" using assms(1,2) by (cases s) (auto simp: trim_start_def)
  moreover have "trim_start (rev s) = rev s"
    using assms(1,3) by (cases s rule: rev_cases) (auto simp: trim_start_def)
  ultimately show ?thesis by (simp add: js_trim_def)
qed

lemma js_trim_space: "is_space c \<Longrightarrow> js_trim (c # s) = js_trim s"
  by (simp add: js_trim_def trim_start_def)

lemma trim_start_hd: "trim_start s \<noteq> [] \<Longrightarrow> \<not> is_space (hd (trim_start s))"
  unfolding trim_start_def by (rule hd_dropWhile) (simp add: dropWhile_eq_Nil_conv)

lemma trim_start_suffix: "\<exists>pre. s = pre @ trim_start s"
  unfolding trim_start_def by (metis takeWhile_dropWhile_id)

lemma js_trim_ends: "js_trim s \<noteq> [] \<Longrightarrow> \<not> is_space (hd (js_trim s)) \<and> \<not> is_space (last (js_trim s))"
proof -
  assume ne: "js_trim s \<noteq> []"
  let ?t = "trim_start s" and ?u = "trim_start (rev (trim_start s))"
  have u: "?u \<noteq> []" using ne by (simp add: js_trim_def)
  obtain pre where pre: "rev ?t = pre @ ?u" using trim_start_suffix by blast
  then have t: "?t = rev ?u @ rev pre" by (metis rev_append rev_rev_ident)
  then have "hd (rev ?u) = hd ?t" using u by (metis Nil_is_rev_conv hd_append2)
  moreover have "\<not> is_space (hd ?t)" using t u by (intro trim_start_hd) auto
  moreover have "last (rev ?u) = hd ?u" using u by (simp add: last_rev)
  ultimately show ?thesis using trim_start_hd [OF u] by (simp add: js_trim_def)
qed

end
