(* ===== verification/JsNum.thy ===== *)
theory JsNum
  imports Complex_Main Prelude
begin

text \<open>
  JavaScript numbers, as far as the program computes with them: an exact value or \<open>NaN\<close>.
  Arithmetic with a \<open>NaN\<close> is \<open>NaN\<close> and every comparison with one is false, which is what
  the guards of the sources rely on. Rounding of doubles above 2^53 and the infinities are
  not modelled. \<open>Date.parse\<close> is modelled on ECMAScript's Date Time String Format, the
  ISO-8601 form the API sends; a string of any other form gives \<open>NaN\<close>.
\<close>

datatype jsnum = NaN | Num real

instantiation jsnum :: "{plus, minus, zero, ord}"
begin

definition zero_jsnum :: jsnum where
  "zero_jsnum = Num 0"

definition plus_jsnum :: "jsnum \<Rightarrow> jsnum \<Rightarrow> jsnum" where
  "plus_jsnum a b = (case (a, b) of (Num x, Num y) \<Rightarrow> Num (x + y) | _ \<Rightarrow> NaN)"

definition minus_jsnum :: "jsnum \<Rightarrow> jsnum \<Rightarrow> jsnum" where
  "minus_jsnum a b = (case (a, b) of (Num x, Num y) \<Rightarrow> Num (x - y) | _ \<Rightarrow> NaN)"

definition less_jsnum :: "jsnum \<Rightarrow> jsnum \<Rightarrow> bool" where
  "less_jsnum a b = (case (a, b) of (Num x, Num y) \<Rightarrow> x < y | _ \<Rightarrow> False)"

definition less_eq_jsnum :: "jsnum \<Rightarrow> jsnum \<Rightarrow> bool" where
  "less_eq_jsnum a b = (case (a, b) of (Num x, Num y) \<Rightarrow> x \<le> y | _ \<Rightarrow> False)"

instance ..

end

definition js_max :: "jsnum \<Rightarrow> jsnum \<Rightarrow> jsnum" where
  "js_max a b = (case (a, b) of (Num x, Num y) \<Rightarrow> Num (max x y) | _ \<Rightarrow> NaN)"

lemma jsnum_arith [simp, js_simps]:
  "Num x + Num y = Num (x + y)" "NaN + n = NaN" "n + NaN = NaN"
  "Num x - Num y = Num (x - y)" "NaN - n = NaN" "n - NaN = NaN"
  "js_max (Num x) (Num y) = Num (max x y)" "js_max NaN n = NaN" "js_max n NaN = NaN"
  by (simp_all add: plus_jsnum_def minus_jsnum_def js_max_def split: jsnum.split)

lemma jsnum_ord [simp, js_simps]:
  "Num x < Num y \<longleftrightarrow> x < y" "\<not> NaN < n" "\<not> n < NaN"
  "Num x \<le> Num y \<longleftrightarrow> x \<le> y" "\<not> NaN \<le> n" "\<not> n \<le> NaN"
  "(0 :: jsnum) = Num 0"
  by (simp_all add: less_jsnum_def less_eq_jsnum_def zero_jsnum_def split: jsnum.split)

lemma jsnum_lessE:
  assumes "a < (b :: jsnum)"
  obtains x y where "a = Num x" "b = Num y" "x < y"
  using assms by (cases a; cases b) auto

subsection \<open>\<open>Date.parse\<close>\<close>

text \<open>Exactly \<open>n\<close> decimal digits, and the rest of the string.\<close>

definition take_digits :: "nat \<Rightarrow> string \<Rightarrow> (int \<times> string) option" where
  "take_digits n s =
     (if n \<le> length s \<and> list_all is_digit (take n s)
      then Some (int (read_nat (take n s)), drop n s) else None)"

definition take_char :: "char \<Rightarrow> string \<Rightarrow> string option" where
  "take_char c s = (case s of x # r \<Rightarrow> if x = c then Some r else None | [] \<Rightarrow> None)"

text \<open>Days from 1970-01-01 to a date of the proleptic Gregorian calendar.\<close>

definition days_from_civil :: "int \<Rightarrow> int \<Rightarrow> int \<Rightarrow> int" where
  "days_from_civil y m d =
     (let y' = (if m \<le> 2 then y - 1 else y);
          mp = (m + 9) mod 12;
          doy = (153 * mp + 2) div 5 + d - 1
      in y' * 365 + y' div 4 - y' div 100 + y' div 400 + doy - 719468)"

text \<open>\<open>YYYY-MM-DD\<close> as a day number.\<close>

definition parse_date :: "string \<Rightarrow> (int \<times> string) option" where
  "parse_date s =
     Option.bind (take_digits 4 s) (\<lambda>(y, s).
     Option.bind (take_char (CHR ''-'') s) (\<lambda>s.
     Option.bind (take_digits 2 s) (\<lambda>(m, s).
     Option.bind (take_char (CHR ''-'') s) (\<lambda>s.
     Option.bind (take_digits 2 s) (\<lambda>(d, s).
       if 1 \<le> m \<and> m \<le> 12 \<and> 1 \<le> d \<and> d \<le> 31 then Some (days_from_civil y m d, s) else None)))))"

text \<open>The fraction of a second in milliseconds; digits past the third are dropped.\<close>

definition parse_fraction :: "string \<Rightarrow> (int \<times> string) option" where
  "parse_fraction s =
     (case s of
        [] \<Rightarrow> Some (0, s)
      | c # r \<Rightarrow>
          if c = CHR ''.'' then
            (let ds = takeWhile is_digit r in
             if ds = [] then None
             else Some (int (read_nat (take 3 (ds @ ''00''))), dropWhile is_digit r))
          else Some (0, s))"

text \<open>\<open>HH:mm\<close>, then optionally \<open>:ss\<close> and \<open>.sss\<close>, in milliseconds of the day.\<close>

definition parse_time :: "string \<Rightarrow> (int \<times> string) option" where
  "parse_time s =
     Option.bind (take_digits 2 s) (\<lambda>(h, s).
     Option.bind (take_char (CHR '':'') s) (\<lambda>s.
     Option.bind (take_digits 2 s) (\<lambda>(mi, s).
       if \<not> (h \<le> 24 \<and> mi \<le> 59) then None
       else case take_char (CHR '':'') s of
         None \<Rightarrow> Some ((h * 60 + mi) * 60000, s)
       | Some s \<Rightarrow>
           Option.bind (take_digits 2 s) (\<lambda>(sec, s).
           Option.bind (parse_fraction s) (\<lambda>(ms, s).
             if sec \<le> 59 then Some (((h * 60 + mi) * 60 + sec) * 1000 + ms, s) else None)))))"

text \<open>\<open>Z\<close> or a signed offset \<open>HH:mm\<close>, in milliseconds to subtract, ending the string.\<close>

definition parse_zone :: "string \<Rightarrow> int option" where
  "parse_zone s =
     (if s = ''Z'' then Some 0
      else case s of
        [] \<Rightarrow> None
      | c # r \<Rightarrow>
          Option.bind (take_digits 2 r) (\<lambda>(h, r).
          Option.bind (take_char (CHR '':'') r) (\<lambda>r.
          Option.bind (take_digits 2 r) (\<lambda>(mi, r).
            if r \<noteq> [] \<or> h > 23 \<or> mi > 59 then None
            else if c = CHR ''+'' then Some ((h * 60 + mi) * 60000)
            else if c = CHR ''-'' then Some (- ((h * 60 + mi) * 60000))
            else None))))"

definition date_parse :: "string \<Rightarrow> jsnum" where
  "date_parse s =
     (case parse_date s of
        None \<Rightarrow> NaN
      | Some (days, []) \<Rightarrow> Num (of_int (days * 86400000))
      | Some (days, c # r) \<Rightarrow>
          if c \<noteq> CHR ''T'' then NaN
          else (case parse_time r of
                  None \<Rightarrow> NaN
                | Some (ms, z) \<Rightarrow>
                    (case parse_zone z of
                       None \<Rightarrow> NaN
                     | Some off \<Rightarrow> Num (of_int (days * 86400000 + ms - off)))))"

lemmas date_parse_eval =
  date_parse_def parse_date_def parse_time_def parse_zone_def parse_fraction_def
  take_digits_def take_char_def days_from_civil_def read_nat_def digit_val_def is_digit_def

lemma date_parse_epoch: "date_parse ''1970-01-01T00:00:00.000Z'' = Num 0"
  by (simp add: date_parse_eval)

lemma date_parse_offset:
  "date_parse ''2026-03-01T14:30:05.250+05:00'' = date_parse ''2026-03-01T09:30:05.25Z''"
  by (simp add: date_parse_eval)

lemma date_parse_bad: "date_parse ''not a date'' = NaN"
  by (simp add: date_parse_eval)

subsection \<open>\<open>Number(s)\<close>\<close>

text \<open>
  \<open>Number(s)\<close> of a trimmed string that is not empty, for decimal literals with an optional sign,
  fraction and exponent; \<^const>\<open>None\<close> is \<open>NaN\<close>. Hexadecimal literals are not modelled.
\<close>

definition split_sign :: "string \<Rightarrow> bool \<times> string" where
  "split_sign s = (case s of c # r \<Rightarrow>
      if c = CHR ''-'' then (True, r) else if c = CHR ''+'' then (False, r) else (False, s) | [] \<Rightarrow> (False, []))"

definition read_exponent :: "string \<Rightarrow> int option" where
  "read_exponent s = (case s of
      [] \<Rightarrow> Some 0
    | c # r \<Rightarrow>
        if c \<noteq> CHR ''e'' \<and> c \<noteq> CHR ''E'' then None
        else (case split_sign r of (neg, ds) \<Rightarrow>
          if ds = [] \<or> \<not> list_all is_digit ds then None
          else Some (if neg then - int (read_nat ds) else int (read_nat ds))))"

definition js_number :: "string \<Rightarrow> real option" where
  "js_number s =
     (case split_sign s of (neg, t) \<Rightarrow>
        let whole_digits = takeWhile is_digit t; rest = dropWhile is_digit t;
            (fraction, rest') = (case rest of
                c # r \<Rightarrow> if c = CHR ''.'' then (takeWhile is_digit r, dropWhile is_digit r) else ([], rest)
              | [] \<Rightarrow> ([], []))
        in if whole_digits @ fraction = [] then None
           else map_option (\<lambda>e. (if neg then - 1 else 1) * real (read_nat (whole_digits @ fraction)) *
              10 powi (e - int (length fraction))) (read_exponent rest'))"

definition number_of :: "string \<Rightarrow> real option" where
  "number_of s = (let t = js_trim s in if t = [] then Some 0 else js_number t)"

text \<open>\<open>toFixed(1)\<close> of a number that is not negative.\<close>

definition to_fixed_1 :: "real \<Rightarrow> string" where
  "to_fixed_1 b = (let n = nat \<lfloor>b * 10 + 1 / 2\<rfloor> in show_nat (n div 10) @ ''.'' @ show_nat (n mod 10))"

end
