(* ===== verification/Clock.thy ===== *)
theory Clock
  imports JsNum
begin

text \<open>
  The exam countdown, \<open>student/src/exam/clock.ts\<close>: a clock is what the server said was left,
  stamped with the device's monotonic time (milliseconds, a real) at which that was read; time
  left is that minus the monotonic time since. The lemmas show that the display depends on the
  device only through elapsed time, never increases or goes negative, and that the section clock
  is the clock one would get by reading the section's own deadline.
\<close>

record server_reading =
  serverNow :: string
  expiresAt :: string

record clock =
  remainingMs :: jsnum
  takenAt :: real

definition sync :: "server_reading \<Rightarrow> real \<Rightarrow> clock" where
  "sync reading now =
     (let left = date_parse (expiresAt reading) - date_parse (serverNow reading)
      in \<lparr>remainingMs = js_max 0 left, takenAt = now\<rparr>)"

definition sectionClock :: "clock \<Rightarrow> string \<Rightarrow> string option \<Rightarrow> clock" where
  "sectionClock c attempt_expires_at section_expires_at =
     (case section_expires_at of
        None \<Rightarrow> c
      | Some s \<Rightarrow>
          let offset = date_parse attempt_expires_at - date_parse s in
          if \<not> offset > 0 then c
          else \<lparr>remainingMs = js_max 0 (remainingMs c - offset), takenAt = takenAt c\<rparr>)"

definition remaining :: "clock \<Rightarrow> real \<Rightarrow> jsnum" where
  "remaining c now = js_max 0 (remainingMs c - Num (now - takenAt c))"

text \<open>\<open>mm:ss\<close>, rounded up. JavaScript's \<open>%\<close> takes the sign of its left operand.\<close>

definition js_rem :: "int \<Rightarrow> int \<Rightarrow> int" where
  "js_rem a b = sgn a * (\<bar>a\<bar> mod \<bar>b\<bar>)"

definition format_clock :: "jsnum \<Rightarrow> string" where
  "format_clock ms =
     (case ms of
        NaN \<Rightarrow> ''NaN:NaN''
      | Num r \<Rightarrow>
          let total = \<lceil>r / 1000\<rceil>;
              minutes = total div 60;
              seconds = js_rem total 60
          in show_int minutes @ '':'' @ pad_start 2 (CHR ''0'') (show_int seconds))"

datatype urgency_level = Normal | TenMinutes | FiveMinutes

definition urgency :: "jsnum \<Rightarrow> urgency_level" where
  "urgency ms =
     (case ms of
        NaN \<Rightarrow> Normal
      | Num r \<Rightarrow>
          let minutes = r / 60000 in
          if minutes \<le> 5 then FiveMinutes
          else if minutes \<le> 10 then TenMinutes
          else Normal)"

lemmas clock_defs = sync_def sectionClock_def remaining_def Let_def

subsection \<open>The countdown\<close>

lemma remaining_nonneg: "remainingMs c \<noteq> NaN \<Longrightarrow> \<exists>r \<ge> 0. remaining c u = Num r"
  by (cases "remainingMs c") (auto simp: remaining_def)

lemma remaining_antimono: "remainingMs c \<noteq> NaN \<Longrightarrow> u \<le> v \<Longrightarrow> remaining c v \<le> remaining c u"
  by (cases "remainingMs c") (auto simp: remaining_def)

lemma remaining_sync:
  assumes "date_parse e = Num x" "date_parse n = Num y"
  shows "remaining (sync \<lparr>serverNow = n, expiresAt = e\<rparr> t) u = Num (max 0 (max 0 (x - y) - (u - t)))"
  using assms by (simp add: clock_defs)

lemma remaining_sync_NaN:
  assumes "date_parse e = NaN \<or> date_parse n = NaN"
  shows "remaining (sync \<lparr>serverNow = n, expiresAt = e\<rparr> t) u = NaN"
  using assms by (auto simp: clock_defs)

text \<open>
  The countdown takes from the device only how much time has passed. Moving the device's
  clock by any amount, once, changes nothing that is displayed later.
\<close>
theorem countdown_device_independent:
  "remaining (sync reading (t + shift)) (u + shift) = remaining (sync reading t) u"
  by (simp add: clock_defs)

subsection \<open>The section clock\<close>

lemma section_clock_is_sync:
  assumes "date_parse sect = Num s" "date_parse att = Num a" "date_parse n \<noteq> NaN" "s < a"
  shows "sectionClock (sync \<lparr>serverNow = n, expiresAt = att\<rparr> t) att (Some sect) =
         sync \<lparr>serverNow = n, expiresAt = sect\<rparr> t"
  using assms by (cases "date_parse n") (auto simp: clock_defs)

lemma section_clock_loose:
  assumes "\<not> date_parse sect < date_parse att"
  shows "sectionClock c att (Some sect) = c"
  using assms by (cases "date_parse sect"; cases "date_parse att") (auto simp: clock_defs)

lemma section_clock_remaining_le:
  assumes "remainingMs c \<noteq> NaN" "takenAt c \<le> u"
  shows "remaining (sectionClock c att sect) u \<le> remaining c u"
  using assms
  by (cases "remainingMs c"; cases "date_parse att"; cases sect;
      (cases "date_parse (the sect)")?) (auto simp: clock_defs max_def)

text \<open>
  What is displayed for a section is the tighter of the two deadlines, derived from one
  server reading: the time the paper's own clock would show, or the section's, whichever is less.
  A missing or unparseable section deadline leaves the paper's clock as it is.
\<close>
theorem section_clock_tighter:
  assumes "date_parse att = Num a" "date_parse n = Num y"
  shows "remaining (sectionClock (sync \<lparr>serverNow = n, expiresAt = att\<rparr> t) att sect) u =
         (case sect of
            None \<Rightarrow> remaining (sync \<lparr>serverNow = n, expiresAt = att\<rparr> t) u
          | Some d \<Rightarrow> (case date_parse d of
              NaN \<Rightarrow> remaining (sync \<lparr>serverNow = n, expiresAt = att\<rparr> t) u
            | Num s \<Rightarrow> Num (max 0 (max 0 (min s a - y) - (u - t)))))"
  using assms
  by (auto simp: clock_defs split: option.split jsnum.split)

theorem section_clock_tighter_witness:
  "remaining (sectionClock (sync \<lparr>serverNow = ''2026-03-01T09:00:00Z'',
      expiresAt = ''2026-03-01T10:00:00Z''\<rparr> 500) ''2026-03-01T10:00:00Z''
      (Some ''2026-03-01T09:20:00Z'')) 1500 = Num 1199000"
proof -
  have "date_parse ''2026-03-01T10:00:00Z'' = Num 1772359200000"
    and "date_parse ''2026-03-01T09:00:00Z'' = Num 1772355600000"
    and "date_parse ''2026-03-01T09:20:00Z'' = Num 1772356800000"
    by (simp_all add: date_parse_eval)
  then show ?thesis
    using section_clock_tighter [of "''2026-03-01T10:00:00Z''" 1772359200000
      "''2026-03-01T09:00:00Z''" 1772355600000 500 "Some ''2026-03-01T09:20:00Z''" 1500]
    by simp
qed

subsection \<open>The display\<close>

lemma format_clock_nat:
  assumes "0 \<le> r"
  shows "format_clock (Num r) =
         (let total = nat \<lceil>r / 1000\<rceil> in
          show_nat (total div 60) @ '':'' @ pad_start 2 (CHR ''0'') (show_nat (total mod 60)))"
proof -
  define total where "total = \<lceil>r / 1000\<rceil>"
  have nn: "0 \<le> total" using assms by (simp add: total_def)
  have rem: "js_rem total 60 = total mod 60"
    using nn by (cases "total = 0") (auto simp: js_rem_def sgn_if)
  have "0 \<le> total div 60" "0 \<le> total mod 60"
    using nn by (simp_all add: pos_imp_zdiv_nonneg_iff)
  then have "show_int (total div 60) = show_nat (nat total div 60)"
    "show_int (total mod 60) = show_nat (nat total mod 60)"
    by (simp_all add: show_int_def nat_div_distrib nat_mod_distrib nn)
  with rem show ?thesis by (simp add: format_clock_def Let_def total_def)
qed

lemma split_at_first:
  assumes "c \<notin> set xs" "c \<notin> set xs'" "xs @ c # ys = xs' @ c # ys'"
  shows "xs = xs' \<and> ys = ys'"
  using assms by (induction xs arbitrary: xs') (auto simp: Cons_eq_append_conv append_eq_Cons_conv)

text \<open>
  The display rounds up and loses nothing: minutes and two-digit seconds denote exactly the
  remaining time in whole seconds rounded up, and \<open>0:00\<close> is shown only when no time is left.
\<close>
theorem format_clock_correct:
  assumes "0 \<le> r"
  shows "\<exists>m s. format_clock (Num r) = show_nat m @ '':'' @ pad_start 2 (CHR ''0'') (show_nat s) \<and>
           s < 60 \<and> int (60 * m + s) = \<lceil>r / 1000\<rceil> \<and>
           (format_clock (Num r) = ''0:00'' \<longleftrightarrow> r = 0)"
proof -
  define t where "t = nat \<lceil>r / 1000\<rceil>"
  have t: "int t = \<lceil>r / 1000\<rceil>" using assms by (simp add: t_def)
  have eq: "format_clock (Num r) =
      show_nat (t div 60) @ '':'' @ pad_start 2 (CHR ''0'') (show_nat (t mod 60))"
    using format_clock_nat [OF assms] by (simp add: t_def Let_def)
  have "''0:00'' = show_nat 0 @ '':'' @ pad_start 2 (CHR ''0'') (show_nat 0)"
    by (simp add: show_nat_eval pad_start_def digit_char_def)
  then have "format_clock (Num r) = ''0:00'' \<longleftrightarrow>
      show_nat (t div 60) = show_nat 0 \<and>
      pad_start 2 (CHR ''0'') (show_nat (t mod 60)) = pad_start 2 (CHR ''0'') (show_nat 0)"
    unfolding eq append_Cons append_Nil
    by (metis show_nat_no_colon split_at_first)
  also have "\<dots> \<longleftrightarrow> t div 60 = 0 \<and> t mod 60 = 0"
    using pad_two_read [of "t mod 60"] pad_two_read [of 0] by auto
  also have "\<dots> \<longleftrightarrow> t = 0" by auto
  also have "\<dots> \<longleftrightarrow> r = 0"
  proof
    assume "t = 0"
    with t have "\<lceil>r / 1000\<rceil> = 0" by simp
    then have "r / 1000 \<le> 0" by (metis ceiling_le_zero order_refl)
    with assms show "r = 0" by simp
  qed (simp add: t_def)
  finally show ?thesis
    by (intro exI [of _ "t div 60"] exI [of _ "t mod 60"]) (simp add: eq t [symmetric])
qed

theorem format_clock_correct_witness:
  "\<exists>m s. format_clock (Num 61500) = show_nat m @ '':'' @ pad_start 2 (CHR ''0'') (show_nat s) \<and>
     s < 60 \<and> int (60 * m + s) = 62 \<and> format_clock (Num 61500) = ''1:02''"
proof -
  have "\<lceil>61500 / 1000 :: real\<rceil> = 62" by simp
  moreover have "format_clock (Num 61500) = ''1:02''"
    by (simp add: format_clock_def show_int_def js_rem_def show_nat_eval pad_start_def digit_char_def)
  ultimately show ?thesis using format_clock_correct [of 61500] by auto
qed

end
