(* ===== verification/OutboxRules.thy ===== *)
theory OutboxRules
  imports Clock "HOL-Library.Multiset"
begin

text \<open>
  The pure part of the answer outbox, \<open>student/src/exam/outbox.ts\<close>: deltas and queued rows,
  per-slot sequence numbers, the reconciliation on resume, batching and collapsing a backlog,
  the split of a flushed batch by what the server refused, and the idempotency key of a flush.
  Objects used as dictionaries are maps; \<open>number\<close> sequence counters are integers.
\<close>

subsection \<open>Data\<close>

datatype answer = Text string | Many "string list"

text \<open>\<open>response\<close> is \<open>string | string[] | null\<close>; \<^const>\<open>None\<close> is \<open>null\<close>.\<close>

record delta =
  question_version_xid :: string
  slot_key :: string
  response :: "answer option"
  client_seq :: int
  time_spent_ms :: "int option"

text \<open>A stored row: the delta, the store's own id, a refusal mark and the attempt it is for.\<close>

record row = delta +
  row_id :: "nat option"
  refused :: "string option"
  attempt_of :: "string option"

record rejection =
  rej_question :: string
  rej_slot :: string
  rej_reason :: "string option"

record mark =
  mark_id :: nat
  mark_reason :: string

record in_flight =
  flight_key :: string
  flight_ids :: "nat list"

subsection \<open>Sequence numbers\<close>

definition slotKey :: "string \<Rightarrow> string \<Rightarrow> string" where
  "slotKey q s = q @ '':'' @ s"

definition nextSeq :: "(string \<rightharpoonup> int) \<Rightarrow> string \<Rightarrow> int" where
  "nextSeq seqs key = nullish (seqs key) 0 + 1"

definition row_slot :: "'a delta_scheme \<Rightarrow> string" where
  "row_slot r = slotKey (question_version_xid r) (slot_key r)"

definition rej_key :: "rejection \<Rightarrow> string" where
  "rej_key r = slotKey (rej_question r) (rej_slot r)"

subsection \<open>Resuming\<close>

definition reconcile_row ::
  "'a delta_scheme \<Rightarrow> (string \<rightharpoonup> int) \<times> (string \<rightharpoonup> answer) \<Rightarrow> (string \<rightharpoonup> int) \<times> (string \<rightharpoonup> answer)" where
  "reconcile_row row st = (case st of (seqs, restored) \<Rightarrow>
     let key = row_slot row in
     if client_seq row \<le> nullish (seqs key) 0 then (seqs, restored)
     else (seqs(key \<mapsto> client_seq row), restored(key := response row)))"

definition reconcile ::
  "(string \<rightharpoonup> int) \<Rightarrow> (string \<rightharpoonup> answer) \<Rightarrow> 'a delta_scheme list \<Rightarrow> (string \<rightharpoonup> int) \<times> (string \<rightharpoonup> answer)" where
  "reconcile seqs restored queued = fold reconcile_row queued (seqs, restored)"

subsection \<open>Batches\<close>

definition MAX_BATCH :: nat where
  "MAX_BATCH = 200"

definition batch :: "'a list \<Rightarrow> 'a list" where
  "batch rows = take MAX_BATCH rows"

definition collapse_step :: "row \<Rightarrow> (string, row) jsmap \<Rightarrow> (string, row) jsmap" where
  "collapse_step row newest =
     (let key = row_slot row in
      case jsmap_get newest key of
        None \<Rightarrow> jsmap_set key row newest
      | Some held \<Rightarrow> if client_seq row > client_seq held then jsmap_set key row newest else newest)"

definition collapse :: "row list \<Rightarrow> row list" where
  "collapse rows =
     sort_key (\<lambda>r. nullish (row_id r) 0) (map snd (fold collapse_step rows []))"

definition refused_slots :: "rejection list \<Rightarrow> (string, string) jsmap" where
  "refused_slots rejected =
     fold (\<lambda>r. jsmap_set (rej_key r) (nullish (rej_reason r) ''refused'')) rejected []"

fun partition_rows :: "(string, string) jsmap \<Rightarrow> row list \<Rightarrow> nat list \<times> mark list" where
  "partition_rows slots [] = ([], [])"
| "partition_rows slots (row # rows) =
     (let (accepted, refusals) = partition_rows slots rows in
      case row_id row of
        None \<Rightarrow> (accepted, refusals)
      | Some i \<Rightarrow>
          (case jsmap_get slots (row_slot row) of
             None \<Rightarrow> (i # accepted, refusals)
           | Some reason \<Rightarrow> (accepted, \<lparr>mark_id = i, mark_reason = reason\<rparr> # refusals)))"

definition partition :: "row list \<Rightarrow> rejection list \<Rightarrow> nat list \<times> mark list" where
  "partition rows rejected = partition_rows (refused_slots rejected) rows"

subsection \<open>The key of a flush\<close>

text \<open>\<open>mint\<close> draws a fresh key from the state; it is called only when the batch changed.\<close>

definition flushKey ::
  "in_flight option \<Rightarrow> nat list \<Rightarrow> ('w \<Rightarrow> string \<times> 'w) \<Rightarrow> 'w \<Rightarrow> in_flight \<times> 'w" where
  "flushKey previous ids mint w =
     (case previous of
        Some p \<Rightarrow>
          if flight_ids p = ids then (p, w)
          else (let (k, w') = mint w in (\<lparr>flight_key = k, flight_ids = ids\<rparr>, w'))
      | None \<Rightarrow> (let (k, w') = mint w in (\<lparr>flight_key = k, flight_ids = ids\<rparr>, w')))"

subsection \<open>Slot keys do not collide\<close>

lemma slotKey_inject:
  assumes "CHR '':'' \<notin> set q" "CHR '':'' \<notin> set q'"
  shows "slotKey q s = slotKey q' s' \<longleftrightarrow> q = q' \<and> s = s'"
  using split_at_first [OF assms, of s s'] by (auto simp: slotKey_def)

subsection \<open>Reconciliation\<close>

text \<open>The queued rows of one slot that outrank what is held, in queue order.\<close>

definition newer :: "(string \<rightharpoonup> int) \<Rightarrow> string \<Rightarrow> 'a delta_scheme list \<Rightarrow> 'a delta_scheme list" where
  "newer seqs key queued = filter (\<lambda>r. row_slot r = key \<and> nullish (seqs key) 0 < client_seq r) queued"

lemma newer_simps [simp]:
  "newer seqs key [] = []"
  "newer seqs key (r # rs) =
     (if row_slot r = key \<and> nullish (seqs key) 0 < client_seq r then r # newer seqs key rs
      else newer seqs key rs)"
  "key \<noteq> k \<Longrightarrow> newer (seqs(k \<mapsto> n)) key rs = newer seqs key rs"
  "k \<noteq> key \<Longrightarrow> newer (seqs(k \<mapsto> n)) key rs = newer seqs key rs"
  by (simp_all add: newer_def)

lemma in_newer:
  "r \<in> set (newer seqs key queued) \<longleftrightarrow>
   r \<in> set queued \<and> row_slot r = key \<and> nullish (seqs key) 0 < client_seq r"
  by (simp add: newer_def)

lemma newer_empty:
  "newer seqs key queued = [] \<longleftrightarrow>
   (\<forall>r\<in>set queued. row_slot r = key \<longrightarrow> client_seq r \<le> nullish (seqs key) 0)"
  by (simp add: newer_def filter_empty_conv not_less)

lemma reconcile_simps [simp]:
  "reconcile seqs restored [] = (seqs, restored)"
  "reconcile seqs restored (r # rs) =
     (if client_seq r \<le> nullish (seqs (row_slot r)) 0 then reconcile seqs restored rs
      else reconcile (seqs(row_slot r \<mapsto> client_seq r)) (restored(row_slot r := response r)) rs)"
  by (simp_all add: reconcile_def reconcile_row_def Let_def)

lemma reconcile_other:
  "newer seqs key queued = [] \<Longrightarrow>
   fst (reconcile seqs restored queued) key = seqs key \<and>
   snd (reconcile seqs restored queued) key = restored key"
proof (induction queued arbitrary: seqs restored)
  case (Cons r rs)
  show ?case
  proof (cases "client_seq r \<le> nullish (seqs (row_slot r)) 0")
    case True
    with Cons show ?thesis by (simp split: if_splits)
  next
    case False
    with Cons.prems have "row_slot r \<noteq> key" by (auto split: if_splits)
    with Cons.prems have "newer (seqs(row_slot r \<mapsto> client_seq r)) key rs = []"
      by (simp del: fun_upd_apply split: if_splits)
    with Cons.IH [of "seqs(row_slot r \<mapsto> client_seq r)" "restored(row_slot r := response r)"]
      \<open>row_slot r \<noteq> key\<close> False show ?thesis
      by (simp del: fun_upd_apply add: fun_upd_other)
  qed
qed simp

lemma reconcile_newer:
  assumes "newer seqs key queued \<noteq> []"
  shows "\<exists>r \<in> set (newer seqs key queued).
           (\<forall>r' \<in> set (newer seqs key queued). client_seq r' \<le> client_seq r) \<and>
           fst (reconcile seqs restored queued) key = Some (client_seq r) \<and>
           snd (reconcile seqs restored queued) key = response r"
  using assms
proof (induction queued arbitrary: seqs restored)
  case (Cons r rs)
  show ?case
  proof (cases "row_slot r = key \<and> nullish (seqs key) 0 < client_seq r")
    case False
    then have n: "newer seqs key (r # rs) = newer seqs key rs" by auto
    with Cons.prems have ne: "newer seqs key rs \<noteq> []" by simp
    show ?thesis
    proof (cases "client_seq r \<le> nullish (seqs (row_slot r)) 0")
      case True
      with Cons.IH [OF ne, of restored] n show ?thesis by simp
    next
      case step: False
      let ?s = "seqs(row_slot r \<mapsto> client_seq r)"
      from step False have other: "key \<noteq> row_slot r" by auto
      then have "newer ?s key rs = newer seqs key rs" by simp
      with Cons.IH [of ?s "restored(row_slot r := response r)"] ne step n show ?thesis
        by (simp del: fun_upd_apply)
    qed
  next
    case True
    let ?s = "seqs(key \<mapsto> client_seq r)" and ?v = "restored(key := response r)"
    from True have eqs: "reconcile seqs restored (r # rs) = reconcile ?s ?v rs"
      "newer seqs key (r # rs) = r # newer seqs key rs"
      by auto
    show ?thesis
    proof (cases "newer ?s key rs = []")
      case empty: True
      then have top: "\<forall>x \<in> set (newer seqs key rs). client_seq x \<le> client_seq r"
        by (auto simp: newer_empty in_newer)
      from reconcile_other [OF empty, of ?v] have
        "fst (reconcile ?s ?v rs) key = Some (client_seq r)"
        "snd (reconcile ?s ?v rs) key = response r"
        by simp_all
      with top show ?thesis unfolding eqs by simp
    next
      case False
      from Cons.IH [OF False, of ?v] obtain x where x: "x \<in> set (newer ?s key rs)"
        "\<forall>y \<in> set (newer ?s key rs). client_seq y \<le> client_seq x"
        "fst (reconcile ?s ?v rs) key = Some (client_seq x)"
        "snd (reconcile ?s ?v rs) key = response x"
        by blast
      from x(1) True have gt: "client_seq r < client_seq x" "x \<in> set (newer seqs key rs)"
        by (auto simp: in_newer)
      have "client_seq y \<le> client_seq x" if "y \<in> set (newer seqs key rs)" for y
        using that x(2) gt(1) by (cases "client_seq r < client_seq y") (auto simp: in_newer)
      with gt x(3,4) show ?thesis unfolding eqs by (intro bexI [of _ x]) auto
    qed
  qed
qed simp

lemma reconcile_no_newer:
  assumes "newer seqs key queued = []"
  shows "fst (reconcile seqs restored queued) key = seqs key"
    and "snd (reconcile seqs restored queued) key = restored key"
  using reconcile_other [of seqs key queued restored] assms by blast+

text \<open>
  C19: after a resume each slot shows the newest answer there is. If some queued row outranks
  what the server returned, the counter becomes the highest queued number and the value becomes
  that row's answer (cleared when it was \<open>null\<close>); otherwise both stay what the server
  returned. Either way the next number minted outranks every row on this device and the server.
\<close>
theorem reconcile_correct:
  assumes "reconcile seqs restored queued = (seqs', restored')"
  shows "(newer seqs key queued = [] \<and> seqs' key = seqs key \<and> restored' key = restored key \<or>
          (\<exists>r \<in> set (newer seqs key queued).
             (\<forall>r' \<in> set (newer seqs key queued). client_seq r' \<le> client_seq r) \<and>
             seqs' key = Some (client_seq r) \<and> restored' key = response r)) \<and>
         nullish (seqs key) 0 < nextSeq seqs' key \<and>
         (\<forall>r \<in> set queued. row_slot r = key \<longrightarrow> client_seq r < nextSeq seqs' key)"
proof (cases "newer seqs key queued = []")
  case True
  from reconcile_no_newer [OF True, of restored] assms
  have "seqs' key = seqs key" "restored' key = restored key" by simp_all
  with True show ?thesis by (auto simp: nextSeq_def newer_empty)
next
  case False
  from reconcile_newer [OF this, of restored] assms obtain r where
    r: "r \<in> set (newer seqs key queued)"
       "\<forall>r' \<in> set (newer seqs key queued). client_seq r' \<le> client_seq r"
       "seqs' key = Some (client_seq r)" "restored' key = response r"
    by auto
  from r(1) have low: "nullish (seqs key) 0 < client_seq r" by (simp add: in_newer)
  have "client_seq x \<le> client_seq r" if "x \<in> set queued" "row_slot x = key" for x
    using that r(2) low by (cases "nullish (seqs key) 0 < client_seq x") (auto simp: in_newer)
  then have "\<forall>x \<in> set queued. row_slot x = key \<longrightarrow> client_seq x < nextSeq seqs' key"
    using r(3) by (force simp: nextSeq_def)
  moreover from low r(3) have "nullish (seqs key) 0 < nextSeq seqs' key" by (simp add: nextSeq_def)
  ultimately show ?thesis using r by blast
qed

theorem reconcile_correct_witness:
  "\<exists>seqs' restored'.
     reconcile [''q:s'' \<mapsto> 3] [''q:s'' \<mapsto> Text ''server'']
       [\<lparr>question_version_xid = ''q'', slot_key = ''s'', response = Some (Text ''mine''),
         client_seq = 5, time_spent_ms = None\<rparr>] = (seqs', restored') \<and>
     restored' ''q:s'' = Some (Text ''mine'') \<and> nextSeq seqs' ''q:s'' = 6 \<and> 3 < nextSeq seqs' ''q:s''"
proof -
  let ?d = "\<lparr>question_version_xid = ''q'', slot_key = ''s'', response = Some (Text ''mine''),
             client_seq = 5, time_spent_ms = None\<rparr> :: delta"
  obtain s v where eq: "reconcile [''q:s'' \<mapsto> 3] [''q:s'' \<mapsto> Text ''server''] [?d] = (s, v)"
    by (cases "reconcile [''q:s'' \<mapsto> 3] [''q:s'' \<mapsto> Text ''server''] [?d]")
  have "newer [''q:s'' \<mapsto> 3] ''q:s'' [?d] = [?d]"
    by (simp add: newer_def row_slot_def slotKey_def)
  with reconcile_correct [OF eq, of "''q:s''"] show ?thesis
    unfolding eq by (auto simp: nextSeq_def)
qed

subsection \<open>Collapsing a backlog\<close>

text \<open>What a map built from \<open>done\<close> rows knows: a newest row for every slot seen.\<close>

definition newest_of :: "row list \<Rightarrow> (string, row) jsmap \<Rightarrow> bool" where
  "newest_of rows m \<longleftrightarrow>
     distinct (map fst m) \<and>
     (\<forall>(k, r) \<in> set m. row_slot r = k \<and> r \<in> set rows) \<and>
     (\<forall>r \<in> set rows. \<exists>r'. jsmap_get m (row_slot r) = Some r' \<and> client_seq r \<le> client_seq r')"

lemma newest_of_step:
  assumes "newest_of rows m"
  shows "newest_of (rows @ [row]) (collapse_step row m)"
proof (cases "jsmap_get m (row_slot row)")
  case None
  with assms show ?thesis
    by (auto simp: newest_of_def collapse_step_def Let_def dest!: in_jsmap_set
        intro: distinct_update)
next
  case (Some held)
  with assms have "row_slot held = row_slot row" by (auto simp: newest_of_def dest!: map_of_SomeD)
  with assms Some show ?thesis
    by (auto simp: newest_of_def collapse_step_def Let_def dest!: in_jsmap_set
        intro: distinct_update)
qed

lemma newest_of_fold:
  "newest_of done m \<Longrightarrow> newest_of (done @ rows) (fold collapse_step rows m)"
proof (induction rows arbitrary: "done" m)
  case (Cons r rows)
  from Cons.IH [OF newest_of_step [OF Cons.prems]] show ?case by simp
qed simp

lemma newest_of_collapse: "newest_of rows (fold collapse_step rows [])"
proof -
  have "newest_of [] []" by (simp add: newest_of_def)
  from newest_of_fold [OF this, of rows] show ?thesis by simp
qed

lemma set_collapse: "set (collapse rows) = snd ` set (fold collapse_step rows [])"
  by (simp add: collapse_def)

lemma collapse_subset: "set (collapse rows) \<subseteq> set rows"
  using newest_of_collapse [of rows] by (auto simp: set_collapse newest_of_def)

lemma collapse_facts:
  "set (collapse rows) \<subseteq> set rows \<and>
   distinct (map row_slot (collapse rows)) \<and>
   (\<forall>r \<in> set rows. \<exists>r' \<in> set (collapse rows). row_slot r' = row_slot r \<and> client_seq r \<le> client_seq r') \<and>
   sorted (map (\<lambda>r. nullish (row_id r) 0) (collapse rows))"
proof -
  let ?m = "fold collapse_step rows []"
  have n: "newest_of rows ?m" by (rule newest_of_collapse)
  then have keys: "map row_slot (map snd ?m) = map fst ?m"
    by (auto simp: newest_of_def)
  have "mset (map row_slot (collapse rows)) = mset (map fst ?m)"
    unfolding keys [symmetric] collapse_def by (simp add: mset_map del: map_map)
  then have "distinct (map row_slot (collapse rows))"
    using n by (metis newest_of_def mset_eq_imp_distinct_iff)
  moreover have "\<exists>r' \<in> set (collapse rows). row_slot r' = row_slot r \<and> client_seq r \<le> client_seq r'"
    if "r \<in> set rows" for r
  proof -
    from n that obtain r' where "jsmap_get ?m (row_slot r) = Some r'" "client_seq r \<le> client_seq r'"
      by (auto simp: newest_of_def)
    moreover from n this(1) have "row_slot r' = row_slot r" "r' \<in> snd ` set ?m"
      by (force simp: newest_of_def dest: map_of_SomeD)+
    ultimately show ?thesis by (auto simp: set_collapse)
  qed
  moreover have "sorted (map (\<lambda>r. nullish (row_id r) 0) (collapse rows))"
    by (simp add: collapse_def)
  ultimately show ?thesis using collapse_subset [of rows] by blast
qed

text \<open>
  Collapsing drops only what is superseded. Every result row is one of the queue's, no slot
  occurs twice, each queued row has a result row of its slot numbered at least as high, and the
  results are in the order of their store ids.
\<close>
theorem collapse_correct:
  "set (collapse rows) \<subseteq> set rows \<and>
   distinct (map row_slot (collapse rows)) \<and>
   (\<forall>r \<in> set rows. \<exists>r' \<in> set (collapse rows). row_slot r' = row_slot r \<and> client_seq r \<le> client_seq r') \<and>
   sorted (map (\<lambda>r. nullish (row_id r) 0) (collapse rows))"
  by (rule collapse_facts)

definition typed_row :: "nat \<Rightarrow> int \<Rightarrow> row" where
  "typed_row i seq = \<lparr>question_version_xid = ''q'', slot_key = ''s'', response = None, client_seq = seq,
     time_spent_ms = None, row_id = Some i, refused = None, attempt_of = Some ''a''\<rparr>"

theorem collapse_correct_witness:
  "\<exists>r \<in> set (collapse [typed_row 1 7, typed_row 2 9]). 9 \<le> client_seq r"
  using collapse_correct [of "[typed_row 1 7, typed_row 2 9]"] by (auto simp: typed_row_def)

subsection \<open>Splitting a flushed batch\<close>

lemma refused_slots_fold:
  "jsmap_get (fold (\<lambda>r. jsmap_set (rej_key r) (nullish (rej_reason r) d)) rejected m) k = None \<longleftrightarrow>
   jsmap_get m k = None \<and> k \<notin> rej_key ` set rejected"
  by (induction rejected arbitrary: m) auto

lemma refused_slots_None:
  "jsmap_get (refused_slots rejected) k = None \<longleftrightarrow> k \<notin> rej_key ` set rejected"
  by (simp add: refused_slots_def refused_slots_fold)

definition ids_of :: "row list \<Rightarrow> nat list" where
  "ids_of rows = List.map_filter row_id rows"

lemma ids_of_simps [simp]:
  "ids_of [] = []"
  "ids_of (r # rows) = (case row_id r of None \<Rightarrow> ids_of rows | Some i \<Rightarrow> i # ids_of rows)"
  by (auto simp: ids_of_def List.map_filter_simps split: option.split)

lemma set_ids_of: "i \<in> set (ids_of rows) \<longleftrightarrow> (\<exists>r \<in> set rows. row_id r = Some i)"
  by (induction rows) (auto split: option.split)

lemma partition_rows_filter:
  "fst (partition_rows slots rows) = ids_of (filter (\<lambda>r. jsmap_get slots (row_slot r) = None) rows) \<and>
   map mark_id (snd (partition_rows slots rows)) =
     ids_of (filter (\<lambda>r. jsmap_get slots (row_slot r) \<noteq> None) rows)"
  by (induction rows) (auto simp: Let_def split: option.split prod.split)

lemma partition_rows_reason:
  "m \<in> set (snd (partition_rows slots rows)) \<Longrightarrow>
   \<exists>r \<in> set rows. row_id r = Some (mark_id m) \<and> jsmap_get slots (row_slot r) = Some (mark_reason m)"
  by (induction rows) (auto simp: Let_def split: option.splits prod.splits)

lemma partition_ids:
  "set (fst (partition rows rejected)) \<union> mark_id ` set (snd (partition rows rejected)) = set (ids_of rows)"
proof -
  let ?P = "\<lambda>r. jsmap_get (refused_slots rejected) (row_slot r) = None"
  have "set (ids_of (filter P rows)) \<union> set (ids_of (filter (\<lambda>r. \<not> P r) rows)) = set (ids_of rows)" for P
    by (induction rows) (auto split: option.split)
  from this [of ?P]
  have "set (ids_of (filter ?P rows)) \<union> set (ids_of (filter (\<lambda>r. \<not> ?P r) rows)) = set (ids_of rows)" .
  with partition_rows_filter [of "refused_slots rejected" rows] show ?thesis
    by (metis partition_def set_map)
qed

lemma partition_facts:
  "fst (partition rows rejected) = ids_of (filter (\<lambda>r. row_slot r \<notin> rej_key ` set rejected) rows) \<and>
   map mark_id (snd (partition rows rejected)) =
     ids_of (filter (\<lambda>r. row_slot r \<in> rej_key ` set rejected) rows) \<and>
   mset (fst (partition rows rejected)) + mset (map mark_id (snd (partition rows rejected))) =
     mset (ids_of rows)"
proof -
  have eq: "fst (partition rows rejected) = ids_of (filter (\<lambda>r. row_slot r \<notin> rej_key ` set rejected) rows)"
    "map mark_id (snd (partition rows rejected)) =
     ids_of (filter (\<lambda>r. row_slot r \<in> rej_key ` set rejected) rows)"
    using partition_rows_filter [of "refused_slots rejected" rows]
      refused_slots_None [of rejected] by (simp_all add: partition_def)
  have "mset (ids_of (filter (\<lambda>r. \<not> P r) rows)) + mset (ids_of (filter P rows)) = mset (ids_of rows)" for P
    by (induction rows) (auto split: option.split)
  with eq show ?thesis by simp
qed

text \<open>
  A flushed batch is split completely and by slot. The rows to delete are, in order, those
  whose slot the server did not name; the rows to mark are those whose slot it did, all of them;
  each stored row is in exactly one of the two.
\<close>
theorem partition_correct:
  "fst (partition rows rejected) = ids_of (filter (\<lambda>r. row_slot r \<notin> rej_key ` set rejected) rows) \<and>
   map mark_id (snd (partition rows rejected)) =
     ids_of (filter (\<lambda>r. row_slot r \<in> rej_key ` set rejected) rows) \<and>
   mset (fst (partition rows rejected)) + mset (map mark_id (snd (partition rows rejected))) =
     mset (ids_of rows)"
  by (rule partition_facts)

subsection \<open>The flush key\<close>

lemma flushKey_result:
  "flight_ids (fst (flushKey previous ids mint w)) = ids \<and>
   flushKey previous ids mint w =
     (if \<exists>p. previous = Some p \<and> flight_ids p = ids then (the previous, w)
      else (\<lparr>flight_key = fst (mint w), flight_ids = ids\<rparr>, snd (mint w)))"
  by (auto simp: flushKey_def split: option.split prod.split)

end
