(* ===== verification/OutboxStore.thy ===== *)
theory OutboxStore
  imports OutboxRules
begin

text \<open>
  The stored half of \<open>student/src/exam/outbox.ts\<close>: the IndexedDB object store (rows keyed by an
  auto-incremented id, returned in key order) and the operations on it, each one transaction that
  applies wholly or fails and leaves the store as it was. A failure is \<open>Inl\<close>. The interface the
  flush and submit sequences rely on is the locale \<open>answer_store\<close>; it allows rows to be queued by
  other tasks while an operation is awaited, and is interpreted here on the store itself.
\<close>

subsection \<open>The interface\<close>

definition waiting :: "row \<Rightarrow> bool" where
  "waiting r \<longleftrightarrow> \<not> truthy_str (refused r)"

definition drop_ids :: "nat list \<Rightarrow> row list \<Rightarrow> row list" where
  "drop_ids ids rows = filter (\<lambda>r. row_id r \<notin> Some ` set ids) rows"

definition mark_row :: "mark \<Rightarrow> row \<Rightarrow> row" where
  "mark_row m r = (if row_id r = Some (mark_id m) then r\<lparr>refused := Some (mark_reason m)\<rparr> else r)"

definition mark_rows :: "mark list \<Rightarrow> row list \<Rightarrow> row list" where
  "mark_rows marks rows = fold (\<lambda>m. map (mark_row m)) marks rows"

locale answer_store =
  fixes disk :: "'w \<Rightarrow> string \<Rightarrow> row list"
    and store_ok :: "'w \<Rightarrow> bool"
    and pending_op :: "string \<Rightarrow> 'w \<Rightarrow> ('e + row list) \<times> 'w"
    and forget_op :: "nat list \<Rightarrow> 'w \<Rightarrow> ('e + unit) \<times> 'w"
    and refuse_op :: "mark list \<Rightarrow> 'w \<Rightarrow> ('e + unit) \<times> 'w"
  assumes ids_ok: "store_ok w \<Longrightarrow> distinct (map row_id (disk w a)) \<and> None \<notin> row_id ` set (disk w a)"
    and pending_ok: "store_ok w \<Longrightarrow> pending_op a w = (Inr rs, w') \<Longrightarrow>
      \<exists>snap. prefix (disk w a) snap \<and> prefix snap (disk w' a) \<and> rs = filter waiting snap"
    and pending_keeps: "store_ok w \<Longrightarrow> pending_op a w = (res, w') \<Longrightarrow>
      store_ok w' \<and> prefix (disk w b) (disk w' b)"
    and forget_ok: "store_ok w \<Longrightarrow> forget_op ids w = (Inr u, w') \<Longrightarrow>
      store_ok w' \<and> prefix (drop_ids ids (disk w b)) (disk w' b)"
    and forget_fails: "store_ok w \<Longrightarrow> forget_op ids w = (Inl e, w') \<Longrightarrow>
      store_ok w' \<and> prefix (disk w b) (disk w' b)"
    and refuse_ok: "store_ok w \<Longrightarrow> refuse_op marks w = (Inr u, w') \<Longrightarrow>
      store_ok w' \<and> prefix (mark_rows marks (disk w b)) (disk w' b)"
    and refuse_fails: "store_ok w \<Longrightarrow> refuse_op marks w = (Inl e, w') \<Longrightarrow>
      store_ok w' \<and> prefix (disk w b) (disk w' b)"

subsection \<open>The object store\<close>

datatype storage_error = NoIndexedDB | OpenFailed | TransactionFailed

datatype tx_mode = Readonly | Readwrite

record idb =
  available :: bool
  openable :: bool
  writable :: bool
  next_key :: nat
  objects :: "row list"

definition open_db :: "idb \<Rightarrow> storage_error + unit" where
  "open_db db =
     (if \<not> available db then Inl NoIndexedDB
      else if \<not> openable db then Inl OpenFailed
      else Inr ())"

definition probe :: "idb \<Rightarrow> storage_error + unit" where
  "probe db = (if \<not> available db then Inl NoIndexedDB else open_db db)"

definition tx :: "tx_mode \<Rightarrow> (idb \<Rightarrow> 'a \<times> idb) \<Rightarrow> idb \<Rightarrow> (storage_error + 'a) \<times> idb" where
  "tx mode run db =
     (case open_db db of
        Inl e \<Rightarrow> (Inl e, db)
      | Inr _ \<Rightarrow>
          if mode = Readwrite \<and> \<not> writable db then (Inl TransactionFailed, db)
          else (case run db of (x, db') \<Rightarrow> (Inr x, db')))"

text \<open>\<open>store.add\<close>, \<open>getAll\<close>, \<open>delete\<close>, and \<open>get\<close> followed by \<open>put\<close> of a present row.\<close>

definition store_add :: "row \<Rightarrow> idb \<Rightarrow> nat \<times> idb" where
  "store_add r db = (next_key db,
     db\<lparr>next_key := Suc (next_key db), objects := objects db @ [r\<lparr>row_id := Some (next_key db)\<rparr>]\<rparr>)"

definition store_delete :: "nat \<Rightarrow> idb \<Rightarrow> idb" where
  "store_delete i db = db\<lparr>objects := filter (\<lambda>r. row_id r \<noteq> Some i) (objects db)\<rparr>"

definition store_mark :: "mark \<Rightarrow> idb \<Rightarrow> idb" where
  "store_mark m db = db\<lparr>objects := map (mark_row m) (objects db)\<rparr>"

subsection \<open>The operations\<close>

definition row_of_delta :: "string \<Rightarrow> delta \<Rightarrow> row" where
  "row_of_delta attempt d =
     delta.extend d \<lparr>row_id = None, refused = None, attempt_of = Some attempt\<rparr>"

definition queue :: "string \<Rightarrow> delta \<Rightarrow> idb \<Rightarrow> (storage_error + unit) \<times> idb" where
  "queue attempt d db =
     (case tx Readwrite (store_add (row_of_delta attempt d)) db of
        (Inl e, db') \<Rightarrow> (Inl e, db')
      | (Inr _, db') \<Rightarrow> (Inr (), db'))"

definition stored_rows :: "string \<Rightarrow> idb \<Rightarrow> (storage_error + row list) \<times> idb" where
  "stored_rows attempt db =
     (case tx Readonly (\<lambda>db. (objects db, db)) db of
        (Inl e, db') \<Rightarrow> (Inl e, db')
      | (Inr all, db') \<Rightarrow> (Inr (filter (\<lambda>r. attempt_of r = Some attempt) all), db'))"

definition pending :: "string \<Rightarrow> idb \<Rightarrow> (storage_error + row list) \<times> idb" where
  "pending attempt db =
     (case stored_rows attempt db of
        (Inl e, db') \<Rightarrow> (Inl e, db')
      | (Inr rs, db') \<Rightarrow> (Inr (filter (\<lambda>r. \<not> truthy_str (refused r)) rs), db'))"

definition refusedRows :: "string \<Rightarrow> idb \<Rightarrow> (storage_error + row list) \<times> idb" where
  "refusedRows attempt db =
     (case stored_rows attempt db of
        (Inl e, db') \<Rightarrow> (Inl e, db')
      | (Inr rs, db') \<Rightarrow> (Inr (filter (\<lambda>r. truthy_str (refused r)) rs), db'))"

definition forget :: "nat list \<Rightarrow> idb \<Rightarrow> (storage_error + unit) \<times> idb" where
  "forget ids db =
     (if ids = [] then (Inr (), db)
      else tx Readwrite (\<lambda>db. ((), fold store_delete ids db)) db)"

definition refuse :: "mark list \<Rightarrow> idb \<Rightarrow> (storage_error + unit) \<times> idb" where
  "refuse marks db =
     (if marks = [] then (Inr (), db)
      else tx Readwrite (\<lambda>db. ((), fold store_mark marks db)) db)"

definition drop_attempt :: "string \<Rightarrow> idb \<Rightarrow> (storage_error + unit) \<times> idb" where
  "drop_attempt attempt db =
     (case stored_rows attempt db of
        (Inl e, db') \<Rightarrow> (Inl e, db')
      | (Inr all, db') \<Rightarrow> forget (ids_of all) db')"

subsection \<open>What a store holds\<close>

definition idb_disk :: "idb \<Rightarrow> string \<Rightarrow> row list" where
  "idb_disk db a = filter (\<lambda>r. attempt_of r = Some a) (objects db)"

text \<open>Every object has an id of its own, below the next key to be given out.\<close>

definition idb_ok :: "idb \<Rightarrow> bool" where
  "idb_ok db \<longleftrightarrow> distinct (map row_id (objects db)) \<and>
     row_id ` set (objects db) \<subseteq> Some ` {..<next_key db}"

definition usable :: "tx_mode \<Rightarrow> idb \<Rightarrow> bool" where
  "usable mode db \<longleftrightarrow> available db \<and> openable db \<and> (mode = Readwrite \<longrightarrow> writable db)"

lemma tx_cases:
  "tx mode run db =
     (if usable mode db then (Inr (fst (run db)), snd (run db))
      else (Inl (if \<not> available db then NoIndexedDB else if \<not> openable db then OpenFailed
                 else TransactionFailed), db))"
  by (simp add: tx_def open_db_def usable_def split: prod.split)

lemmas store_op_defs = queue_def stored_rows_def pending_def refusedRows_def forget_def refuse_def
  drop_attempt_def tx_cases

lemma fold_store_delete: "objects (fold store_delete ids db) = drop_ids ids (objects db)"
  "next_key (fold store_delete ids db) = next_key db"
  by (induction ids arbitrary: db)
     (auto simp: store_delete_def drop_ids_def filter_id_conv intro: filter_cong)

lemma fold_store_mark: "objects (fold store_mark marks db) = mark_rows marks (objects db)"
  "next_key (fold store_mark marks db) = next_key db"
  by (induction marks arbitrary: db) (auto simp: store_mark_def mark_rows_def)

lemma mark_row_fields [simp]:
  "row_id (mark_row m r) = row_id r" "attempt_of (mark_row m r) = attempt_of r"
  "row_slot (mark_row m r) = row_slot r" "client_seq (mark_row m r) = client_seq r"
  "question_version_xid (mark_row m r) = question_version_xid r"
  "slot_key (mark_row m r) = slot_key r" "response (mark_row m r) = response r"
  by (simp_all add: mark_row_def row_slot_def)

lemma mark_rows_simps [simp]:
  "mark_rows [] rs = rs" "mark_rows (m # ms) rs = mark_rows ms (map (mark_row m) rs)"
  "mark_rows ms (rs @ rs') = mark_rows ms rs @ mark_rows ms rs'"
proof -
  show "mark_rows ms (rs @ rs') = mark_rows ms rs @ mark_rows ms rs'"
    unfolding mark_rows_def by (induction ms arbitrary: rs rs') simp_all
qed (simp_all add: mark_rows_def)

lemma map_row_id_mark_rows [simp]: "map row_id (mark_rows ms rs) = map row_id rs"
  by (induction ms arbitrary: rs) (auto simp: comp_def)

lemma mark_rows_filter_attempt:
  "filter (\<lambda>r. attempt_of r = x) (mark_rows ms rs) = mark_rows ms (filter (\<lambda>r. attempt_of r = x) rs)"
  by (induction ms arbitrary: rs) (auto simp: filter_map comp_def)

lemma drop_ids_filter: "filter P (drop_ids ids rs) = drop_ids ids (filter P rs)"
  unfolding drop_ids_def filter_filter by (rule filter_cong) auto

lemma idb_okD: "idb_ok db \<Longrightarrow> distinct (map row_id (objects db))"
  by (simp add: idb_ok_def)

lemma idb_ok_cong:
  assumes "idb_ok db" "objects db' = rs" "next_key db' = next_key db"
    "distinct (map row_id rs)" "row_id ` set rs \<subseteq> row_id ` set (objects db)"
  shows "idb_ok db'"
  using assms(1,4) order_trans [OF assms(5), of "Some ` {..<next_key db}"]
  by (simp add: idb_ok_def assms(2,3))

lemma idb_ok_ids: "idb_ok db \<Longrightarrow> distinct (map row_id (idb_disk db a)) \<and> None \<notin> row_id ` set (idb_disk db a)"
proof -
  assume ok: "idb_ok db"
  have "row_id ` set (idb_disk db a) \<subseteq> Some ` {..<next_key db}"
    using ok by (auto simp: idb_ok_def idb_disk_def)
  with ok show ?thesis by (auto simp: idb_disk_def distinct_map_filter idb_okD)
qed

lemma idb_ok_drop:
  assumes "idb_ok db"
  shows "idb_ok (fold store_delete ids db)"
  by (rule idb_ok_cong [OF assms fold_store_delete])
     (use idb_okD [OF assms] in \<open>auto simp: drop_ids_def distinct_map_filter\<close>)

lemma idb_ok_mark:
  assumes "idb_ok db"
  shows "idb_ok (fold store_mark marks db)"
proof (rule idb_ok_cong [OF assms fold_store_mark])
  show "distinct (map row_id (mark_rows marks (objects db)))"
    using idb_okD [OF assms] by simp
  have "row_id ` set (mark_rows marks (objects db)) = set (map row_id (mark_rows marks (objects db)))"
    by (simp only: list.set_map)
  then show "row_id ` set (mark_rows marks (objects db)) \<subseteq> row_id ` set (objects db)" by simp
qed

lemma idb_ok_add: "idb_ok db \<Longrightarrow> idb_ok (snd (store_add r db))"
  by (auto simp: idb_ok_def store_add_def lessThan_Suc)

interpretation idb: answer_store idb_disk idb_ok pending forget refuse
proof (unfold_locales, goal_cases)
  case (1 w a)
  then show ?case by (rule idb_ok_ids)
next
  case (2 w a rs w')
  then show ?case
    by (auto simp: store_op_defs idb_disk_def waiting_def split: if_splits)
next
  case (3 w a res w' b)
  then show ?case by (auto simp: store_op_defs split: if_splits)
next
  case (4 w ids u w' b)
  then show ?case
    by (auto simp: store_op_defs idb_ok_drop idb_disk_def fold_store_delete drop_ids_filter
        split: if_splits) (simp add: drop_ids_def)
next
  case (5 w ids e w' b)
  then show ?case by (auto simp: store_op_defs split: if_splits)
next
  case (6 w marks u w' b)
  then show ?case
    by (auto simp: store_op_defs idb_ok_mark idb_disk_def fold_store_mark mark_rows_filter_attempt
        split: if_splits)
next
  case (7 w marks e w' b)
  then show ?case by (auto simp: store_op_defs split: if_splits)
qed

subsection \<open>What the operations do\<close>

lemma idb_ok_row_id: "idb_ok db \<Longrightarrow> r \<in> set (objects db) \<Longrightarrow> \<exists>i. row_id r = Some i"
  unfolding idb_ok_def by blast

lemma usable_add [simp]: "usable m (snd (store_add r db)) = usable m db"
  by (simp add: usable_def store_add_def)

lemma row_of_delta_fields [simp]:
  "attempt_of (row_of_delta a d) = Some a" "refused (row_of_delta a d) = None"
  "delta.truncate (row_of_delta a d) = d"
  by (simp_all add: row_of_delta_def delta.extend_def delta.truncate_def)

text \<open>
  A queued answer is durable. When \<open>queue\<close> returns, the row is the last one \<open>pending\<close>
  gives for its attempt, unchanged and under an id of its own; what was waiting before is still
  there in its order, and no other attempt's rows moved.
\<close>
theorem queue_then_pending:
  assumes "queue a d db = (Inr (), db')" and "pending a db = (Inr old, db)" and "idb_ok db"
  shows "\<exists>r. pending a db' = (Inr (old @ [r]), db') \<and> delta.truncate r = d \<and> row_id r \<notin> row_id ` set (objects db) \<and>
    (\<forall>b. b \<noteq> a \<longrightarrow> fst (pending b db') = fst (pending b db))"
proof -
  let ?r = "(row_of_delta a d)\<lparr>row_id := Some (next_key db)\<rparr>"
  from assms(1) have db': "db' = snd (store_add (row_of_delta a d) db)" "usable Readwrite db"
    by (auto simp: queue_def tx_cases split: if_splits)
  then have u: "usable Readonly db" by (simp add: usable_def)
  have "pending a db' = (Inr (old @ [?r]), db')"
    using assms(2) u by (auto simp: store_op_defs db'(1)) (simp add: store_add_def)
  moreover have "fst (pending b db') = fst (pending b db)" if "b \<noteq> a" for b
    using that u by (auto simp: store_op_defs db'(1)) (simp add: store_add_def)
  moreover have "row_id ?r \<notin> row_id ` set (objects db)" using assms(3) by (auto simp: idb_ok_def)
  moreover have "delta.truncate ?r = d"
    using row_of_delta_fields(3) [of a d] by (simp add: delta.truncate_def)
  ultimately show ?thesis by blast
qed

definition sample_store :: idb where
  "sample_store = \<lparr>available = True, openable = True, writable = True, next_key = 1, objects = []\<rparr>"

theorem queue_then_pending_witness:
  "\<exists>db' r. queue ''a'' \<lparr>question_version_xid = ''q'', slot_key = ''s'', response = None, client_seq = 1,
       time_spent_ms = None\<rparr> sample_store = (Inr (), db') \<and>
     pending ''a'' db' = (Inr [r], db')"
proof -
  let ?d = "\<lparr>question_version_xid = ''q'', slot_key = ''s'', response = None, client_seq = 1,
       time_spent_ms = None\<rparr> :: delta"
  have q: "queue ''a'' ?d sample_store = (Inr (), snd (store_add (row_of_delta ''a'' ?d) sample_store))"
    and p: "pending ''a'' sample_store = (Inr [], sample_store)" and ok: "idb_ok sample_store"
    by (simp_all add: sample_store_def store_op_defs usable_def idb_ok_def)
  from queue_then_pending [OF q p ok] q show ?thesis by auto
qed

text \<open>
  Dropping an attempt removes every row of it, the refused ones too, and nothing else; a
  store that cannot be read or written keeps everything.
\<close>
theorem drop_attempt_exact:
  assumes "drop_attempt a db = (res, db')" and "idb_ok db"
  shows "objects db' = (case res of Inl _ \<Rightarrow> objects db
      | Inr _ \<Rightarrow> filter (\<lambda>r. attempt_of r \<noteq> Some a) (objects db))"
proof -
  let ?own = "filter (\<lambda>r. attempt_of r = Some a) (objects db)"
  have mem: "row_id r \<in> Some ` set (ids_of ?own) \<longleftrightarrow> attempt_of r = Some a" if r: "r \<in> set (objects db)" for r
  proof
    assume "row_id r \<in> Some ` set (ids_of ?own)"
    then obtain x where "x \<in> set (objects db)" "attempt_of x = Some a" "row_id x = row_id r"
      by (auto simp: set_ids_of)
    moreover have "inj_on row_id (set (objects db))" using idb_okD [OF assms(2)] by (simp add: distinct_map)
    ultimately show "attempt_of r = Some a" using that by (auto dest: inj_onD)
  next
    assume "attempt_of r = Some a"
    moreover obtain i where "row_id r = Some i" using idb_ok_row_id [OF assms(2) r] by blast
    ultimately have "row_id r = Some i" "i \<in> set (ids_of ?own)" using r by (auto simp: set_ids_of)
    then show "row_id r \<in> Some ` set (ids_of ?own)" by simp
  qed
  then have dropped: "drop_ids (ids_of ?own) (objects db) = filter (\<lambda>r. attempt_of r \<noteq> Some a) (objects db)"
    unfolding drop_ids_def by (intro filter_cong) auto
  have none: "ids_of ?own = [] \<Longrightarrow> filter (\<lambda>r. attempt_of r \<noteq> Some a) (objects db) = objects db"
    using mem by (auto simp: filter_id_conv)
  show ?thesis
  proof (cases "ids_of ?own = []")
    case True
    with assms(1) none show ?thesis by (auto simp: store_op_defs split: if_splits)
  next
    case False
    with assms(1) show ?thesis by (auto simp: store_op_defs fold_store_delete dropped split: if_splits)
  qed
qed

theorem drop_attempt_exact_witness:
  "\<exists>db'. drop_attempt ''a'' sample_store = (Inr (), db') \<and> objects db' = []"
proof -
  have "drop_attempt ''a'' sample_store = (Inr (), sample_store)" "idb_ok sample_store"
    by (simp_all add: sample_store_def store_op_defs usable_def idb_ok_def)
  from this(1) drop_attempt_exact [OF this] show ?thesis by (auto simp: sample_store_def)
qed

end
