(* ===== verification/Attempt.thy ===== *)
theory Attempt
  imports OutboxRules
begin

text \<open>
  The attempt lifecycle calls of \<open>student/src/exam/attempt.ts\<close>. The generated HTTP client is
  third-party code: it is the parameter \<open>send\<close>, which for a request either rejects (the network
  failed), or gives the response's data or its error document, changing an arbitrary world. Each
  function builds its request and throws the error or returns the data, as the source does.
\<close>

datatype exam_mode = ExamMode | PracticeMode

datatype endpoint =
    PostAttempts
  | GetAssignments
  | GetPayload string
  | GetState string
  | PostEnter string int
  | PostAudioGrant string int
  | PostAnswers string
  | PostSubmit string
  | GetResult string

datatype 'r request_body =
    NoBody
  | StartBody string exam_mode
  | DeltasBody "'r list"
  | FinalAnswers "'r list"

record 'r api_request =
  endpoint :: endpoint
  idempotency_key :: "string option"
  body :: "'r request_body"

datatype ('d, 'e) fetched = Data 'd | Problem 'e

type_synonym ('r, 'd, 'e, 'w) transport = "'r api_request \<Rightarrow> 'w \<Rightarrow> ('e + ('d, 'e) fetched) \<times> 'w"

definition call ::
  "('r, 'd, 'e, 'w) transport \<Rightarrow> 'r api_request \<Rightarrow> 'w \<Rightarrow> ('e + 'd) \<times> 'w" where
  "call send req w =
     (case send req w of
        (Inl e, w') \<Rightarrow> (Inl e, w')
      | (Inr (Problem e), w') \<Rightarrow> (Inl e, w')
      | (Inr (Data d), w') \<Rightarrow> (Inr d, w'))"

record assignment_item =
  item_xid :: string
  item_mode :: exam_mode

definition start ::
  "('r, 'd, 'e, 'w) transport \<Rightarrow> string \<Rightarrow> exam_mode \<Rightarrow> string \<Rightarrow> 'w \<Rightarrow> ('e + 'd) \<times> 'w" where
  "start send assignment_xid mode key =
     call send \<lparr>endpoint = PostAttempts, idempotency_key = Some key, body = StartBody assignment_xid mode\<rparr>"

definition assignment ::
  "('r, assignment_item list option, 'e, 'w) transport \<Rightarrow> string \<Rightarrow> 'w \<Rightarrow> ('e + assignment_item option) \<times> 'w" where
  "assignment send assignment_xid w =
     (case call send \<lparr>endpoint = GetAssignments, idempotency_key = None, body = NoBody\<rparr> w of
        (Inl e, w') \<Rightarrow> (Inl e, w')
      | (Inr items, w') \<Rightarrow> (Inr (find (\<lambda>a. item_xid a = assignment_xid) (nullish items [])), w'))"

definition payload :: "('r, 'd, 'e, 'w) transport \<Rightarrow> string \<Rightarrow> 'w \<Rightarrow> ('e + 'd) \<times> 'w" where
  "payload send xid = call send \<lparr>endpoint = GetPayload xid, idempotency_key = None, body = NoBody\<rparr>"

definition state :: "('r, 'd, 'e, 'w) transport \<Rightarrow> string \<Rightarrow> 'w \<Rightarrow> ('e + 'd) \<times> 'w" where
  "state send xid = call send \<lparr>endpoint = GetState xid, idempotency_key = None, body = NoBody\<rparr>"

definition enter :: "('r, 'd, 'e, 'w) transport \<Rightarrow> string \<Rightarrow> int \<Rightarrow> 'w \<Rightarrow> ('e + 'd) \<times> 'w" where
  "enter send xid position =
     call send \<lparr>endpoint = PostEnter xid position, idempotency_key = None, body = NoBody\<rparr>"

definition audioGrant :: "('r, 'd, 'e, 'w) transport \<Rightarrow> string \<Rightarrow> int \<Rightarrow> 'w \<Rightarrow> ('e + 'd) \<times> 'w" where
  "audioGrant send xid position =
     call send \<lparr>endpoint = PostAudioGrant xid position, idempotency_key = None, body = NoBody\<rparr>"

text \<open>The response to a batch, and what the flush hands on: the counts and the clock sync.\<close>

record batch_result =
  br_accepted :: nat
  br_rejected :: "rejection list"
  br_last_accepted_seq :: int
  br_server_now :: string
  br_expires_at :: string

record flushed =
  accepted :: nat
  rejected :: "rejection list"
  last_accepted_seq :: int
  flushed_clock :: clock

definition flush_request :: "string \<Rightarrow> 'r list \<Rightarrow> string \<Rightarrow> 'r api_request" where
  "flush_request xid deltas key =
     \<lparr>endpoint = PostAnswers xid, idempotency_key = Some key, body = DeltasBody deltas\<rparr>"

definition flush ::
  "('r, batch_result, 'e, 'w) transport \<Rightarrow> ('w \<Rightarrow> real) \<Rightarrow> string \<Rightarrow> 'r list \<Rightarrow> string \<Rightarrow> 'w \<Rightarrow>
   ('e + flushed) \<times> 'w" where
  "flush send now xid deltas key w =
     (case call send (flush_request xid deltas key) w of
        (Inl e, w') \<Rightarrow> (Inl e, w')
      | (Inr d, w') \<Rightarrow>
          (Inr \<lparr>accepted = br_accepted d, rejected = br_rejected d,
                last_accepted_seq = br_last_accepted_seq d,
                flushed_clock = sync \<lparr>serverNow = br_server_now d, expiresAt = br_expires_at d\<rparr> (now w')\<rparr>, w'))"

text \<open>An absent and an empty list of final answers both send no body.\<close>

definition submit_request :: "string \<Rightarrow> string \<Rightarrow> 'r list option \<Rightarrow> 'r api_request" where
  "submit_request xid key final_answers =
     \<lparr>endpoint = PostSubmit xid, idempotency_key = Some key,
      body = (case final_answers of
                Some (r # rs) \<Rightarrow> FinalAnswers (r # rs)
              | _ \<Rightarrow> NoBody)\<rparr>"

definition submit ::
  "('r, 'd, 'e, 'w) transport \<Rightarrow> string \<Rightarrow> string \<Rightarrow> 'r list option \<Rightarrow> 'w \<Rightarrow> ('e + 'd) \<times> 'w" where
  "submit send xid key final_answers = call send (submit_request xid key final_answers)"

definition result :: "('r, 'd, 'e, 'w) transport \<Rightarrow> string \<Rightarrow> 'w \<Rightarrow> ('e + 'd) \<times> 'w" where
  "result send xid = call send \<lparr>endpoint = GetResult xid, idempotency_key = None, body = NoBody\<rparr>"

lemma call_cases:
  "call send req w = (Inr d, w') \<longleftrightarrow> send req w = (Inr (Data d), w')"
  "call send req w = (Inl e, w') \<longleftrightarrow> send req w = (Inl e, w') \<or> send req w = (Inr (Problem e), w')"
  by (auto simp: call_def split: prod.splits sum.splits fetched.splits)

lemma flush_Inr:
  "flush send now xid deltas key w = (Inr s, w') \<Longrightarrow>
   \<exists>d. send (flush_request xid deltas key) w = (Inr (Data d), w') \<and> rejected s = br_rejected d \<and>
       flushed_clock s = sync \<lparr>serverNow = br_server_now d, expiresAt = br_expires_at d\<rparr> (now w')"
  by (auto simp: flush_def call_cases split: prod.splits sum.splits)

lemma flush_Inl:
  "flush send now xid deltas key w = (Inl e, w') \<Longrightarrow>
   send (flush_request xid deltas key) w = (Inl e, w') \<or>
   send (flush_request xid deltas key) w = (Inr (Problem e), w')"
  by (auto simp: flush_def call_cases split: prod.splits sum.splits)

end
