(* ===== verification/Flow.thy ===== *)
theory Flow
  imports OutboxStore Attempt
begin

text \<open>
  The sequences of \<open>student/src/exam/flow.ts\<close> over injected I/O. A dependency is a function on the
  world: an awaited one may fail (\<open>Inl\<close>) and may let other tasks queue rows meanwhile, which the
  locales below allow. They state what the flush relies on (the store interface and a network
  that, when it answers, has stored what it did not reject) and prove that nothing is lost.
\<close>

subsection \<open>The flush loop\<close>

record ('w, 'e) flush_deps =
  fd_pending :: "string \<Rightarrow> 'w \<Rightarrow> ('e + row list) \<times> 'w"
  fd_flush :: "string \<Rightarrow> row list \<Rightarrow> string \<Rightarrow> 'w \<Rightarrow> ('e + flushed) \<times> 'w"
  fd_forget :: "nat list \<Rightarrow> 'w \<Rightarrow> ('e + unit) \<times> 'w"
  fd_refuse :: "mark list \<Rightarrow> 'w \<Rightarrow> ('e + unit) \<times> 'w"
  fd_mint :: "'w \<Rightarrow> string \<times> 'w"

record flush_outcome =
  out_inFlight :: "in_flight option"
  out_clock :: "clock option"
  out_refused :: "mark list"
  drained :: bool

text \<open>\<open>await m k\<close>: run \<open>m\<close>; a rejection ends the function, a value goes on to \<open>k\<close>.\<close>

definition await :: "('w \<Rightarrow> ('e + 'a) \<times> 'w) \<Rightarrow> ('a \<Rightarrow> 'w \<Rightarrow> ('e + 'b) \<times> 'w) \<Rightarrow> 'w \<Rightarrow> ('e + 'b) \<times> 'w" where
  "await m k w = (case m w of (Inl e, w') \<Rightarrow> (Inl e, w') | (Inr x, w') \<Rightarrow> k x w')"

definition to_send :: "row list \<Rightarrow> row list" where
  "to_send queued = batch (if length queued > MAX_BATCH then collapse queued else queued)"

text \<open>What follows an answered round trip: delete, mark, and read back.\<close>

definition settle ::
  "('w, 'e) flush_deps \<Rightarrow> string \<Rightarrow> row list \<Rightarrow> flushed \<Rightarrow> 'w \<Rightarrow> ('e + flush_outcome) \<times> 'w" where
  "settle D xid rows sent =
     (case partition rows (rejected sent) of (taken, declined) \<Rightarrow>
        await (fd_forget D taken) (\<lambda>_.
        await (fd_refuse D declined) (\<lambda>_.
        await (fd_pending D xid) (\<lambda>left w.
          (Inr \<lparr>out_inFlight = None, out_clock = Some (flushed_clock sent),
                out_refused = declined, drained = (left = [])\<rparr>, w)))))"

definition flushOnce ::
  "('w, 'e) flush_deps \<Rightarrow> string \<Rightarrow> in_flight option \<Rightarrow> 'w \<Rightarrow> ('e + flush_outcome) \<times> 'w" where
  "flushOnce D xid inFlight =
     await (fd_pending D xid) (\<lambda>queued w.
       if queued = []
       then (Inr \<lparr>out_inFlight = inFlight, out_clock = None, out_refused = [], drained = True\<rparr>, w)
       else
         let rows = to_send queued;
             ids = ids_of rows;
             (carrying, w1) = flushKey inFlight ids (fd_mint D) w
         in case fd_flush D xid rows (flight_key carrying) w1 of
              (Inl _, w2) \<Rightarrow>
                (Inr \<lparr>out_inFlight = Some carrying, out_clock = None, out_refused = [], drained = False\<rparr>, w2)
            | (Inr sent, w2) \<Rightarrow> settle D xid rows sent w2)"

lemma await_Inr:
  "await m k w = (Inr y, w') \<longleftrightarrow> (\<exists>x v. m w = (Inr x, v) \<and> k x v = (Inr y, w'))"
  by (auto simp: await_def split: prod.splits sum.splits)

lemma await_Inl:
  "await m k w = (Inl e, w') \<longleftrightarrow> m w = (Inl e, w') \<or> (\<exists>x v. m w = (Inr x, v) \<and> k x v = (Inl e, w'))"
  by (auto simp: await_def split: prod.splits sum.splits)

lemma set_to_send: "set (to_send queued) \<subseteq> set queued"
  using collapse_subset [of queued] set_take_subset
  by (fastforce simp: to_send_def batch_def dest: in_set_takeD split: if_splits)

lemma length_to_send: "length (to_send queued) \<le> MAX_BATCH"
  by (simp add: to_send_def batch_def)

subsection \<open>Submit\<close>

record ('w, 'e) submit_deps =
  sd_flush :: "'w \<Rightarrow> bool \<times> 'w"
  sd_pending :: "string \<Rightarrow> 'w \<Rightarrow> ('e + row list) \<times> 'w"
  sd_submit :: "string \<Rightarrow> string \<Rightarrow> row list option \<Rightarrow> 'w \<Rightarrow> ('e + unit) \<times> 'w"
  sd_drop :: "string \<Rightarrow> 'w \<Rightarrow> ('e + unit) \<times> 'w"
  sd_mint :: "'w \<Rightarrow> string \<times> 'w"

record submit_state =
  submit_key :: "in_flight option"
  busy :: bool

datatype submit_result = Submitted | Busy

text \<open>What is still waiting after at most two flushes, capped like a flush.\<close>

definition flush_twice :: "('w, 'e) submit_deps \<Rightarrow> 'w \<Rightarrow> bool \<times> 'w" where
  "flush_twice D w = (case sd_flush D w of (d, w1) \<Rightarrow> if d then (True, w1) else sd_flush D w1)"

definition remainder :: "('w, 'e) submit_deps \<Rightarrow> string \<Rightarrow> bool \<Rightarrow> 'w \<Rightarrow> row list \<times> 'w" where
  "remainder D xid all_sent w =
     (if all_sent then ([], w)
      else case sd_pending D xid w of
        (Inl _, w') \<Rightarrow> (to_send [], w')
      | (Inr left, w') \<Rightarrow> (to_send left, w'))"

definition submitFlow ::
  "('w, 'e) submit_deps \<Rightarrow> string \<Rightarrow> submit_state \<Rightarrow> 'w \<Rightarrow> ('e + submit_result) \<times> submit_state \<times> 'w" where
  "submitFlow D xid st w =
     (if busy st then (Inr Busy, st, w)
      else
        let (all_sent, w1) = flush_twice D w;
            (final, w2) = remainder D xid all_sent w1;
            (key, w3) = flushKey (submit_key st) (ids_of final) (sd_mint D) w2
        in case sd_submit D xid (flight_key key) (if final = [] then None else Some final) w3 of
             (Inl e, w4) \<Rightarrow> (Inl e, \<lparr>submit_key = Some key, busy = False\<rparr>, w4)
           | (Inr _, w4) \<Rightarrow>
               (Inr Submitted, \<lparr>submit_key = Some key, busy = True\<rparr>, snd (sd_drop D xid w4)))"

subsection \<open>The timer-zero retry\<close>

definition MAX_RETRY_MS :: int where
  "MAX_RETRY_MS = 30000"

definition nextDelay :: "int \<Rightarrow> string option \<Rightarrow> int option" where
  "nextDelay tries failure =
     (if failure = Some ''attempt_voided'' then None
      else if tries \<le> 0 then Some 0
      else Some (min MAX_RETRY_MS (2000 * 2 ^ nat (tries - 1))))"

subsection \<open>Resuming the sections\<close>

record resumed_section =
  rs_position :: "int option"
  rs_entered_at :: "string option"
  rs_expires_at :: "string option"
  rs_completed_at :: "string option"

record resumed =
  entered :: "int list"
  deadlines :: "(int \<times> string option) list"
  closedSections :: "int list"
  furthest :: "int option"

definition section_over :: "resumed_section \<Rightarrow> jsnum \<Rightarrow> bool" where
  "section_over s now =
     (truthy_str (rs_completed_at s) \<or>
      (case rs_expires_at s of None \<Rightarrow> False | Some e \<Rightarrow> date_parse e \<le> now))"

fun resume_step :: "jsnum \<Rightarrow> resumed_section \<Rightarrow> resumed \<Rightarrow> resumed" where
  "resume_step now s acc =
     (case rs_position s of
        None \<Rightarrow> acc
      | Some p \<Rightarrow>
          if \<not> truthy_str (rs_entered_at s) then acc
          else acc\<lparr>entered := entered acc @ [p],
                   deadlines := jsmap_set p (rs_expires_at s) (deadlines acc),
                   closedSections := (if section_over s now then closedSections acc @ [p] else closedSections acc)\<rparr>)"

definition resumedSections :: "resumed_section list option \<Rightarrow> string \<Rightarrow> resumed" where
  "resumedSections sections server_now =
     (let acc = fold (resume_step (date_parse server_now)) (nullish sections [])
                  \<lparr>entered = [], deadlines = [], closedSections = [], furthest = None\<rparr>
      in acc\<lparr>furthest := (if entered acc = [] then None else Some (Max (set (entered acc))))\<rparr>)"

subsection \<open>The section clock and the keyboard\<close>

definition closesOnSectionExpiry :: "string option \<Rightarrow> string \<Rightarrow> bool" where
  "closesOnSectionExpiry section_expires_at attempt_expires_at =
     (case section_expires_at of
        None \<Rightarrow> False
      | Some s \<Rightarrow> date_parse s < date_parse attempt_expires_at)"

definition advancesOnSectionExpiry ::
  "string option \<Rightarrow> string \<Rightarrow> int \<Rightarrow> int \<Rightarrow> bool \<Rightarrow> bool" where
  "advancesOnSectionExpiry section_expires_at attempt_expires_at position highest_entered is_last =
     (if \<not> closesOnSectionExpiry section_expires_at attempt_expires_at then False
      else position = highest_entered \<and> \<not> is_last)"

record key_target =
  tagName :: "string option"
  isContentEditable :: bool
  role :: "string option"

definition upper_char :: "char \<Rightarrow> char" where
  "upper_char c = (if 97 \<le> (of_char c :: nat) \<and> (of_char c :: nat) \<le> 122
                   then char_of ((of_char c :: nat) - 32) else c)"

definition claimsArrowKey :: "key_target option \<Rightarrow> bool \<Rightarrow> bool" where
  "claimsArrowKey target default_prevented =
     (if default_prevented then True
      else case target of
        None \<Rightarrow> False
      | Some t \<Rightarrow>
          let tag = map upper_char (nullish (tagName t) []) in
          if tag = ''INPUT'' \<or> tag = ''TEXTAREA'' \<or> tag = ''SELECT'' then True
          else if isContentEditable t then True
          else role t = Some ''separator'')"

subsection \<open>Nothing is lost\<close>

definition slot_of :: "'a delta_scheme \<Rightarrow> string \<times> string" where
  "slot_of r = (question_version_xid r, slot_key r)"

text \<open>The answer of \<open>r\<close> is still in a row with its id, marked or not.\<close>

definition kept :: "row \<Rightarrow> row list \<Rightarrow> bool" where
  "kept r rs \<longleftrightarrow> (\<exists>r' \<in> set rs. row_id r' = row_id r \<and> delta.truncate r' = delta.truncate r)"

lemma kept_in: "r \<in> set rs \<Longrightarrow> kept r rs"
  by (auto simp: kept_def)

lemma in_prefix: "prefix rs rs' \<Longrightarrow> r \<in> set rs \<Longrightarrow> r \<in> set rs'"
  by (auto dest: set_mono_prefix)

lemma kept_prefix: "kept r rs \<Longrightarrow> prefix rs rs' \<Longrightarrow> kept r rs'"
  by (auto simp: kept_def dest: set_mono_prefix)

lemma kept_drop: "kept r rs \<Longrightarrow> row_id r \<notin> Some ` set ids \<Longrightarrow> kept r (drop_ids ids rs)"
  unfolding kept_def drop_ids_def set_filter by force

lemma truncate_mark_row [simp]: "delta.truncate (mark_row m r) = delta.truncate r"
  by (simp add: mark_row_def delta.truncate_def)

lemma kept_map_mark: "kept r (map (mark_row m) rs) \<longleftrightarrow> kept r rs"
  by (auto simp: kept_def)

lemma kept_mark: "kept r (mark_rows ms rs) \<longleftrightarrow> kept r rs"
  by (induction ms arbitrary: rs) (simp_all add: kept_map_mark)

lemma in_mark_rows:
  "r \<in> set rs \<Longrightarrow> row_id r \<notin> Some ` mark_id ` set ms \<Longrightarrow> r \<in> set (mark_rows ms rs)"
proof (induction ms arbitrary: rs)
  case (Cons m ms)
  then have "mark_row m r = r" by (auto simp: mark_row_def)
  with Cons.prems(1) have "r \<in> set (map (mark_row m) rs)" by (metis image_eqI set_map)
  with Cons show ?case by simp
qed simp

lemma flushOnce_cases:
  assumes "flushOnce D xid fl w = (res, w')"
  obtains (unreadable) e where "fd_pending D xid w = (Inl e, w')" "res = Inl e"
  | (idle) "fd_pending D xid w = (Inr [], w')"
      "res = Inr \<lparr>out_inFlight = fl, out_clock = None, out_refused = [], drained = True\<rparr>"
  | (offline) q w1 c w2 e where "fd_pending D xid w = (Inr q, w1)" "q \<noteq> []"
      "flushKey fl (ids_of (to_send q)) (fd_mint D) w1 = (c, w2)"
      "fd_flush D xid (to_send q) (flight_key c) w2 = (Inl e, w')"
      "res = Inr \<lparr>out_inFlight = Some c, out_clock = None, out_refused = [], drained = False\<rparr>"
  | (answered) q w1 c w2 sent w3 where "fd_pending D xid w = (Inr q, w1)" "q \<noteq> []"
      "flushKey fl (ids_of (to_send q)) (fd_mint D) w1 = (c, w2)"
      "fd_flush D xid (to_send q) (flight_key c) w2 = (Inr sent, w3)"
      "settle D xid (to_send q) sent w3 = (res, w')"
proof -
  obtain r1 w1 where p: "fd_pending D xid w = (r1, w1)" by fastforce
  show thesis
  proof (cases r1)
    case (Inl e)
    with p assms unreadable show thesis by (auto simp: flushOnce_def await_def)
  next
    case (Inr q)
    show thesis
    proof (cases "q = []")
      case True
      with p Inr assms show thesis by (intro idle) (auto simp: flushOnce_def await_def)
    next
      case False
      obtain c w2 where k: "flushKey fl (ids_of (to_send q)) (fd_mint D) w1 = (c, w2)" by fastforce
      obtain r3 w3 where f: "fd_flush D xid (to_send q) (flight_key c) w2 = (r3, w3)" by fastforce
      from p Inr False k f assms offline answered show thesis
        by (cases r3) (auto simp: flushOnce_def await_def Let_def)
    qed
  qed
qed

lemma settle_cases:
  assumes "settle D xid rs sent w = (res, w')"
  obtains (forget_failed) e where "fd_forget D (fst (partition rs (rejected sent))) w = (Inl e, w')" "res = Inl e"
  | (refuse_failed) w1 e where "fd_forget D (fst (partition rs (rejected sent))) w = (Inr (), w1)"
      "fd_refuse D (snd (partition rs (rejected sent))) w1 = (Inl e, w')" "res = Inl e"
  | (read_failed) w1 w2 e where "fd_forget D (fst (partition rs (rejected sent))) w = (Inr (), w1)"
      "fd_refuse D (snd (partition rs (rejected sent))) w1 = (Inr (), w2)"
      "fd_pending D xid w2 = (Inl e, w')" "res = Inl e"
  | (settled) w1 w2 left where "fd_forget D (fst (partition rs (rejected sent))) w = (Inr (), w1)"
      "fd_refuse D (snd (partition rs (rejected sent))) w1 = (Inr (), w2)"
      "fd_pending D xid w2 = (Inr left, w')"
      "res = Inr \<lparr>out_inFlight = None, out_clock = Some (flushed_clock sent),
                  out_refused = snd (partition rs (rejected sent)), drained = (left = [])\<rparr>"
proof (cases res)
  case (Inl e)
  with assms forget_failed refuse_failed read_failed show thesis
    by (auto simp: settle_def await_Inl split: prod.splits)
next
  case (Inr out)
  with assms settled show thesis by (auto simp: settle_def await_Inr split: prod.splits)
qed

locale flush_env =
  answer_store disk store_ok "fd_pending D" "fd_forget D" "fd_refuse D"
  for disk :: "'w \<Rightarrow> string \<Rightarrow> row list" and store_ok :: "'w \<Rightarrow> bool" and D :: "('w, 'e) flush_deps" +
  fixes held :: "'w \<Rightarrow> string \<Rightarrow> string \<times> string \<Rightarrow> int"
  assumes ids_apart: "store_ok w \<Longrightarrow> a \<noteq> b \<Longrightarrow> r \<in> set (disk w a) \<Longrightarrow> x \<in> set (disk w b) \<Longrightarrow> row_id r \<noteq> row_id x"
    and held_pending: "fd_pending D a w = (p, w') \<Longrightarrow> held w b s \<le> held w' b s"
    and held_forget: "fd_forget D ids w = (f, w') \<Longrightarrow> held w b s \<le> held w' b s"
    and held_refuse: "fd_refuse D marks w = (f, w') \<Longrightarrow> held w b s \<le> held w' b s"
    and mint_keeps: "store_ok w \<Longrightarrow> fd_mint D w = (k, w') \<Longrightarrow>
      store_ok w' \<and> disk w' b = disk w b \<and> held w' b s = held w b s"
    and flush_keeps: "store_ok w \<Longrightarrow> fd_flush D a rs k w = (answer, w') \<Longrightarrow>
      store_ok w' \<and> prefix (disk w b) (disk w' b) \<and> held w b s \<le> held w' b s"
    and flush_stores: "store_ok w \<Longrightarrow> fd_flush D a rs k w = (Inr sent, w') \<Longrightarrow> r \<in> set rs \<Longrightarrow>
      row_slot r \<notin> rej_key ` set (rejected sent) \<Longrightarrow> client_seq r \<le> held w' a (slot_of r)"
begin

lemma flushKey_keeps:
  assumes "store_ok w" "flushKey fl ids (fd_mint D) w = (c, w')"
  shows "store_ok w' \<and> disk w' b = disk w b \<and> held w' b s = held w b s"
proof (cases "\<exists>p. fl = Some p \<and> flight_ids p = ids")
  case True
  with assms show ?thesis by (auto simp: flushKey_def)
next
  case False
  then have "w' = snd (fd_mint D w)"
    using assms(2) by (auto simp: flushKey_def split: option.splits prod.splits if_splits)
  with mint_keeps [OF assms(1), of "fst (fd_mint D w)" w'] show ?thesis by simp
qed

lemma same_row:
  assumes "store_ok w" "r \<in> set (disk w a)" "x \<in> set (disk w b)" "row_id r = row_id x"
  shows "a = b \<and> r = x"
proof -
  from assms have "a = b" using ids_apart by blast
  moreover have "inj_on row_id (set (disk w b))"
    using ids_ok [OF assms(1)] by (simp add: distinct_map)
  ultimately show ?thesis using assms by (auto dest: inj_onD)
qed

lemma pending_rows:
  assumes "store_ok w" "fd_pending D xid w = (Inr q, w')"
  shows "set q \<subseteq> set (disk w' xid)" "\<And>r. r \<in> set (disk w xid) \<Longrightarrow> waiting r \<Longrightarrow> r \<in> set q"
  using pending_ok [OF assms] by (auto dest: in_prefix)

text \<open>Deleting the rows a round trip took loses no answer.\<close>

lemma forget_taken:
  assumes ok: "store_ok w" and q: "set q \<subseteq> set (disk w xid)"
    and stored: "\<And>r. r \<in> set (to_send q) \<Longrightarrow> row_slot r \<notin> rej_key ` set (rejected sent) \<Longrightarrow>
      client_seq r \<le> held w xid (slot_of r)"
    and f: "fd_forget D (fst (partition (to_send q) (rejected sent))) w = (Inr (), w')"
    and r: "r \<in> set (disk w a)"
  shows "kept r (disk w' a) \<or> a = xid \<and> client_seq r \<le> held w' a (slot_of r)"
proof (cases "row_id r \<in> Some ` set (fst (partition (to_send q) (rejected sent)))")
  case False
  with forget_ok [OF ok f, of a] r show ?thesis
    using kept_prefix [OF kept_drop [OF kept_in]] by blast
next
  case True
  then obtain x where x: "x \<in> set (to_send q)" "row_slot x \<notin> rej_key ` set (rejected sent)" "row_id x = row_id r"
    using partition_facts [of "to_send q" "rejected sent"]
    by (auto simp: set_ids_of)
  with same_row [OF ok r, of x xid] q set_to_send [of q] have "a = xid" "x = r" by auto
  with stored [OF x(1,2)] held_forget [OF f, of xid "slot_of r"] show ?thesis by auto
qed

lemma settle_safe:
  assumes ok: "store_ok w" and q: "set q \<subseteq> set (disk w xid)"
    and stored: "\<And>r. r \<in> set (to_send q) \<Longrightarrow> row_slot r \<notin> rej_key ` set (rejected sent) \<Longrightarrow>
      client_seq r \<le> held w xid (slot_of r)"
    and s: "settle D xid (to_send q) sent w = (res, w')"
    and r: "r \<in> set (disk w a)"
  shows "store_ok w' \<and> (kept r (disk w' a) \<or> a = xid \<and> client_seq r \<le> held w' a (slot_of r))"
  using s
proof (cases rule: settle_cases)
  case (forget_failed e)
  with forget_fails [OF ok forget_failed(1), of a] r show ?thesis
    using kept_prefix [OF kept_in] by blast
next
  case (refuse_failed w1 e)
  have ok1: "store_ok w1" using forget_ok [OF ok refuse_failed(1)] by simp
  from forget_taken [OF ok q stored refuse_failed(1) r]
    refuse_fails [OF ok1 refuse_failed(2), of a] held_refuse [OF refuse_failed(2), of a "slot_of r"]
  show ?thesis using kept_prefix by force
next
  case (read_failed w1 w2 e)
  have ok1: "store_ok w1" using forget_ok [OF ok read_failed(1)] by simp
  have ok2: "store_ok w2" using refuse_ok [OF ok1 read_failed(2)] by simp
  from forget_taken [OF ok q stored read_failed(1) r]
    refuse_ok [OF ok1 read_failed(2), of a] held_refuse [OF read_failed(2), of a "slot_of r"]
    pending_keeps [OF ok2 read_failed(3), of a] held_pending [OF read_failed(3), of a "slot_of r"]
  show ?thesis using kept_prefix kept_mark by (metis order_trans)
next
  case (settled w1 w2 left)
  have ok1: "store_ok w1" using forget_ok [OF ok settled(1)] by simp
  have ok2: "store_ok w2" using refuse_ok [OF ok1 settled(2)] by simp
  from forget_taken [OF ok q stored settled(1) r]
    refuse_ok [OF ok1 settled(2), of a] held_refuse [OF settled(2), of a "slot_of r"]
    pending_keeps [OF ok2 settled(3), of a] held_pending [OF settled(3), of a "slot_of r"]
  show ?thesis using kept_prefix kept_mark by (metis order_trans)
qed

text \<open>One pass of the flush loop loses nothing, whatever fails and whatever is typed meanwhile.\<close>

lemma flushOnce_safe:
  assumes ok: "store_ok w" and run: "flushOnce D xid fl w = (res, w')" and r: "r \<in> set (disk w a)"
  shows "store_ok w' \<and> (kept r (disk w' a) \<or> a = xid \<and> client_seq r \<le> held w' a (slot_of r))"
  using run
proof (cases rule: flushOnce_cases)
  case (unreadable e)
  with pending_keeps [OF ok unreadable(1), of a] r show ?thesis
    using kept_prefix [OF kept_in] by blast
next
  case idle
  with pending_keeps [OF ok idle(1), of a] r show ?thesis
    using kept_prefix [OF kept_in] by blast
next
  case (offline q w1 c w2 e)
  have 1: "store_ok w1" "prefix (disk w a) (disk w1 a)" using pending_keeps [OF ok offline(1)] by auto
  have 2: "store_ok w2" "disk w2 a = disk w1 a" using flushKey_keeps [OF 1(1) offline(3)] by auto
  from 1 r have "r \<in> set (disk w1 a)" by (auto dest: in_prefix)
  with 2 flush_keeps [OF 2(1) offline(4), of a] show ?thesis
    using kept_prefix [OF kept_in] by force
next
  case (answered q w1 c w2 sent w3)
  have 1: "store_ok w1" "prefix (disk w a) (disk w1 a)" using pending_keeps [OF ok answered(1)] by auto
  have 2: "store_ok w2" "\<And>b. disk w2 b = disk w1 b" using flushKey_keeps [OF 1(1) answered(3)] by auto
  have 3: "store_ok w3" "\<And>b. prefix (disk w2 b) (disk w3 b)"
    using flush_keeps [OF 2(1) answered(4)] by auto
  have q: "set q \<subseteq> set (disk w3 xid)"
    using pending_rows(1) [OF ok answered(1)] 2(2) 3(2) [of xid] by (auto dest: in_prefix)
  have r3: "r \<in> set (disk w3 a)"
    using r 1(2) 2(2) 3(2) [of a] by (auto dest: in_prefix)
  show ?thesis
    by (rule settle_safe [OF 3(1) q _ answered(5) r3]) (rule flush_stores [OF 2(1) answered(4)])
qed

lemma settled_safe:
  assumes ok: "store_ok w" and q: "set q \<subseteq> set (disk w xid)"
    and stored: "\<And>r. r \<in> set (to_send q) \<Longrightarrow> row_slot r \<notin> rej_key ` set (rejected sent) \<Longrightarrow>
      client_seq r \<le> held w xid (slot_of r)"
    and s: "settle D xid (to_send q) sent w = (Inr out, w')" "drained out"
    and r: "r \<in> set (disk w xid)"
  shows "client_seq r \<le> held w' xid (slot_of r) \<or>
    (\<exists>r' \<in> set (disk w' xid). row_id r' = row_id r \<and> delta.truncate r' = delta.truncate r \<and> \<not> waiting r')"
  using s(1)
proof (cases rule: settle_cases)
  case (settled w1 w2 left)
  have ok1: "store_ok w1" using forget_ok [OF ok settled(1)] by simp
  have ok2: "store_ok w2" using refuse_ok [OF ok1 settled(2)] by simp
  from s(2) settled(4) have "left = []" by simp
  from pending_rows [OF ok2 settled(3)] pending_keeps [OF ok2 settled(3), of xid] this
  have read_back: "\<And>x. x \<in> set (disk w2 xid) \<Longrightarrow> x \<in> set (disk w' xid) \<and> \<not> waiting x"
    by (auto dest: in_prefix)
  have "kept r (disk w2 xid) \<or> client_seq r \<le> held w2 xid (slot_of r)"
    using forget_taken [OF ok q stored settled(1) r] refuse_ok [OF ok1 settled(2), of xid]
      held_refuse [OF settled(2), of xid "slot_of r"]
    by (metis kept_mark kept_prefix order_trans)
  with read_back held_pending [OF settled(3), of xid "slot_of r"] show ?thesis
    unfolding kept_def by (metis order_trans)
qed auto

lemma flushOnce_ok:
  assumes ok: "store_ok w" and run: "flushOnce D xid fl w = (res, w')"
  shows "store_ok w'"
  using run
proof (cases rule: flushOnce_cases)
  case (unreadable e)
  with pending_keeps [OF ok unreadable(1)] show ?thesis by simp
next
  case idle
  with pending_keeps [OF ok idle(1)] show ?thesis by simp
next
  case (offline q w1 c w2 e)
  with pending_keeps [OF ok offline(1)] have "store_ok w1" by simp
  with flushKey_keeps [OF _ offline(3)] have "store_ok w2" by blast
  with flush_keeps [OF _ offline(4)] show ?thesis by blast
next
  case (answered q w1 c w2 sent w3)
  with pending_keeps [OF ok answered(1)] have "store_ok w1" by simp
  with flushKey_keeps [OF _ answered(3)] have "store_ok w2" by blast
  with flush_keeps [OF _ answered(4)] have "store_ok w3" by blast
  from answered(5) this show ?thesis
    by (cases rule: settle_cases)
       (meson forget_fails forget_ok refuse_fails refuse_ok pending_keeps)+
qed

lemma flushKey_held:
  "store_ok w \<Longrightarrow> flushKey fl ids (fd_mint D) w = (c, w') \<Longrightarrow> held w b s \<le> held w' b s"
  using flushKey_keeps by simp

lemma settle_held:
  assumes "settle D xid rs sent w = (res, w')"
  shows "held w b s \<le> held w' b s"
  using assms
proof (cases rule: settle_cases)
  case (forget_failed e)
  from held_forget [OF forget_failed(1)] show ?thesis .
next
  case (refuse_failed w1 e)
  from held_forget [OF refuse_failed(1)] held_refuse [OF refuse_failed(2)] show ?thesis
    by (rule order_trans)
next
  case (read_failed w1 w2 e)
  from held_forget [OF read_failed(1)] held_refuse [OF read_failed(2)] held_pending [OF read_failed(3)]
  show ?thesis by (meson order_trans)
next
  case (settled w1 w2 left)
  from held_forget [OF settled(1)] held_refuse [OF settled(2)] held_pending [OF settled(3)]
  show ?thesis by (meson order_trans)
qed

lemma flushOnce_held:
  assumes ok: "store_ok w" and run: "flushOnce D xid fl w = (res, w')"
  shows "held w b s \<le> held w' b s"
  using run
proof (cases rule: flushOnce_cases)
  case (unreadable e)
  from held_pending [OF unreadable(1)] show ?thesis .
next
  case idle
  from held_pending [OF idle(1)] show ?thesis .
next
  case (offline q w1 c w2 e)
  have 1: "store_ok w1" using pending_keeps [OF ok offline(1)] by simp
  have 2: "store_ok w2" using flushKey_keeps [OF 1 offline(3)] by simp
  from held_pending [OF offline(1)] flushKey_held [OF 1 offline(3)] flush_keeps [OF 2 offline(4)]
  show ?thesis by (meson order_trans)
next
  case (answered q w1 c w2 sent w3)
  have 1: "store_ok w1" using pending_keeps [OF ok answered(1)] by simp
  have 2: "store_ok w2" using flushKey_keeps [OF 1 answered(3)] by simp
  from held_pending [OF answered(1)] flushKey_held [OF 1 answered(3)] flush_keeps [OF 2 answered(4)]
    settle_held [OF answered(5)]
  show ?thesis by (meson order_trans)
qed

text \<open>A flush that reports the queue drained has delivered every waiting row or marked it.\<close>

lemma flushOnce_drained:
  assumes ok: "store_ok w" and run: "flushOnce D xid fl w = (Inr out, w')" "drained out"
    and r: "r \<in> set (disk w xid)" "waiting r"
  shows "client_seq r \<le> held w' xid (slot_of r) \<or>
    (\<exists>r' \<in> set (disk w' xid). row_id r' = row_id r \<and> delta.truncate r' = delta.truncate r \<and> \<not> waiting r')"
  using run(1)
proof (cases rule: flushOnce_cases)
  case idle
  from pending_rows(2) [OF ok idle(1) r] show ?thesis by simp
next
  case (answered q w1 c w2 sent w3)
  have 1: "store_ok w1" "prefix (disk w xid) (disk w1 xid)" using pending_keeps [OF ok answered(1)] by auto
  have 2: "store_ok w2" "disk w2 xid = disk w1 xid" using flushKey_keeps [OF 1(1) answered(3)] by auto
  have 3: "store_ok w3" "prefix (disk w2 xid) (disk w3 xid)"
    using flush_keeps [OF 2(1) answered(4)] by auto
  have q: "set q \<subseteq> set (disk w3 xid)"
    using pending_rows(1) [OF ok answered(1)] 2(2) 3(2) by (auto dest: in_prefix)
  have r3: "r \<in> set (disk w3 xid)" using r(1) 1(2) 2(2) 3(2) by (auto dest: in_prefix)
  show ?thesis
    by (rule settled_safe [OF 3(1) q _ answered(5) run(2) r3]) (rule flush_stores [OF 2(1) answered(4)])
qed (use run(2) in auto)

end

subsection \<open>Everything typed reaches the server before the paper is marked\<close>

text \<open>
  \<open>seen\<close> is the highest number of a slot that the server was ever delivered in a request it
  answered, stored or not. Version xids are UUIDs, so they hold no colon.
\<close>

locale tracked_env =
  flush_env disk store_ok D held
  for disk :: "'w \<Rightarrow> string \<Rightarrow> row list" and store_ok :: "'w \<Rightarrow> bool" and D :: "('w, 'e) flush_deps"
    and held :: "'w \<Rightarrow> string \<Rightarrow> string \<times> string \<Rightarrow> int" +
  fixes seen :: "'w \<Rightarrow> string \<Rightarrow> string \<times> string \<Rightarrow> int"
  assumes xids_ok: "store_ok w \<Longrightarrow> r \<in> set (disk w a) \<Longrightarrow> CHR '':'' \<notin> set (question_version_xid r)"
    and seen_pending: "fd_pending D a w = (p, w') \<Longrightarrow> seen w b s \<le> seen w' b s"
    and seen_forget: "fd_forget D ids w = (f, w') \<Longrightarrow> seen w b s \<le> seen w' b s"
    and seen_refuse: "fd_refuse D marks w = (f, w') \<Longrightarrow> seen w b s \<le> seen w' b s"
    and seen_mint: "fd_mint D w = (k, w') \<Longrightarrow> seen w b s \<le> seen w' b s"
    and seen_keeps: "fd_flush D a rs k w = (answer, w') \<Longrightarrow> seen w b s \<le> seen w' b s"
    and seen_flush: "store_ok w \<Longrightarrow> fd_flush D a rs k w = (Inr sent, w') \<Longrightarrow> r \<in> set rs \<Longrightarrow>
      client_seq r \<le> seen w' a (slot_of r)"
begin

lemma flushKey_seen:
  "flushKey fl ids (fd_mint D) w = (c, w') \<Longrightarrow> seen w b s \<le> seen w' b s"
  by (cases "fd_mint D w")
     (auto simp: flushKey_def seen_mint split: option.splits if_splits)

lemma settle_seen:
  assumes "settle D xid rs sent w = (res, w')"
  shows "seen w b s \<le> seen w' b s"
  using assms
proof (cases rule: settle_cases)
  case (forget_failed e)
  from seen_forget [OF forget_failed(1)] show ?thesis .
next
  case (refuse_failed w1 e)
  from seen_forget [OF refuse_failed(1)] seen_refuse [OF refuse_failed(2)] show ?thesis
    by (rule order_trans)
next
  case (read_failed w1 w2 e)
  from seen_forget [OF read_failed(1)] seen_refuse [OF read_failed(2)] seen_pending [OF read_failed(3)]
  show ?thesis by (meson order_trans)
next
  case (settled w1 w2 left)
  from seen_forget [OF settled(1)] seen_refuse [OF settled(2)] seen_pending [OF settled(3)]
  show ?thesis by (meson order_trans)
qed

lemma flushOnce_seen:
  assumes "flushOnce D xid fl w = (res, w')"
  shows "seen w b s \<le> seen w' b s"
  using assms
proof (cases rule: flushOnce_cases)
  case (unreadable e)
  from seen_pending [OF unreadable(1)] show ?thesis .
next
  case idle
  from seen_pending [OF idle(1)] show ?thesis .
next
  case (offline q w1 c w2 e)
  from seen_pending [OF offline(1)] flushKey_seen [OF offline(3)] seen_keeps [OF offline(4)]
  show ?thesis by (meson order_trans)
next
  case (answered q w1 c w2 sent w3)
  from seen_pending [OF answered(1)] flushKey_seen [OF answered(3)] seen_keeps [OF answered(4)]
    settle_seen [OF answered(5)]
  show ?thesis by (meson order_trans)
qed

text \<open>Rows of one slot with the same key are rows of the same question and slot.\<close>

lemma row_slot_slot_of:
  assumes "store_ok w" "r \<in> set (disk w a)" "x \<in> set (disk w b)" "row_slot r = row_slot x"
  shows "slot_of r = slot_of x"
  using assms xids_ok [OF assms(1,2)] xids_ok [OF assms(1,3)]
  by (simp add: row_slot_def slot_of_def slotKey_inject)

text \<open>What is sent covers every waiting row, when no more than a batch of slots is waiting.\<close>

lemma to_send_covers:
  assumes ok: "store_ok w" and q: "set q \<subseteq> set (disk w xid)"
    and few: "length (collapse q) \<le> MAX_BATCH" and r: "r \<in> set q"
  shows "\<exists>x \<in> set (to_send q). slot_of x = slot_of r \<and> client_seq r \<le> client_seq x"
proof (cases "length q > MAX_BATCH")
  case True
  then have "to_send q = collapse q" using few by (simp add: to_send_def batch_def)
  moreover obtain x where "x \<in> set (collapse q)" "row_slot x = row_slot r" "client_seq r \<le> client_seq x"
    using collapse_facts [of q] r by blast
  moreover have "slot_of x = slot_of r"
    using row_slot_slot_of [OF ok _ _ calculation(3)] q r calculation(2) collapse_subset [of q] by blast
  ultimately show ?thesis by auto
next
  case False
  then have "to_send q = q" by (simp add: to_send_def batch_def)
  with r show ?thesis by auto
qed

text \<open>A row that is not part of the batch is on disk, unmarked, after the batch is settled.\<close>

lemma settle_leaves:
  assumes ok: "store_ok w" and q: "set q \<subseteq> set (disk w xid)"
    and s: "settle D xid (to_send q) sent w = (res, w')"
    and r: "r \<in> set (disk w xid)" "waiting r" "r \<notin> set (to_send q)"
  shows "r \<in> set (disk w' xid) \<and> (\<forall>out. res = Inr out \<longrightarrow> \<not> drained out)"
proof -
  let ?p = "partition (to_send q) (rejected sent)"
  have "row_id r \<notin> Some ` set (ids_of (to_send q))"
  proof
    assume "row_id r \<in> Some ` set (ids_of (to_send q))"
    then obtain x where x: "x \<in> set (to_send q)" "row_id r = row_id x" by (auto simp: set_ids_of)
    with q set_to_send [of q] have "x \<in> set (disk w xid)" by blast
    from same_row [OF ok r(1) this x(2)] x(1) r(3) show False by simp
  qed
  then have out: "row_id r \<notin> Some ` set (fst ?p)" "row_id r \<notin> Some ` mark_id ` set (snd ?p)"
    unfolding partition_ids [of "to_send q" "rejected sent", symmetric] image_Un by blast+
  have f: "r \<in> set (disk w1 xid) \<and> store_ok w1" if "fd_forget D (fst ?p) w = (Inr (), w1)" for w1
    using forget_ok [OF ok that, of xid] r(1) out(1) by (auto simp: drop_ids_def dest: in_prefix)
  have m: "r \<in> set (disk w2 xid) \<and> store_ok w2"
    if "fd_forget D (fst ?p) w = (Inr (), w1)" "fd_refuse D (snd ?p) w1 = (Inr (), w2)" for w1 w2
    using refuse_ok [of w1, OF _ that(2), of xid] f [OF that(1)] in_mark_rows [OF _ out(2)]
    by (auto dest: in_prefix)
  from s show ?thesis
  proof (cases rule: settle_cases)
    case (forget_failed e)
    with forget_fails [OF ok forget_failed(1), of xid] r show ?thesis by (auto dest: in_prefix)
  next
    case (refuse_failed w1 e)
    from f [OF refuse_failed(1)] refuse_fails [of w1, OF _ refuse_failed(2), of xid] refuse_failed(3)
    show ?thesis by (auto dest: in_prefix)
  next
    case (read_failed w1 w2 e)
    from m [OF read_failed(1,2)] pending_keeps [of w2, OF _ read_failed(3), of xid] read_failed(4)
    show ?thesis by (auto dest: in_prefix)
  next
    case (settled w1 w2 left)
    from m [OF settled(1,2)] have "r \<in> set (disk w2 xid)" "store_ok w2" by auto
    with pending_keeps [of w2, OF _ settled(3), of xid] pending_rows(2) [of w2, OF _ settled(3) _ r(2)]
      settled(4)
    show ?thesis by (auto dest: in_prefix)
  qed
qed

lemma flushOnce_delivers:
  assumes ok: "store_ok w" and run: "flushOnce D xid fl w = (res, w')"
    and r: "r \<in> set (disk w xid)" "waiting r"
  shows "client_seq r \<le> seen w' xid (slot_of r) \<or>
    r \<in> set (disk w' xid) \<and> (\<forall>out. res = Inr out \<longrightarrow> \<not> drained out)"
  using run
proof (cases rule: flushOnce_cases)
  case (unreadable e)
  with pending_keeps [OF ok unreadable(1), of xid] r show ?thesis by (auto dest: in_prefix)
next
  case idle
  from pending_rows(2) [OF ok idle(1) r] show ?thesis by simp
next
  case (offline q w1 c w2 e)
  have 1: "store_ok w1" "prefix (disk w xid) (disk w1 xid)" using pending_keeps [OF ok offline(1)] by auto
  have 2: "store_ok w2" "disk w2 xid = disk w1 xid" using flushKey_keeps [OF 1(1) offline(3)] by auto
  from 1 2 flush_keeps [OF 2(1) offline(4), of xid] r offline(5) show ?thesis
    by (auto dest: in_prefix)
next
  case (answered q w1 c w2 sent w3)
  have 1: "store_ok w1" "prefix (disk w xid) (disk w1 xid)" using pending_keeps [OF ok answered(1)] by auto
  have 2: "store_ok w2" "disk w2 xid = disk w1 xid" using flushKey_keeps [OF 1(1) answered(3)] by auto
  have 3: "store_ok w3" "prefix (disk w2 xid) (disk w3 xid)"
    using flush_keeps [OF 2(1) answered(4)] by auto
  have q: "set q \<subseteq> set (disk w3 xid)"
    using pending_rows(1) [OF ok answered(1)] 2(2) 3(2) by (auto dest: in_prefix)
  have r3: "r \<in> set (disk w3 xid)" using r(1) 1(2) 2(2) 3(2) by (auto dest: in_prefix)
  show ?thesis
  proof (cases "r \<in> set (to_send q)")
    case True
    with seen_flush [OF 2(1) answered(4)] settle_seen [OF answered(5), of xid "slot_of r"]
    show ?thesis by (meson order_trans)
  next
    case False
    from settle_leaves [OF 3(1) q answered(5) r3 r(2) this] show ?thesis by simp
  qed
qed

end

text \<open>
  What \<open>submitFlow\<close> is handed: a flush that is one pass of the loop and reports whether it
  drained (as the runner's \<open>flushNow\<close> does), the same store and key source, and a submit that,
  when it is answered, has delivered its final answers.
\<close>

locale submit_env =
  tracked_env disk store_ok D held seen
  for disk :: "'w \<Rightarrow> string \<Rightarrow> row list" and store_ok :: "'w \<Rightarrow> bool" and D :: "('w, 'e) flush_deps"
    and held seen :: "'w \<Rightarrow> string \<Rightarrow> string \<times> string \<Rightarrow> int" +
  fixes S :: "('w, 'e) submit_deps" and xid :: string
  assumes sd_flush_run: "store_ok w \<Longrightarrow> sd_flush S w = (d, w') \<Longrightarrow>
      \<exists>fl res w0. flushOnce D xid fl w = (res, w0) \<and>
        d = (case res of Inl _ \<Rightarrow> False | Inr out \<Rightarrow> drained out) \<and>
        (store_ok w0 \<longrightarrow> store_ok w') \<and> disk w' = disk w0 \<and> seen w' = seen w0"
    and sd_pending_is: "sd_pending S = fd_pending D"
    and sd_mint_is: "sd_mint S = fd_mint D"
    and submit_delivers: "store_ok w \<Longrightarrow> sd_submit S xid k (Some rs) w = (Inr (), w') \<Longrightarrow> r \<in> set rs \<Longrightarrow>
      client_seq r \<le> seen w' xid (slot_of r)"
    and seen_submit: "sd_submit S a k fin w = (answer, w') \<Longrightarrow> seen w b s \<le> seen w' b s"
    and seen_drop: "sd_drop S a w = (f, w') \<Longrightarrow> seen w b s \<le> seen w' b s"
begin

lemma sd_flush_step:
  assumes ok: "store_ok w" and run: "sd_flush S w = (d, w')" and r: "r \<in> set (disk w xid)" "waiting r"
  shows "store_ok w' \<and>
    (client_seq r \<le> seen w' xid (slot_of r) \<or> r \<in> set (disk w' xid) \<and> \<not> d)"
proof -
  from sd_flush_run [OF ok run] obtain fl res w0 where
    f: "flushOnce D xid fl w = (res, w0)"
      "d = (case res of Inl _ \<Rightarrow> False | Inr out \<Rightarrow> drained out)"
      "store_ok w0 \<longrightarrow> store_ok w'" "disk w' = disk w0" "seen w' = seen w0"
    by blast
  from flushOnce_safe [OF ok f(1) r(1)] flushOnce_delivers [OF ok f(1) r] f(2-5) show ?thesis
    by (auto split: sum.splits)
qed

lemma sd_flush_seen:
  assumes "store_ok w" "sd_flush S w = (d, w')"
  shows "seen w b s \<le> seen w' b s"
  using sd_flush_run [OF assms] flushOnce_seen by metis

lemma flush_twice_step:
  assumes ok: "store_ok w" and run: "flush_twice S w = (d, w')"
    and r: "r \<in> set (disk w xid)" "waiting r"
  shows "store_ok w' \<and> (client_seq r \<le> seen w' xid (slot_of r) \<or> r \<in> set (disk w' xid) \<and> \<not> d)"
proof -
  obtain d1 w1 where 1: "sd_flush S w = (d1, w1)" by fastforce
  note s1 = sd_flush_step [OF ok 1 r]
  show ?thesis
  proof (cases d1)
    case True
    with 1 run s1 show ?thesis by (auto simp: flush_twice_def)
  next
    case False
    with 1 run have 2: "sd_flush S w1 = (d, w')" by (simp add: flush_twice_def)
    from s1 have ok1: "store_ok w1" by simp
    show ?thesis
    proof (cases "r \<in> set (disk w1 xid)")
      case True
      from sd_flush_step [OF ok1 2 True r(2)] show ?thesis .
    next
      case gone: False
      have "store_ok w'"
        using sd_flush_run [OF ok1 2] flushOnce_ok [OF ok1] by metis
      with gone s1 sd_flush_seen [OF ok1 2, of xid "slot_of r"] show ?thesis by auto
    qed
  qed
qed

text \<open>
  When the submit went through, every row waiting at its start was delivered to the server
  before the paper was marked and the rows dropped, provided the store could still be read and
  no more than a batch of slots was left.
\<close>

lemma submitFlow_delivers:
  assumes ok: "store_ok w" and run: "submitFlow S xid st w = (Inr Submitted, st', w')"
    and readable: "\<And>w1. flush_twice S w = (False, w1) \<Longrightarrow>
      \<exists>left w2. sd_pending S xid w1 = (Inr left, w2) \<and> length (collapse left) \<le> MAX_BATCH"
    and r: "r \<in> set (disk w xid)" "waiting r"
  shows "client_seq r \<le> seen w' xid (slot_of r)"
proof -
  obtain d w1 where 1: "flush_twice S w = (d, w1)" by fastforce
  obtain final w2 where 2: "remainder S xid d w1 = (final, w2)" by fastforce
  obtain c w3 where 3: "flushKey (submit_key st) (ids_of final) (fd_mint D) w2 = (c, w3)" by fastforce
  obtain a w4 where 4: "sd_submit S xid (flight_key c) (if final = [] then None else Some final) w3 = (a, w4)"
    by fastforce
  from run 1 2 3 4 have a: "a = Inr ()" "w' = snd (sd_drop S xid w4)"
    by (auto simp: submitFlow_def sd_mint_is split: if_splits sum.splits)
  note s1 = flush_twice_step [OF ok 1 r]
  have up: "seen w1 xid s \<le> seen w2 xid s" "seen w2 xid s \<le> seen w3 xid s"
    "seen w3 xid s \<le> seen w4 xid s" "seen w4 xid s \<le> seen w' xid s" for s
  proof -
    show "seen w1 xid s \<le> seen w2 xid s"
      using 2 by (auto simp: remainder_def sd_pending_is seen_pending
          split: if_splits sum.splits prod.splits)
    show "seen w4 xid s \<le> seen w' xid s"
      unfolding a(2) by (rule seen_drop [OF prod.collapse [symmetric]])
  qed (rule flushKey_seen [OF 3], rule seen_submit [OF 4])
  show ?thesis
  proof (cases "client_seq r \<le> seen w1 xid (slot_of r)")
    case True
    with up show ?thesis by (meson order_trans)
  next
    case False
    with s1 have d: "\<not> d" "r \<in> set (disk w1 xid)" "store_ok w1" by auto
    with readable 1 obtain left w2' where p: "sd_pending S xid w1 = (Inr left, w2')"
      "length (collapse left) \<le> MAX_BATCH" by auto
    with d 2 have f: "final = to_send left" "w2' = w2" by (auto simp: remainder_def)
    have p': "fd_pending D xid w1 = (Inr left, w2)" using p(1) f(2) by (simp add: sd_pending_is)
    have ok2: "store_ok w2" using pending_keeps [OF d(3) p'] by simp
    have ok3: "store_ok w3" using flushKey_keeps [OF ok2 3] by simp
    have "r \<in> set left" by (rule pending_rows(2) [OF d(3) p' d(2) r(2)])
    from to_send_covers [OF ok2 pending_rows(1) [OF d(3) p'] p(2) this] obtain x where
      x: "x \<in> set final" "slot_of x = slot_of r" "client_seq r \<le> client_seq x"
      by (auto simp: f(1))
    with submit_delivers [OF ok3, of "flight_key c" final w4 x] 4 a(1)
    have "client_seq x \<le> seen w4 xid (slot_of r)" by (cases final) auto
    with x(3) up(4) [of "slot_of r"] show ?thesis by simp
  qed
qed

end

subsection \<open>The rules of the flow\<close>

text \<open>
  The retry ladder. A voided attempt is never retried; any other failure is, the first time
  at once, then never faster than two seconds nor slower than thirty, with delays that never
  shrink as tries go on and that reach the cap.
\<close>
theorem nextDelay_correct:
  "nextDelay tries (Some ''attempt_voided'') = None \<and>
   (failure \<noteq> Some ''attempt_voided'' \<longrightarrow>
      (\<exists>d. nextDelay tries failure = Some d \<and> 0 \<le> d \<and> d \<le> MAX_RETRY_MS \<and>
         (d = 0 \<longleftrightarrow> tries \<le> 0) \<and> (0 < tries \<longrightarrow> 2000 \<le> d) \<and> (5 \<le> tries \<longrightarrow> d = MAX_RETRY_MS) \<and>
         (\<forall>d'. nextDelay (tries + 1) failure = Some d' \<longrightarrow> d \<le> d')))"
proof -
  have one: "(1 :: int) \<le> 2 ^ n" for n by simp
  have grow: "(2 :: int) ^ n \<le> 2 ^ m" if "n \<le> m" for n m :: nat
    using that by (rule power_increasing) simp
  have "MAX_RETRY_MS \<le> 2000 * 2 ^ nat (tries - 1)" if "5 \<le> tries"
  proof -
    have "4 \<le> nat (tries - 1)" using that by simp
    from grow [OF this] show ?thesis by (simp add: MAX_RETRY_MS_def)
  qed
  moreover have "0 < (2 :: int) ^ nat (tries - 1)" by simp
  moreover have "(2000 :: int) * 2 ^ nat (tries - 1) \<le> 2000 * 2 ^ nat tries"
    using grow [of "nat (tries - 1)" "nat tries"] by simp
  ultimately show ?thesis
    using one [of "nat (tries - 1)"] one [of "nat tries"]
    by (cases "tries \<le> 0") (auto simp: nextDelay_def MAX_RETRY_MS_def min_le_iff_disj simp del: power_le_one_iff
      one_le_power)
qed

theorem nextDelay_correct_witness: "\<exists>d. nextDelay 3 None = Some d \<and> 2000 \<le> d \<and> d \<le> 30000"
  using nextDelay_correct [of 3 None] by (auto simp: MAX_RETRY_MS_def)



text \<open>Sections that were entered, as the server's list gives them.\<close>

definition entered_sections :: "resumed_section list \<Rightarrow> resumed_section list" where
  "entered_sections ss = filter (\<lambda>s. rs_position s \<noteq> None \<and> truthy_str (rs_entered_at s)) ss"

lemma resume_step_eq:
  "resume_step now s acc =
     (if rs_position s \<noteq> None \<and> truthy_str (rs_entered_at s)
      then acc\<lparr>entered := entered acc @ [the (rs_position s)],
               deadlines := jsmap_set (the (rs_position s)) (rs_expires_at s) (deadlines acc),
               closedSections := closedSections acc @ (if section_over s now then [the (rs_position s)] else [])\<rparr>
      else acc)"
  by (auto split: option.split)

lemma resume_fold:
  "entered (fold (resume_step now) ss acc) = entered acc @ map (\<lambda>s. the (rs_position s)) (entered_sections ss)"
  "closedSections (fold (resume_step now) ss acc) = closedSections acc @
     map (\<lambda>s. the (rs_position s)) (filter (\<lambda>s. section_over s now) (entered_sections ss))"
  "jsmap_get (deadlines (fold (resume_step now) ss acc)) =
     jsmap_get (deadlines acc) ++ map_of (rev (map (\<lambda>s. (the (rs_position s), rs_expires_at s)) (entered_sections ss)))"
  by (induction ss arbitrary: acc) (auto simp: entered_sections_def resume_step_eq map_add_def
        fun_eq_iff split: option.splits simp del: resume_step.simps)

text \<open>
  A resuming runner knows what the server knows. It lists exactly the sections that were
  entered, in the server's order; the last deadline given for a position is its deadline; a
  section is closed when it is completed or its deadline is at or before the server's clock; and
  the student is put back on the furthest one.
\<close>
theorem resumedSections_correct:
  "let r = resumedSections sections now; es = entered_sections (nullish sections []) in
     entered r = map (\<lambda>s. the (rs_position s)) es \<and>
     set (closedSections r) = {the (rs_position s) |s. s \<in> set es \<and>
        (truthy_str (rs_completed_at s) \<or> (\<exists>e. rs_expires_at s = Some e \<and> date_parse e \<le> date_parse now))} \<and>
     (\<forall>p. jsmap_get (deadlines r) p =
        map_of (rev (map (\<lambda>s. (the (rs_position s), rs_expires_at s)) es)) p) \<and>
     (furthest r = None \<longleftrightarrow> es = []) \<and>
     (\<forall>p. furthest r = Some p \<longrightarrow> p \<in> set (entered r) \<and> (\<forall>q \<in> set (entered r). q \<le> p))"
proof -
  let ?acc = "fold (resume_step (date_parse now)) (nullish sections [])
    \<lparr>entered = [], deadlines = [], closedSections = [], furthest = None\<rparr>"
  let ?es = "entered_sections (nullish sections [])"
  have r: "entered ?acc = map (\<lambda>s. the (rs_position s)) ?es"
    "closedSections ?acc = map (\<lambda>s. the (rs_position s)) (filter (\<lambda>s. section_over s (date_parse now)) ?es)"
    "jsmap_get (deadlines ?acc) = map_of (rev (map (\<lambda>s. (the (rs_position s), rs_expires_at s)) ?es))"
    by (simp_all add: resume_fold)
  have over: "section_over s n \<longleftrightarrow> truthy_str (rs_completed_at s) \<or>
      (\<exists>e. rs_expires_at s = Some e \<and> date_parse e \<le> n)" for s n
    by (auto simp: section_over_def split: option.splits)
  have res: "resumedSections sections now = ?acc\<lparr>furthest :=
      (if entered ?acc = [] then None else Some (Max (set (entered ?acc))))\<rparr>"
    by (simp add: resumedSections_def Let_def)
  have top: "Max (set (entered ?acc)) \<in> set (entered ?acc)" "\<forall>q \<in> set (entered ?acc). q \<le> Max (set (entered ?acc))"
    if "entered ?acc \<noteq> []" using that by simp_all
  show ?thesis
    unfolding Let_def res using top by (auto simp: r over)
qed

theorem resumedSections_correct_witness:
  "furthest (resumedSections (Some [\<lparr>rs_position = Some 2, rs_entered_at = Some ''t'', rs_expires_at = None,
      rs_completed_at = None\<rparr>]) ''now'') = Some 2"
proof -
  let ?s = "[\<lparr>rs_position = Some 2, rs_entered_at = Some ''t'', rs_expires_at = None, rs_completed_at = None\<rparr>]"
  from resumedSections_correct [of "Some ?s" "''now''"] show ?thesis
    by (cases "furthest (resumedSections (Some ?s) ''now'')") (auto simp: Let_def entered_sections_def)
qed

text \<open>
  The section clock and the rule that closes a section agree. Where the section has no
  earlier deadline of its own the runner shows the attempt's clock; where it has, the shown clock
  is behind the attempt's whenever the attempt has time left, so it reaches zero first; and only
  such a section moves the student on, from the furthest section, and never from the last.
\<close>
theorem section_expiry_matches_clock:
  "(\<not> closesOnSectionExpiry sec att \<longrightarrow> sectionClock c att sec = c) \<and>
   (closesOnSectionExpiry sec att \<longrightarrow> takenAt c \<le> now \<longrightarrow> remaining c now > 0 \<longrightarrow>
      remaining (sectionClock c att sec) now < remaining c now) \<and>
   (advancesOnSectionExpiry sec att position highest is_last \<longleftrightarrow>
      closesOnSectionExpiry sec att \<and> position = highest \<and> \<not> is_last)"
proof -
  have off: "Num 0 < date_parse att - date_parse s \<longleftrightarrow> date_parse s < date_parse att" for s
    by (cases "date_parse att"; cases "date_parse s") simp_all
  have same: "sectionClock c att sec = c" if "\<not> closesOnSectionExpiry sec att"
    using that by (auto simp: sectionClock_def closesOnSectionExpiry_def off Let_def split: option.splits)
  have less: "remaining (sectionClock c att sec) now < remaining c now"
    if "closesOnSectionExpiry sec att" "remaining c now > 0" "takenAt c \<le> now"
  proof -
    from that(1) obtain s where s: "sec = Some s" "date_parse s < date_parse att"
      by (auto simp: closesOnSectionExpiry_def split: option.splits)
    then obtain x y where d: "date_parse s = Num x" "date_parse att = Num y" "x < y"
      by (cases "date_parse att"; cases "date_parse s") auto
    from that(2,3) show ?thesis
      by (cases "remainingMs c") (use s d in \<open>auto simp: sectionClock_def remaining_def zero_jsnum_def js_max_def split: if_splits\<close>)
  qed
  show ?thesis using same less by (auto simp: advancesOnSectionExpiry_def)
qed

theorem section_expiry_matches_clock_witness:
  "remaining (sectionClock \<lparr>remainingMs = Num 3600000, takenAt = 0\<rparr> ''2026-03-01T11:00:00Z''
      (Some ''2026-03-01T10:20:00Z'')) 60000 < remaining \<lparr>remainingMs = Num 3600000, takenAt = 0\<rparr> 60000"
proof -
  have "closesOnSectionExpiry (Some ''2026-03-01T10:20:00Z'') ''2026-03-01T11:00:00Z''"
    by (simp add: closesOnSectionExpiry_def date_parse_eval)
  moreover have "remaining \<lparr>remainingMs = Num 3600000, takenAt = 0\<rparr> 60000 > 0"
    by (simp add: remaining_def)
  ultimately show ?thesis
    using section_expiry_matches_clock [of "Some ''2026-03-01T10:20:00Z''" "''2026-03-01T11:00:00Z''"
      "\<lparr>remainingMs = Num 3600000, takenAt = 0\<rparr>" 60000 0 0 False] by simp
qed

end
