(* ===== verification/ExamServer.thy ===== *)
theory ExamServer
  imports Attempt
begin

text \<open>
  The server side of the answer contract, as far as the client's guarantees depend on it:
  \<open>ExamSession.save_answers\<close> of \<open>app/modules/exam/session.py\<close> and the store-and-replay of
  \<open>app/api/deps.py\<close> as \<open>POST /attempts/{xid}/answers\<close> uses them. The question versions, the
  response validation of the scorer and the section deadlines are an environment; scoring is not
  modelled, so an automatic submit is its change of status. Times are milliseconds.
\<close>

datatype attempt_status = InProgress | SubmittedStatus | Scored | Voided

record stored_answer =
  sa_response :: "answer option"
  sa_seq :: "int option"
  sa_revision :: nat
  sa_time :: int

record server_attempt =
  status :: attempt_status
  deadline :: int
  answers :: "(string \<times> string) \<rightharpoonup> stored_answer"

record exam_env =
  env_slots :: "string \<rightharpoonup> string list"
  env_validate :: "string \<Rightarrow> answer option \<Rightarrow> string option"
  env_expired :: "int \<Rightarrow> string \<Rightarrow> bool"
  env_grace :: int
  env_iso :: "int \<Rightarrow> string"

datatype conflict = AttemptVoided | AttemptFrozen | AttemptExpired | KeyReused

subsection \<open>One delta\<close>

definition reject :: "delta \<Rightarrow> string \<Rightarrow> rejection" where
  "reject d reason =
     \<lparr>rej_question = question_version_xid d, rej_slot = slot_key d, rej_reason = Some reason\<rparr>"

definition delta_slot :: "delta \<Rightarrow> string \<times> string" where
  "delta_slot d = (question_version_xid d, slot_key d)"

text \<open>Why a delta is refused, in the order the checks are made; \<^const>\<open>None\<close> is acceptance.\<close>

definition refusal :: "exam_env \<Rightarrow> int \<Rightarrow> ((string \<times> string) \<rightharpoonup> stored_answer) \<Rightarrow> delta \<Rightarrow> string option" where
  "refusal E now existing d =
     (case env_slots E (question_version_xid d) of
        None \<Rightarrow> Some ''unknown_slot''
      | Some slot_keys \<Rightarrow>
          if slot_key d \<notin> set slot_keys then Some ''unknown_slot''
          else if truthy_str (env_validate E (question_version_xid d) (response d))
          then Some ''schema_invalid''
          else if env_expired E now (question_version_xid d) then Some ''section_expired''
          else case existing (delta_slot d) of
            None \<Rightarrow> None
          | Some row \<Rightarrow>
              (case sa_seq row of
                 Some n \<Rightarrow> if client_seq d \<le> n then Some ''stale_seq'' else None
               | None \<Rightarrow> None))"

definition store_answer :: "((string \<times> string) \<rightharpoonup> stored_answer) \<Rightarrow> delta \<Rightarrow> ((string \<times> string) \<rightharpoonup> stored_answer)" where
  "store_answer existing d =
     (case existing (delta_slot d) of
        None \<Rightarrow> existing(delta_slot d \<mapsto>
          \<lparr>sa_response = response d, sa_seq = Some (client_seq d), sa_revision = 1,
           sa_time = nullish (time_spent_ms d) 0\<rparr>)
      | Some row \<Rightarrow> existing(delta_slot d \<mapsto>
          \<lparr>sa_response = response d, sa_seq = Some (client_seq d), sa_revision = sa_revision row + 1,
           sa_time = sa_time row + nullish (time_spent_ms d) 0\<rparr>))"

record save_state =
  ss_answers :: "(string \<times> string) \<rightharpoonup> stored_answer"
  ss_accepted :: nat
  ss_rejected :: "rejection list"
  ss_last :: int

definition save_delta :: "exam_env \<Rightarrow> int \<Rightarrow> delta \<Rightarrow> save_state \<Rightarrow> save_state" where
  "save_delta E now d st =
     (case refusal E now (ss_answers st) d of
        Some reason \<Rightarrow> st\<lparr>ss_rejected := ss_rejected st @ [reject d reason]\<rparr>
      | None \<Rightarrow> st\<lparr>ss_answers := store_answer (ss_answers st) d,
                    ss_accepted := Suc (ss_accepted st),
                    ss_last := max (ss_last st) (client_seq d)\<rparr>)"

definition save_loop :: "exam_env \<Rightarrow> int \<Rightarrow> delta list \<Rightarrow> save_state \<Rightarrow> save_state" where
  "save_loop E now = fold (save_delta E now)"

subsection \<open>The batch\<close>

definition save_answers ::
  "exam_env \<Rightarrow> int \<Rightarrow> server_attempt \<Rightarrow> delta list \<Rightarrow> (conflict + batch_result) \<times> server_attempt" where
  "save_answers E now att deltas =
     (if status att = Voided then (Inl AttemptVoided, att)
      else if status att = SubmittedStatus \<or> status att = Scored then (Inl AttemptFrozen, att)
      else if deadline att + env_grace E < now then (Inl AttemptExpired, att\<lparr>status := Scored\<rparr>)
      else
        let st = save_loop E now deltas
                   \<lparr>ss_answers = answers att, ss_accepted = 0, ss_rejected = [], ss_last = 0\<rparr>
        in (Inr \<lparr>br_accepted = ss_accepted st, br_rejected = ss_rejected st,
                 br_last_accepted_seq = ss_last st, br_server_now = env_iso E now,
                 br_expires_at = env_iso E (deadline att)\<rparr>,
            att\<lparr>answers := ss_answers st\<rparr>))"

subsection \<open>Store and replay\<close>

text \<open>Stored responses of one attempt's answers scope, by key; bodies are compared as a whole.\<close>

type_synonym idem_store = "string \<rightharpoonup> delta list \<times> batch_result"

definition replay :: "idem_store \<Rightarrow> string \<Rightarrow> delta list \<Rightarrow> conflict + batch_result option" where
  "replay store key deltas =
     (case store key of
        None \<Rightarrow> Inr None
      | Some (deltas', res) \<Rightarrow> if deltas' \<noteq> deltas then Inl KeyReused else Inr (Some res))"

definition post_answers ::
  "exam_env \<Rightarrow> int \<Rightarrow> string \<Rightarrow> delta list \<Rightarrow> server_attempt \<times> idem_store \<Rightarrow>
   (conflict + batch_result) \<times> server_attempt \<times> idem_store" where
  "post_answers E now key deltas s = (case s of (att, store) \<Rightarrow>
     case replay store key deltas of
       Inl c \<Rightarrow> (Inl c, att, store)
     | Inr (Some res) \<Rightarrow> (Inr res, att, store)
     | Inr None \<Rightarrow>
         (case save_answers E now att deltas of
            (Inl c, att') \<Rightarrow> (Inl c, att', store)
          | (Inr res, att') \<Rightarrow> (Inr res, att', store(key \<mapsto> (deltas, res)))))"

subsection \<open>Submit\<close>

text \<open>
  \<open>POST /attempts/{xid}/submit\<close>: final answers are applied first, and only a conflict of a voided
  attempt ends the call; an attempt already marked returns its run.
\<close>

definition post_submit ::
  "exam_env \<Rightarrow> int \<Rightarrow> delta list \<Rightarrow> server_attempt \<Rightarrow> (conflict + unit) \<times> server_attempt" where
  "post_submit E now final att =
     (let (saved, att1) = (if final = [] then (None, att)
                           else case save_answers E now att final of
                             (Inl c, a) \<Rightarrow> (Some c, a) | (Inr _, a) \<Rightarrow> (None, a))
      in if saved = Some AttemptVoided then (Inl AttemptVoided, att1)
         else if status att1 = Voided then (Inl AttemptVoided, att1)
         else (Inr (), att1\<lparr>status := Scored\<rparr>))"

subsection \<open>What a slot holds\<close>

definition seq_of :: "((string \<times> string) \<rightharpoonup> stored_answer) \<Rightarrow> string \<times> string \<Rightarrow> int" where
  "seq_of ans s = (case ans s of None \<Rightarrow> 0 | Some row \<Rightarrow> max 0 (nullish (sa_seq row) 0))"

lemma seq_of_store_answer:
  "seq_of (store_answer ans d) s = (if s = delta_slot d then max 0 (client_seq d) else seq_of ans s)"
  by (auto simp: store_answer_def seq_of_def split: option.split)

lemma refusal_None_seq: "refusal E now ans d = None \<Longrightarrow> seq_of ans (delta_slot d) \<le> max 0 (client_seq d)"
  by (auto simp: refusal_def seq_of_def split: option.splits if_splits)

lemma refusal_stale:
  "refusal E now ans d = Some ''stale_seq'' \<Longrightarrow> client_seq d \<le> seq_of ans (delta_slot d)"
  by (auto simp: refusal_def seq_of_def split: option.splits if_splits)

lemma refusal_reasons:
  "refusal E now ans d = Some reason \<Longrightarrow>
   reason \<in> {''unknown_slot'', ''schema_invalid'', ''section_expired'', ''stale_seq''}"
  by (auto simp: refusal_def split: option.splits if_splits)

lemma save_delta_mono: "seq_of (ss_answers st) s \<le> seq_of (ss_answers (save_delta E now d st)) s"
  using refusal_None_seq [of E now "ss_answers st" d]
  by (auto simp: save_delta_def seq_of_store_answer split: option.split)

lemma save_loop_mono: "seq_of (ss_answers st) s \<le> seq_of (ss_answers (save_loop E now ds st)) s"
  unfolding save_loop_def
proof (induction ds arbitrary: st)
  case (Cons d ds)
  from save_delta_mono [of st s E now d] Cons [of "save_delta E now d st"] show ?case by simp
qed simp

lemma save_loop_rejected: "set (ss_rejected st) \<subseteq> set (ss_rejected (save_loop E now ds st))"
  unfolding save_loop_def
proof (induction ds arbitrary: st)
  case (Cons d ds)
  have "set (ss_rejected st) \<subseteq> set (ss_rejected (save_delta E now d st))"
    by (auto simp: save_delta_def split: option.split)
  with Cons [of "save_delta E now d st"] show ?case by auto
qed simp

lemma save_loop_stores:
  assumes "d \<in> set ds"
  shows "client_seq d \<le> seq_of (ss_answers (save_loop E now ds st)) (delta_slot d) \<or>
    (\<exists>reason. reject d reason \<in> set (ss_rejected (save_loop E now ds st)) \<and>
       reason \<in> {''unknown_slot'', ''schema_invalid'', ''section_expired''})"
  using assms
proof (induction ds arbitrary: st)
  case (Cons x ds)
  let ?st = "save_delta E now x st"
  have step: "save_loop E now (x # ds) st = save_loop E now ds ?st" by (simp add: save_loop_def)
  show ?case
  proof (cases "d \<in> set ds")
    case True
    from Cons.IH [OF this] show ?thesis unfolding step .
  next
    case False
    with Cons.prems have [simp]: "x = d" by simp
    consider (taken) "refusal E now (ss_answers st) d = None"
      | (stale) "refusal E now (ss_answers st) d = Some ''stale_seq''"
      | (other) reason where "refusal E now (ss_answers st) d = Some reason"
          "reason \<in> {''unknown_slot'', ''schema_invalid'', ''section_expired''}"
      using refusal_reasons [of E now "ss_answers st" d]
      by (cases "refusal E now (ss_answers st) d") blast+
    then show ?thesis
    proof cases
      case taken
      then have "client_seq d \<le> seq_of (ss_answers ?st) (delta_slot d)"
        by (simp add: save_delta_def seq_of_store_answer)
      with save_loop_mono [of ?st "delta_slot d" E now ds] show ?thesis unfolding step by linarith
    next
      case stale
      from refusal_stale [OF stale] save_delta_mono [of st "delta_slot d" E now x]
        save_loop_mono [of ?st "delta_slot d" E now ds]
      show ?thesis unfolding step by simp
    next
      case (other reason)
      then have "reject d reason \<in> set (ss_rejected ?st)" by (simp add: save_delta_def)
      with save_loop_rejected [of ?st E now ds] other show ?thesis unfolding step by blast
    qed
  qed
qed simp

text \<open>
  C3: the server never goes back. Whatever a batch holds and in whatever order it arrives, the
  number stored for a slot does not decrease, every delta either leaves its slot at its own
  number or above or is named in \<open>rejected\<close> for being invalid, unknown or too late.
\<close>
theorem save_answers_monotone:
  assumes "save_answers E now att deltas = (Inr res, att')"
  shows "(\<forall>s. seq_of (answers att) s \<le> seq_of (answers att') s) \<and>
    (\<forall>d \<in> set deltas. client_seq d \<le> seq_of (answers att') (delta_slot d) \<or>
       (\<exists>reason \<in> {''unknown_slot'', ''schema_invalid'', ''section_expired''}.
          reject d reason \<in> set (br_rejected res)))"
proof -
  let ?st = "\<lparr>ss_answers = answers att, ss_accepted = 0, ss_rejected = [], ss_last = 0\<rparr>"
  from assms have res: "answers att' = ss_answers (save_loop E now deltas ?st)"
    "br_rejected res = ss_rejected (save_loop E now deltas ?st)"
    by (auto simp: save_answers_def Let_def split: if_splits)
  have "seq_of (answers att) s \<le> seq_of (answers att') s" for s
    using save_loop_mono [of ?st s E now deltas] by (simp add: res)
  moreover have "client_seq d \<le> seq_of (answers att') (delta_slot d) \<or>
      (\<exists>reason \<in> {''unknown_slot'', ''schema_invalid'', ''section_expired''}.
         reject d reason \<in> set (br_rejected res))" if "d \<in> set deltas" for d
    using save_loop_stores [OF that, of E now ?st] by (auto simp: res)
  ultimately show ?thesis by blast
qed

theorem save_answers_monotone_witness:
  "\<exists>res att'. save_answers
       \<lparr>env_slots = [''q'' \<mapsto> [''s'']], env_validate = (\<lambda>_ _. None), env_expired = (\<lambda>_ _. False),
        env_grace = 30000, env_iso = (\<lambda>_. ''t'')\<rparr> 5
       \<lparr>status = InProgress, deadline = 100, answers = Map.empty\<rparr>
       [\<lparr>question_version_xid = ''q'', slot_key = ''s'', response = Some (Text ''a''), client_seq = 2,
         time_spent_ms = None\<rparr>] = (Inr res, att') \<and>
     2 \<le> seq_of (answers att') (''q'', ''s'')"
proof -
  let ?E = "\<lparr>env_slots = [''q'' \<mapsto> [''s'']], env_validate = (\<lambda>_ _. None), env_expired = (\<lambda>_ _. False),
             env_grace = 30000, env_iso = (\<lambda>_. ''t'')\<rparr>"
  let ?a = "\<lparr>status = InProgress, deadline = 100, answers = Map.empty\<rparr> :: server_attempt"
  let ?d = "\<lparr>question_version_xid = ''q'', slot_key = ''s'', response = Some (Text ''a''), client_seq = 2,
             time_spent_ms = None\<rparr> :: delta"
  obtain r a' where run: "save_answers ?E 5 ?a [?d] = (r, a')" by fastforce
  then obtain res where r: "r = Inr res" "br_rejected res = []"
    by (auto simp: save_answers_def save_loop_def save_delta_def refusal_def)
  with run have run': "save_answers ?E 5 ?a [?d] = (Inr res, a')" by simp
  from save_answers_monotone [OF run'] r(2) have "2 \<le> seq_of (answers a') (delta_slot ?d)" by simp
  with run' show ?thesis by (auto simp: delta_slot_def)
qed

end
