(* ===== verification/ExamWorld.thy ===== *)
theory ExamWorld
  imports Flow ExamServer
begin

text \<open>
  The runner's I/O put together: the browser's store, an unreliable network, the server, and the
  other tasks of the page. Every awaited operation ends in an await point, where the next group of
  scripted keystrokes is queued, the store's health and the server's clock move on; a request or
  its reply may be lost. The scripts are arbitrary, so the theorems hold for every interleaving.
  The locales of \<open>Flow\<close> are interpreted here on the model of the code.
\<close>

datatype fate = Deliver | LoseRequest | LoseReply

datatype client_error = StorageError storage_error | NetworkError | NotFound | ApiError conflict

record world =
  w_db :: idb
  w_attempts :: "string \<rightharpoonup> server_attempt"
  w_idem :: "string \<Rightarrow> idem_store"
  w_env :: exam_env
  w_now :: int
  w_perf :: real
  w_uuids :: nat
  w_fates :: "fate list"
  w_typing :: "(string \<times> delta) list list"
  w_health :: "(bool \<times> bool) list"
  w_delays :: "nat list"
  w_log :: "(string \<times> delta list) list"
  w_flight :: "in_flight option"
  w_clock :: "clock option"
  w_refused :: bool
  w_sectionLoss :: bool

subsection \<open>Await points\<close>

definition type_keys :: "(string \<times> delta) list \<Rightarrow> idb \<Rightarrow> idb" where
  "type_keys ks db = fold (\<lambda>(a, d) db. snd (queue a d db)) ks db"

definition other_tasks :: "world \<Rightarrow> world" where
  "other_tasks w =
     (let db = (case w_health w of [] \<Rightarrow> w_db w
                | (can_open, can_write) # _ \<Rightarrow> (w_db w)\<lparr>openable := can_open, writable := can_write\<rparr>);
          keys = (case w_typing w of [] \<Rightarrow> [] | ks # _ \<Rightarrow> ks);
          delay = (case w_delays w of [] \<Rightarrow> 0 | n # _ \<Rightarrow> n)
      in w\<lparr>w_db := type_keys keys db, w_health := tl (w_health w), w_typing := tl (w_typing w),
           w_delays := tl (w_delays w), w_now := w_now w + int delay, w_perf := w_perf w + real delay\<rparr>)"

definition on_store :: "(idb \<Rightarrow> (storage_error + 'a) \<times> idb) \<Rightarrow> world \<Rightarrow> (client_error + 'a) \<times> world" where
  "on_store operation w =
     (case operation (w_db w) of (r, db) \<Rightarrow>
        (case r of Inl e \<Rightarrow> Inl (StorageError e) | Inr x \<Rightarrow> Inr x, other_tasks (w\<lparr>w_db := db\<rparr>)))"

definition idempotencyKey :: "world \<Rightarrow> string \<times> world" where
  "idempotencyKey w = (''key-'' @ show_nat (w_uuids w), w\<lparr>w_uuids := Suc (w_uuids w)\<rparr>)"

subsection \<open>The network and the server\<close>

definition next_fate :: "world \<Rightarrow> fate" where
  "next_fate w = (case w_fates w of [] \<Rightarrow> Deliver | f # _ \<Rightarrow> f)"

definition wire :: "row \<Rightarrow> delta" where
  "wire r = delta.truncate r"

text \<open>The server handles \<open>POST .../answers\<close>.\<close>

definition serve_answers ::
  "string \<Rightarrow> string \<Rightarrow> delta list \<Rightarrow> world \<Rightarrow> (client_error + batch_result) \<times> world" where
  "serve_answers xid key deltas w =
     (case w_attempts w xid of
        None \<Rightarrow> (Inl NotFound, w)
      | Some att \<Rightarrow>
          (case post_answers (w_env w) (w_now w) key deltas (att, w_idem w xid) of
             (r, att', store) \<Rightarrow>
               (case r of Inl c \<Rightarrow> Inl (ApiError c) | Inr res \<Rightarrow> Inr res,
                w\<lparr>w_attempts := (w_attempts w)(xid \<mapsto> att'), w_idem := (w_idem w)(xid := store)\<rparr>)))"

text \<open>The server handles \<open>POST .../submit\<close>.\<close>

definition serve_submit :: "string \<Rightarrow> delta list \<Rightarrow> world \<Rightarrow> (client_error + unit) \<times> world" where
  "serve_submit xid final w =
     (case w_attempts w xid of
        None \<Rightarrow> (Inl NotFound, w)
      | Some att \<Rightarrow>
          (case post_submit (w_env w) (w_now w) final att of
             (r, att') \<Rightarrow>
               (case r of Inl c \<Rightarrow> Inl (ApiError c) | Inr u \<Rightarrow> Inr u,
                w\<lparr>w_attempts := (w_attempts w)(xid \<mapsto> att')\<rparr>)))"

text \<open>One round trip: what the server does, what of it comes back, and the log of what was answered.\<close>

definition round_trip ::
  "string \<Rightarrow> delta list \<Rightarrow> (world \<Rightarrow> (client_error + 'd) \<times> world) \<Rightarrow> world \<Rightarrow>
   (client_error + ('d, client_error) fetched) \<times> world" where
  "round_trip xid deltas serve w =
     (let fate = next_fate w; w0 = w\<lparr>w_fates := tl (w_fates w)\<rparr> in
      if fate = LoseRequest then (Inl NetworkError, other_tasks w0)
      else case serve w0 of (r, w1) \<Rightarrow>
        if fate = LoseReply then (Inl NetworkError, other_tasks w1)
        else case r of
          Inl e \<Rightarrow> (Inr (Problem e), other_tasks w1)
        | Inr d \<Rightarrow> (Inr (Data d), other_tasks (w1\<lparr>w_log := w_log w1 @ [(xid, deltas)]\<rparr>)))"

definition answers_transport :: "(row, batch_result, client_error, world) transport" where
  "answers_transport req w =
     (case (endpoint req, body req, idempotency_key req) of
        (PostAnswers xid, DeltasBody rs, Some key) \<Rightarrow>
          round_trip xid (map wire rs) (serve_answers xid key (map wire rs)) w
      | _ \<Rightarrow> (Inr (Problem NotFound), w))"

definition submit_transport :: "(row, unit, client_error, world) transport" where
  "submit_transport req w =
     (case (endpoint req, body req) of
        (PostSubmit xid, FinalAnswers rs) \<Rightarrow>
          round_trip xid (map wire rs) (serve_submit xid (map wire rs)) w
      | (PostSubmit xid, NoBody) \<Rightarrow> round_trip xid [] (serve_submit xid []) w
      | _ \<Rightarrow> (Inr (Problem NotFound), w))"

subsection \<open>The runner's wiring\<close>

text \<open>\<open>FLUSH_DEPS\<close>, the runner's \<open>flushNow\<close>, and what \<open>doSubmit\<close> hands to \<open>submitFlow\<close>.\<close>

definition FLUSH_DEPS :: "(world, client_error) flush_deps" where
  "FLUSH_DEPS =
     \<lparr>fd_pending = (\<lambda>a. on_store (pending a)),
      fd_flush = flush answers_transport w_perf,
      fd_forget = (\<lambda>ids. on_store (forget ids)),
      fd_refuse = (\<lambda>marks. on_store (refuse marks)),
      fd_mint = idempotencyKey\<rparr>"

definition note_outcome :: "flush_outcome \<Rightarrow> world \<Rightarrow> world" where
  "note_outcome out w =
     w\<lparr>w_flight := out_inFlight out,
       w_clock := (case out_clock out of None \<Rightarrow> w_clock w | Some c \<Rightarrow> Some c),
       w_sectionLoss := (w_sectionLoss w \<or> (\<exists>m \<in> set (out_refused out). mark_reason m = ''section_expired'')),
       w_refused := (w_refused w \<or> (\<exists>m \<in> set (out_refused out). mark_reason m \<noteq> ''section_expired''))\<rparr>"

definition flushNow :: "string \<Rightarrow> world \<Rightarrow> bool \<times> world" where
  "flushNow xid w =
     (case flushOnce FLUSH_DEPS xid (w_flight w) w of
        (Inl _, w') \<Rightarrow> (False, w')
      | (Inr out, w') \<Rightarrow> (drained out, note_outcome out w'))"

definition SUBMIT_DEPS :: "string \<Rightarrow> (world, client_error) submit_deps" where
  "SUBMIT_DEPS xid =
     \<lparr>sd_flush = flushNow xid,
      sd_pending = (\<lambda>a. on_store (pending a)),
      sd_submit = submit submit_transport,
      sd_drop = (\<lambda>a. on_store (drop_attempt a)),
      sd_mint = idempotencyKey\<rparr>"

subsection \<open>What the world holds\<close>

definition w_disk :: "world \<Rightarrow> string \<Rightarrow> row list" where
  "w_disk w a = idb_disk (w_db w) a"

definition w_held :: "world \<Rightarrow> string \<Rightarrow> string \<times> string \<Rightarrow> int" where
  "w_held w a s = (case w_attempts w a of None \<Rightarrow> 0 | Some att \<Rightarrow> seq_of (answers att) s)"

definition log_seqs :: "(string \<times> delta list) list \<Rightarrow> string \<Rightarrow> string \<times> string \<Rightarrow> int list" where
  "log_seqs lg a s = [client_seq d. (b, ds) \<leftarrow> lg, b = a, d \<leftarrow> ds, delta_slot d = s]"

definition w_seen :: "world \<Rightarrow> string \<Rightarrow> string \<times> string \<Rightarrow> int" where
  "w_seen w a s = foldr max (log_seqs (w_log w) a s) 0"

definition no_colon :: "'a delta_scheme \<Rightarrow> bool" where
  "no_colon d \<longleftrightarrow> CHR '':'' \<notin> set (question_version_xid d)"

text \<open>A stored response tells the truth about what the attempt holds now.\<close>

definition idem_ok :: "world \<Rightarrow> bool" where
  "idem_ok w \<longleftrightarrow>
     (\<forall>a k ds res. w_idem w a k = Some (ds, res) \<longrightarrow>
        (\<forall>d \<in> set ds. client_seq d \<le> w_held w a (delta_slot d) \<or>
           (\<exists>reason. reject d reason \<in> set (br_rejected res))))"

definition world_ok :: "world \<Rightarrow> bool" where
  "world_ok w \<longleftrightarrow> idb_ok (w_db w) \<and>
     (\<forall>r \<in> set (objects (w_db w)). no_colon r) \<and>
     (\<forall>ks \<in> set (w_typing w). \<forall>(a, d) \<in> set ks. no_colon d) \<and>
     idem_ok w"

subsection \<open>Await points keep what is stored\<close>

lemma queue_facts:
  "idb_ok db \<Longrightarrow> idb_ok (snd (queue a d db))"
  "prefix (idb_disk db b) (idb_disk (snd (queue a d db)) b)"
  "set (objects (snd (queue a d db))) \<subseteq>
     set (objects db) \<union> {(row_of_delta a d)\<lparr>row_id := Some (next_key db)\<rparr>}"
  using idb_ok_add [of db "row_of_delta a d"]
  by (auto simp: queue_def tx_cases store_add_def idb_disk_def)

lemma no_colon_row [simp]:
  "no_colon (r\<lparr>row_id := i\<rparr>) = no_colon r" "no_colon (row_of_delta a d) = no_colon d"
  "no_colon (mark_row m r) = no_colon r"
  by (simp_all add: no_colon_def row_of_delta_def delta.extend_def)

lemma type_keys_facts:
  assumes "idb_ok db" "\<forall>r \<in> set (objects db). no_colon r" "\<forall>(a, d) \<in> set ks. no_colon d"
  shows "idb_ok (type_keys ks db) \<and> prefix (idb_disk db b) (idb_disk (type_keys ks db) b) \<and>
    (\<forall>r \<in> set (objects (type_keys ks db)). no_colon r)"
  using assms
proof (induction ks arbitrary: db)
  case (Cons k ks)
  obtain a d where k: "k = (a, d)" by fastforce
  let ?db = "snd (queue a d db)"
  have "\<forall>r \<in> set (objects ?db). no_colon r"
    using queue_facts(3) [of a d db] Cons.prems k by fastforce
  moreover have "type_keys (k # ks) db = type_keys ks ?db" by (simp add: type_keys_def k)
  moreover have "\<forall>(a, d) \<in> set ks. no_colon d" using Cons.prems(3) by simp
  ultimately have rest: "idb_ok (type_keys ks ?db)" "prefix (idb_disk ?db b) (idb_disk (type_keys ks ?db) b)"
      "\<forall>r \<in> set (objects (type_keys ks ?db)). no_colon r" "type_keys (k # ks) db = type_keys ks ?db"
    using Cons.IH [OF queue_facts(1) [OF Cons.prems(1)]] by simp_all
  from rest(1,3) prefix_order.trans [OF queue_facts(2) [of db b a d] rest(2)] show ?case
    unfolding rest(4) by simp
qed (simp add: type_keys_def)

lemma idb_ok_health [simp]:
  "idb_ok (db\<lparr>openable := x, writable := y\<rparr>) = idb_ok db"
  "idb_disk (db\<lparr>openable := x, writable := y\<rparr>) b = idb_disk db b"
  by (simp_all add: idb_ok_def idb_disk_def)

lemma other_tasks_fields [simp]:
  "w_attempts (other_tasks w) = w_attempts w" "w_idem (other_tasks w) = w_idem w"
  "w_log (other_tasks w) = w_log w" "w_env (other_tasks w) = w_env w"
  by (simp_all add: other_tasks_def Let_def)

lemma held_other [simp]: "w_held (other_tasks w) = w_held w"
  and seen_other [simp]: "w_seen (other_tasks w) = w_seen w"
  by (intro ext, simp add: w_held_def w_seen_def)+

lemma idem_ok_cong:
  "w_attempts w' = w_attempts w \<Longrightarrow> w_idem w' = w_idem w \<Longrightarrow> idem_ok w' = idem_ok w"
  by (simp add: idem_ok_def w_held_def)

lemma world_okD:
  assumes "world_ok w"
  shows "idb_ok (w_db w)" "\<forall>r \<in> set (objects (w_db w)). no_colon r"
    "\<forall>ks \<in> set (w_typing w). \<forall>(a, d) \<in> set ks. no_colon d" "idem_ok w"
  using assms by (simp_all add: world_ok_def)

lemma other_tasks_ok:
  assumes "world_ok w"
  shows "world_ok (other_tasks w) \<and> prefix (w_disk w b) (w_disk (other_tasks w) b)"
proof -
  let ?db = "case w_health w of [] \<Rightarrow> w_db w
             | (can_open, can_write) # _ \<Rightarrow> (w_db w)\<lparr>openable := can_open, writable := can_write\<rparr>"
  let ?ks = "case w_typing w of [] \<Rightarrow> [] | ks # _ \<Rightarrow> ks"
  note ok = world_okD [OF assms]
  have db: "idb_ok ?db" "idb_disk ?db = idb_disk (w_db w)" "\<forall>r \<in> set (objects ?db). no_colon r"
    using ok by (auto split: list.split prod.split)
  have ks: "\<forall>(a, d) \<in> set ?ks. no_colon d" using ok(3) by (cases "w_typing w") auto
  have "idem_ok (other_tasks w)" using ok(4) idem_ok_cong [of "other_tasks w" w] by simp
  moreover have "\<forall>ks \<in> set (w_typing (other_tasks w)). \<forall>(a, d) \<in> set ks. no_colon d"
    using ok(3) by (cases "w_typing w") (auto simp: other_tasks_def Let_def)
  moreover have "w_db (other_tasks w) = type_keys ?ks ?db" by (simp add: other_tasks_def Let_def)
  ultimately show ?thesis
    using type_keys_facts [OF db(1,3) ks, of b] by (simp add: world_ok_def w_disk_def db(2))
qed

lemma world_ok_db:
  assumes "world_ok w" "idb_ok db" "\<forall>r \<in> set (objects db). no_colon r"
  shows "world_ok (w\<lparr>w_db := db\<rparr>)"
  using assms idem_ok_cong [of "w\<lparr>w_db := db\<rparr>" w] by (simp add: world_ok_def)

text \<open>A store operation on the world: the store's own contract, then an await point.\<close>

lemma on_store_step:
  assumes ok: "world_ok w" and run: "on_store operation w = (res, w')"
    and op: "operation (w_db w) = (r, db)" "idb_ok db" "\<forall>x \<in> set (objects db). no_colon x"
  shows "world_ok w' \<and> prefix (idb_disk db b) (w_disk w' b) \<and>
    res = (case r of Inl e \<Rightarrow> Inl (StorageError e) | Inr x \<Rightarrow> Inr x)"
proof -
  from run op(1) have w': "w' = other_tasks (w\<lparr>w_db := db\<rparr>)"
    "res = (case r of Inl e \<Rightarrow> Inl (StorageError e) | Inr x \<Rightarrow> Inr x)"
    by (simp_all add: on_store_def)
  from other_tasks_ok [OF world_ok_db [OF ok op(2,3)], of b] w' show ?thesis
    by (simp add: w_disk_def)
qed

lemma on_store_server:
  assumes "on_store operation w = (res, w')"
  shows "w_held w' = w_held w \<and> w_seen w' = w_seen w"
  using assms by (auto simp: on_store_def w_held_def w_seen_def fun_eq_iff split: prod.splits)

lemma no_colon_subset:
  "set (objects db') \<subseteq> set (objects db) \<Longrightarrow> \<forall>r \<in> set (objects db). no_colon r \<Longrightarrow>
   \<forall>r \<in> set (objects db'). no_colon r"
  by blast

lemma no_colon_mark:
  "\<forall>r \<in> set rs. no_colon r \<Longrightarrow> \<forall>r \<in> set (mark_rows ms rs). no_colon r"
proof (induction ms arbitrary: rs)
  case (Cons m ms)
  from Cons.IH [of "map (mark_row m) rs"] Cons.prems show ?case by simp
qed simp

lemma pending_step:
  assumes "idb_ok db" "pending a db = (r, db')"
  shows "db' = db"
  using assms by (auto simp: store_op_defs split: if_splits)

lemma forget_step:
  assumes "idb_ok db" "forget ids db = (r, db')" "\<forall>x \<in> set (objects db). no_colon x"
  shows "idb_ok db' \<and> (\<forall>x \<in> set (objects db'). no_colon x)"
  using assms by (auto simp: store_op_defs idb_ok_drop fold_store_delete drop_ids_def split: if_splits)

lemma refuse_step:
  assumes "idb_ok db" "refuse ms db = (r, db')" "\<forall>x \<in> set (objects db). no_colon x"
  shows "idb_ok db' \<and> (\<forall>x \<in> set (objects db'). no_colon x)"
  using assms no_colon_mark [of "objects db" ms]
  by (auto simp: store_op_defs idb_ok_mark fold_store_mark split: if_splits)

interpretation exam_store: answer_store w_disk world_ok
  "\<lambda>a. on_store (pending a)" "\<lambda>ids. on_store (forget ids)" "\<lambda>marks. on_store (refuse marks)"
proof (unfold_locales, goal_cases)
  case (1 w a)
  from idb.ids_ok [OF world_okD(1) [OF 1]] show ?case by (simp add: w_disk_def)
next
  case (2 w a rs w')
  obtain r db where op: "pending a (w_db w) = (r, db)" by fastforce
  note ok = world_okD [OF 2(1)]
  have db: "db = w_db w" by (rule pending_step [OF ok(1) op])
  from on_store_step [OF 2(1,2) op, of a] ok db have
    s: "prefix (w_disk w a) (w_disk w' a)" "r = Inr rs"
    by (auto simp: w_disk_def split: sum.splits)
  from op s(2) have "rs = filter waiting (w_disk w a)"
    by (auto simp: store_op_defs w_disk_def idb_disk_def waiting_def split: if_splits)
  with s(1) show ?case by blast
next
  case (3 w a res w' b)
  obtain r db where op: "pending a (w_db w) = (r, db)" by fastforce
  note ok = world_okD [OF 3(1)]
  have db: "db = w_db w" by (rule pending_step [OF ok(1) op])
  from on_store_step [OF 3(1,2) op, of b] ok db show ?case by (simp add: w_disk_def)
next
  case (4 w ids u w' b)
  obtain r db where op: "forget ids (w_db w) = (r, db)" by fastforce
  note ok = world_okD [OF 4(1)]
  from forget_step [OF ok(1) op ok(2)] on_store_step [OF 4(1,2) op, of b]
  have s: "world_ok w'" "prefix (idb_disk db b) (w_disk w' b)" "r = Inr ()" by (auto split: sum.splits)
  from idb.forget_ok [OF ok(1), of ids "()" db b] op s show ?case
    by (auto simp: w_disk_def intro: prefix_order.trans)
next
  case (5 w ids e w' b)
  obtain r db where op: "forget ids (w_db w) = (r, db)" by fastforce
  note ok = world_okD [OF 5(1)]
  from forget_step [OF ok(1) op ok(2)] on_store_step [OF 5(1,2) op, of b]
  obtain e' where s: "world_ok w'" "prefix (idb_disk db b) (w_disk w' b)" "r = Inl e'"
    by (auto split: sum.splits)
  from idb.forget_fails [OF ok(1), of ids e' db b] op s show ?case
    by (auto simp: w_disk_def intro: prefix_order.trans)
next
  case (6 w marks u w' b)
  obtain r db where op: "refuse marks (w_db w) = (r, db)" by fastforce
  note ok = world_okD [OF 6(1)]
  from refuse_step [OF ok(1) op ok(2)] on_store_step [OF 6(1,2) op, of b]
  have s: "world_ok w'" "prefix (idb_disk db b) (w_disk w' b)" "r = Inr ()" by (auto split: sum.splits)
  from idb.refuse_ok [OF ok(1), of marks "()" db b] op s show ?case
    by (auto simp: w_disk_def intro: prefix_order.trans)
next
  case (7 w marks e w' b)
  obtain r db where op: "refuse marks (w_db w) = (r, db)" by fastforce
  note ok = world_okD [OF 7(1)]
  from refuse_step [OF ok(1) op ok(2)] on_store_step [OF 7(1,2) op, of b]
  obtain e' where s: "world_ok w'" "prefix (idb_disk db b) (w_disk w' b)" "r = Inl e'"
    by (auto split: sum.splits)
  from idb.refuse_fails [OF ok(1), of marks e' db b] op s show ?case
    by (auto simp: w_disk_def intro: prefix_order.trans)
qed

subsection \<open>The server keeps what it answered\<close>

text \<open>\<open>d\<close> is stored at its number or above, or the response says why not.\<close>

definition settled_by :: "((string \<times> string) \<rightharpoonup> stored_answer) \<Rightarrow> batch_result \<Rightarrow> delta \<Rightarrow> bool" where
  "settled_by ans res d \<longleftrightarrow> client_seq d \<le> seq_of ans (delta_slot d) \<or>
     (\<exists>reason. reject d reason \<in> set (br_rejected res))"

definition idem_inv :: "server_attempt \<Rightarrow> idem_store \<Rightarrow> bool" where
  "idem_inv att store \<longleftrightarrow>
     (\<forall>k ds res. store k = Some (ds, res) \<longrightarrow> (\<forall>d \<in> set ds. settled_by (answers att) res d))"

lemma idem_invD: "idem_inv att store \<Longrightarrow> store k = Some (ds, res) \<Longrightarrow> d \<in> set ds \<Longrightarrow> settled_by (answers att) res d"
  by (auto simp: idem_inv_def)

lemma settled_by_mono:
  "settled_by ans res d \<Longrightarrow> (\<And>s. seq_of ans s \<le> seq_of ans' s) \<Longrightarrow> settled_by ans' res d"
  unfolding settled_by_def by (meson order_trans)

lemma save_answers_facts:
  assumes "save_answers E now att ds = (r, att')"
  shows "seq_of (answers att) s \<le> seq_of (answers att') s"
    and "r = Inr res \<Longrightarrow> d \<in> set ds \<Longrightarrow> settled_by (answers att') res d"
proof -
  let ?st = "\<lparr>ss_answers = answers att, ss_accepted = 0, ss_rejected = [], ss_last = 0\<rparr>"
  show "seq_of (answers att) s \<le> seq_of (answers att') s"
    using assms save_loop_mono [of ?st s E now ds]
    by (auto simp: save_answers_def Let_def split: if_splits)
  show "settled_by (answers att') res d" if "r = Inr res" "d \<in> set ds"
    using assms that save_loop_stores [OF that(2), of E now ?st]
    by (auto simp: save_answers_def Let_def settled_by_def split: if_splits)
qed

lemma post_answers_cases:
  assumes "post_answers E now k ds (att, store) = (r, att', store')"
  obtains (replayed) res where "store k = Some (ds, res)" "r = Inr res" "att' = att" "store' = store"
  | (reused) ds' res where "store k = Some (ds', res)" "r = Inl KeyReused" "att' = att" "store' = store"
  | (failed) c where "save_answers E now att ds = (Inl c, att')" "r = Inl c" "store' = store"
  | (saved) res where "save_answers E now att ds = (Inr res, att')" "r = Inr res"
      "store' = store(k \<mapsto> (ds, res))"
proof -
  obtain q a where save: "save_answers E now att ds = (q, a)" by fastforce
  show thesis
  proof (cases "store k")
    case None
    then have post: "post_answers E now k ds (att, store) =
        (case q of Inl c \<Rightarrow> (Inl c, a, store) | Inr res \<Rightarrow> (Inr res, a, store(k \<mapsto> (ds, res))))"
      by (simp add: post_answers_def replay_def save)
    show thesis
    proof (cases q)
      case (Inl c)
      with post assms have "r = Inl c" "att' = a" "store' = store" by simp_all
      with save Inl show thesis by (intro failed [of c]) simp_all
    next
      case (Inr res)
      with post assms have "r = Inr res" "att' = a" "store' = store(k \<mapsto> (ds, res))" by simp_all
      with save Inr show thesis by (intro saved [of res]) simp_all
    qed
  next
    case (Some x)
    obtain ds' res where x: "x = (ds', res)" by fastforce
    show thesis
    proof (cases "ds' = ds")
      case True
      with Some x assms show thesis by (intro replayed [of res]) (simp_all add: post_answers_def replay_def)
    next
      case False
      with Some x assms show thesis by (intro reused) (simp_all add: post_answers_def replay_def)
    qed
  qed
qed

lemma post_answers_mono:
  assumes "post_answers E now k ds (att, store) = (r, att', store')"
  shows "seq_of (answers att) s \<le> seq_of (answers att') s"
  using assms by (cases rule: post_answers_cases) (auto dest: save_answers_facts(1))

lemma post_answers_settles:
  assumes run: "post_answers E now k ds (att, store) = (Inr res, att', store')"
    and inv: "idem_inv att store" and d: "d \<in> set ds"
  shows "settled_by (answers att') res d"
  using run by (cases rule: post_answers_cases)
    (use inv d in \<open>auto dest: idem_invD save_answers_facts(2)\<close>)

lemma idem_inv_mono:
  "idem_inv att store \<Longrightarrow> (\<And>s. seq_of (answers att) s \<le> seq_of (answers att') s) \<Longrightarrow> idem_inv att' store"
  unfolding idem_inv_def by (meson settled_by_mono)

lemma post_answers_inv:
  assumes run: "post_answers E now k ds (att, store) = (r, att', store')" and inv: "idem_inv att store"
  shows "idem_inv att' store'"
proof -
  have inv': "idem_inv att' store" by (rule idem_inv_mono [OF inv post_answers_mono [OF run]])
  from run show ?thesis
  proof (cases rule: post_answers_cases)
    case (saved res)
    then have "\<forall>d \<in> set ds. settled_by (answers att') res d" by (auto intro: save_answers_facts(2))
    with inv' saved(3) show ?thesis by (auto simp: idem_inv_def)
  qed (use inv' in auto)
qed

text \<open>The invariant of the world says this of every attempt; one of an attempt not there is of no answers.\<close>

lemma idem_ok_inv: "idem_ok w \<Longrightarrow> w_attempts w a = Some att \<Longrightarrow> idem_inv att (w_idem w a)"
  unfolding idem_ok_def idem_inv_def settled_by_def w_held_def by (metis option.simps(5))

lemma serve_answers_step:
  assumes ok: "world_ok w" and run: "serve_answers xid k ds w = (r, w')"
  shows "world_ok w' \<and> w_db w' = w_db w \<and> w_log w' = w_log w \<and> w_held w b s \<le> w_held w' b s"
    and "r = Inr res \<Longrightarrow> d \<in> set ds \<Longrightarrow> client_seq d \<le> w_held w' xid (delta_slot d) \<or>
           (\<exists>reason. reject d reason \<in> set (br_rejected res))"
proof -
  have both: "(world_ok w' \<and> w_db w' = w_db w \<and> w_log w' = w_log w \<and> w_held w b s \<le> w_held w' b s) \<and>
    (r = Inr res \<longrightarrow> d \<in> set ds \<longrightarrow> client_seq d \<le> w_held w' xid (delta_slot d) \<or>
           (\<exists>reason. reject d reason \<in> set (br_rejected res)))"
  proof (cases "w_attempts w xid")
    case None
    with run ok show ?thesis by (auto simp: serve_answers_def)
  next
    case (Some att)
    obtain q att' store where p: "post_answers (w_env w) (w_now w) k ds (att, w_idem w xid) = (q, att', store)"
      by (metis prod_cases3)
    with run Some have w': "w' = w\<lparr>w_attempts := (w_attempts w)(xid \<mapsto> att'), w_idem := (w_idem w)(xid := store)\<rparr>"
      "r = (case q of Inl c \<Rightarrow> Inl (ApiError c) | Inr res \<Rightarrow> Inr res)"
      by (simp_all add: serve_answers_def)
    have inv: "idem_inv att (w_idem w xid)" by (rule idem_ok_inv [OF world_okD(4) [OF ok] Some])
    have mono: "w_held w b s \<le> w_held w' b s" for b s
      using post_answers_mono [OF p, of s] Some by (simp add: w_held_def w')
    have "idem_ok w'"
      unfolding idem_ok_def
    proof (intro allI impI ballI)
      fix a k' ds' res' d'
      assume st: "w_idem w' a k' = Some (ds', res')" and d': "d' \<in> set ds'"
      show "client_seq d' \<le> w_held w' a (delta_slot d') \<or> (\<exists>reason. reject d' reason \<in> set (br_rejected res'))"
      proof (cases "a = xid")
        case True
        with st d' idem_invD [OF post_answers_inv [OF p inv]] show ?thesis
          by (auto simp: w' w_held_def settled_by_def)
      next
        case False
        with st have "w_idem w a k' = Some (ds', res')" by (simp add: w')
        with world_okD(4) [OF ok] d' have "client_seq d' \<le> w_held w a (delta_slot d') \<or>
            (\<exists>reason. reject d' reason \<in> set (br_rejected res'))" by (simp add: idem_ok_def)
        with mono [of a "delta_slot d'"] show ?thesis by (meson order_trans)
      qed
    qed
    then have "world_ok w'" using ok by (simp add: world_ok_def w')
    moreover have "client_seq d \<le> w_held w' xid (delta_slot d) \<or> (\<exists>reason. reject d reason \<in> set (br_rejected res))"
      if "r = Inr res" "d \<in> set ds"
      using that post_answers_settles [of "w_env w" "w_now w" k ds att "w_idem w xid" res att' store d] p inv
      by (cases q) (auto simp: w' w_held_def settled_by_def)
    ultimately show ?thesis using mono by (simp add: w')
  qed
  then show "world_ok w' \<and> w_db w' = w_db w \<and> w_log w' = w_log w \<and> w_held w b s \<le> w_held w' b s"
    and "r = Inr res \<Longrightarrow> d \<in> set ds \<Longrightarrow> client_seq d \<le> w_held w' xid (delta_slot d) \<or>
           (\<exists>reason. reject d reason \<in> set (br_rejected res))"
    by blast+
qed

lemma serve_submit_step:
  assumes ok: "world_ok w" and run: "serve_submit xid fin w = (r, w')"
  shows "world_ok w' \<and> w_db w' = w_db w \<and> w_log w' = w_log w \<and> w_held w b s \<le> w_held w' b s"
proof (cases "w_attempts w xid")
  case None
  with run ok show ?thesis by (auto simp: serve_submit_def)
next
  case (Some att)
  obtain q att' where p: "post_submit (w_env w) (w_now w) fin att = (q, att')" by fastforce
  with run Some have w': "w' = w\<lparr>w_attempts := (w_attempts w)(xid \<mapsto> att')\<rparr>"
    by (simp add: serve_submit_def)
  obtain q' att1 where s: "save_answers (w_env w) (w_now w) att fin = (q', att1)" by fastforce
  from p s have "answers att' = answers att1 \<or> answers att' = answers att"
    by (auto simp: post_submit_def Let_def split: if_splits sum.splits)
  then have up: "seq_of (answers att) s \<le> seq_of (answers att') s" for s
    using save_answers_facts(1) [OF s, of s] by auto
  then have mono: "w_held w b s \<le> w_held w' b s" for b s by (simp add: w_held_def w' Some)
  have "idem_ok w'" unfolding idem_ok_def
  proof (intro allI impI ballI)
    fix a k ds res d
    assume "w_idem w' a k = Some (ds, res)" "d \<in> set ds"
    with world_okD(4) [OF ok] have "client_seq d \<le> w_held w a (delta_slot d) \<or>
        (\<exists>reason. reject d reason \<in> set (br_rejected res))" by (simp add: idem_ok_def w')
    with mono [of a "delta_slot d"] show "client_seq d \<le> w_held w' a (delta_slot d) \<or>
        (\<exists>reason. reject d reason \<in> set (br_rejected res))" by (meson order_trans)
  qed
  with ok mono show ?thesis by (simp add: world_ok_def w')
qed

lemma serve_frame:
  "w_log (snd (serve_answers xid k ds w)) = w_log w" "w_log (snd (serve_submit xid fin w)) = w_log w"
  by (simp_all add: serve_answers_def serve_submit_def split: option.split prod.split)

lemma world_ok_fields [simp]:
  "world_ok (w\<lparr>w_fates := x\<rparr>) = world_ok w" "world_ok (w\<lparr>w_log := y\<rparr>) = world_ok w"
  "world_ok (w\<lparr>w_uuids := z\<rparr>) = world_ok w"
  by (simp_all add: world_ok_def idem_ok_def w_held_def)

lemma held_fields [simp]:
  "w_held (w\<lparr>w_fates := x\<rparr>) = w_held w" "w_held (w\<lparr>w_log := y\<rparr>) = w_held w"
  "w_held (w\<lparr>w_uuids := z\<rparr>) = w_held w" "w_held (w\<lparr>w_db := d\<rparr>) = w_held w"
  by (intro ext, simp add: w_held_def)+

lemma seen_log:
  "w_log w' = w_log w \<Longrightarrow> w_seen w' = w_seen w"
  by (intro ext) (simp add: w_seen_def)

lemma foldr_max_le: "(x :: int) \<in> set xs \<Longrightarrow> x \<le> foldr max xs y" "y \<le> foldr max xs y"
proof -
  show low: "y \<le> foldr max xs y" by (induction xs) auto
  show "x \<in> set xs \<Longrightarrow> x \<le> foldr max xs y" by (induction xs) auto
qed

lemma log_append:
  "w_seen w b s \<le> w_seen (w\<lparr>w_log := w_log w @ [(xid, ds)]\<rparr>) b s"
  "d \<in> set ds \<Longrightarrow> client_seq d \<le> w_seen (w\<lparr>w_log := w_log w @ [(xid, ds)]\<rparr>) xid (delta_slot d)"
proof -
  have "foldr max xs 0 \<le> foldr max xs y" if "0 \<le> y" for xs :: "int list" and y
    using that by (induction xs) auto
  then show "w_seen w b s \<le> w_seen (w\<lparr>w_log := w_log w @ [(xid, ds)]\<rparr>) b s"
    by (simp add: w_seen_def log_seqs_def foldr_max_le(2))
  assume "d \<in> set ds"
  then show "client_seq d \<le> w_seen (w\<lparr>w_log := w_log w @ [(xid, ds)]\<rparr>) xid (delta_slot d)"
    unfolding w_seen_def by (intro foldr_max_le(1)) (auto simp: log_seqs_def)
qed

text \<open>A round trip, given what its handler does.\<close>

lemma round_trip_frame:
  assumes run: "round_trip xid ds serve w = (r, w')" and frame: "\<And>v. w_log (snd (serve v)) = w_log v"
  shows "w_seen w b s \<le> w_seen w' b s"
    and "r = Inr (Data d') \<Longrightarrow> d \<in> set ds \<Longrightarrow> client_seq d \<le> w_seen w' xid (delta_slot d)"
proof -
  let ?w0 = "w\<lparr>w_fates := tl (w_fates w)\<rparr>"
  obtain q w1 where s: "serve ?w0 = (q, w1)" by fastforce
  have log: "w_log w1 = w_log w" using frame [of ?w0] s by simp
  have up: "w_seen (other_tasks ?w0) b s = w_seen w b s" "w_seen w1 b s = w_seen w b s"
    "w_seen w b s \<le> w_seen (w1\<lparr>w_log := w_log w1 @ [(xid, ds)]\<rparr>) b s" for b s
    using log_append(1) [of w1 b s xid ds] seen_log [OF log] seen_log [of ?w0 w] by simp_all
  have w0: "w_seen ?w0 = w_seen w" by (rule seen_log) simp
  from run s show "w_seen w b s \<le> w_seen w' b s"
    by (auto simp: round_trip_def Let_def up w0 split: if_splits sum.splits)
  from run s show "client_seq d \<le> w_seen w' xid (delta_slot d)" if "r = Inr (Data d')" "d \<in> set ds"
    using that log_append(2) [of d ds w1 xid]
    by (auto simp: round_trip_def Let_def split: if_splits sum.splits)
qed

lemma round_trip_step:
  assumes ok: "world_ok w" and run: "round_trip xid ds serve w = (r, w')"
    and serve: "\<And>v q v' b s. world_ok v \<Longrightarrow> serve v = (q, v') \<Longrightarrow>
      world_ok v' \<and> w_db v' = w_db v \<and> w_held v b s \<le> w_held v' b s"
  shows "world_ok w' \<and> prefix (w_disk w b) (w_disk w' b) \<and> w_held w b s \<le> w_held w' b s"
    and "r = Inr (Data d) \<Longrightarrow> \<exists>v v'. world_ok v \<and> serve v = (Inr d, v') \<and> w_held w' = w_held v'"
proof -
  let ?w0 = "w\<lparr>w_fates := tl (w_fates w)\<rparr>"
  obtain q w1 where s: "serve ?w0 = (q, w1)" by fastforce
  have ok0: "world_ok ?w0" using ok by simp
  note s1 = serve [OF ok0 s]
  have up: "w_held w b s \<le> w_held w1 b s" using serve [OF ok0 s, of b s] by simp
  have d1: "w_disk w1 = w_disk w" "w_disk ?w0 = w_disk w" using s1 by (simp_all add: w_disk_def fun_eq_iff)
  have after: "world_ok (other_tasks v) \<and> prefix (w_disk w b) (w_disk (other_tasks v) b)"
    if "world_ok v" "w_disk v = w_disk w" for v
    using other_tasks_ok [OF that(1), of b] that(2) by simp
  have d2: "w_disk (w1\<lparr>w_log := l\<rparr>) = w_disk w" for l using d1 by (simp add: w_disk_def fun_eq_iff)
  have ok2: "world_ok (w1\<lparr>w_log := l\<rparr>)" for l using s1 by simp
  from run s show "world_ok w' \<and> prefix (w_disk w b) (w_disk w' b) \<and> w_held w b s \<le> w_held w' b s"
    using after [OF ok0 d1(2)] after [OF conjunct1 [OF s1] d1(1)] after [OF ok2 d2] up
    by (auto simp: round_trip_def Let_def split: if_splits sum.splits)
  show "\<exists>v v'. world_ok v \<and> serve v = (Inr d, v') \<and> w_held w' = w_held v'"
    if "r = Inr (Data d)"
  proof (intro exI conjI)
    from run s that show "serve ?w0 = (Inr d, w1)" "w_held w' = w_held w1"
      by (auto simp: round_trip_def Let_def split: if_splits sum.splits)
  qed (rule ok0)
qed

subsection \<open>The flush and the submit on the world\<close>

lemma wire_fields [simp]:
  "client_seq (wire r) = client_seq r" "delta_slot (wire r) = slot_of r"
  by (simp_all add: wire_def delta_slot_def slot_of_def delta.truncate_def)

lemma FLUSH_DEPS_simps [simp]:
  "fd_pending FLUSH_DEPS = (\<lambda>a. on_store (pending a))"
  "fd_forget FLUSH_DEPS = (\<lambda>ids. on_store (forget ids))"
  "fd_refuse FLUSH_DEPS = (\<lambda>marks. on_store (refuse marks))"
  "fd_mint FLUSH_DEPS = idempotencyKey"
  "fd_flush FLUSH_DEPS = flush answers_transport w_perf"
  by (simp_all add: FLUSH_DEPS_def)

lemma answers_transport_request:
  "answers_transport (flush_request xid rs key) w =
     round_trip xid (map wire rs) (serve_answers xid key (map wire rs)) w"
  by (simp add: answers_transport_def flush_request_def)

lemma flush_round_trip:
  assumes "flush answers_transport w_perf xid rs key w = (answer, w')"
  obtains r where "round_trip xid (map wire rs) (serve_answers xid key (map wire rs)) w = (r, w')"
    "\<And>s. answer = Inr s \<Longrightarrow> \<exists>d. r = Inr (Data d) \<and> rejected s = br_rejected d"
proof (cases answer)
  case (Inl e)
  with assms flush_Inl [of answers_transport w_perf xid rs key w e w'] that show thesis
    by (auto simp: answers_transport_request)
next
  case (Inr s)
  with assms flush_Inr [of answers_transport w_perf xid rs key w s w'] that show thesis
    by (auto simp: answers_transport_request)
qed

lemma idb_ids_apart:
  assumes "idb_ok db" "a \<noteq> b" "r \<in> set (idb_disk db a)" "x \<in> set (idb_disk db b)"
  shows "row_id r \<noteq> row_id x"
proof
  assume same: "row_id r = row_id x"
  have "inj_on row_id (set (objects db))" using idb_okD [OF assms(1)] by (simp add: distinct_map)
  with same assms(3,4) have "r = x" by (auto simp: idb_disk_def dest: inj_onD)
  with assms(2-4) show False by (auto simp: idb_disk_def)
qed

lemma mint_keeps_world:
  assumes "world_ok w" "idempotencyKey w = (k, w')"
  shows "world_ok w' \<and> w_disk w' b = w_disk w b \<and> w_held w' b s = w_held w b s \<and> w_seen w' = w_seen w"
  using assms by (auto simp: idempotencyKey_def w_disk_def intro: seen_log)

lemma reject_key: "rej_key (reject (wire r) reason) = row_slot r"
  by (simp add: rej_key_def reject_def row_slot_def wire_def delta.truncate_def)

interpretation exam_flush: flush_env w_disk world_ok FLUSH_DEPS w_held
proof (intro flush_env.intro flush_env_axioms.intro, goal_cases)
  case 1
  show ?case using exam_store.answer_store_axioms by simp
next
  case (2 w a b r x)
  from idb_ids_apart [OF world_okD(1) [OF 2(1)] 2(2)] 2(3,4) show ?case by (simp add: w_disk_def)
next
  case (3 a w p w' b s)
  then show ?case using on_store_server [of "pending a" w p w'] by simp
next
  case (4 ids w f w' b s)
  then show ?case using on_store_server [of "forget ids" w f w'] by simp
next
  case (5 marks w f w' b s)
  then show ?case using on_store_server [of "refuse marks" w f w'] by simp
next
  case (6 w k w' b s)
  then show ?case using mint_keeps_world [of w k w'] by simp
next
  case (7 w a rs k answer w' b s)
  from 7(2) obtain r where
    "round_trip a (map wire rs) (serve_answers a k (map wire rs)) w = (r, w')"
    by (auto elim: flush_round_trip)
  from round_trip_step(1) [OF 7(1) this] serve_answers_step(1) show ?case by blast
next
  case (8 w a rs k sent w' r)
  from 8(2) obtain d where rt:
    "round_trip a (map wire rs) (serve_answers a k (map wire rs)) w = (Inr (Data d), w')"
    "rejected sent = br_rejected d"
    by simp (metis flush_round_trip)
  from round_trip_step(2) [OF 8(1) rt(1)] serve_answers_step(1) obtain v v' where
    v: "world_ok v" "serve_answers a k (map wire rs) v = (Inr d, v')" "w_held w' = w_held v'"
    by blast
  from 8(3) have "wire r \<in> set (map wire rs)" by simp
  from serve_answers_step(2) [OF v(1,2) refl this] consider
    "client_seq (wire r) \<le> w_held v' a (delta_slot (wire r))"
    | reason where "reject (wire r) reason \<in> set (br_rejected d)" by blast
  then show ?case
  proof cases
    case 2
    then have "row_slot r \<in> rej_key ` set (rejected sent)"
      using reject_key [of r reason] rt(2) by (metis image_eqI)
    with 8(4) show ?thesis by simp
  qed (simp add: v(3))
qed

end
