(* ===== verification/ExamRun.thy ===== *)
theory ExamRun
  imports ExamWorld
begin

text \<open>
  The exam page from the first keystroke to the submit: the remaining interpretations of the
  locales of \<open>Flow\<close> on the world, the steps the page makes, and what no run of it can lose.
\<close>

subsection \<open>Delivery\<close>

lemma flush_seen_mono:
  assumes "flush answers_transport w_perf a rs k w = (answer, w')"
  shows "w_seen w b s \<le> w_seen w' b s"
proof -
  from assms obtain r where
    "round_trip a (map wire rs) (serve_answers a k (map wire rs)) w = (r, w')"
    by (auto elim: flush_round_trip)
  from round_trip_frame(1) [OF this serve_frame(1)] show ?thesis .
qed

interpretation exam_tracked: tracked_env w_disk world_ok FLUSH_DEPS w_held w_seen
proof (intro tracked_env.intro tracked_env_axioms.intro, goal_cases)
  case 1
  show ?case by (rule exam_flush.flush_env_axioms)
next
  case (2 w r a)
  with world_okD(2) [OF 2(1)] show ?case by (auto simp: w_disk_def idb_disk_def no_colon_def)
next
  case (3 a w p w' b s)
  then show ?case using on_store_server [of "pending a" w p w'] by simp
next
  case (4 ids w f w' b s)
  then show ?case using on_store_server [of "forget ids" w f w'] by simp
next
  case (5 marks w f w' b s)
  then show ?case using on_store_server [of "refuse marks" w f w'] by simp
next
  case (6 w k w' b s)
  then show ?case by (auto simp: idempotencyKey_def w_seen_def)
next
  case (7 a rs k w answer w' b s)
  then show ?case using flush_seen_mono by simp
next
  case (8 w a rs k sent w' r)
  from 8(2) obtain d where rt:
    "round_trip a (map wire rs) (serve_answers a k (map wire rs)) w = (Inr (Data d), w')"
    by simp (metis flush_round_trip)
  from 8(3) have "wire r \<in> set (map wire rs)" by simp
  from round_trip_frame(2) [OF rt serve_frame(1) refl this] show ?case by simp
qed

lemma note_outcome_keeps [simp]:
  "w_disk (note_outcome out w) = w_disk w" "w_held (note_outcome out w) = w_held w"
  "w_seen (note_outcome out w) = w_seen w" "world_ok (note_outcome out w) = world_ok w"
  by (auto simp: note_outcome_def w_disk_def w_held_def w_seen_def world_ok_def idem_ok_def fun_eq_iff)

lemma flushNow_run:
  assumes "flushNow xid w = (d, w')"
  shows "\<exists>res w0. flushOnce FLUSH_DEPS xid (w_flight w) w = (res, w0) \<and>
    d = (case res of Inl _ \<Rightarrow> False | Inr out \<Rightarrow> drained out) \<and>
    world_ok w' = world_ok w0 \<and> w_disk w' = w_disk w0 \<and> w_held w' = w_held w0 \<and> w_seen w' = w_seen w0"
  using assms by (auto simp: flushNow_def split: prod.splits sum.splits)

lemma SUBMIT_DEPS_simps [simp]:
  "sd_flush (SUBMIT_DEPS xid) = flushNow xid"
  "sd_pending (SUBMIT_DEPS xid) = (\<lambda>a. on_store (pending a))"
  "sd_submit (SUBMIT_DEPS xid) = submit submit_transport"
  "sd_drop (SUBMIT_DEPS xid) = (\<lambda>a. on_store (drop_attempt a))"
  "sd_mint (SUBMIT_DEPS xid) = idempotencyKey"
  by (simp_all add: SUBMIT_DEPS_def)

lemma submit_transport_request:
  "submit_transport (submit_request xid key fin) w =
     round_trip xid (map wire (nullish fin [])) (serve_submit xid (map wire (nullish fin []))) w"
  by (auto simp: submit_transport_def submit_request_def nullish_def split: option.split list.split)

interpretation exam_submit: submit_env w_disk world_ok FLUSH_DEPS w_held w_seen "SUBMIT_DEPS xid" xid
  for xid
proof (intro submit_env.intro submit_env_axioms.intro, goal_cases)
  case 1
  show ?case by (rule exam_tracked.tracked_env_axioms)
next
  case (2 w d w')
  from flushNow_run [of xid w d w'] 2(2) show ?case by (metis SUBMIT_DEPS_simps(1))
next
  case 3
  show ?case by simp
next
  case 4
  show ?case by simp
next
  case (5 w k rs w' r)
  from 5(2) have rt: "round_trip xid (map wire rs) (serve_submit xid (map wire rs)) w = (Inr (Data ()), w')"
    by (auto simp: submit_def call_cases submit_transport_request nullish_def)
  from 5(3) have "wire r \<in> set (map wire rs)" by simp
  from round_trip_frame(2) [OF rt serve_frame(2) refl this] show ?case by simp
next
  case (6 a k fin w answer w' b s)
  from 6 obtain r where
    "round_trip a (map wire (nullish fin [])) (serve_submit a (map wire (nullish fin []))) w = (r, w')"
    by (cases answer) (auto simp: submit_def call_cases submit_transport_request)
  from round_trip_frame(1) [OF this serve_frame(2)] show ?case .
next
  case (7 a w f w' b s)
  then show ?case using on_store_server [of "drop_attempt a" w f w'] by simp
qed

subsection \<open>Runs of the page\<close>

text \<open>One step of the page of attempt \<open>xid\<close>: a keystroke is queued, or the flush loop runs.\<close>

inductive page_step :: "string \<Rightarrow> world \<Rightarrow> world \<Rightarrow> bool" for xid where
  keystroke: "no_colon d \<Longrightarrow> on_store (queue xid d) w = (r, w') \<Longrightarrow> page_step xid w w'"
| flushed: "flushNow xid w = (dr, w') \<Longrightarrow> page_step xid w w'"

inductive page_run :: "string \<Rightarrow> world \<Rightarrow> world \<Rightarrow> bool" for xid where
  rest: "page_run xid w w"
| more: "page_run xid w w1 \<Longrightarrow> page_step xid w1 w2 \<Longrightarrow> page_run xid w w2"

text \<open>The answer of \<open>r\<close> is in the store, marked or not, or the server holds its slot at its number or above.\<close>

definition safe_in :: "string \<Rightarrow> string \<Rightarrow> row \<Rightarrow> world \<Rightarrow> bool" where
  "safe_in xid a r w \<longleftrightarrow> kept r (w_disk w a) \<or> a = xid \<and> client_seq r \<le> w_held w a (slot_of r)"

lemma kept_trans:
  assumes "kept r rs" "\<And>x. x \<in> set rs \<Longrightarrow> kept x rs' \<or> P x"
    "\<And>x. delta.truncate x = delta.truncate r \<Longrightarrow> P x = P r"
  shows "kept r rs' \<or> P r"
  using assms unfolding kept_def by metis

lemma truncate_slot:
  "delta.truncate x = delta.truncate r \<Longrightarrow> slot_of x = slot_of r \<and> client_seq x = client_seq r"
  by (simp add: slot_of_def delta.truncate_def)

lemma keystroke_step:
  assumes ok: "world_ok w" and d: "no_colon d" and run: "on_store (queue xid d) w = (r, w')"
  shows "world_ok w' \<and> prefix (w_disk w b) (w_disk w' b) \<and> w_held w' = w_held w"
proof -
  obtain q db where op: "queue xid d (w_db w) = (q, db)" by fastforce
  note ok' = world_okD [OF ok]
  from queue_facts(1) [of "w_db w" xid d] queue_facts(2) [of "w_db w" b xid d]
    queue_facts(3) [of xid d "w_db w"] ok'(1,2) d op
  have db: "idb_ok db" "prefix (idb_disk (w_db w) b) (idb_disk db b)" "\<forall>x \<in> set (objects db). no_colon x"
    by auto
  from on_store_step [OF ok run op db(1,3), of b] db(2) on_store_server [OF run] show ?thesis
    by (auto simp: w_disk_def intro: prefix_order.trans)
qed

lemma page_step_safe:
  assumes step: "page_step xid w w'" and ok: "world_ok w" and r: "safe_in xid a r w"
  shows "world_ok w' \<and> safe_in xid a r w'"
  using step
proof (cases rule: page_step.cases)
  case (keystroke d q)
  from keystroke_step [OF ok keystroke, of a] r show ?thesis
    by (auto simp: safe_in_def intro: kept_prefix)
next
  case (flushed d)
  from flushNow_run [OF flushed] obtain res w0 where
    f: "flushOnce FLUSH_DEPS xid (w_flight w) w = (res, w0)"
      "world_ok w' = world_ok w0" "w_disk w' = w_disk w0" "w_held w' = w_held w0"
    by blast
  have up: "w_held w b s \<le> w_held w' b s" for b s
    using exam_flush.flushOnce_held [OF ok f(1)] f(4) by simp
  have one: "kept x (w_disk w' a) \<or> a = xid \<and> client_seq x \<le> w_held w' a (slot_of x)"
    if "x \<in> set (w_disk w a)" for x
    using exam_flush.flushOnce_safe [OF ok f(1) that] f by simp
  have "world_ok w'" using exam_flush.flushOnce_ok [OF ok f(1)] f(2) by simp
  moreover have "safe_in xid a r w'"
  proof (cases "kept r (w_disk w a)")
    case True
    from kept_trans [OF this one] truncate_slot [of _ r] show ?thesis
      unfolding safe_in_def by (metis (no_types, lifting))
  next
    case False
    with r up [of a "slot_of r"] show ?thesis by (auto simp: safe_in_def)
  qed
  ultimately show ?thesis by simp
qed

lemma page_run_safe:
  assumes "page_run xid w w'" "world_ok w" "safe_in xid a r w"
  shows "world_ok w' \<and> safe_in xid a r w'"
  using assms by (induction rule: page_run.induct) (auto dest: page_step_safe)

subsection \<open>A small exam\<close>

text \<open>One answer in the store, a server that knows its question, and a network that works.\<close>

definition sample_row :: row where
  "sample_row = \<lparr>question_version_xid = ''q1'', slot_key = ''s1'', response = Some (Text ''cat''),
                 client_seq = 1, time_spent_ms = None, row_id = Some 1, refused = None,
                 attempt_of = Some ''a''\<rparr>"

definition sample_world :: world where
  "sample_world =
     \<lparr>w_db = \<lparr>available = True, openable = True, writable = True, next_key = 2, objects = [sample_row]\<rparr>,
      w_attempts = [''a'' \<mapsto> \<lparr>status = InProgress, deadline = 100000, answers = Map.empty\<rparr>],
      w_idem = (\<lambda>_ _. None),
      w_env = \<lparr>env_slots = [''q1'' \<mapsto> [''s1'']], env_validate = (\<lambda>_ _. None),
               env_expired = (\<lambda>_ _. False), env_grace = 30000, env_iso = (\<lambda>_. ''1970-01-01T00:00:00Z'')\<rparr>,
      w_now = 0, w_perf = 0, w_uuids = 0, w_fates = [], w_typing = [], w_health = [], w_delays = [],
      w_log = [], w_flight = None, w_clock = None, w_refused = False, w_sectionLoss = False\<rparr>"

lemma sample_ok:
  "world_ok sample_world" "sample_row \<in> set (w_disk sample_world ''a'')" "waiting sample_row"
  by (auto simp: sample_world_def sample_row_def world_ok_def idb_ok_def idem_ok_def no_colon_def
      w_disk_def idb_disk_def waiting_def)

definition offline_world :: world where
  "offline_world = sample_world\<lparr>w_fates := [LoseRequest, LoseRequest]\<rparr>"

lemmas page_eval = flushNow_def flushOnce_def await_def sample_world_def sample_row_def on_store_def
  store_op_defs usable_def other_tasks_def Let_def type_keys_def to_send_def MAX_BATCH_def batch_def
  ids_of_def flushKey_def idempotencyKey_def show_nat_eval settle_def partition_def
  refused_slots_def row_slot_def note_outcome_def store_delete_def

lemmas server_eval = flush_def call_def answers_transport_request round_trip_def next_fate_def
  serve_answers_def post_answers_def replay_def save_answers_def save_loop_def save_delta_def
  refusal_def wire_def delta.truncate_def store_answer_def delta_slot_def

lemma sample_flush: "\<exists>w'. flushNow ''a'' sample_world = (True, w')"
proof -
  have "fst (flushNow ''a'' sample_world)" by (simp add: page_eval, simp add: server_eval page_eval)
  then show ?thesis by (metis (full_types) prod.collapse)
qed

lemma offline_flushes:
  "\<exists>w1. flush_twice (SUBMIT_DEPS ''a'') offline_world = (False, w1) \<and> w_db w1 = w_db sample_world \<and>
     w_fates w1 = [] \<and> w_attempts w1 = w_attempts sample_world \<and> w_health w1 = [] \<and>
     w_typing w1 = [] \<and> w_env w1 = w_env sample_world \<and> w_delays w1 = [] \<and> w_now w1 = 0"
  by (simp add: flush_twice_def offline_world_def, simp add: page_eval, simp add: server_eval page_eval)

lemma offline_submit:
  "\<exists>st' w'. submitFlow (SUBMIT_DEPS ''a'') ''a'' \<lparr>submit_key = None, busy = False\<rparr> offline_world =
     (Inr Submitted, st', w')"
proof -
  from offline_flushes obtain w1 where w1: "flush_twice (SUBMIT_DEPS ''a'') offline_world = (False, w1)"
    "w_db w1 = w_db sample_world" "w_fates w1 = []" "w_attempts w1 = w_attempts sample_world"
    "w_health w1 = []" "w_typing w1 = []" "w_env w1 = w_env sample_world" "w_delays w1 = []" "w_now w1 = 0"
    by blast
  have "fst (submitFlow (SUBMIT_DEPS ''a'') ''a'' \<lparr>submit_key = None, busy = False\<rparr> offline_world) =
    Inr Submitted"
    using w1 by (simp add: submitFlow_def remainder_def page_eval,
      simp add: submit_def call_def submit_transport_request server_eval,
      simp add: page_eval serve_submit_def post_submit_def server_eval)
  then show ?thesis by (metis prod.collapse)
qed

lemma offline_ok:
  "world_ok offline_world" "sample_row \<in> set (w_disk offline_world ''a'')"
  using sample_ok by (simp_all add: offline_world_def w_disk_def)





text \<open>
  C2: the paper is not marked before what was typed has been handed in. When \<open>submitFlow\<close> ends
  in a submitted paper, every answer that was waiting when it began was delivered to the server
  in a request it answered, unless the store could not be read again after two failed flushes or
  more than a batch of slots was still unsent then.
\<close>
theorem submit_delivers_everything:
  assumes "submitFlow (SUBMIT_DEPS xid) xid st w = (Inr Submitted, st', w')"
    and "world_ok w" and "r \<in> set (w_disk w xid)" and "waiting r"
    and "\<And>w1. flush_twice (SUBMIT_DEPS xid) w = (False, w1) \<Longrightarrow>
      \<exists>left w2. on_store (pending xid) w1 = (Inr left, w2) \<and> length (collapse left) \<le> MAX_BATCH"
  shows "client_seq r \<le> w_seen w' xid (slot_of r)"
  by (rule exam_submit.submitFlow_delivers [OF assms(2,1) _ assms(3,4)]) (use assms(5) in simp)

theorem submit_delivers_everything_witness:
  "\<exists>st' w'. submitFlow (SUBMIT_DEPS ''a'') ''a'' \<lparr>submit_key = None, busy = False\<rparr> offline_world =
     (Inr Submitted, st', w') \<and> 1 \<le> w_seen w' ''a'' (''q1'', ''s1'')"
proof -
  from offline_submit obtain st' w' where
    run: "submitFlow (SUBMIT_DEPS ''a'') ''a'' \<lparr>submit_key = None, busy = False\<rparr> offline_world =
      (Inr Submitted, st', w')" by blast
  have "\<exists>left w2. on_store (pending ''a'') w1 = (Inr left, w2) \<and> length (collapse left) \<le> MAX_BATCH"
    if "flush_twice (SUBMIT_DEPS ''a'') offline_world = (False, w1)" for w1
  proof -
    from offline_flushes that have "w_db w1 = w_db sample_world" by auto
    then have "fst (on_store (pending ''a'') w1) = Inr [sample_row]"
      by (simp add: on_store_def store_op_defs usable_def sample_world_def sample_row_def)
    then have "on_store (pending ''a'') w1 = (Inr [sample_row], snd (on_store (pending ''a'') w1))"
      by (metis prod.collapse)
    moreover have "length (collapse [sample_row]) \<le> MAX_BATCH"
      by (simp add: collapse_def collapse_step_def MAX_BATCH_def)
    ultimately show ?thesis by blast
  qed
  from submit_delivers_everything [OF run offline_ok sample_ok(3) this] run show ?thesis
    by (auto simp: slot_of_def sample_row_def)
qed

end
