(* ===== verification/ApiClient.thy ===== *)
theory ApiClient
  imports Prelude
begin

text \<open>
  \<open>student/src/api/session.ts\<close> (token custody and the single-flight refresh) and
  \<open>student/src/api/client.ts\<close> (the middleware that attaches the token, refreshes on a 401 and
  replays once); the console's copies differ in the name of the hint only. The network, the
  other tasks of the page and the sign-in screen are the steps of a transition relation; what
  the client does is recorded as a trace of events.
\<close>

subsection \<open>The session\<close>

record session =
  accessToken :: "string option"
  storage :: "string \<rightharpoonup> string"
  refreshing :: bool

definition SESSION_HINT :: string where
  "SESSION_HINT = ''ielts.student.session''"

definition getAccessToken :: "session \<Rightarrow> string option" where
  "getAccessToken s = accessToken s"

definition isSignedIn :: "session \<Rightarrow> bool" where
  "isSignedIn s \<longleftrightarrow> storage s SESSION_HINT = Some ''1''"

definition storeSession :: "string \<Rightarrow> session \<Rightarrow> session" where
  "storeSession access s = s\<lparr>accessToken := Some access, storage := (storage s)(SESSION_HINT \<mapsto> ''1'')\<rparr>"

definition clearSession :: "session \<Rightarrow> session" where
  "clearSession s = s\<lparr>accessToken := None, storage := (storage s)(SESSION_HINT := None)\<rparr>"

text \<open>
  \<open>refreshSession\<close> up to its first \<open>await\<close>: a second caller joins the promise of the first. Its
  result says whether a request goes out. The rest of the body runs when the reply is in; a
  rejected \<open>fetch\<close> and a body that does not parse both end in the \<open>catch\<close>.
\<close>

datatype refresh_reply = Granted string | RefusedBy nat | Threw

definition refreshSession :: "session \<Rightarrow> bool \<times> session" where
  "refreshSession s = (if refreshing s then (False, s) else (True, s\<lparr>refreshing := True\<rparr>))"

definition refresh_settled :: "refresh_reply \<Rightarrow> session \<Rightarrow> bool \<times> session" where
  "refresh_settled reply s =
     (case reply of
        RefusedBy status \<Rightarrow> (False, (clearSession s)\<lparr>refreshing := False\<rparr>)
      | Granted access \<Rightarrow> (True, (storeSession access s)\<lparr>refreshing := False\<rparr>)
      | Threw \<Rightarrow> (False, s\<lparr>refreshing := False\<rparr>))"

subsection \<open>The middleware\<close>

record request =
  url :: string
  authorization :: "string option"
  body :: "string option"
  body_used :: bool

text \<open>\<open>Request.clone()\<close> throws once the body is read; \<open>fetch\<close> reads it.\<close>

definition clone :: "request \<Rightarrow> request option" where
  "clone r = (if body_used r then None else Some r)"

definition fetched :: "request \<Rightarrow> request" where
  "fetched r = r\<lparr>body_used := (body r \<noteq> None)\<rparr>"

definition ANONYMOUS :: "string list" where
  "ANONYMOUS = [''/auth/otp/request'', ''/auth/otp/verify'', ''/auth/telegram/verify'', ''/auth/refresh'']"

definition isAnonymous :: "string \<Rightarrow> bool" where
  "isAnonymous u \<longleftrightarrow> (\<exists>path \<in> set ANONYMOUS. js_includes path u)"

definition bearer :: "string \<Rightarrow> string" where
  "bearer token = ''Bearer '' @ token"

datatype event =
    Sent string request
  | RefreshSent
  | RefreshDone
  | Replayed string request
  | Delivered string nat
  | Failed string
  | CloneThrew string
  | SignedOut

text \<open>
  \<open>held\<close> is the map \<open>pending\<close>; \<open>flying\<close> are the requests on the wire with the object given to
  \<open>fetch\<close>, \<open>awaiting\<close> the 401 handlers suspended on the refresh, \<open>seen\<close> the ids given out.
\<close>

record client =
  sess :: session
  held :: "string \<rightharpoonup> request"
  flying :: "(string \<times> request) list"
  awaiting :: "(string \<times> request option \<times> request) list"
  seen :: "string set"
  trace :: "event list"

definition emit :: "event list \<Rightarrow> client \<Rightarrow> client" where
  "emit es c = c\<lparr>trace := trace c @ es\<rparr>"

definition pendingReplays :: "client \<Rightarrow> nat" where
  "pendingReplays c = card (dom (held c))"

definition with_token :: "session \<Rightarrow> request \<Rightarrow> request" where
  "with_token s r = (case getAccessToken s of
      Some token \<Rightarrow> if token \<noteq> [] then r\<lparr>authorization := Some (bearer token)\<rparr> else r
    | None \<Rightarrow> r)"

definition send :: "string \<Rightarrow> request \<Rightarrow> client \<Rightarrow> client" where
  "send i r c = emit [Sent i r] (c\<lparr>flying := (i, fetched r) # flying c, seen := insert i (seen c)\<rparr>)"

definition onRequest :: "string \<Rightarrow> request \<Rightarrow> client \<Rightarrow> client" where
  "onRequest i r c =
     (if isAnonymous (url r) then send i r c
      else (let r' = with_token (sess c) r in
        send i r' (c\<lparr>held := (held c)(i := clone r')\<rparr>)))"

definition landed :: "string \<Rightarrow> client \<Rightarrow> client" where
  "landed i c = c\<lparr>flying := filter (\<lambda>x. fst x \<noteq> i) (flying c)\<rparr>"

definition onResponse :: "string \<Rightarrow> request \<Rightarrow> nat \<Rightarrow> client \<Rightarrow> client" where
  "onResponse i r status c =
     (let stored = held c i;
          c = c\<lparr>held := (held c)(i := None)\<rparr>
      in if status \<noteq> 401 \<or> isAnonymous (url r) then emit [Delivered i status] c
         else (case refreshSession (sess c) of (started, s) \<Rightarrow>
           emit (if started then [RefreshSent] else [])
             (c\<lparr>sess := s, awaiting := awaiting c @ [(i, stored, r)]\<rparr>)))"

definition onError :: "string \<Rightarrow> client \<Rightarrow> client" where
  "onError i c = emit [Failed i] (c\<lparr>held := (held c)(i := None)\<rparr>)"

text \<open>The rest of \<open>onResponse\<close>, after \<open>await refreshSession()\<close>.\<close>

definition resume_401 :: "bool \<Rightarrow> string \<times> request option \<times> request \<Rightarrow> client \<Rightarrow> client" where
  "resume_401 renewed waiter c =
     (case waiter of (i, stored, r) \<Rightarrow>
        if \<not> renewed then emit [SignedOut, Delivered i 401] (c\<lparr>sess := clearSession (sess c)\<rparr>)
        else (case (case stored of Some r' \<Rightarrow> Some r' | None \<Rightarrow> clone r) of
            None \<Rightarrow> emit [CloneThrew i] c
          | Some r' \<Rightarrow> emit [Replayed i
              (r'\<lparr>authorization := Some (bearer (nullish (getAccessToken (sess c)) []))\<rparr>)] c))"

text \<open>
  The refresh reply arrives: the promise settles and every handler waiting on it goes on, in
  the order they came, before any other task runs.
\<close>

definition on_refreshed :: "refresh_reply \<Rightarrow> client \<Rightarrow> client" where
  "on_refreshed reply c =
     (case refresh_settled reply (sess c) of (renewed, s) \<Rightarrow>
        fold (resume_401 renewed) (awaiting c)
          (emit [RefreshDone] (c\<lparr>sess := s, awaiting := []\<rparr>)))"

subsection \<open>Runs\<close>

inductive api_step :: "client \<Rightarrow> client \<Rightarrow> bool" where
  Call: "i \<notin> seen c \<Longrightarrow> \<not> body_used r \<Longrightarrow> api_step c (onRequest i r c)"
| Reply: "(i, r) \<in> set (flying c) \<Longrightarrow> api_step c (onResponse i r status (landed i c))"
| Lost: "(i, r) \<in> set (flying c) \<Longrightarrow> api_step c (onError i (landed i c))"
| Refreshed: "refreshing (sess c) \<Longrightarrow> api_step c (on_refreshed reply c)"
| SignIn: "api_step c (c\<lparr>sess := storeSession access (sess c)\<rparr>)"
| SignOut: "api_step c (c\<lparr>sess := clearSession (sess c)\<rparr>)"

definition fresh_page :: "(string \<rightharpoonup> string) \<Rightarrow> client" where
  "fresh_page st = \<lparr>sess = \<lparr>accessToken = None, storage = st, refreshing = False\<rparr>, held = Map.empty,
     flying = [], awaiting = [], seen = {}, trace = []\<rparr>"

inductive api_run :: "client \<Rightarrow> bool" where
  Opened: "api_run (fresh_page st)"
| Stepped: "api_run c \<Longrightarrow> api_step c c' \<Longrightarrow> api_run c'"

subsection \<open>The invariant of a run\<close>

text \<open>
  \<open>flight b es\<close> runs a trace from a state with (\<open>b\<close>) or without a refresh outstanding, and is
  \<^const>\<open>None\<close> when two overlap or one settles that was never sent.
\<close>

fun flight :: "bool \<Rightarrow> event list \<Rightarrow> bool option" where
  "flight b [] = Some b"
| "flight b (RefreshSent # es) = (if b then None else flight True es)"
| "flight b (RefreshDone # es) = (if b then flight False es else None)"
| "flight b (_ # es) = flight b es"

definition replayed_ids :: "event list \<Rightarrow> string list" where
  "replayed_ids tr = concat (map (\<lambda>e. case e of Replayed i _ \<Rightarrow> [i] | _ \<Rightarrow> []) tr)"

definition same_but_token :: "request \<Rightarrow> request \<Rightarrow> bool" where
  "same_but_token r r0 \<longleftrightarrow> r\<lparr>authorization := None\<rparr> = r0\<lparr>authorization := None\<rparr>"

definition good_waiter :: "event list \<Rightarrow> string \<times> request option \<times> request \<Rightarrow> bool" where
  "good_waiter tr w = (case w of (i, stored, r) \<Rightarrow>
     (\<exists>r0. stored = Some r0 \<and> \<not> body_used r0 \<and> Sent i r0 \<in> set tr))"

definition good_event :: "event list \<Rightarrow> event \<Rightarrow> bool" where
  "good_event tr e = (case e of
      Replayed i r \<Rightarrow> \<not> body_used r \<and> (\<exists>r0. Sent i r0 \<in> set tr \<and> same_but_token r r0)
    | CloneThrew _ \<Rightarrow> False
    | _ \<Rightarrow> True)"

definition held_ok :: "client \<Rightarrow> bool" where
  "held_ok c \<longleftrightarrow>
     (\<forall>i r. (i, r) \<in> set (flying c) \<and> \<not> isAnonymous (url r) \<longrightarrow>
        (\<exists>r0. held c i = Some r0 \<and> \<not> body_used r0 \<and> Sent i r0 \<in> set (trace c))) \<and>
     (\<forall>i. (\<forall>r. (i, r) \<in> set (flying c) \<longrightarrow> isAnonymous (url r)) \<longrightarrow> held c i = None)"

definition ids_ok :: "client \<Rightarrow> bool" where
  "ids_ok c \<longleftrightarrow> distinct (map fst (flying c) @ map fst (awaiting c) @ replayed_ids (trace c)) \<and>
     set (map fst (flying c) @ map fst (awaiting c) @ replayed_ids (trace c)) \<subseteq> seen c"

definition api_inv :: "client \<Rightarrow> bool" where
  "api_inv c \<longleftrightarrow> flight False (trace c) = Some (refreshing (sess c)) \<and>
     (refreshing (sess c) \<longleftrightarrow> awaiting c \<noteq> []) \<and>
     list_all (good_waiter (trace c)) (awaiting c) \<and> list_all (good_event (trace c)) (trace c) \<and>
     held_ok c \<and> ids_ok c"

lemma flight_append:
  "flight b (es @ es') = (case flight b es of None \<Rightarrow> None | Some b' \<Rightarrow> flight b' es')"
  by (induction b es rule: flight.induct) auto

lemma replayed_ids_simps [simp]:
  "replayed_ids [] = []" "replayed_ids (tr @ tr') = replayed_ids tr @ replayed_ids tr'"
  "replayed_ids (e # tr) = (case e of Replayed i _ \<Rightarrow> [i] | _ \<Rightarrow> []) @ replayed_ids tr"
  by (simp_all add: replayed_ids_def)

lemma good_mono:
  "good_waiter tr w \<Longrightarrow> good_waiter (tr @ tr') w" "good_event tr e \<Longrightarrow> good_event (tr @ tr') e"
  by (auto simp: good_waiter_def good_event_def split: event.splits)

lemma good_all_mono:
  "list_all (good_waiter tr) ws \<Longrightarrow> list_all (good_waiter (tr @ tr')) ws"
  "list_all (good_event tr) es \<Longrightarrow> list_all (good_event (tr @ tr')) es"
  by (auto simp: list_all_iff intro: good_mono)

lemma emit_fields [simp]:
  "sess (emit es c) = sess c" "held (emit es c) = held c" "flying (emit es c) = flying c"
  "awaiting (emit es c) = awaiting c" "seen (emit es c) = seen c" "trace (emit es c) = trace c @ es"
  by (simp_all add: emit_def)

lemma landed_fields [simp]:
  "sess (landed i c) = sess c" "held (landed i c) = held c"
  "flying (landed i c) = filter (\<lambda>x. fst x \<noteq> i) (flying c)"
  "awaiting (landed i c) = awaiting c" "seen (landed i c) = seen c" "trace (landed i c) = trace c"
  by (simp_all add: landed_def)

text \<open>The handlers released by a refresh touch the trace, and the session when it failed.\<close>

definition resume_events :: "bool \<Rightarrow> string option \<Rightarrow> string \<times> request option \<times> request \<Rightarrow> event list" where
  "resume_events renewed token w = (case w of (i, stored, _) \<Rightarrow>
     if renewed then [Replayed i ((the stored)\<lparr>authorization := Some (bearer (nullish token []))\<rparr>)]
     else [SignedOut, Delivered i 401])"

lemma resume_401_good:
  assumes "good_waiter tr w"
  shows "resume_401 renewed w c = emit (resume_events renewed (accessToken (sess c)) w)
    (if renewed then c else c\<lparr>sess := clearSession (sess c)\<rparr>)"
  using assms by (cases w) (auto simp: resume_401_def resume_events_def good_waiter_def getAccessToken_def)

definition released :: "bool \<Rightarrow> (string \<times> request option \<times> request) list \<Rightarrow> client \<Rightarrow> client" where
  "released renewed ws c = emit (concat (map (resume_events renewed (accessToken (sess c))) ws))
     (if renewed \<or> ws = [] then c else c\<lparr>sess := clearSession (sess c)\<rparr>)"

lemma clearSession_idem [simp]: "clearSession (clearSession s) = clearSession s"
  by (simp add: clearSession_def)

lemma emit_emit [simp]: "emit es (emit es' c) = emit (es' @ es) c"
  by (simp add: emit_def)

lemma emit_update_sess [simp]: "emit es c\<lparr>sess := s\<rparr> = emit es (c\<lparr>sess := s\<rparr>)"
  by (simp add: emit_def)

lemma fold_resume_good:
  "list_all (good_waiter tr) ws \<Longrightarrow> fold (resume_401 renewed) ws c = released renewed ws c"
proof (induction ws arbitrary: c)
  case (Cons w ws)
  have "concat (map (resume_events False t) ws) = concat (map (resume_events False t') ws)" for t t'
    by (rule arg_cong [where f = concat], rule map_cong) (simp_all add: resume_events_def split: prod.split)
  with Cons show ?case
    by (cases renewed) (auto simp: resume_401_good released_def)
qed (simp add: released_def emit_def)

lemma resume_event_facts:
  assumes "good_waiter tr w"
  shows "flight b (resume_events renewed t w) = Some b"
    "replayed_ids (resume_events renewed t w) = (if renewed then [fst w] else [])"
    "list_all (good_event tr) (resume_events renewed t w)"
  using assms by (auto simp: resume_events_def good_waiter_def good_event_def same_but_token_def split: prod.splits)

lemma resume_events_facts:
  assumes "list_all (good_waiter tr) ws"
  shows "flight b (concat (map (resume_events renewed t) ws)) = Some b"
    "replayed_ids (concat (map (resume_events renewed t) ws)) = (if renewed then map fst ws else [])"
    "list_all (good_event tr) (concat (map (resume_events renewed t) ws))"
  using assms by (induction ws) (auto simp: flight_append resume_event_facts)

lemma released_fields [simp]:
  "held (released renewed ws c) = held c" "flying (released renewed ws c) = flying c"
  "awaiting (released renewed ws c) = awaiting c" "seen (released renewed ws c) = seen c"
  "refreshing (sess (released renewed ws c)) = refreshing (sess c)"
  "trace (released renewed ws c) = trace c @ concat (map (resume_events renewed (accessToken (sess c))) ws)"
  by (simp_all add: released_def clearSession_def)

lemma good_trace_append:
  "list_all (good_event tr) tr \<Longrightarrow> list_all (good_event tr) es \<Longrightarrow> list_all (good_event (tr @ es)) (tr @ es)"
  by (simp add: good_all_mono(2))

lemma api_inv_extend:
  assumes "api_inv c" "trace c' = trace c @ es" "flight (refreshing (sess c)) es = Some (refreshing (sess c'))"
    "refreshing (sess c') \<longleftrightarrow> awaiting c' \<noteq> []" "list_all (good_waiter (trace c)) (awaiting c')"
    "list_all (good_event (trace c)) es" "held_ok c'" "ids_ok c'"
  shows "api_inv c'"
  using assms by (simp add: api_inv_def flight_append good_all_mono good_trace_append)

lemma api_inv_on_refreshed:
  assumes inv: "api_inv c" and r: "refreshing (sess c)"
  shows "api_inv (on_refreshed reply c)"
proof -
  obtain renewed s where s: "refresh_settled reply (sess c) = (renewed, s)"
    by (cases "refresh_settled reply (sess c)")
  then have idle: "\<not> refreshing s"
    by (cases reply) (auto simp: refresh_settled_def)
  let ?c = "emit [RefreshDone] (c\<lparr>sess := s, awaiting := []\<rparr>)"
  let ?es = "concat (map (resume_events renewed (accessToken s)) (awaiting c))"
  from inv have ws: "list_all (good_waiter (trace c)) (awaiting c)" by (simp add: api_inv_def)
  then have c': "on_refreshed reply c = released renewed (awaiting c) ?c"
    by (simp add: on_refreshed_def s fold_resume_good)
  note facts = resume_events_facts [OF ws, where renewed = renewed and t = "accessToken s"]
  have "held_ok (released renewed (awaiting c) ?c)"
    using inv by (fastforce simp: api_inv_def held_ok_def)
  moreover have "ids_ok (released renewed (awaiting c) ?c)"
    using inv facts(2) by (auto simp: api_inv_def ids_ok_def)
  ultimately show ?thesis
    unfolding c' using inv r idle facts(1,3)
    by (intro api_inv_extend [OF inv, of _ "RefreshDone # ?es"]) (simp_all add: good_event_def)
qed

lemma held_ok_landed:
  assumes "held_ok c"
  shows "held_ok (landed i c\<lparr>held := (held c)(i := None)\<rparr>)"
  using assms by (auto simp: held_ok_def)

lemma held_ok_cong:
  assumes "held_ok c" "held c' = held c" "flying c' = flying c" "set (trace c) \<subseteq> set (trace c')"
  shows "held_ok c'"
  using assms unfolding held_ok_def by (metis subsetD)

lemma ids_ok_landed:
  assumes "ids_ok c" "(i, r) \<in> set (flying c)"
  shows "ids_ok (landed i c) \<and> i \<notin> set (map fst (flying (landed i c)) @ map fst (awaiting c) @ replayed_ids (trace c)) \<and>
    i \<in> seen c"
proof -
  have "i \<in> set (map fst (flying c))" using assms(2) by force
  with assms(1) show ?thesis
    by (auto simp: ids_ok_def distinct_map_filter)
qed

lemma api_inv_call:
  assumes inv: "api_inv c" and i: "i \<notin> seen c" and r: "\<not> body_used r"
  shows "api_inv (onRequest i r c)"
proof -
  let ?r = "if isAnonymous (url r) then r else with_token (sess c) r"
  have u: "url ?r = url r" "\<not> body_used ?r" "url (fetched ?r) = url r"
    using r by (auto simp: with_token_def fetched_def split: option.split)
  have c': "onRequest i r c = send i ?r (if isAnonymous (url r) then c else c\<lparr>held := (held c)(i \<mapsto> ?r)\<rparr>)"
    using u(2) by (auto simp: onRequest_def clone_def Let_def)
  have free: "i \<notin> set (map fst (flying c))" using inv i by (auto simp: api_inv_def ids_ok_def)
  then have nofly: "(i, x) \<notin> set (flying c)" for x by force
  have "held_ok (onRequest i r c)"
    using inv u nofly unfolding api_inv_def held_ok_def c'
    by (cases "isAnonymous (url r)") (auto simp: send_def)
  moreover have "ids_ok (onRequest i r c)"
    using inv i by (auto simp: api_inv_def ids_ok_def c' send_def)
  ultimately show ?thesis
    using inv by (intro api_inv_extend [OF inv, of _ "[Sent i ?r]"])
      (simp_all add: c' send_def good_event_def api_inv_def)
qed

lemma api_inv_reply:
  assumes inv: "api_inv c" and i: "(i, r) \<in> set (flying c)"
  shows "api_inv (onResponse i r status (landed i c))" "api_inv (onError i (landed i c))"
proof -
  let ?c = "(landed i c)\<lparr>held := (held c)(i := None)\<rparr>"
  from inv have held: "held_ok ?c" and ids: "ids_ok c"
    by (simp_all add: api_inv_def held_ok_landed)
  note own = ids_ok_landed [OF ids i]
  have ext: "api_inv (emit es (?c\<lparr>sess := s, awaiting := ws\<rparr>))"
    if "flight (refreshing (sess c)) es = Some (refreshing s)" "refreshing s \<longleftrightarrow> ws \<noteq> []"
      "list_all (good_waiter (trace c)) ws" "list_all (good_event (trace c)) es" "replayed_ids es = []"
      "map fst ws = map fst (awaiting c) \<or> map fst ws = map fst (awaiting c) @ [i]" for es s ws
  proof (rule api_inv_extend [OF inv, of _ es])
    show "held_ok (emit es (?c\<lparr>sess := s, awaiting := ws\<rparr>))"
      by (rule held_ok_cong [OF held]) auto
    show "ids_ok (emit es (?c\<lparr>sess := s, awaiting := ws\<rparr>))"
      using that(6) own that(5) by (elim disjE) (auto simp: ids_ok_def simp del: set_map)
  qed (use that in simp_all)
  show "api_inv (onError i (landed i c))"
  proof -
    have "onError i (landed i c) = emit [Failed i] (?c\<lparr>sess := sess c, awaiting := awaiting c\<rparr>)"
      by (simp add: onError_def landed_def)
    with ext [of "[Failed i]" "sess c" "awaiting c"] inv show ?thesis
      by (simp add: api_inv_def good_event_def)
  qed
  show "api_inv (onResponse i r status (landed i c))"
  proof (cases "status \<noteq> 401 \<or> isAnonymous (url r)")
    case True
    then have "onResponse i r status (landed i c) = emit [Delivered i status] (?c\<lparr>sess := sess c, awaiting := awaiting c\<rparr>)"
      by (auto simp: onResponse_def landed_def)
    with ext [of "[Delivered i status]" "sess c" "awaiting c"] inv show ?thesis
      by (simp add: api_inv_def good_event_def)
  next
    case False
    let ?es = "if refreshing (sess c) then [] else [RefreshSent]"
    let ?ws = "awaiting c @ [(i, held c i, r)]"
    have "good_waiter (trace c) (i, held c i, r)"
      using inv i False by (auto simp: api_inv_def held_ok_def good_waiter_def)
    then have ws: "list_all (good_waiter (trace c)) ?ws" using inv by (simp add: api_inv_def)
    have c': "onResponse i r status (landed i c) =
        emit ?es (?c\<lparr>sess := (sess c)\<lparr>refreshing := True\<rparr>, awaiting := ?ws\<rparr>)"
      using False by (auto simp: onResponse_def refreshSession_def emit_def)
    show ?thesis
      unfolding c' by (rule ext) (use ws in \<open>auto simp: good_event_def\<close>)
  qed
qed

lemma api_inv_step:
  assumes "api_step c c'" "api_inv c"
  shows "api_inv c'"
  using assms
proof (cases rule: api_step.cases)
  case (SignIn access)
  then show ?thesis using assms(2)
    by (simp add: api_inv_def held_ok_def ids_ok_def storeSession_def)
next
  case SignOut
  then show ?thesis using assms(2)
    by (simp add: api_inv_def held_ok_def ids_ok_def clearSession_def)
qed (simp_all add: assms(2) api_inv_call api_inv_reply api_inv_on_refreshed)

lemma api_inv_run: "api_run c \<Longrightarrow> api_inv c"
proof (induction rule: api_run.induct)
  case (Opened st)
  show ?case by (simp add: fresh_page_def api_inv_def held_ok_def ids_ok_def)
qed (rule api_inv_step)

text \<open>A run used by the witnesses: two calls answered 401, one refresh, both replayed.\<close>

definition get_me :: request where
  "get_me = \<lparr>url = ''/api/v1/me'', authorization = None, body = None, body_used = False\<rparr>"

definition post_answers :: request where
  "post_answers = \<lparr>url = ''/api/v1/attempts/a/answers'', authorization = None, body = Some ''{}'', body_used = False\<rparr>"

definition two_expired :: client where
  "two_expired =
     (let c = onRequest ''2'' post_answers (onRequest ''1'' get_me (fresh_page Map.empty));
          c = onResponse ''1'' (fetched get_me) 401 (landed ''1'' c)
      in onResponse ''2'' (fetched post_answers) 401 (landed ''2'' c))"

lemmas client_eval = isAnonymous_def ANONYMOUS_def onRequest_def send_def with_token_def getAccessToken_def
  fresh_page_def get_me_def post_answers_def clone_def fetched_def onResponse_def refreshSession_def
  landed_def emit_def on_refreshed_def refresh_settled_def resume_401_def storeSession_def clearSession_def
  Let_def nullish_def

lemma two_expired_run: "api_run two_expired"
proof -
  let ?c1 = "onRequest ''1'' get_me (fresh_page Map.empty)"
  let ?c2 = "onRequest ''2'' post_answers ?c1"
  let ?c3 = "onResponse ''1'' (fetched get_me) 401 (landed ''1'' ?c2)"
  have "api_run ?c1" by (rule Stepped [OF Opened Call]) (simp_all add: client_eval)
  then have "api_run ?c2" by (rule Stepped [OF _ Call]) (simp_all add: client_eval)
  then have "api_run ?c3" by (rule Stepped [OF _ Reply]) (simp add: client_eval)
  then have "api_run (onResponse ''2'' (fetched post_answers) 401 (landed ''2'' ?c3))"
    by (rule Stepped [OF _ Reply]) (simp add: client_eval)
  then show ?thesis by (simp add: two_expired_def Let_def)
qed

subsection \<open>What the client guarantees\<close>

text \<open>
  C13: The refresh is single-flight. However calls, replies, losses and sign-ins interleave, no
  refresh request is sent while another is outstanding, and one is outstanding exactly while some
  401 handler waits for it.
\<close>
theorem refresh_single_flight:
  assumes "api_run c"
  shows "flight False (trace c) = Some (refreshing (sess c)) \<and> (refreshing (sess c) \<longleftrightarrow> awaiting c \<noteq> [])"
  using api_inv_run [OF assms] by (simp add: api_inv_def)

theorem refresh_single_flight_witness:
  "flight False (trace two_expired) = Some True \<and> length (awaiting two_expired) = 2"
proof -
  have "refreshing (sess two_expired)" "length (awaiting two_expired) = 2"
    by (simp_all add: two_expired_def client_eval)
  with refresh_single_flight [OF two_expired_run] show ?thesis by simp
qed

text \<open>
  C14: A request is replayed at most once, and the replay is the request that was sent, body
  unread, with another token; cloning never throws.
\<close>
theorem replayed_once_intact:
  assumes "api_run c"
  shows "distinct (replayed_ids (trace c)) \<and>
    (\<forall>e \<in> set (trace c). good_event (trace c) e)"
  using api_inv_run [OF assms] by (simp add: api_inv_def ids_ok_def list_all_iff)

theorem replayed_once_intact_witness:
  "replayed_ids (trace (on_refreshed (Granted ''t'') two_expired)) = [''1'', ''2''] \<and>
   distinct (replayed_ids (trace (on_refreshed (Granted ''t'') two_expired)))"
proof -
  have "refreshing (sess two_expired)" by (simp add: two_expired_def client_eval)
  from Stepped [OF two_expired_run Refreshed [OF this]] have "api_run (on_refreshed (Granted ''t'') two_expired)" .
  from replayed_once_intact [OF this] show ?thesis
    by (simp add: two_expired_def client_eval)
qed

text \<open>
  The replay copies never accumulate: one is held exactly for each authenticated request
  on the wire, so none is held when the wire is silent.
\<close>
theorem held_exactly_in_flight:
  assumes "api_run c"
  shows "dom (held c) = {i. \<exists>r. (i, r) \<in> set (flying c) \<and> \<not> isAnonymous (url r)} \<and>
    (flying c = [] \<longrightarrow> pendingReplays c = 0)"
proof -
  have h: "held_ok c" using api_inv_run [OF assms] by (simp add: api_inv_def)
  have "dom (held c) = {i. \<exists>r. (i, r) \<in> set (flying c) \<and> \<not> isAnonymous (url r)}"
  proof (rule set_eqI)
    fix i
    show "i \<in> dom (held c) \<longleftrightarrow> i \<in> {i. \<exists>r. (i, r) \<in> set (flying c) \<and> \<not> isAnonymous (url r)}"
      using h unfolding held_ok_def by (cases "\<exists>r. (i, r) \<in> set (flying c) \<and> \<not> isAnonymous (url r)") auto
  qed
  then show ?thesis by (simp add: pendingReplays_def)
qed

theorem held_exactly_in_flight_witness: "pendingReplays two_expired = 0"
proof -
  have "flying two_expired = []" by (simp add: two_expired_def client_eval)
  with held_exactly_in_flight [OF two_expired_run] show ?thesis by simp
qed

text \<open>
  C21: A lost connection during the refresh signs the user out. \<open>refreshSession\<close> leaves the hint
  alone when the request threw, so that a reconnect can try again; the 401 handler that waited
  for it clears the session all the same.
\<close>
theorem dropped_refresh_signs_out:
  assumes "api_run c" "refreshing (sess c)"
  shows "isSignedIn (snd (refresh_settled Threw (sess c))) = isSignedIn (sess c) \<and>
    \<not> isSignedIn (sess (on_refreshed Threw c)) \<and> SignedOut \<in> set (trace (on_refreshed Threw c))"
proof -
  have ws: "list_all (good_waiter (trace c)) (awaiting c)" "awaiting c \<noteq> []"
    using api_inv_run [OF assms(1)] assms(2) by (simp_all add: api_inv_def)
  then obtain w ws where w: "awaiting c = w # ws" by (cases "awaiting c") auto
  have "SignedOut \<in> set (resume_events False t w)" for t
    by (cases w) (simp add: resume_events_def)
  then show ?thesis using fold_resume_good [OF ws(1)]
    by (simp add: on_refreshed_def refresh_settled_def w released_def isSignedIn_def clearSession_def)
qed

theorem dropped_refresh_signs_out_witness:
  "\<not> isSignedIn (sess (on_refreshed Threw two_expired))"
proof -
  have "refreshing (sess two_expired)" by (simp add: two_expired_def client_eval)
  from dropped_refresh_signs_out [OF two_expired_run this] show ?thesis by simp
qed

end
