(* ===== verification/Problems.thy ===== *)
theory Problems
  imports Prelude
begin

text \<open>
  Problem documents and what is shown of them: \<open>problemText\<close> of \<open>api/client.ts\<close>, which both clients share,
  and the phone numbers both ask for.
\<close>

subsection \<open>Problem documents\<close>

record finding =
  finding_code :: "string option"
  message :: "string option"
  path :: "string option"

record problem =
  problem_title :: "string option"
  problem_code :: "string option"
  findings :: "finding list option"

text \<open>In a template an absent string reads "undefined"; \<open>join\<close> renders it empty.\<close>

definition coalesce :: "'a option \<Rightarrow> 'a option \<Rightarrow> 'a option" where
  "coalesce x y = (case x of None \<Rightarrow> y | Some v \<Rightarrow> Some v)"

definition finding_text :: "finding \<Rightarrow> string" where
  "finding_text f =
     (let said = coalesce (message f) (finding_code f)
      in if truthy_str (path f) then nullish (path f) [] @ '': '' @ nullish said ''undefined''
         else nullish said [])"

definition problemText :: "problem option \<Rightarrow> string" where
  "problemText err =
     (case err of
        None \<Rightarrow> ''Something went wrong.''
      | Some p \<Rightarrow>
          (case findings p of
             Some (f # fs) \<Rightarrow> js_join [char_of (10 :: nat)] (map finding_text (f # fs))
           | _ \<Rightarrow> nullish (coalesce (problem_title p) (problem_code p)) ''Something went wrong.''))"

text \<open>
  A thrown value, as \<open>problemText\<close> reads it: an \<open>Error\<close> has a message, and none of the fields of a
  problem document.
\<close>

datatype failure = ApiProblem problem | JsError string

definition as_problem :: "failure \<Rightarrow> problem option" where
  "as_problem f = (case f of
      ApiProblem p \<Rightarrow> Some p
    | JsError _ \<Rightarrow> Some \<lparr>problem_title = None, problem_code = None, findings = None\<rparr>)"

text \<open>The pattern of a phone number, which every form and the server share.\<close>

definition uz_phone :: "string \<Rightarrow> bool" where
  "uz_phone s \<longleftrightarrow> take 4 s = ''+998'' \<and> length s = 13 \<and> list_all is_digit (drop 4 s)"

end
