(* ===== verification/Palette.thy ===== *)
theory Palette
  imports Prelude
begin

text \<open>
  The question navigator of \<open>student/src/exam/palette.ts\<close>: markers, the grouping of the run of
  questions into parts, the count of blanks, and the clamped step.
\<close>

record slot =
  number :: int
  part :: int
  answered :: bool
  flagged :: bool

datatype shape = Square | Circle

record marker_view =
  marker_shape :: shape
  marker_answered :: bool
  marker_current :: bool

record part_group =
  group_part :: int
  group_slots :: "slot list"

definition marker :: "slot \<Rightarrow> int \<Rightarrow> marker_view" where
  "marker s current =
     \<lparr>marker_shape = (if flagged s then Circle else Square), marker_answered = answered s,
      marker_current = (number s = current)\<rparr>"

definition group_step :: "slot \<Rightarrow> part_group list \<Rightarrow> part_group list" where
  "group_step s groups =
     (if groups \<noteq> [] \<and> group_part (last groups) = part s
      then butlast groups @ [(last groups)\<lparr>group_slots := group_slots (last groups) @ [s]\<rparr>]
      else groups @ [\<lparr>group_part = part s, group_slots = [s]\<rparr>])"

definition byPart :: "slot list \<Rightarrow> part_group list" where
  "byPart slots = fold group_step slots []"

definition unanswered :: "slot list \<Rightarrow> int" where
  "unanswered slots = fold (\<lambda>s n. n + (if answered s then 0 else 1)) slots 0"

definition step :: "slot list \<Rightarrow> int \<Rightarrow> int \<Rightarrow> int" where
  "step slots current delta =
     (case find_index (\<lambda>s. number s = current) slots of
        None \<Rightarrow> current
      | Some index \<Rightarrow>
          let next' = int index + delta in
          if next' < 0 \<or> next' \<ge> int (length slots) then current
          else number (slots ! nat next'))"

definition groups_ok :: "part_group list \<Rightarrow> bool" where
  "groups_ok gs \<longleftrightarrow> (\<forall>g \<in> set gs. group_slots g \<noteq> [] \<and> (\<forall>s \<in> set (group_slots g). part s = group_part g)) \<and>
     distinct_adj (map group_part gs)"

lemma group_step_ok:
  assumes "groups_ok gs"
  shows "groups_ok (group_step s gs) \<and>
    concat (map group_slots (group_step s gs)) = concat (map group_slots gs) @ [s]"
proof (cases gs rule: rev_cases)
  case Nil
  then show ?thesis by (simp add: group_step_def groups_ok_def)
next
  case (snoc hs g)
  with assms show ?thesis
    by (auto simp: group_step_def groups_ok_def distinct_adj_append_iff)
qed

lemma fold_group_step_ok:
  "groups_ok gs \<Longrightarrow> groups_ok (fold group_step slots gs) \<and>
   concat (map group_slots (fold group_step slots gs)) = concat (map group_slots gs) @ slots"
proof (induction slots arbitrary: gs)
  case (Cons s slots)
  from group_step_ok [OF Cons.prems, of s] Cons.IH [of "group_step s gs"] show ?case by simp
qed simp

text \<open>
  The bar shows every question once and in order. Grouping by part loses and reorders
  nothing, no group is empty or mixes parts, and neighbouring groups are of different parts.
\<close>
theorem byPart_correct:
  "concat (map group_slots (byPart slots)) = slots \<and>
   (\<forall>g \<in> set (byPart slots). group_slots g \<noteq> [] \<and> (\<forall>s \<in> set (group_slots g). part s = group_part g)) \<and>
   distinct_adj (map group_part (byPart slots))"
  using fold_group_step_ok [of "[]" slots] by (simp add: byPart_def groups_ok_def)

theorem byPart_correct_witness:
  "concat (map group_slots (byPart [\<lparr>number = 1, part = 1, answered = True, flagged = False\<rparr>])) \<noteq> []"
  using byPart_correct [of "[\<lparr>number = 1, part = 1, answered = True, flagged = False\<rparr>]"] by simp

lemma find_number:
  assumes "distinct (map number slots)" "i < length slots"
  shows "find_index (\<lambda>s. number s = number (slots ! i)) slots = Some i"
  unfolding find_index_Some_iff
  using assms by (auto simp: distinct_conv_nth)

text \<open>
  Stepping is clamped, never wrapping. From question \<open>i\<close> of the run a step leads to the
  question beside it, and at either end it stays; so stepping forward and back again returns,
  except at the end, where it moved nowhere.
\<close>
theorem step_clamped:
  assumes "distinct (map number slots)" and "i < length slots"
  shows "step slots (number (slots ! i)) 1 = number (slots ! min (i + 1) (length slots - 1)) \<and>
    step slots (number (slots ! i)) (- 1) = number (slots ! (i - 1)) \<and>
    (i + 1 < length slots \<longrightarrow> step slots (step slots (number (slots ! i)) 1) (- 1) = number (slots ! i)) \<and>
    unanswered slots = int (length (filter (\<lambda>s. \<not> answered s) slots))"
proof -
  have fwd: "step slots (number (slots ! i)) 1 = number (slots ! min (i + 1) (length slots - 1))"
    if "i < length slots" for i
  proof (cases "i + 1 < length slots")
    case True
    then have "min (i + 1) (length slots - 1) = i + 1" "nat (int i + 1) = i + 1" by auto
    then show ?thesis using True that by (simp add: step_def find_number [OF assms(1)] Let_def)
  next
    case False
    then have "i = length slots - 1" "min (i + 1) (length slots - 1) = i" using that by auto
    then show ?thesis using that False by (simp add: step_def find_number [OF assms(1)] Let_def)
  qed
  have bwd: "step slots (number (slots ! i)) (- 1) = number (slots ! (i - 1))" if "i < length slots" for i
    using that by (cases i) (auto simp: step_def find_number [OF assms(1)] Let_def nat_diff_distrib)
  have "unanswered slots = int (length (filter (\<lambda>s. \<not> answered s) slots))"
  proof -
    have "fold (\<lambda>s n. n + (if answered s then 0 else 1)) slots k = k + int (length (filter (\<lambda>s. \<not> answered s) slots))" for k
      by (induction slots arbitrary: k) auto
    then show ?thesis by (simp add: unanswered_def)
  qed
  moreover have "step slots (step slots (number (slots ! i)) 1) (- 1) = number (slots ! i)"
    if "i + 1 < length slots"
  proof -
    have "min (i + 1) (length slots - 1) = i + 1" using that by simp
    with fwd [OF assms(2)] bwd [OF that] show ?thesis by simp
  qed
  ultimately show ?thesis using fwd [OF assms(2)] bwd [OF assms(2)] by blast
qed

theorem step_clamped_witness:
  "step [\<lparr>number = 1, part = 1, answered = True, flagged = False\<rparr>,
         \<lparr>number = 2, part = 1, answered = False, flagged = False\<rparr>] 2 1 = 2"
  using step_clamped [of "[\<lparr>number = 1, part = 1, answered = True, flagged = False\<rparr>,
         \<lparr>number = 2, part = 1, answered = False, flagged = False\<rparr>]" 1] by simp

end
