(* ===== verification/Runner.thy ===== *)
theory Runner
  imports ApiClient Problems Flow ExamServer Palette
begin

text \<open>
  The exam screen, \<open>student/src/exam/Runner.tsx\<close>, and the viewport rule \<open>viewport.ts\<close>: the
  component's state and refs are one record, every handler and effect a function on it; awaited
  I/O is a function on an opaque world that may fail. An effect runs after a commit only when one
  of its dependencies changed, which is modelled where it matters (the timer-zero effect).
\<close>

subsection \<open>The viewport\<close>

definition EXAM_MIN_WIDTH :: string where
  "EXAM_MIN_WIDTH = ''(min-width: 1024px)''"

definition widen :: "bool \<Rightarrow> bool \<Rightarrow> bool" where
  "widen previous matches = (previous \<or> matches)"

text \<open>\<open>matchMedia\<close> is absent on an old browser.\<close>

definition wideEnough :: "(string \<Rightarrow> bool) option \<Rightarrow> bool" where
  "wideEnough matchMedia = (case matchMedia of None \<Rightarrow> True | Some query \<Rightarrow> query EXAM_MIN_WIDTH)"

subsection \<open>The paper and the state\<close>

record paper_question =
  pq_number :: int
  pq_xid :: string
  pq_slot_keys :: "string list option"

record paper_group =
  pg_questions :: "paper_question list option"

record paper_section =
  ps_position :: int
  ps_groups :: "paper_group list option"

record started =
  st_xid :: string
  st_mode :: exam_mode
  st_server_now :: string
  st_expires_at :: string

record saved_answer =
  sv_question :: string
  sv_slot :: string
  sv_seq :: "int option"
  sv_response :: "answer option"

record saved_state =
  sv_answers :: "saved_answer list option"
  sv_sections :: "resumed_section list option"
  sv_server_now :: string

datatype storage_state = Probing | StorageOk | Broken

datatype route = ExamPage | ResultPage string | HomePage

record runner =
  r_error :: "string option"
  r_started :: "started option"
  r_paper :: "paper_section list option"
  r_clock :: "clock option"
  r_sectionIndex :: nat
  r_current :: int
  r_answers :: "string \<rightharpoonup> answer"
  r_confirming :: bool
  r_refused :: bool
  r_sectionLoss :: bool
  r_closedSections :: "int set"
  r_sectionDeadlines :: "int \<rightharpoonup> string option"
  r_wide :: bool
  r_storage :: storage_state
  r_flagged :: "int set"
  r_submitting :: bool
  r_seqs :: "string \<rightharpoonup> int"
  r_entered :: "int set"
  r_autoTries :: nat
  r_lastFailure :: "string option"
  r_retryTimer :: "int option"
  r_route :: route

definition answered :: "answer option \<Rightarrow> bool" where
  "answered value = (case value of
      Some (Many chosen) \<Rightarrow> length chosen > 0
    | Some (Text t) \<Rightarrow> t \<noteq> []
    | None \<Rightarrow> False)"

definition section_questions :: "paper_section \<Rightarrow> paper_question list" where
  "section_questions s = concat (map (\<lambda>g. nullish (pg_questions g) []) (nullish (ps_groups s) []))"

definition sections :: "runner \<Rightarrow> paper_section list" where
  "sections r = nullish (r_paper r) []"

text \<open>\<open>sections[sectionIndex]\<close>: \<open>undefined\<close> outside the list.\<close>

definition current_section :: "runner \<Rightarrow> paper_section option" where
  "current_section r =
     (if r_sectionIndex r < length (sections r) then Some (sections r ! r_sectionIndex r) else None)"

subsection \<open>Starting\<close>

definition probe_result :: "(storage_error + unit) \<Rightarrow> runner \<Rightarrow> runner" where
  "probe_result res r = r\<lparr>r_storage := (case res of Inr _ \<Rightarrow> StorageOk | Inl _ \<Rightarrow> Broken)\<rparr>"

definition widened :: "bool \<Rightarrow> runner \<Rightarrow> runner" where
  "widened matches r = r\<lparr>r_wide := widen (r_wide r) matches\<rparr>"

definition may_start :: "string \<Rightarrow> runner \<Rightarrow> bool" where
  "may_start assignmentXid r \<longleftrightarrow> \<not> (assignmentXid = [] \<or> \<not> r_wide r \<or> r_storage r \<noteq> StorageOk)"

text \<open>One row of the server's snapshot: its number seeds the counter, its value the screen.\<close>

definition restore_row ::
  "saved_answer \<Rightarrow> (string \<rightharpoonup> int) \<times> (string \<rightharpoonup> answer) \<Rightarrow> (string \<rightharpoonup> int) \<times> (string \<rightharpoonup> answer)" where
  "restore_row row st = (case st of (seqs, restored) \<Rightarrow>
     let key = slotKey (sv_question row) (sv_slot row);
         seqs' = seqs(key \<mapsto> max (nullish (seqs key) 0) (nullish (sv_seq row) 0))
     in case sv_response row of
          None \<Rightarrow> (seqs', restored)
        | Some value \<Rightarrow> (seqs', restored(key \<mapsto> value)))"

definition restore :: "saved_state \<Rightarrow> (string \<rightharpoonup> int) \<Rightarrow> (string \<rightharpoonup> int) \<times> (string \<rightharpoonup> answer)" where
  "restore saved seqs = fold restore_row (nullish (sv_answers saved) []) (seqs, Map.empty)"

definition land :: "resumed \<Rightarrow> paper_section list \<Rightarrow> runner \<Rightarrow> runner" where
  "land res paper r =
     (case find_index (\<lambda>s. Some (ps_position s) = furthest res) paper of
        None \<Rightarrow> r
      | Some landing \<Rightarrow>
          if landing > 0 then
            (case section_questions (paper ! landing) of
               [] \<Rightarrow> r\<lparr>r_sectionIndex := landing\<rparr>
             | q # _ \<Rightarrow> r\<lparr>r_sectionIndex := landing, r_current := pq_number q\<rparr>)
          else r)"

definition resume :: "paper_section list \<Rightarrow> saved_state \<Rightarrow> row list \<Rightarrow> runner \<Rightarrow> runner" where
  "resume paper saved queued r =
     (case restore saved (r_seqs r) of (seqs, restored) \<Rightarrow>
      case reconcile seqs restored queued of (seqs', restored') \<Rightarrow>
        let res = resumedSections (sv_sections saved) (sv_server_now saved);
            r1 = r\<lparr>r_seqs := seqs',
                   r_entered := r_entered r \<union> set (resumed.entered res),
                   r_sectionDeadlines := map_of (deadlines res) ++ r_sectionDeadlines r,
                   r_closedSections := r_closedSections r \<union> set (closedSections res)\<rparr>;
            r2 = land res paper r1
        in r2\<lparr>r_answers := restored' ++ r_answers r2, r_paper := Some paper\<rparr>)"

definition show_declined :: "row list \<Rightarrow> runner \<Rightarrow> runner" where
  "show_declined declined r =
     r\<lparr>r_sectionLoss := (r_sectionLoss r \<or> (\<exists>d \<in> set declined. refused d = Some ''section_expired'')),
       r_refused := (r_refused r \<or> (\<exists>d \<in> set declined. refused d \<noteq> Some ''section_expired''))\<rparr>"

text \<open>
  The calls of the start, each on the world; \<open>io_live\<close> is \<open>!cancelled\<close>, and \<open>io_meanwhile\<close> what
  the other tasks of the page did to the state during the last await.
\<close>

record 'w start_io =
  io_assignment :: "string \<Rightarrow> 'w \<Rightarrow> (problem option + assignment_item option) \<times> 'w"
  io_start :: "string \<Rightarrow> exam_mode \<Rightarrow> 'w \<Rightarrow> (problem option + started) \<times> 'w"
  io_pending :: "string \<Rightarrow> 'w \<Rightarrow> (problem option + row list) \<times> 'w"
  io_paper_and_state :: "string \<Rightarrow> 'w \<Rightarrow> (problem option + paper_section list \<times> saved_state) \<times> 'w"
  io_refused :: "string \<Rightarrow> 'w \<Rightarrow> (problem option + row list) \<times> 'w"
  io_now :: "'w \<Rightarrow> real"
  io_live :: "'w \<Rightarrow> bool"
  io_meanwhile :: "'w \<Rightarrow> runner \<Rightarrow> runner"

definition then_if_live ::
  "'w start_io \<Rightarrow> ('w \<Rightarrow> (problem option + 'a) \<times> 'w) \<Rightarrow> ('a \<Rightarrow> runner \<times> 'w \<Rightarrow> runner \<times> 'w) \<Rightarrow>
   runner \<times> 'w \<Rightarrow> runner \<times> 'w" where
  "then_if_live io operation k s =
     (case operation (snd s) of (res, w) \<Rightarrow>
        let r = io_meanwhile io w (fst s) in
        if \<not> io_live io w then (r, w)
        else (case res of
            Inl failure \<Rightarrow> (r\<lparr>r_error := Some (problemText failure)\<rparr>, w)
          | Inr x \<Rightarrow> k x (r, w)))"

definition start_exam :: "'w start_io \<Rightarrow> string \<Rightarrow> runner \<times> 'w \<Rightarrow> runner \<times> 'w" where
  "start_exam io assignmentXid s =
     (if \<not> may_start assignmentXid (fst s) then s
      else
        then_if_live io (io_assignment io assignmentXid) (\<lambda>mine s.
          case mine of
            None \<Rightarrow> ((fst s)\<lparr>r_error := Some ''That assignment is not assigned to you.''\<rparr>, snd s)
          | Some a \<Rightarrow>
              then_if_live io (io_start io assignmentXid (item_mode a)) (\<lambda>opened (r, w).
                then_if_live io (io_pending io (st_xid opened)) (\<lambda>queued.
                then_if_live io (io_paper_and_state io (st_xid opened)) (\<lambda>(paper, saved) (r, w).
                then_if_live io (io_refused io (st_xid opened)) (\<lambda>declined (r, w).
                  (show_declined declined r, w))
                  (resume paper saved queued r, w)))
                (r\<lparr>r_started := Some opened,
                   r_clock := Some (sync \<lparr>serverNow = st_server_now opened, expiresAt = st_expires_at opened\<rparr>
                                     (io_now io w))\<rparr>, w)) s) s)"

subsection \<open>Entering a section\<close>

text \<open>What the effect asks the server for, and what each answer does.\<close>

definition enter_effect :: "runner \<Rightarrow> int option \<times> runner" where
  "enter_effect r =
     (case (r_started r, current_section r) of
        (Some _, Some section) \<Rightarrow>
          if ps_position section \<in> r_entered r then (None, r)
          else (Some (ps_position section), r\<lparr>r_entered := insert (ps_position section) (r_entered r)\<rparr>)
      | _ \<Rightarrow> (None, r))"

definition enter_reply :: "int \<Rightarrow> (problem option + string option) \<Rightarrow> runner \<Rightarrow> runner" where
  "enter_reply position reply r =
     (case reply of
        Inr expires_at \<Rightarrow> r\<lparr>r_sectionDeadlines := (r_sectionDeadlines r)(position \<mapsto> expires_at)\<rparr>
      | Inl failure \<Rightarrow>
          if Option.bind failure problem_code = Some ''section_expired''
          then r\<lparr>r_closedSections := insert position (r_closedSections r)\<rparr>
          else r\<lparr>r_error := Some (problemText failure)\<rparr>)"

subsection \<open>Answering\<close>

definition delta_for :: "string \<Rightarrow> string \<Rightarrow> answer \<Rightarrow> int \<Rightarrow> delta" where
  "delta_for questionXid slot value seq =
     \<lparr>question_version_xid = questionXid, slot_key = slot, response = Some value, client_seq = seq,
      time_spent_ms = None\<rparr>"

definition onAnswer :: "string \<Rightarrow> string \<Rightarrow> answer \<Rightarrow> runner \<times> idb \<Rightarrow> runner \<times> idb" where
  "onAnswer questionXid slot value s =
     (case s of (r, db) \<Rightarrow>
        let r1 = r\<lparr>r_answers := (r_answers r)(slotKey questionXid slot \<mapsto> value)\<rparr> in
        case r_started r of
          None \<Rightarrow> (r1, db)
        | Some started \<Rightarrow>
            let key = slotKey questionXid slot;
                seq = nextSeq (r_seqs r) key;
                r2 = r1\<lparr>r_seqs := (r_seqs r)(key \<mapsto> seq)\<rparr>
            in case queue (st_xid started) (delta_for questionXid slot value seq) db of
                 (Inr _, db') \<Rightarrow> (r2, db')
               | (Inl _, db') \<Rightarrow> (r2\<lparr>r_storage := Broken\<rparr>, db'))"

subsection \<open>Moving through the paper\<close>

definition slots :: "runner \<Rightarrow> slot list" where
  "slots r = concat (map (\<lambda>s. map (\<lambda>q.
       \<lparr>number = pq_number q, part = ps_position s,
        answered = (\<exists>k \<in> set (nullish (pq_slot_keys q) []). Runner.answered (r_answers r (slotKey (pq_xid q) k))),
        flagged = pq_number q \<in> r_flagged r\<rparr>) (section_questions s)) (sections r))"

text \<open>The section index and the question numbered \<open>n\<close>, the first in paper order.\<close>

definition questionOf :: "runner \<Rightarrow> int \<Rightarrow> (nat \<times> paper_question) option" where
  "questionOf r n = List.find (\<lambda>(_, q). pq_number q = n)
     (concat (map (\<lambda>(i, s). map (Pair i) (section_questions s)) (enumerate 0 (sections r))))"

definition goTo :: "int \<Rightarrow> runner \<Rightarrow> runner" where
  "goTo n r =
     (case questionOf r n of
        None \<Rightarrow> r
      | Some (i, _) \<Rightarrow> r\<lparr>r_sectionIndex := i, r_current := n\<rparr>)"

datatype arrow_key = ArrowRight | ArrowLeft | OtherKey

definition onKey :: "key_target option \<Rightarrow> bool \<Rightarrow> arrow_key \<Rightarrow> runner \<Rightarrow> runner" where
  "onKey target default_prevented key r =
     (if claimsArrowKey target default_prevented then r
      else case key of
        ArrowRight \<Rightarrow> r\<lparr>r_current := step (slots r) (r_current r) 1\<rparr>
      | ArrowLeft \<Rightarrow> r\<lparr>r_current := step (slots r) (r_current r) (- 1)\<rparr>
      | OtherKey \<Rightarrow> r)"

definition toggle_review :: "runner \<Rightarrow> runner" where
  "toggle_review r = r\<lparr>r_flagged :=
     (if r_current r \<in> r_flagged r then r_flagged r - {r_current r} else insert (r_current r) (r_flagged r))\<rparr>"

subsection \<open>Submitting\<close>

definition doSubmit ::
  "('w, problem option) submit_deps \<Rightarrow> runner \<times> submit_state \<times> 'w \<Rightarrow> runner \<times> submit_state \<times> 'w" where
  "doSubmit D s = (case s of (r, st, w) \<Rightarrow>
     case r_started r of
       None \<Rightarrow> s
     | Some started \<Rightarrow>
         if r_submitting r then s
         else case submitFlow D (st_xid started) st w of
           (Inr Busy, st', w') \<Rightarrow> (r\<lparr>r_submitting := True\<rparr>, st', w')
         | (Inr Submitted, st', w') \<Rightarrow> (r\<lparr>r_submitting := True, r_route := ResultPage (st_xid started)\<rparr>, st', w')
         | (Inl failure, st', w') \<Rightarrow>
             (r\<lparr>r_submitting := False, r_lastFailure := Option.bind failure problem_code,
                r_error := Some (problemText failure)\<rparr>, st', w'))"

text \<open>The confirmation: open, keep working, or submit.\<close>

definition onFinish :: "runner \<Rightarrow> runner" where
  "onFinish r = r\<lparr>r_confirming := True\<rparr>"

definition keep_working :: "runner \<Rightarrow> runner" where
  "keep_working r = r\<lparr>r_confirming := False\<rparr>"

subsection \<open>The timer-zero effect\<close>

definition timer_effect :: "real \<Rightarrow> runner \<Rightarrow> runner" where
  "timer_effect now r =
     (case (r_clock r, r_started r) of
        (Some c, Some _) \<Rightarrow>
          if r_submitting r then r
          else if remaining c now > 0 then r
          else if r_retryTimer r \<noteq> None then r
          else (case nextDelay (int (r_autoTries r)) (r_lastFailure r) of
              None \<Rightarrow> r
            | Some delay \<Rightarrow> r\<lparr>r_retryTimer := Some delay\<rparr>)
      | _ \<Rightarrow> r)"

definition retry_fires ::
  "('w, problem option) submit_deps \<Rightarrow> runner \<times> submit_state \<times> 'w \<Rightarrow> runner \<times> submit_state \<times> 'w" where
  "retry_fires D s = (case s of (r, st, w) \<Rightarrow>
     doSubmit D (r\<lparr>r_retryTimer := None, r_autoTries := Suc (r_autoTries r)\<rparr>, st, w))"

text \<open>
  A commit runs the effect exactly when \<open>clock\<close>, \<open>started\<close>, \<open>submitting\<close> or \<open>doSubmit\<close> is another
  value than at the last one; \<open>doSubmit\<close> is memoised on \<open>started\<close> and \<open>submitting\<close> alone.
\<close>

definition timer_deps :: "runner \<Rightarrow> clock option \<times> started option \<times> bool" where
  "timer_deps r = (r_clock r, r_started r, r_submitting r)"

definition commit :: "real \<Rightarrow> runner \<Rightarrow> runner \<Rightarrow> runner" where
  "commit now before after = (if timer_deps after = timer_deps before then after else timer_effect now after)"

subsection \<open>The flush's outcome on the screen\<close>

definition flush_settled :: "flush_outcome \<Rightarrow> runner \<Rightarrow> runner" where
  "flush_settled out r =
     r\<lparr>r_clock := (case out_clock out of None \<Rightarrow> r_clock r | Some c \<Rightarrow> Some c),
       r_sectionLoss := (r_sectionLoss r \<or> (\<exists>m \<in> set (out_refused out). mark_reason m = ''section_expired'')),
       r_refused := (r_refused r \<or> (\<exists>m \<in> set (out_refused out). mark_reason m \<noteq> ''section_expired''))\<rparr>"

subsection \<open>A section's own deadline\<close>

record section_timer =
  tm_position :: int
  tm_delay :: jsnum
  tm_goto :: "int option"

definition expiry_effect :: "real \<Rightarrow> runner \<Rightarrow> section_timer option" where
  "expiry_effect now r =
     (case (r_clock r, r_started r, current_section r) of
        (Some c, Some started, Some section) \<Rightarrow>
          let position = ps_position section;
              deadline = nullish (r_sectionDeadlines r position) None
          in if position \<in> r_closedSections r then None
             else if \<not> closesOnSectionExpiry deadline (st_expires_at started) then None
             else
               let advances = (r_entered r \<noteq> {} \<and> advancesOnSectionExpiry deadline (st_expires_at started)
                     position (Max (r_entered r)) (length (sections r) \<le> r_sectionIndex r + 1));
                   first = (if r_sectionIndex r + 1 < length (sections r)
                     then map_option pq_number (case section_questions (sections r ! (r_sectionIndex r + 1)) of
                            [] \<Rightarrow> None | q # _ \<Rightarrow> Some q) else None)
               in Some \<lparr>tm_position = position,
                        tm_delay = remaining (sectionClock c (st_expires_at started) deadline) now,
                        tm_goto = (if advances then first else None)\<rparr>
      | _ \<Rightarrow> None)"

definition expiry_fires :: "section_timer \<Rightarrow> runner \<Rightarrow> runner" where
  "expiry_fires t r =
     (let r1 = r\<lparr>r_closedSections := insert (tm_position t) (r_closedSections r)\<rparr>
      in case tm_goto t of None \<Rightarrow> r1 | Some n \<Rightarrow> goTo n r1)"

subsection \<open>What is rendered\<close>

datatype screen = TooSmall | CannotSave | CannotStart string | Opening | Paper paper_section

definition render :: "runner \<Rightarrow> screen" where
  "render r =
     (if \<not> r_wide r then TooSmall
      else if r_storage r = Broken \<and> r_started r = None then CannotSave
      else case (r_error r, r_paper r) of
        (Some text, None) \<Rightarrow> if text \<noteq> [] then CannotStart text else Opening
      | _ \<Rightarrow> (case (r_paper r, r_started r, r_clock r, current_section r) of
            (Some _, Some _, Some _, Some section) \<Rightarrow> Paper section
          | _ \<Rightarrow> Opening))"

datatype section_notice = NoNotice | SectionEnded | SectionAnswersLost

definition section_notice_of :: "runner \<Rightarrow> int \<Rightarrow> section_notice" where
  "section_notice_of r position =
     (if position \<in> r_closedSections r then SectionEnded
      else if r_sectionLoss r then SectionAnswersLost else NoNotice)"

definition timer_clock :: "runner \<Rightarrow> clock \<Rightarrow> started \<Rightarrow> int \<Rightarrow> clock" where
  "timer_clock r c started position =
     sectionClock c (st_expires_at started) (nullish (r_sectionDeadlines r position) None)"

subsection \<open>After a resume\<close>

lemma restore_row_eq:
  "\<exists>restored'. restore_row b (seqs, restored) =
     (seqs(slotKey (sv_question b) (sv_slot b) \<mapsto>
        max (nullish (seqs (slotKey (sv_question b) (sv_slot b))) 0) (nullish (sv_seq b) 0)), restored')"
  by (cases "sv_response b") (simp_all add: restore_row_def Let_def)

lemma restore_row_mono:
  "nullish (seqs key) 0 \<le> nullish (fst (fold restore_row rows (seqs, restored)) key) (0 :: int)"
proof (induction rows arbitrary: seqs restored)
  case (Cons b rows)
  let ?k = "slotKey (sv_question b) (sv_slot b)"
  let ?seqs = "seqs(?k \<mapsto> max (nullish (seqs ?k) 0) (nullish (sv_seq b) 0))"
  obtain restored' where b: "restore_row b (seqs, restored) = (?seqs, restored')"
    using restore_row_eq by blast
  have "nullish (seqs key) 0 \<le> nullish (?seqs key) 0" by simp
  with Cons [of ?seqs restored'] show ?case by (simp add: b del: fun_upd_apply)
qed simp

lemma restore_row_seqs:
  "a \<in> set rows \<Longrightarrow> nullish (sv_seq a) 0 \<le>
     nullish (fst (fold restore_row rows (seqs, restored)) (slotKey (sv_question a) (sv_slot a))) 0"
proof (induction rows arbitrary: seqs restored)
  case (Cons b rows)
  let ?k = "slotKey (sv_question b) (sv_slot b)"
  let ?seqs = "seqs(?k \<mapsto> max (nullish (seqs ?k) 0) (nullish (sv_seq b) 0))"
  obtain restored' where b: "restore_row b (seqs, restored) = (?seqs, restored')"
    using restore_row_eq by blast
  have "nullish (sv_seq b) 0 \<le> nullish (?seqs ?k) 0" by simp
  with Cons restore_row_mono [of ?seqs ?k rows restored'] show ?case
    by (auto simp: b simp del: fun_upd_apply)
qed simp

lemma reconcile_seqs:
  "nullish (seqs key) 0 \<le> nullish (fst (reconcile seqs restored queued) key) (0 :: int) \<and>
   (\<forall>d \<in> set queued. row_slot d = key \<longrightarrow> client_seq d \<le> nullish (fst (reconcile seqs restored queued) key) 0)"
proof (induction queued arbitrary: seqs restored)
  case (Cons d queued)
  show ?case
  proof (cases "client_seq d \<le> nullish (seqs (row_slot d)) 0")
    case True
    then show ?thesis using Cons [of seqs restored] by fastforce
  next
    case False
    let ?seqs = "seqs(row_slot d \<mapsto> client_seq d)"
    have up: "nullish (seqs key) 0 \<le> nullish (?seqs key) 0" "row_slot d = key \<Longrightarrow> nullish (?seqs key) 0 = client_seq d"
      using False by auto
    have "reconcile seqs restored (d # queued) = reconcile ?seqs (restored(row_slot d := response d)) queued"
      using False by simp
    then show ?thesis
      using Cons [of ?seqs "restored(row_slot d := response d)"] up
      by (auto simp del: fun_upd_apply reconcile_simps)
  qed
qed simp

lemma land_fields [simp]:
  "r_seqs (land res paper r) = r_seqs r" "r_answers (land res paper r) = r_answers r"
  "r_entered (land res paper r) = r_entered r" "r_started (land res paper r) = r_started r"
  by (simp_all add: land_def split: option.split list.split)

lemma resume_fields:
  "r_seqs (resume paper saved queued r) =
     fst (reconcile (fst (restore saved (r_seqs r))) (snd (restore saved (r_seqs r))) queued)"
  "r_answers (resume paper saved queued r) =
     snd (reconcile (fst (restore saved (r_seqs r))) (snd (restore saved (r_seqs r))) queued) ++ r_answers r"
  "r_entered (resume paper saved queued r) =
     r_entered r \<union> set (resumed.entered (resumedSections (sv_sections saved) (sv_server_now saved)))"
  "r_paper (resume paper saved queued r) = Some paper" "r_started (resume paper saved queued r) = r_started r"
  by (simp_all add: resume_def Let_def split: prod.split)

lemma resume_seqs:
  "a \<in> set (nullish (sv_answers saved) []) \<Longrightarrow> sv_seq a = Some n \<Longrightarrow>
     n < nextSeq (r_seqs (resume paper saved queued r)) (slotKey (sv_question a) (sv_slot a))"
  "d \<in> set queued \<Longrightarrow> client_seq d < nextSeq (r_seqs (resume paper saved queued r)) (row_slot d)"
proof -
  let ?s = "restore saved (r_seqs r)"
  { assume a: "a \<in> set (nullish (sv_answers saved) [])" "sv_seq a = Some n"
    then have "n \<le> nullish (fst ?s (slotKey (sv_question a) (sv_slot a))) 0"
      using restore_row_seqs [OF a(1), of "r_seqs r" Map.empty] by (simp add: restore_def)
    then show "n < nextSeq (r_seqs (resume paper saved queued r)) (slotKey (sv_question a) (sv_slot a))"
      using reconcile_seqs [of "fst ?s" "slotKey (sv_question a) (sv_slot a)" "snd ?s" queued]
      by (simp add: resume_fields nextSeq_def) }
  { assume "d \<in> set queued"
    then show "client_seq d < nextSeq (r_seqs (resume paper saved queued r)) (row_slot d)"
      using reconcile_seqs [of "fst ?s" "row_slot d" "snd ?s" queued]
      by (force simp: resume_fields nextSeq_def) }
qed

text \<open>
  What the server may hold for a slot when a resumed screen sends: its snapshot, or a row that
  was still queued on this device when the outbox was read.
\<close>

definition known_to_resume :: "saved_state \<Rightarrow> row list \<Rightarrow> (string \<times> string \<rightharpoonup> stored_answer) \<Rightarrow> bool" where
  "known_to_resume saved queued existing \<longleftrightarrow>
     (\<forall>q s row n. existing (q, s) = Some row \<and> sa_seq row = Some n \<longrightarrow>
        (\<exists>a \<in> set (nullish (sv_answers saved) []). sv_question a = q \<and> sv_slot a = s \<and> (\<exists>m. sv_seq a = Some m \<and> n \<le> m)) \<or>
        (\<exists>d \<in> set queued. question_version_xid d = q \<and> slot_key d = s \<and> n \<le> client_seq d))"

text \<open>
  C4: Typing after a resume is never refused as stale. Whatever the server's snapshot and the
  outbox held when the screen was opened again, the number the next keystroke mints is above
  everything the server has for that slot.
\<close>
theorem resumed_answer_never_stale:
  assumes "known_to_resume saved queued existing"
  shows "refusal E now existing
     (delta_for q s value (nextSeq (r_seqs (resume paper saved queued r)) (slotKey q s))) \<noteq> Some ''stale_seq''"
proof -
  let ?n = "nextSeq (r_seqs (resume paper saved queued r)) (slotKey q s)"
  have "n < ?n" if "existing (q, s) = Some row" "sa_seq row = Some n" for row n
  proof -
    from assms that consider a m where "a \<in> set (nullish (sv_answers saved) [])" "sv_question a = q" "sv_slot a = s"
        "sv_seq a = Some m" "n \<le> m"
      | d where "d \<in> set queued" "question_version_xid d = q" "slot_key d = s" "n \<le> client_seq d"
      unfolding known_to_resume_def by meson
    then show ?thesis
    proof cases
      case 1
      then show ?thesis using resume_seqs(1) [OF 1(1,4), of paper queued r] by simp
    next
      case 2
      then show ?thesis using resume_seqs(2) [OF 2(1), of paper saved r] by (simp add: row_slot_def)
    qed
  qed
  then show ?thesis
    by (fastforce simp: refusal_def delta_for_def delta_slot_def split: option.splits if_splits)
qed

definition sample_paper :: "paper_section list" where
  "sample_paper =
     [\<lparr>ps_position = 1, ps_groups = Some [\<lparr>pg_questions = Some
         [\<lparr>pq_number = 1, pq_xid = ''q1'', pq_slot_keys = Some [''s1'']\<rparr>,
          \<lparr>pq_number = 2, pq_xid = ''q2'', pq_slot_keys = Some [''s1'']\<rparr>]\<rparr>]\<rparr>,
      \<lparr>ps_position = 2, ps_groups = Some [\<lparr>pg_questions = Some
         [\<lparr>pq_number = 3, pq_xid = ''q3'', pq_slot_keys = Some [''s1'']\<rparr>]\<rparr>]\<rparr>]"

definition sample_started :: started where
  "sample_started = \<lparr>st_xid = ''a'', st_mode = ExamMode, st_server_now = ''2026-08-13T10:00:00Z'',
     st_expires_at = ''2026-08-13T11:00:00Z''\<rparr>"

definition sample_runner :: runner where
  "sample_runner =
     \<lparr>r_error = None, r_started = Some sample_started, r_paper = Some sample_paper,
      r_clock = Some \<lparr>remainingMs = Num 3600000, takenAt = 0\<rparr>, r_sectionIndex = 0, r_current = 2,
      r_answers = Map.empty, r_confirming = False, r_refused = False, r_sectionLoss = False,
      r_closedSections = {}, r_sectionDeadlines = Map.empty, r_wide = True, r_storage = StorageOk,
      r_flagged = {}, r_submitting = False, r_seqs = Map.empty, r_entered = {1}, r_autoTries = 0,
      r_lastFailure = None, r_retryTimer = None, r_route = ExamPage\<rparr>"

definition sample_saved :: saved_state where
  "sample_saved = \<lparr>sv_answers = Some [\<lparr>sv_question = ''q1'', sv_slot = ''s1'', sv_seq = Some 4,
       sv_response = Some (Text ''old'')\<rparr>], sv_sections = None, sv_server_now = ''2026-08-13T10:00:00Z''\<rparr>"

theorem resumed_answer_never_stale_witness:
  "known_to_resume sample_saved []
     [(''q1'', ''s1'') \<mapsto> \<lparr>sa_response = None, sa_seq = Some 4, sa_revision = 1, sa_time = 0\<rparr>] \<and>
   (\<forall>E now. refusal E now [(''q1'', ''s1'') \<mapsto> \<lparr>sa_response = None, sa_seq = Some 4, sa_revision = 1, sa_time = 0\<rparr>]
     (delta_for ''q1'' ''s1'' (Text ''new'')
        (nextSeq (r_seqs (resume sample_paper sample_saved [] sample_runner)) (slotKey ''q1'' ''s1''))) \<noteq> Some ''stale_seq'')"
proof -
  have k: "known_to_resume sample_saved []
     [(''q1'', ''s1'') \<mapsto> \<lparr>sa_response = None, sa_seq = Some 4, sa_revision = 1, sa_time = 0\<rparr>]"
    by (simp add: known_to_resume_def sample_saved_def)
  with resumed_answer_never_stale [OF this] show ?thesis by simp
qed

text \<open>
  A resume keeps what is on the screen and re-enters nothing. A key typed before the restore
  wins over the restored value; a section the server has seen entered is not entered again; and
  the screen opens on the furthest section entered, when the paper has it past the first.
\<close>
theorem resume_keeps_screen:
  fixes paper saved queued r
  defines "r' \<equiv> resume paper saved queued r"
    and "res \<equiv> resumedSections (sv_sections saved) (sv_server_now saved)"
  shows "(\<forall>key v. r_answers r key = Some v \<longrightarrow> r_answers r' key = Some v) \<and>
    (\<forall>section. current_section r' = Some section \<and> ps_position section \<in> set (resumed.entered res) \<longrightarrow>
        enter_effect r' = (None, r')) \<and>
    (\<forall>i > 0. find_index (\<lambda>s. Some (ps_position s) = furthest res) paper = Some i \<longrightarrow>
        current_section r' = Some (paper ! i) \<and> Some (ps_position (paper ! i)) = furthest res)"
proof (intro conjI allI impI)
  fix i assume i: "0 < i" "find_index (\<lambda>s. Some (ps_position s) = furthest res) paper = Some i"
  from i(2) have f: "i < length paper" "Some (ps_position (paper ! i)) = furthest res"
    by (auto simp: find_index_Some_iff)
  have "r_sectionIndex r' = i"
    using i by (simp add: r'_def resume_def Let_def land_def res_def split: prod.split list.split)
  with f show "current_section r' = Some (paper ! i)"
    by (simp add: current_section_def sections_def r'_def resume_fields)
  from f(2) show "Some (ps_position (paper ! i)) = furthest res" .
next
  fix sec assume "current_section r' = Some sec \<and> ps_position sec \<in> set (resumed.entered res)"
  then show "enter_effect r' = (None, r')"
    by (auto simp: enter_effect_def r'_def resume_fields res_def split: option.split)
qed (simp add: r'_def resume_fields)

theorem resume_keeps_screen_witness:
  "r_answers (resume sample_paper sample_saved [] (sample_runner\<lparr>r_answers := [''q1:s1'' \<mapsto> Text ''typed'']\<rparr>)) ''q1:s1'' =
   Some (Text ''typed'')"
  using resume_keeps_screen [of "sample_runner\<lparr>r_answers := [''q1:s1'' \<mapsto> Text ''typed'']\<rparr>" sample_paper sample_saved "[]"]
  by simp

subsection \<open>The screen and the disk\<close>

text \<open>
  The attempt's last row of every slot typed into is the answer on the screen, numbered with the
  slot's counter, and the numbers of a slot only grow.
\<close>

definition last_row :: "row list \<Rightarrow> string \<Rightarrow> row option" where
  "last_row rs key = (case filter (\<lambda>d. row_slot d = key) rs of [] \<Rightarrow> None | d # ds \<Rightarrow> Some (last (d # ds)))"

definition in_step :: "string \<Rightarrow> runner \<times> idb \<Rightarrow> bool" where
  "in_step xid s \<longleftrightarrow>
     (\<forall>key d. last_row (idb_disk (snd s) xid) key = Some d \<longrightarrow>
        response d = r_answers (fst s) key \<and> r_seqs (fst s) key = Some (client_seq d)) \<and>
     (\<forall>key. sorted_wrt (\<lambda>d e. client_seq d < client_seq e)
        (filter (\<lambda>d. row_slot d = key) (idb_disk (snd s) xid)))"

lemma last_row_snoc:
  "last_row (rs @ [d]) key = (if row_slot d = key then Some d else last_row rs key)"
  by (cases "filter (\<lambda>d. row_slot d = key) rs") (auto simp: last_row_def)

lemma onAnswer_cases:
  assumes "r_started r = Some started" "onAnswer q s value (r, db) = (r', db')"
  shows "r_answers r' = (r_answers r)(slotKey q s \<mapsto> value)"
    "r_seqs r' = (r_seqs r)(slotKey q s \<mapsto> nextSeq (r_seqs r) (slotKey q s))" "r_started r' = Some started"
    "usable Readwrite db \<Longrightarrow> usable Readwrite db' \<and> r_storage r' = r_storage r \<and>
       idb_disk db' (st_xid started) = idb_disk db (st_xid started) @
         [(row_of_delta (st_xid started) (delta_for q s value (nextSeq (r_seqs r) (slotKey q s))))\<lparr>row_id := Some (next_key db)\<rparr>]"
    "\<not> usable Readwrite db \<Longrightarrow> db' = db \<and> r_storage r' = Broken"
  using assms
  by (auto simp: onAnswer_def Let_def queue_def tx_cases idb_disk_def store_add_def usable_def split: if_splits)

lemma row_of_delta_for [simp]:
  "row_slot ((row_of_delta a (delta_for q s v n))\<lparr>row_id := i\<rparr>) = slotKey q s"
  "response ((row_of_delta a (delta_for q s v n))\<lparr>row_id := i\<rparr>) = Some v"
  "client_seq ((row_of_delta a (delta_for q s v n))\<lparr>row_id := i\<rparr>) = n"
  by (simp_all add: row_of_delta_def delta_for_def row_slot_def delta.extend_def)

lemma sorted_last_row:
  "sorted_wrt (\<lambda>d e. client_seq d < client_seq e) (filter (\<lambda>d. row_slot d = key) rs) \<Longrightarrow>
   last_row rs key = Some l \<Longrightarrow> d \<in> set rs \<Longrightarrow> row_slot d = key \<Longrightarrow> client_seq d \<le> client_seq l"
proof -
  assume s: "sorted_wrt (\<lambda>d e. client_seq d < client_seq e) (filter (\<lambda>d. row_slot d = key) rs)"
    and l: "last_row rs key = Some l" and d: "d \<in> set rs" "row_slot d = key"
  let ?f = "filter (\<lambda>d. row_slot d = key) rs"
  from d have in_f: "d \<in> set ?f" by simp
  from l have "?f \<noteq> []" "l = last ?f" by (auto simp: last_row_def split: list.splits)
  then obtain ys where f: "?f = ys @ [l]" by (metis append_butlast_last_id)
  with s have "\<forall>y \<in> set ys. client_seq y < client_seq l" by (simp add: sorted_wrt_append)
  with in_f show ?thesis unfolding f by auto
qed



subsection \<open>Time runs out\<close>

text \<open>
  What happens on the screen of a student who has nothing waiting to be sent: flushes that find
  nothing, keys, moving about, sections entered and ended, at whatever times. Each is a commit.
\<close>

inductive quiet :: "runner \<Rightarrow> runner \<Rightarrow> bool" where
  IdleFlush: "out_clock out = None \<Longrightarrow> quiet r (commit now r (flush_settled out r))"
| Typed: "quiet r (commit now r (fst (onAnswer q s v (r, db))))"
| Went: "quiet r (commit now r (goTo n r))"
| Arrow: "quiet r (commit now r (onKey target prevented k r))"
| Reviewed: "quiet r (commit now r (toggle_review r))"
| Finishing: "quiet r (commit now r (onFinish r))"
| Working: "quiet r (commit now r (keep_working r))"
| Entering: "quiet r (commit now r (snd (enter_effect r)))"
| Entered: "quiet r (commit now r (enter_reply position reply r))"
| Ended: "expiry_effect now' r = Some t \<Longrightarrow> quiet r (commit now r (expiry_fires t r))"

definition submit_view :: "runner \<Rightarrow> (clock option \<times> started option \<times> bool) \<times> int option \<times> route" where
  "submit_view r = (timer_deps r, r_retryTimer r, r_route r)"

lemma submit_view_same:
  "out_clock out = None \<Longrightarrow> submit_view (flush_settled out r) = submit_view r"
  "submit_view (fst (onAnswer q s v (r, db))) = submit_view r"
  "submit_view (goTo n r) = submit_view r"
  "submit_view (onKey target prevented k r) = submit_view r"
  "submit_view (toggle_review r) = submit_view r"
  "submit_view (onFinish r) = submit_view r" "submit_view (keep_working r) = submit_view r"
  "submit_view (snd (enter_effect r)) = submit_view r"
  "submit_view (enter_reply position reply r) = submit_view r"
  "submit_view (expiry_fires t r) = submit_view r"
  by (auto simp: submit_view_def timer_deps_def flush_settled_def onAnswer_def Let_def goTo_def onKey_def
      toggle_review_def onFinish_def keep_working_def enter_effect_def enter_reply_def expiry_fires_def
      split: option.split sum.split prod.split arrow_key.split)

lemma commit_same: "submit_view after = submit_view before \<Longrightarrow> commit now before after = after"
  by (simp add: submit_view_def commit_def)

lemma quiet_same: "quiet r r' \<Longrightarrow> submit_view r' = submit_view r"
  by (induction rule: quiet.induct) (simp_all add: commit_same submit_view_same)

lemma flushOnce_idle:
  "fd_pending D xid w = (Inr [], w') \<Longrightarrow>
   flushOnce D xid fl w = (Inr \<lparr>out_inFlight = fl, out_clock = None, out_refused = [], drained = True\<rparr>, w')"
  by (simp add: flushOnce_def await_def)

text \<open>
  C24: When the time runs out under a student with nothing left to send, nothing is submitted. A
  flush that finds no row brings no clock, so the clock, the attempt and \<open>submitting\<close> stay the
  values they were, and the timer-zero effect, which runs only when one of them changes, never
  runs again: no retry is scheduled and the screen stays, however long that lasts.
\<close>
theorem idle_timeout_never_submits:
  assumes "rtranclp quiet r r'" and "r_retryTimer r = None" and "r_route r = ExamPage"
  shows "r_retryTimer r' = None \<and> r_route r' = ExamPage \<and> r_submitting r' = r_submitting r \<and> r_clock r' = r_clock r"
proof -
  from assms(1) have "submit_view r' = submit_view r"
    by (induction rule: rtranclp_induct) (simp_all add: quiet_same)
  with assms(2,3) show ?thesis by (simp add: submit_view_def timer_deps_def)
qed

theorem idle_timeout_never_submits_witness:
  "\<exists>r'. remaining \<lparr>remainingMs = Num 3600000, takenAt = 0\<rparr> 9000000 = Num 0 \<and>
     r' = commit 9000000 sample_runner (flush_settled \<lparr>out_inFlight = None, out_clock = None, out_refused = [],
            drained = True\<rparr> sample_runner) \<and>
     r_clock r' = Some \<lparr>remainingMs = Num 3600000, takenAt = 0\<rparr> \<and> r_retryTimer r' = None"
proof -
  let ?out = "\<lparr>out_inFlight = None, out_clock = None, out_refused = [], drained = True\<rparr>"
  let ?r' = "commit 9000000 sample_runner (flush_settled ?out sample_runner)"
  have "rtranclp quiet sample_runner ?r'" by (rule r_into_rtranclp) (rule IdleFlush, simp)
  from idle_timeout_never_submits [OF this] have "r_retryTimer ?r' = None" "r_clock ?r' = r_clock sample_runner"
    by (simp_all add: sample_runner_def)
  moreover have "remaining \<lparr>remainingMs = Num 3600000, takenAt = 0\<rparr> 9000000 = Num 0"
    by (simp add: remaining_def)
  ultimately show ?thesis by (auto simp: sample_runner_def)
qed



subsection \<open>Moving\<close>

text \<open>
  An arrow key across a section boundary leaves the section behind. Stepping changes the
  current question only, so the screen shows a question of the next section beside the passage
  and under the clock of the previous one, and the next section is not entered; going to the
  same question from the palette does switch.
\<close>
theorem arrow_leaves_section_behind:
  assumes "\<not> claimsArrowKey target prevented"
    and "questionOf r (step (slots r) (r_current r) 1) = Some (j, q)" and "j \<noteq> r_sectionIndex r"
    and "current_section r = Some here" and "ps_position here \<in> r_entered r"
  defines "r' \<equiv> onKey target prevented ArrowRight r"
  shows "questionOf r' (r_current r') = Some (j, q) \<and> current_section r' = Some here \<and>
    fst (enter_effect r') = None \<and> r_sectionIndex (goTo (r_current r') r) = j"
  using assms
  by (auto simp: onKey_def questionOf_def sections_def current_section_def enter_effect_def goTo_def
      split: option.splits if_splits)

lemmas paper_eval = sample_runner_def sample_paper_def slots_def sections_def section_questions_def
  questionOf_def current_section_def step_def find_index_def answered_def claimsArrowKey_def

theorem arrow_leaves_section_behind_witness:
  "r_current (onKey None False ArrowRight sample_runner) = 3 \<and>
   r_sectionIndex (onKey None False ArrowRight sample_runner) = 0 \<and>
   r_sectionIndex (goTo 3 sample_runner) = 1"
proof -
  have s: "step (slots sample_runner) (r_current sample_runner) 1 = 3" by (simp add: paper_eval)
  have "questionOf sample_runner (step (slots sample_runner) (r_current sample_runner) 1) =
      Some (1, \<lparr>pq_number = 3, pq_xid = ''q3'', pq_slot_keys = Some [''s1'']\<rparr>)"
    unfolding s by (simp add: paper_eval)
  from arrow_leaves_section_behind [of None False, OF _ this, of "sample_paper ! 0"]
  have "r_sectionIndex (goTo (r_current (onKey None False ArrowRight sample_runner)) sample_runner) = 1"
    by (simp add: paper_eval)
  with s show ?thesis by (simp add: onKey_def claimsArrowKey_def) (simp add: sample_runner_def)
qed

lemma find_by_key:
  "distinct (map f xs) \<Longrightarrow> x \<in> set xs \<Longrightarrow> List.find (\<lambda>y. f y = f x) xs = Some x"
  by (induction xs) (auto simp: image_iff)

definition numbered :: "runner \<Rightarrow> (nat \<times> paper_question) list" where
  "numbered r = concat (map (\<lambda>(i, s). map (Pair i) (section_questions s)) (enumerate 0 (sections r)))"

lemma questionOf_numbered:
  assumes "distinct (map (pq_number \<circ> snd) (numbered r))" "i < length (sections r)"
    "q \<in> set (section_questions (sections r ! i))"
  shows "questionOf r (pq_number q) = Some (i, q)"
proof -
  have "(i, sections r ! i) \<in> set (enumerate 0 (sections r))"
    using assms(2) by (simp add: in_set_enumerate_eq)
  then have "(i, q) \<in> set (numbered r)" using assms(3) by (force simp: numbered_def)
  from find_by_key [OF assms(1) this] show ?thesis
    by (simp add: questionOf_def numbered_def case_prod_unfold)
qed



end
