(* ===== verification/Audio.thy ===== *)
theory Audio
  imports Complex_Main Problems
begin

text \<open>
  The listening player, \<open>student/src/exam/Audio.tsx\<close>: the download of a recording and the mounted
  component as a state machine. The steps are the student's click, the reply to the grant, the
  chunks and the end of the download, the browser's answer to the automatic start, and the end of
  the track. The server's side of a grant is the rule the file's header states: in exam mode it
  succeeds once.
\<close>

datatype audio_mode = Exam | Practice

datatype phase = Idle | Loading nat nat | Ready | Spent | ErrorPhase string

subsection \<open>The download\<close>

text \<open>
  The response: its status, the length it announces, the chunks its body gives until it ends or
  breaks; \<open>None\<close> for a browser without a readable body.
\<close>

record media_response =
  media_status :: nat
  content_length :: "nat option"
  chunks :: "nat list list option"
  whole :: "nat list"
  broken :: bool

fun read_chunks :: "nat \<Rightarrow> nat \<Rightarrow> nat list list \<Rightarrow> (nat \<times> nat) list" where
  "read_chunks got tot [] = []"
| "read_chunks got tot (c # cs) = (got + length c, tot) # read_chunks (got + length c) tot cs"

text \<open>The result, with the progress reported on the way.\<close>

definition download :: "media_response \<Rightarrow> (failure + nat list) \<times> (nat \<times> nat) list" where
  "download r =
     (if \<not> (200 \<le> media_status r \<and> media_status r \<le> 299) then
        (Inl (JsError (if media_status r = 403
           then ''That recording link has expired. Tell your invigilator.''
           else ''The recording could not be loaded ('' @ show_nat (media_status r) @ '').'')), [])
      else
        (let tot = nullish (content_length r) 0 in
         case chunks r of
           None \<Rightarrow> (Inr (whole r), [])
         | Some cs \<Rightarrow>
             (if broken r then Inl (JsError ''network error'') else Inr (concat cs), read_chunks 0 tot cs)))"

subsection \<open>The component\<close>

text \<open>
  Where \<open>play\<close> is suspended, if it runs; \<open>asked\<close> counts the grant requests this mounted component
  has sent.
\<close>

datatype running = NotRunning | AwaitingGrant | Downloading

record player =
  p_mode :: audio_mode
  p_phase :: phase
  needsGesture :: bool
  objectUrl :: "nat list option"
  minting :: bool
  running :: running
  asked :: nat

definition mounted :: "audio_mode \<Rightarrow> player" where
  "mounted mode = \<lparr>p_mode = mode, p_phase = Idle, needsGesture = False, objectUrl = None, minting = False,
     running = NotRunning, asked = 0\<rparr>"

definition play :: "player \<Rightarrow> player" where
  "play p =
     (if minting p then p
      else p\<lparr>minting := True, p_phase := Loading 0 0, running := AwaitingGrant, asked := Suc (asked p)\<rparr>)"

text \<open>The \<open>finally\<close> block, and the \<open>catch\<close> before it.\<close>

definition finish_play :: "player \<Rightarrow> player" where
  "finish_play p = p\<lparr>running := NotRunning, minting := (if p_mode p = Practice then False else minting p)\<rparr>"

definition fail_play :: "failure \<Rightarrow> player \<Rightarrow> player" where
  "fail_play f p = finish_play (p\<lparr>p_phase := ErrorPhase (problemText (as_problem f))\<rparr>)"

definition granted :: "failure + unit \<Rightarrow> player \<Rightarrow> player" where
  "granted reply p = (case reply of Inl f \<Rightarrow> fail_play f p | Inr _ \<Rightarrow> p\<lparr>running := Downloading\<rparr>)"

definition progress :: "nat \<times> nat \<Rightarrow> player \<Rightarrow> player" where
  "progress gt p = p\<lparr>p_phase := Loading (fst gt) (snd gt)\<rparr>"

definition downloaded :: "media_response \<Rightarrow> player \<Rightarrow> player" where
  "downloaded r p =
     (case download r of (res, reports) \<Rightarrow>
        let p' = fold progress reports p in
        case res of
          Inl f \<Rightarrow> fail_play f p'
        | Inr blob \<Rightarrow> finish_play (p'\<lparr>objectUrl := Some blob, p_phase := Ready\<rparr>))"

definition autostart :: "bool \<Rightarrow> player \<Rightarrow> player" where
  "autostart allowed p = p\<lparr>needsGesture := \<not> allowed\<rparr>"

definition onPlay :: "player \<Rightarrow> player" where
  "onPlay p = p\<lparr>needsGesture := False\<rparr>"

definition ended :: "player \<Rightarrow> player" where
  "ended p = p\<lparr>p_phase := Spent\<rparr>"

text \<open>What is drawn: the phase decides which buttons there are.\<close>

datatype audio_button = PlayTheRecording | TryAgain | StartPlaying

definition buttons :: "player \<Rightarrow> audio_button list" where
  "buttons p = (case p_phase p of
      Idle \<Rightarrow> [PlayTheRecording]
    | Loading _ _ \<Rightarrow> []
    | ErrorPhase _ \<Rightarrow> if p_mode p = Practice then [TryAgain] else []
    | _ \<Rightarrow> if needsGesture p \<and> p_phase p \<noteq> Spent then [StartPlaying] else [])"

definition has_controls :: "player \<Rightarrow> bool" where
  "has_controls p \<longleftrightarrow> p_phase p \<in> {Ready, Spent} \<and> p_mode p = Practice"

definition percent :: "phase \<Rightarrow> int option" where
  "percent ph = (case ph of
      Loading got tot \<Rightarrow> if tot \<noteq> 0 then Some \<lfloor>real got / real tot * 100 + 1 / 2\<rfloor> else None
    | _ \<Rightarrow> None)"

inductive audio_step :: "player \<Rightarrow> player \<Rightarrow> bool" where
  Click: "set (buttons p) \<inter> {PlayTheRecording, TryAgain} \<noteq> {} \<Longrightarrow> audio_step p (play p)"
| DoubleClick: "audio_step p (play p)"
| Grant: "running p = AwaitingGrant \<Longrightarrow> audio_step p (granted reply p)"
| Download: "running p = Downloading \<Longrightarrow> audio_step p (downloaded r p)"
| Autostart: "p_phase p = Ready \<Longrightarrow> audio_step p (autostart allowed p)"
| Started: "p_phase p = Ready \<Longrightarrow> audio_step p (onPlay p)"
| Ended: "p_phase p = Ready \<Longrightarrow> audio_step p (ended p)"

subsection \<open>One grant\<close>

definition audio_inv :: "player \<Rightarrow> bool" where
  "audio_inv p \<longleftrightarrow>
     (p_mode p = Exam \<longrightarrow> asked p = (if minting p then 1 else 0)) \<and>
     (running p \<noteq> NotRunning \<longrightarrow> minting p) \<and>
     (p_phase p \<in> {Ready, Spent} \<longrightarrow> objectUrl p \<noteq> None) \<and>
     (p_mode p = Exam \<and> \<not> minting p \<longrightarrow> p_phase p = Idle)"

lemma fold_progress: "\<exists>ph. fold progress reports p = p\<lparr>p_phase := ph\<rparr>"
proof (induction reports arbitrary: p)
  case Nil
  have "p = p\<lparr>p_phase := p_phase p\<rparr>" by simp
  then show ?case by (metis fold_simps(1))
next
  case (Cons r rs)
  from Cons [of "progress r p"] show ?case by (auto simp: progress_def)
qed

lemma audio_inv_step:
  assumes "audio_step p p'" "audio_inv p"
  shows "audio_inv p' \<and> p_mode p' = p_mode p"
  using assms(1)
proof cases
  case (Download r)
  obtain res reports where d: "download r = (res, reports)" by (cases "download r")
  obtain ph where "fold progress reports p = p\<lparr>p_phase := ph\<rparr>" using fold_progress by blast
  then show ?thesis using assms(2) Download
    by (cases res) (auto simp: downloaded_def d Let_def fail_play_def finish_play_def audio_inv_def)
qed (use assms(2) in \<open>auto simp: play_def granted_def fail_play_def finish_play_def autostart_def onPlay_def
      ended_def audio_inv_def split: sum.split\<close>)

lemma audio_inv_run:
  assumes "rtranclp audio_step (mounted mode) p"
  shows "audio_inv p \<and> p_mode p = mode"
  using assms
proof (induction rule: rtranclp_induct)
  case base
  show ?case by (simp add: mounted_def audio_inv_def)
next
  case (step y z)
  with audio_inv_step [OF step(2)] show ?case by simp
qed

text \<open>
  A mounted exam player asks for its grant at most once, whatever is clicked, refused or
  interrupted, and it never shows a seek bar; once the recording is on the device it is never
  without something to play.
\<close>
theorem exam_grant_once:
  assumes "rtranclp audio_step (mounted Exam) p"
  shows "asked p \<le> 1 \<and> \<not> has_controls p \<and> (asked p = 1 \<longrightarrow> asked (play p) = 1) \<and>
    (p_phase p \<in> {Ready, Spent} \<longrightarrow> objectUrl p \<noteq> None)"
  using audio_inv_run [OF assms] by (auto simp: audio_inv_def has_controls_def play_def)

theorem exam_grant_once_witness: "asked (play (play (mounted Exam))) = 1"
proof -
  have "rtranclp audio_step (mounted Exam) (play (mounted Exam))"
    by (rule r_into_rtranclp) (rule DoubleClick)
  moreover have "asked (play (mounted Exam)) = 1" by (simp add: play_def mounted_def)
  ultimately show ?thesis using exam_grant_once by blast
qed

text \<open>
  Leaving a section and coming back offers the recording again and asks for a second grant.
  The guard lives in the mounted component, which is another one after a return to the section;
  a server that grants once refuses, and the recording already downloaded is gone.
\<close>
theorem remount_asks_again:
  assumes "rtranclp audio_step (mounted Exam) p" and "asked p = 1"
    and "refusal_doc = ApiProblem \<lparr>problem_title = Some ''Already played'', problem_code = Some ''audio_already_played'',
           findings = None\<rparr>"
  defines "back_again \<equiv> mounted Exam"
  shows "PlayTheRecording \<in> set (buttons back_again) \<and> asked p + asked (play back_again) = 2 \<and>
    p_phase (granted (Inl refusal_doc) (play back_again)) = ErrorPhase ''Already played'' \<and>
    objectUrl (granted (Inl refusal_doc) (play back_again)) = None"
  using assms(2,3)
  by (simp add: back_again_def mounted_def buttons_def play_def granted_def fail_play_def finish_play_def
      as_problem_def problemText_def coalesce_def)

theorem remount_asks_again_witness:
  "asked (play (mounted Exam)) + asked (play (mounted Exam)) = 2"
proof -
  have "rtranclp audio_step (mounted Exam) (play (mounted Exam))"
    by (rule r_into_rtranclp) (rule DoubleClick)
  moreover have "asked (play (mounted Exam)) = 1" by (simp add: play_def mounted_def)
  ultimately show ?thesis using remount_asks_again [OF _ _ refl] by blast
qed

text \<open>
  The reason a download failed never reaches the student. The error thrown for an expired
  link is an \<open>Error\<close> with a message, and the text shown is read from the fields of a problem
  document, which it does not have.
\<close>
theorem download_reason_lost:
  assumes "download r = (Inl f, reports)"
  shows "p_phase (downloaded r p) = ErrorPhase ''Something went wrong.''"
proof -
  from assms obtain m where "f = JsError m"
    by (auto simp: download_def Let_def split: if_splits option.splits)
  then show ?thesis
    by (simp add: downloaded_def assms Let_def fail_play_def finish_play_def as_problem_def problemText_def coalesce_def)
qed

theorem download_reason_lost_witness:
  "p_phase (downloaded \<lparr>media_status = 403, content_length = None, chunks = None, whole = [], broken = False\<rparr> p) =
   ErrorPhase ''Something went wrong.''"
  by (rule download_reason_lost [where f = "JsError ''That recording link has expired. Tell your invigilator.''"])
     (simp add: download_def)

text \<open>
  A download delivers every byte in order, and the progress it reported is cumulative and
  ends at the whole length.
\<close>
theorem download_complete:
  assumes "download r = (Inr blob, reports)" and "chunks r = Some cs"
  shows "blob = concat cs \<and> length reports = length cs \<and>
    (\<forall>i < length cs. reports ! i = (length (concat (take (Suc i) cs)), nullish (content_length r) 0))"
proof -
  have "length (read_chunks got tot cs) = length cs \<and>
      (\<forall>i < length cs. read_chunks got tot cs ! i = (got + length (concat (take (Suc i) cs)), tot))" for got tot cs
  proof (induction cs arbitrary: got)
    case (Cons c cs)
    show ?case
    proof (intro conjI allI impI)
      fix i assume "i < length (c # cs)"
      then show "read_chunks got tot (c # cs) ! i = (got + length (concat (take (Suc i) (c # cs))), tot)"
        using Cons [of "got + length c"] by (cases i) auto
    qed (simp add: Cons)
  qed simp
  with assms show ?thesis by (auto simp: download_def Let_def split: if_splits)
qed

theorem download_complete_witness:
  "download \<lparr>media_status = 200, content_length = Some 3, chunks = Some [[1, 2], [3]], whole = [], broken = False\<rparr> =
     (Inr [1, 2, 3], [(2, 3), (3, 3)]) \<and> [1, 2, 3] = concat [[1, 2], [3 :: nat]]"
proof -
  have d: "download \<lparr>media_status = 200, content_length = Some 3, chunks = Some [[1, 2], [3]], whole = [], broken = False\<rparr> =
     (Inr [1, 2, 3], [(2, 3), (3, 3)])" by (simp add: download_def)
  from download_complete [OF this, of "[[1, 2], [3]]"] d show ?thesis by simp
qed

end
