(* ===== verification/Highlights.thy ===== *)
theory Highlights
  imports Prelude
begin

text \<open>
  Highlights of \<open>student/src/exam/highlights.ts\<close>: spans of character offsets into the passage, and
  the passage cut into plain and highlighted runs from them. The DOM walk of \<open>offsetOf\<close> is over
  the text nodes of the container, in order.
\<close>

subsection \<open>Spans\<close>

record span =
  span_start :: int
  span_end :: int

fun add_loop :: "span list \<Rightarrow> span list \<Rightarrow> span \<Rightarrow> span list \<times> span" where
  "add_loop [] merged pending = (merged, pending)"
| "add_loop (e # es) merged pending =
     (if span_end e < span_start pending \<or> span_start e > span_end pending
      then add_loop es (merged @ [e]) pending
      else add_loop es merged
             \<lparr>span_start = min (span_start pending) (span_start e),
              span_end = max (span_end pending) (span_end e)\<rparr>)"

definition add :: "span list \<Rightarrow> span \<Rightarrow> span list" where
  "add spans s =
     (let start = min (span_start s) (span_end s); finish = max (span_start s) (span_end s) in
      if finish \<le> start then spans
      else case add_loop (sort_key span_start spans) [] \<lparr>span_start = start, span_end = finish\<rparr> of
        (merged, pending) \<Rightarrow> sort_key span_start (merged @ [pending]))"

definition removeAt :: "span list \<Rightarrow> int \<Rightarrow> span list" where
  "removeAt spans offset = filter (\<lambda>s. offset < span_start s \<or> offset \<ge> span_end s) spans"

definition spanAt :: "span list \<Rightarrow> int \<Rightarrow> span option" where
  "spanAt spans offset = find (\<lambda>s. offset \<ge> span_start s \<and> offset < span_end s) spans"

subsection \<open>Segments\<close>

record segment =
  seg_text :: string
  highlighted :: bool
  seg_start :: int

text \<open>\<open>text.slice(from, to)\<close> for offsets that are not negative.\<close>

definition js_slice :: "string \<Rightarrow> int \<Rightarrow> int \<Rightarrow> string" where
  "js_slice t i j = take (nat (j - i)) (drop (nat i) t)"

fun segment_loop :: "string \<Rightarrow> span list \<Rightarrow> int \<Rightarrow> segment list" where
  "segment_loop t [] cursor =
     (if cursor < int (length t)
      then [\<lparr>seg_text = drop (nat cursor) t, highlighted = False, seg_start = cursor\<rparr>] else [])"
| "segment_loop t (s # ss) cursor =
     (let start = max 0 (min (span_start s) (int (length t)));
          finish = max 0 (min (span_end s) (int (length t)))
      in if finish \<le> cursor then segment_loop t ss cursor
         else (if start > cursor
               then [\<lparr>seg_text = js_slice t cursor start, highlighted = False, seg_start = cursor\<rparr>] else [])
              @ [\<lparr>seg_text = js_slice t (max cursor start) finish, highlighted = True,
                  seg_start = max cursor start\<rparr>]
              @ segment_loop t ss finish)"

definition segments :: "string \<Rightarrow> span list \<Rightarrow> segment list" where
  "segments t spans =
     (let out = segment_loop t (sort_key span_start spans) 0
      in if out \<noteq> [] then out else [\<lparr>seg_text = t, highlighted = False, seg_start = 0\<rparr>])"

subsection \<open>From the document back to an offset\<close>

text \<open>A text node is its identity and its text.\<close>

fun offset_walk :: "(nat \<times> string) list \<Rightarrow> nat \<Rightarrow> int \<Rightarrow> int \<Rightarrow> int" where
  "offset_walk [] node offset_in_node acc = acc"
| "offset_walk ((current, t) # nodes) node offset_in_node acc =
     (if current = node then acc + offset_in_node
      else offset_walk nodes node offset_in_node (acc + int (length t)))"

definition offsetOf :: "(nat \<times> string) list \<Rightarrow> nat \<Rightarrow> int \<Rightarrow> int" where
  "offsetOf nodes node offset_in_node = offset_walk nodes node offset_in_node 0"

subsection \<open>What a list of spans covers\<close>

definition in_span :: "int \<Rightarrow> span \<Rightarrow> bool" where
  "in_span x s \<longleftrightarrow> span_start s \<le> x \<and> x < span_end s"

definition covered :: "span list \<Rightarrow> int \<Rightarrow> bool" where
  "covered spans x \<longleftrightarrow> (\<exists>s \<in> set spans. in_span x s)"

text \<open>In order, none empty, and none touching the next.\<close>

definition normalised :: "span list \<Rightarrow> bool" where
  "normalised spans \<longleftrightarrow> sorted_wrt (\<lambda>s t. span_end s < span_start t) spans \<and>
     (\<forall>s \<in> set spans. span_start s < span_end s)"

lemma covered_simps [simp]:
  "\<not> covered [] x" "covered (s # ss) x \<longleftrightarrow> in_span x s \<or> covered ss x"
  "covered (ss @ ts) x \<longleftrightarrow> covered ss x \<or> covered ts x"
  by (auto simp: covered_def)

lemma covered_sort [simp]: "covered (sort_key f spans) = covered spans"
  by (simp add: covered_def fun_eq_iff)

definition apart :: "span \<Rightarrow> span \<Rightarrow> bool" where
  "apart s t \<longleftrightarrow> span_end s < span_start t \<or> span_end t < span_start s"

lemma normalised_iff:
  "normalised spans \<longleftrightarrow> sorted_wrt (\<lambda>s t. span_start s < span_start t) spans \<and>
     (\<forall>s \<in> set spans. span_start s < span_end s) \<and>
     (\<forall>s \<in> set spans. \<forall>t \<in> set spans. s \<noteq> t \<longrightarrow> apart s t)"
proof (induction spans)
  case (Cons s ss)
  then show ?case unfolding normalised_def apart_def by auto force+
qed (simp add: normalised_def)

lemma add_loop_set:
  assumes "add_loop es merged p = (m, q)" "\<forall>e \<in> set es. span_start e < span_end e" "span_start p < span_end p"
  shows "span_start q < span_end q \<and> (covered m x \<or> in_span x q \<longleftrightarrow> covered merged x \<or> covered es x \<or> in_span x p)"
  using assms
proof (induction es merged p rule: add_loop.induct)
  case (2 e es merged p)
  then show ?case by (auto simp: in_span_def split: if_splits)
qed simp

text \<open>
  The spans kept apart from the one being added stay apart from it as it grows: those kept are
  before it, or it has been passed and the rest lie beyond it too.
\<close>

definition passed :: "span list \<Rightarrow> span \<Rightarrow> span list \<Rightarrow> bool" where
  "passed merged p es \<longleftrightarrow> (\<forall>e \<in> set merged. span_end e < span_start p \<or>
     span_end p < span_start e \<and> (\<forall>f \<in> set es. span_end p < span_start f))"

lemma passed_keep:
  assumes "passed merged p (e # es)" "span_end e < span_start p \<or> span_start e > span_end p"
    "\<forall>f \<in> set es. span_end e < span_start f" "span_start e < span_end e"
  shows "passed (merged @ [e]) p es"
  using assms unfolding passed_def by fastforce

lemma passed_join:
  assumes "passed merged p (e # es)" "\<not> (span_end e < span_start p \<or> span_start e > span_end p)"
    "\<forall>f \<in> set merged. span_end f < span_start e"
  shows "passed merged \<lparr>span_start = min (span_start p) (span_start e),
              span_end = max (span_end p) (span_end e)\<rparr> es"
  using assms unfolding passed_def by fastforce

lemma add_loop_apart:
  assumes "add_loop es merged p = (m, q)"
    and "sorted_wrt (\<lambda>s t. span_end s < span_start t) (merged @ es)"
    and "\<forall>e \<in> set es. span_start e < span_end e" and "passed merged p es"
  shows "sorted_wrt (\<lambda>s t. span_end s < span_start t) m \<and> (\<forall>e \<in> set m. apart e q) \<and> set m \<subseteq> set merged \<union> set es"
  using assms
proof (induction es merged p rule: add_loop.induct)
  case (1 merged p)
  then show ?case by (auto simp: passed_def apart_def)
next
  case (2 e es merged p)
  note s = 2(4) [unfolded sorted_wrt_append sorted_wrt.simps list.set]
  show ?case
  proof (cases "span_end e < span_start p \<or> span_start e > span_end p")
    case True
    have "passed (merged @ [e]) p es" using passed_keep [OF 2(6) True] s 2(5) by simp
    moreover have "add_loop es (merged @ [e]) p = (m, q)"
      using 2(3) unfolding add_loop.simps if_P [OF True] .
    ultimately show ?thesis using 2(1) [OF True] 2(4,5) by (simp add: Un_ac)
  next
    case False
    have "passed merged \<lparr>span_start = min (span_start p) (span_start e),
              span_end = max (span_end p) (span_end e)\<rparr> es"
      using passed_join [OF 2(6) False] s by simp
    moreover have "add_loop es merged \<lparr>span_start = min (span_start p) (span_start e),
              span_end = max (span_end p) (span_end e)\<rparr> = (m, q)"
      using 2(3) unfolding add_loop.simps if_not_P [OF False] .
    moreover have "sorted_wrt (\<lambda>s t. span_end s < span_start t) (merged @ es)"
      using s by (simp add: sorted_wrt_append)
    ultimately show ?thesis using 2(2) [OF False] 2(5) by auto
  qed
qed

lemma normalised_sorted: "normalised spans \<Longrightarrow> sort_key span_start spans = spans"
proof -
  assume n: "normalised spans"
  then have "sorted (map span_start spans)"
    by (induction spans) (force simp: normalised_def)+
  then show ?thesis by (rule sort_key_id_if_sorted)
qed

lemma normalised_distinct: "normalised spans \<Longrightarrow> distinct spans"
  by (induction spans) (force simp: normalised_def)+

lemma normalised_sort:
  assumes "distinct ss" "\<And>s t. s \<in> set ss \<Longrightarrow> t \<in> set ss \<Longrightarrow> s \<noteq> t \<Longrightarrow> apart s t"
    "\<forall>s \<in> set ss. span_start s < span_end s"
  shows "normalised (sort_key span_start ss)"
proof -
  let ?ys = "sort_key span_start ss"
  have "span_end (?ys ! i) < span_start (?ys ! j)" if "i < j" "j < length ?ys" for i j
  proof -
    have "?ys ! i \<noteq> ?ys ! j" using assms(1) that by (simp add: nth_eq_iff_index_eq)
    moreover have in': "?ys ! i \<in> set ss" "?ys ! j \<in> set ss"
      using that nth_mem [of i ?ys] nth_mem [of j ?ys] by simp_all
    moreover have "span_start (?ys ! i) \<le> span_start (?ys ! j)"
      using sorted_nth_mono [of "map span_start ?ys" i j] that by simp
    moreover have "span_start (?ys ! j) < span_end (?ys ! j)" using assms(3) in'(2) by blast
    ultimately show ?thesis using assms(2) [of "?ys ! i" "?ys ! j"] by (auto simp: apart_def)
  qed
  then show ?thesis using assms(3) by (auto simp: normalised_def sorted_wrt_iff_nth_less)
qed

text \<open>
  Adding a highlight keeps the list in order with no two spans overlapping or touching, and
  covers exactly what was covered before and the selection, whichever way it was dragged; an
  empty selection changes nothing.
\<close>
theorem add_correct:
  assumes "normalised spans"
  shows "normalised (add spans s) \<and>
    (\<forall>x. covered (add spans s) x \<longleftrightarrow>
       covered spans x \<or> min (span_start s) (span_end s) \<le> x \<and> x < max (span_start s) (span_end s))"
proof (cases "max (span_start s) (span_end s) \<le> min (span_start s) (span_end s)")
  case True
  then show ?thesis using assms by (auto simp: add_def Let_def)
next
  case False
  let ?p = "\<lparr>span_start = min (span_start s) (span_end s), span_end = max (span_start s) (span_end s)\<rparr>"
  obtain m q where loop: "add_loop spans [] ?p = (m, q)" by fastforce
  with False have add: "add spans s = sort_key span_start (m @ [q])"
    unfolding add_def Let_def normalised_sorted [OF assms] by (simp only: loop if_False prod.case)
  have ne: "\<forall>e \<in> set spans. span_start e < span_end e" "span_start ?p < span_end ?p"
    using assms False by (auto simp: normalised_def)
  note cover = add_loop_set [OF loop ne]
  have m: "sorted_wrt (\<lambda>s t. span_end s < span_start t) m" "\<forall>e \<in> set m. apart e q" "set m \<subseteq> set spans"
    using add_loop_apart [OF loop _ ne(1)] assms by (auto simp: normalised_def passed_def)
  have nm: "normalised m" using m ne(1) by (auto simp: normalised_def)
  have "q \<notin> set m" using m(2) cover by (force simp: apart_def)
  then have "distinct (m @ [q])" using normalised_distinct [OF nm] by simp
  moreover have "apart a b" if "a \<in> set (m @ [q])" "b \<in> set (m @ [q])" "a \<noteq> b" for a b
    using that m(2) nm by (auto simp: normalised_iff apart_def)
  ultimately have "normalised (add spans s)"
    unfolding add using m(3) ne(1) cover by (intro normalised_sort) auto
  with cover show ?thesis by (auto simp: add in_span_def)
qed

theorem add_correct_witness:
  "normalised (add [\<lparr>span_start = 0, span_end = 4\<rparr>] \<lparr>span_start = 9, span_end = 4\<rparr>) \<and>
   covered (add [\<lparr>span_start = 0, span_end = 4\<rparr>] \<lparr>span_start = 9, span_end = 4\<rparr>) 8"
  using add_correct [of "[\<lparr>span_start = 0, span_end = 4\<rparr>]" "\<lparr>span_start = 9, span_end = 4\<rparr>"]
  by (simp add: normalised_def)

lemma spanAt_SomeD:
  "spanAt spans x = Some s \<Longrightarrow> s \<in> set spans \<and> span_start s \<le> x \<and> x < span_end s"
  by (induction spans) (auto simp: spanAt_def split: if_splits)

lemma spanAt_None_iff:
  "spanAt spans x = None \<longleftrightarrow> (\<forall>s \<in> set spans. x < span_start s \<or> x \<ge> span_end s)"
  by (induction spans) (auto simp: spanAt_def)

lemma in_removeAt: "s \<in> set (removeAt spans x) \<longleftrightarrow> s \<in> set spans \<and> (x < span_start s \<or> x \<ge> span_end s)"
  by (simp add: removeAt_def)

lemma removeAt_subset: "set (removeAt spans x) \<subseteq> set spans"
  by (auto simp: in_removeAt)

text \<open>
  Clearing takes away the one highlight that holds the offset, whole, and no other; it is
  the one \<open>spanAt\<close> finds there.
\<close>
theorem removeAt_correct:
  assumes "normalised spans"
  shows "normalised (removeAt spans x) \<and> spanAt (removeAt spans x) x = None \<and>
    set spans = set (removeAt spans x) \<union> (case spanAt spans x of None \<Rightarrow> {} | Some s \<Rightarrow> {s}) \<and>
    (\<forall>s. spanAt spans x = Some s \<longrightarrow> s \<notin> set (removeAt spans x))"
proof -
  have "normalised (removeAt spans x)"
    using assms by (auto simp: normalised_def removeAt_def sorted_wrt_filter)
  moreover have "spanAt (removeAt spans x) x = None" by (simp add: spanAt_None_iff in_removeAt)
  moreover have "set spans = set (removeAt spans x) \<union> (case spanAt spans x of None \<Rightarrow> {} | Some s \<Rightarrow> {s})"
  proof (cases "spanAt spans x")
    case None
    then have "set (removeAt spans x) = set spans" by (auto simp: spanAt_None_iff in_removeAt)
    with None show ?thesis by simp
  next
    case (Some s)
    note s = spanAt_SomeD [OF Some]
    have "t \<in> set (removeAt spans x) \<or> t = s" if t: "t \<in> set spans" for t
    proof (rule disjCI)
      assume "t \<noteq> s"
      then have "apart t s" using t s assms by (simp add: normalised_iff)
      with s t show "t \<in> set (removeAt spans x)" by (auto simp: apart_def in_removeAt)
    qed
    then have "set spans = insert s (set (removeAt spans x))"
      using conjunct1 [OF s] removeAt_subset [of spans x] by blast
    with Some show ?thesis by simp
  qed
  moreover have "s \<notin> set (removeAt spans x)" if "spanAt spans x = Some s" for s
    using spanAt_SomeD [OF that] by (simp add: in_removeAt)
  ultimately show ?thesis by simp
qed

theorem removeAt_correct_witness:
  "normalised (removeAt [\<lparr>span_start = 0, span_end = 4\<rparr>, \<lparr>span_start = 6, span_end = 9\<rparr>] 7)"
  using removeAt_correct [of "[\<lparr>span_start = 0, span_end = 4\<rparr>, \<lparr>span_start = 6, span_end = 9\<rparr>]" 7]
  by (simp add: normalised_def)

subsection \<open>The passage from its segments\<close>

definition painted :: "segment list \<Rightarrow> (char \<times> bool) list" where
  "painted segs = concat (map (\<lambda>g. map (\<lambda>c. (c, highlighted g)) (seg_text g)) segs)"

lemma painted_simps [simp]:
  "painted [] = []" "painted (g # gs) = map (\<lambda>c. (c, highlighted g)) (seg_text g) @ painted gs"
  "painted (gs @ hs) = painted gs @ painted hs"
  by (simp_all add: painted_def)

definition paint :: "string \<Rightarrow> span list \<Rightarrow> nat \<Rightarrow> nat \<Rightarrow> (char \<times> bool) list" where
  "paint t spans i j = map (\<lambda>k. (t ! k, covered spans (int k))) [i..<j]"

lemma paint_append: "i \<le> j \<Longrightarrow> j \<le> k \<Longrightarrow> paint t spans i j @ paint t spans j k = paint t spans i k"
  using upt_add_eq_append [of i j "k - j"] by (simp add: paint_def)

lemma paint_cong:
  "(\<And>k. i \<le> k \<Longrightarrow> k < j \<Longrightarrow> covered ss (int k) = covered ts (int k)) \<Longrightarrow> paint t ss i j = paint t ts i j"
  by (simp add: paint_def)

lemma slice_paint:
  assumes "0 \<le> i" "i \<le> j" "j \<le> int (length t)" "\<And>k. i \<le> k \<Longrightarrow> k < j \<Longrightarrow> covered ss k = b"
  shows "map (\<lambda>c. (c, b)) (js_slice t i j) = paint t ss (nat i) (nat j)"
proof (rule nth_equalityI)
  show "length (map (\<lambda>c. (c, b)) (js_slice t i j)) = length (paint t ss (nat i) (nat j))"
    using assms by (simp add: js_slice_def paint_def nat_diff_distrib)
next
  fix k assume "k < length (map (\<lambda>c. (c, b)) (js_slice t i j))"
  then have k: "k < nat (j - i)" "nat i + k < length t" "nat i + k < nat j"
    using assms by (auto simp: js_slice_def)
  have "covered ss (int (nat i + k)) = b" using assms(1,4) k by auto
  moreover have "[nat i..<nat j] ! k = nat i + k" using k(3) by (rule nth_upt)
  moreover have len: "k < length [nat i..<nat j]" using k(3) by simp
  ultimately show "map (\<lambda>c. (c, b)) (js_slice t i j) ! k = paint t ss (nat i) (nat j) ! k"
    using k assms(1) unfolding paint_def nth_map [OF len] by (simp add: js_slice_def)
qed

lemma segment_loop_painted:
  assumes "sorted (map span_start ss)" "\<forall>s \<in> set ss. span_start s \<le> span_end s"
    "0 \<le> cursor" "cursor \<le> int (length t)"
  shows "painted (segment_loop t ss cursor) = paint t ss (nat cursor) (length t)"
  using assms
proof (induction ss arbitrary: cursor)
  case Nil
  have "map (\<lambda>c. (c, False)) (js_slice t cursor (int (length t))) = paint t [] (nat cursor) (length t)"
    using slice_paint [of cursor "int (length t)" t "[]" False] Nil by simp
  then show ?case by (auto simp: js_slice_def paint_def)
next
  case (Cons s ss)
  define a where "a = max 0 (min (span_start s) (int (length t)))"
  define b where "b = max 0 (min (span_end s) (int (length t)))"
  have ab: "0 \<le> a" "a \<le> b" "b \<le> int (length t)" using Cons.prems(2) by (auto simp: a_def b_def)
  have step: "segment_loop t (s # ss) cursor =
      (if b \<le> cursor then segment_loop t ss cursor
       else (if a > cursor
             then [\<lparr>seg_text = js_slice t cursor a, highlighted = False, seg_start = cursor\<rparr>] else [])
            @ [\<lparr>seg_text = js_slice t (max cursor a) b, highlighted = True, seg_start = max cursor a\<rparr>]
            @ segment_loop t ss b)"
    unfolding segment_loop.simps Let_def a_def b_def ..
  have later: "span_start s \<le> span_start e" if "e \<in> set ss" for e using Cons.prems(1) that by simp
  have IH: "painted (segment_loop t ss c) = paint t ss (nat c) (length t)" if "0 \<le> c" "c \<le> int (length t)" for c
    using Cons that by simp
  have past: "paint t ss (nat c) (length t) = paint t (s # ss) (nat c) (length t)" if "b \<le> c" "0 \<le> c" for c
    using that by (intro paint_cong) (auto simp: b_def in_span_def)
  show ?case
  proof (cases "b \<le> cursor")
    case True
    then have "segment_loop t (s # ss) cursor = segment_loop t ss cursor"
      unfolding step by simp
    with IH [OF Cons.prems(3,4)] past [OF True Cons.prems(3)] show ?thesis by simp
  next
    case False
    let ?m = "max cursor a"
    have m: "0 \<le> ?m" "cursor \<le> ?m" "?m \<le> b" "?m \<le> int (length t)" using False ab Cons.prems(3,4) by auto
    have plain: "map (\<lambda>c. (c, False)) (js_slice t cursor ?m) = paint t (s # ss) (nat cursor) (nat ?m)"
    proof (rule slice_paint)
      show "covered (s # ss) k = False" if "cursor \<le> k" "k < ?m" for k
        using that later Cons.prems(3) by (force simp: covered_def in_span_def a_def)
    qed (use m Cons.prems(3,4) in auto)
    have high: "map (\<lambda>c. (c, True)) (js_slice t ?m b) = paint t (s # ss) (nat ?m) (nat b)"
    proof (rule slice_paint)
      show "covered (s # ss) k = True" if "?m \<le> k" "k < b" for k
        using that Cons.prems(3) by (auto simp: in_span_def a_def b_def)
    qed (use m ab in auto)
    have "painted (segment_loop t (s # ss) cursor) =
        map (\<lambda>c. (c, False)) (js_slice t cursor ?m) @ map (\<lambda>c. (c, True)) (js_slice t ?m b) @
        painted (segment_loop t ss b)"
      unfolding step using False Cons.prems(3) by (auto simp: js_slice_def max_def)
    also have "\<dots> = paint t (s # ss) (nat cursor) (nat ?m) @ paint t (s # ss) (nat ?m) (nat b) @
        paint t (s # ss) (nat b) (length t)"
      using plain high IH [of b] past [of b] ab by simp
    also have "\<dots> = paint t (s # ss) (nat cursor) (length t)"
      using m ab by (simp add: paint_append)
    finally show ?thesis .
  qed
qed

text \<open>
  The passage is rendered whole. Whatever the spans (overlapping, out of order, beyond the
  text), the segments put together are the text, character by character, and a character is in a
  highlighted segment exactly when some span holds its offset.
\<close>
theorem segments_correct:
  assumes "\<forall>s \<in> set spans. span_start s \<le> span_end s"
  shows "painted (segments t spans) = map (\<lambda>i. (t ! i, covered spans (int i))) [0..<length t] \<and>
    segments t spans \<noteq> []"
proof -
  have "painted (segment_loop t (sort_key span_start spans) 0) = paint t spans 0 (length t)"
    using segment_loop_painted [of "sort_key span_start spans" 0 t] assms by (simp add: paint_def)
  moreover have "painted (segments t spans) = painted (segment_loop t (sort_key span_start spans) 0)"
    if "segment_loop t (sort_key span_start spans) 0 \<noteq> []"
    using that by (simp add: segments_def)
  moreover have "t = []" if "segment_loop t (sort_key span_start spans) 0 = []"
    using calculation(1) that by (auto simp: paint_def)
  ultimately show ?thesis by (auto simp: segments_def paint_def Let_def)
qed

theorem segments_correct_witness:
  "painted (segments ''abcd'' [\<lparr>span_start = 1, span_end = 3\<rparr>]) =
     [(CHR ''a'', False), (CHR ''b'', True), (CHR ''c'', True), (CHR ''d'', False)]"
  using segments_correct [of "[\<lparr>span_start = 1, span_end = 3\<rparr>]" "''abcd''"]
  by (simp add: in_span_def upt_conv_Cons)

lemma offset_walk_append:
  "node \<notin> fst ` set before \<Longrightarrow>
   offset_walk (before @ (node, t) # after) node k acc = acc + int (length (concat (map snd before))) + k"
  by (induction before arbitrary: acc) auto

text \<open>
  A place in a rendered passage resolves to its offset in the text. An offset inside the text
  node of one segment is that many characters after everything in the segments before it.
\<close>
theorem offsetOf_correct:
  assumes "nodes = before @ (node, t) # after" and "node \<notin> fst ` set before" and "k \<le> length t"
  shows "offsetOf nodes node (int k) =
    int (length (concat (map snd before) @ take k t))"
  using assms offset_walk_append [of node before t after "int k" 0] by (simp add: offsetOf_def)

theorem offsetOf_correct_witness: "offsetOf [(1, ''ab''), (2, ''cde'')] 2 1 = 3"
  using offsetOf_correct [of "[(1, ''ab''), (2, ''cde'')]" "[(1, ''ab'')]" 2 "''cde''" "[]" 1] by simp

end
