(* ===== verification/ReadingPane.thy ===== *)
theory ReadingPane
  imports Highlights Clock Palette
begin

text \<open>
  The reading pane, \<open>student/src/exam/Reading.tsx\<close> (the divider, the context menu and the
  highlights of a passage), and the bars around it, \<open>student/src/exam/Chrome.tsx\<close>. Pixels are reals;
  a document position is a text node and an offset in it.
\<close>

subsection \<open>The divider\<close>

datatype split_width = Even | Px real

definition drag_to :: "real \<Rightarrow> real \<Rightarrow> split_width" where
  "drag_to width x =
     (let lowest = width * 0.2; highest = width * 0.8 in Px (min highest (max lowest x)))"

datatype divider_key = LeftKey | RightKey | AnyKey

definition nudge :: "real \<Rightarrow> real option \<Rightarrow> divider_key \<Rightarrow> split_width \<Rightarrow> split_width" where
  "nudge width pane_width key split =
     (let delta = (case key of LeftKey \<Rightarrow> -40 | RightKey \<Rightarrow> 40 | AnyKey \<Rightarrow> (0 :: real)) in
      if delta = 0 then split
      else Px (min (width * 0.8) (max (width * 0.2) (nullish pane_width (width / 2) + delta))))"

subsection \<open>The menu and the highlights\<close>

record doc_point =
  dp_node :: nat
  dp_offset :: int

record doc_range =
  range_start :: doc_point
  range_end :: doc_point

record menu =
  m_x :: int
  m_y :: int
  m_offset :: int
  m_hasSelection :: bool

record pane =
  p_spans :: "span list"
  p_menu :: "menu option"
  p_split :: split_width

text \<open>
  The text nodes inside the passage element, in order: the heading, the hint line, and one node
  for each segment of the passage.
\<close>

definition HINT :: string where
  "HINT = ''Select text, then right-click to highlight.''"

definition pane_nodes :: "string \<Rightarrow> string \<Rightarrow> span list \<Rightarrow> (nat \<times> string) list" where
  "pane_nodes title passage spans = enumerate 0 (title # HINT # map seg_text (segments passage spans))"

definition place :: "(nat \<times> string) list \<Rightarrow> doc_point \<Rightarrow> int" where
  "place nodes p = offsetOf nodes (dp_node p) (dp_offset p)"

text \<open>
  \<open>caret\<close> and \<open>legacy\<close> are what the two browser calls answer for the place clicked, \<open>selected\<close> the
  anchor of the selection with whether it is empty; the passage contains every node of its list.
\<close>

definition openMenu ::
  "(nat \<times> string) list \<Rightarrow> int \<Rightarrow> int \<Rightarrow> (doc_point \<times> bool) option \<Rightarrow> doc_point option \<Rightarrow> doc_point option \<Rightarrow> pane \<Rightarrow> pane" where
  "openMenu nodes x y selected caret legacy p =
     (let hasSelection = (case selected of None \<Rightarrow> False
            | Some (anchor, isCollapsed) \<Rightarrow> \<not> isCollapsed \<and> dp_node anchor \<in> fst ` set nodes);
          offset = (case caret of
              Some c \<Rightarrow> place nodes c
            | None \<Rightarrow> (case legacy of
                Some l \<Rightarrow> place nodes l
              | None \<Rightarrow> (case selected of Some (anchor, _) \<Rightarrow> place nodes anchor | None \<Rightarrow> 0)))
      in p\<lparr>p_menu := Some \<lparr>m_x = x, m_y = y, m_offset = offset, m_hasSelection = hasSelection\<rparr>\<rparr>)"

definition highlight :: "(nat \<times> string) list \<Rightarrow> doc_range option \<Rightarrow> pane \<Rightarrow> pane" where
  "highlight nodes rng p =
     (case rng of
        None \<Rightarrow> p\<lparr>p_menu := None\<rparr>
      | Some r \<Rightarrow>
          p\<lparr>p_spans := add (p_spans p) \<lparr>span_start = place nodes (range_start r), span_end = place nodes (range_end r)\<rparr>,
            p_menu := None\<rparr>)"

definition clearAll :: "pane \<Rightarrow> pane" where
  "clearAll p =
     (case p_menu p of
        Some m \<Rightarrow> p\<lparr>p_spans := removeAt (p_spans p) (m_offset m), p_menu := None\<rparr>
      | None \<Rightarrow> p)"

definition dismiss :: "pane \<Rightarrow> pane" where
  "dismiss p = p\<lparr>p_menu := None\<rparr>"

text \<open>Which items of the open menu can be clicked.\<close>

definition can_highlight :: "pane \<Rightarrow> bool" where
  "can_highlight p \<longleftrightarrow> (case p_menu p of Some m \<Rightarrow> m_hasSelection m | None \<Rightarrow> False)"

definition overHighlight :: "pane \<Rightarrow> bool" where
  "overHighlight p \<longleftrightarrow> (case p_menu p of Some m \<Rightarrow> spanAt (p_spans p) (m_offset m) \<noteq> None | None \<Rightarrow> False)"

subsection \<open>The bars\<close>

record timer_view =
  tv_state :: urgency_level
  tv_text :: string
  tv_announced :: bool

definition Timer :: "clock \<Rightarrow> real \<Rightarrow> timer_view" where
  "Timer c now =
     (let ms = remaining c now; level = urgency ms
      in \<lparr>tv_state = level, tv_text = format_clock ms, tv_announced = (level \<noteq> Normal)\<rparr>)"

record slot_button =
  sb_number :: int
  sb_label :: string
  sb_classes :: "string list"
  sb_current :: bool

definition slot_button_of :: "int \<Rightarrow> slot \<Rightarrow> slot_button" where
  "slot_button_of current s =
     (let m = marker s current in
      \<lparr>sb_number = number s,
       sb_label = ''Question '' @ show_int (number s) @ (if answered s then '', answered'' else '', not answered'') @
         (if flagged s then '', flagged for review'' else []),
       sb_classes = filter (\<lambda>c. c \<noteq> [])
         [''exam-slot'', (case marker_shape m of Square \<Rightarrow> ''exam-slot--square'' | Circle \<Rightarrow> ''exam-slot--circle''),
          (if marker_answered m then ''exam-slot--answered'' else []),
          (if marker_current m then ''exam-slot--current'' else [])],
       sb_current = marker_current m\<rparr>)"

record bottom_bar =
  bb_flagged :: bool
  bb_parts :: "(int \<times> slot_button list) list"
  bb_count :: string

definition BottomBar :: "slot list \<Rightarrow> int \<Rightarrow> bottom_bar" where
  "BottomBar slots current =
     \<lparr>bb_flagged = (case List.find (\<lambda>s. number s = current) slots of Some s \<Rightarrow> flagged s | None \<Rightarrow> False),
      bb_parts = map (\<lambda>g. (group_part g, map (slot_button_of current) (group_slots g))) (byPart slots),
      bb_count = show_int (unanswered slots) @ '' left''\<rparr>"

subsection \<open>What the pane does\<close>

text \<open>
  Neither pane can be dragged or nudged away. Whatever the pointer or the keys do, the passage
  keeps between a fifth and four fifths of the width, and inside that range the divider is where
  the pointer is.
\<close>
theorem divider_bounded:
  assumes "0 \<le> width"
  shows "(\<exists>w. drag_to width x = Px w \<and> width * 0.2 \<le> w \<and> w \<le> width * 0.8 \<and>
      (width * 0.2 \<le> x \<and> x \<le> width * 0.8 \<longrightarrow> w = x)) \<and>
    (key = AnyKey \<and> nudge width pane_width key split = split \<or>
     (\<exists>w. nudge width pane_width key split = Px w \<and> width * 0.2 \<le> w \<and> w \<le> width * 0.8))"
  using assms by (cases key) (auto simp: drag_to_def nudge_def Let_def min_def max_def)

theorem divider_bounded_witness: "drag_to 1000 (- 50) = Px 200 \<and> (\<exists>w. drag_to 1000 (- 50) = Px w \<and> w \<le> 800)"
  using divider_bounded [of 1000 "- 50" AnyKey None Even] by (auto simp: drag_to_def)

definition shift :: "string \<Rightarrow> int" where
  "shift title = int (length title) + int (length HINT)"

definition rendered_offset :: "string \<Rightarrow> span list \<Rightarrow> nat \<Rightarrow> int \<Rightarrow> int" where
  "rendered_offset passage spans i k = int (length (concat (map seg_text (take i (segments passage spans))))) + k"

lemma place_in_segment:
  assumes "i < length (segments passage spans)"
  shows "place (pane_nodes title passage spans) \<lparr>dp_node = i + 2, dp_offset = k\<rparr> =
    shift title + rendered_offset passage spans i k"
proof -
  let ?texts = "map seg_text (segments passage spans)"
  let ?nodes = "enumerate 0 (title # HINT # ?texts)"
  have split: "?texts = take i ?texts @ ?texts ! i # drop (Suc i) ?texts"
    by (rule id_take_nth_drop) (use assms in simp)
  have "?nodes = enumerate 0 (title # HINT # take i ?texts) @ (i + 2, ?texts ! i) #
      enumerate (i + 3) (drop (Suc i) ?texts)"
    using assms by (subst split) (simp add: enumerate_append_eq numeral_3_eq_3)
  moreover have fresh: "i + 2 \<notin> fst ` set (enumerate 0 (title # HINT # take i ?texts))"
    using assms by (auto simp: in_set_enumerate_eq)
  ultimately have "offset_walk ?nodes (i + 2) k 0 =
      0 + int (length (concat (map snd (enumerate 0 (title # HINT # take i ?texts))))) + k"
    using offset_walk_append [OF fresh, of "?texts ! i" _ k 0] by (simp only:)
  also have "map snd (enumerate 0 (title # HINT # take i ?texts)) = title # HINT # take i ?texts"
    by (simp only: map_snd_enumerate)
  finally show ?thesis by (simp add: place_def offsetOf_def pane_nodes_def shift_def rendered_offset_def take_map)
qed

text \<open>
  A highlight lands beside the text that was selected. Offsets are counted from the top of the
  pane, so the heading and the hint line above the passage are counted as text of it: the span is
  moved right by their length, and the first character selected is not highlighted.
\<close>
theorem highlight_beside_selection:
  fixes title passage :: string
  assumes "i < length (segments passage [])" "j < length (segments passage [])"
    and "rendered_offset passage [] i k < rendered_offset passage [] j l" and "p_spans p = []"
  defines "s \<equiv> rendered_offset passage [] i k" and "e \<equiv> rendered_offset passage [] j l"
    and "p' \<equiv> highlight (pane_nodes title passage [])
       (Some \<lparr>range_start = \<lparr>dp_node = i + 2, dp_offset = k\<rparr>, range_end = \<lparr>dp_node = j + 2, dp_offset = l\<rparr>\<rparr>) p"
  shows "p_spans p' = [\<lparr>span_start = shift title + s, span_end = shift title + e\<rparr>] \<and> shift title > 0 \<and>
    \<not> covered (p_spans p') s"
proof -
  have pos: "shift title > 0" by (simp add: shift_def HINT_def)
  moreover have "p_spans p' = [\<lparr>span_start = shift title + s, span_end = shift title + e\<rparr>]"
    using assms(3,4) place_in_segment [OF assms(1)] place_in_segment [OF assms(2)]
    by (simp add: p'_def highlight_def s_def e_def add_def Let_def)
  ultimately show ?thesis by (simp add: in_span_def)
qed

theorem highlight_beside_selection_witness:
  "p_spans (highlight (pane_nodes ''Bees'' ''abcdef'' [])
       (Some \<lparr>range_start = \<lparr>dp_node = 2, dp_offset = 0\<rparr>, range_end = \<lparr>dp_node = 2, dp_offset = 3\<rparr>\<rparr>)
       \<lparr>p_spans = [], p_menu = None, p_split = Even\<rparr>) =
   [\<lparr>span_start = 47, span_end = 50\<rparr>]"
proof -
  have seg: "segments ''abcdef'' [] = [\<lparr>seg_text = ''abcdef'', highlighted = False, seg_start = 0\<rparr>]"
    by (simp add: segments_def)
  show ?thesis
    using highlight_beside_selection [of 0 "''abcdef''" 0 0 3 "\<lparr>p_spans = [], p_menu = None, p_split = Even\<rparr>" "''Bees''"]
    by (simp add: seg rendered_offset_def shift_def HINT_def numeral_2_eq_2)
qed

text \<open>
  The bar shows every question once, in order, and only its own state. The buttons of the
  parts put together are the questions; a label reads "answered" and "flagged" exactly when the
  question is, and only the current question is marked current.
\<close>
theorem bottom_bar_complete:
  "map sb_number (concat (map snd (bb_parts (BottomBar slots current)))) = map number slots \<and>
   concat (map snd (bb_parts (BottomBar slots current))) = map (slot_button_of current) slots \<and>
   (\<forall>s \<in> set slots. (sb_current (slot_button_of current s) \<longleftrightarrow> number s = current) \<and>
      (''exam-slot--answered'' \<in> set (sb_classes (slot_button_of current s)) \<longleftrightarrow> answered s) \<and>
      (''exam-slot--circle'' \<in> set (sb_classes (slot_button_of current s)) \<longleftrightarrow> flagged s))"
proof -
  have "concat (map snd (bb_parts (BottomBar slots current))) =
      map (slot_button_of current) (concat (map group_slots (byPart slots)))"
    by (simp add: BottomBar_def map_concat comp_def)
  moreover have "concat (map group_slots (byPart slots)) = slots"
    using fold_group_step_ok [of "[]" slots] by (simp add: byPart_def groups_ok_def)
  ultimately show ?thesis
    by (auto simp: slot_button_of_def marker_def Let_def split: if_splits)
qed

theorem bottom_bar_complete_witness:
  "length (concat (map snd (bb_parts (BottomBar [\<lparr>number = 1, part = 1, answered = True, flagged = False\<rparr>] 1)))) = 1"
  using bottom_bar_complete [of "[\<lparr>number = 1, part = 1, answered = True, flagged = False\<rparr>]" 1] by simp

text \<open>
  The menu does what it offers. Clearing removes the highlight under the click and leaves the
  rest; it is offered exactly over a highlight; and either action closes the menu.
\<close>
theorem menu_correct:
  assumes "p_menu p = Some m" and "normalised (p_spans p)"
  shows "(overHighlight p \<longleftrightarrow> covered (p_spans p) (m_offset m)) \<and> p_menu (clearAll p) = None \<and>
    p_menu (highlight nodes rng p) = None \<and> \<not> covered (p_spans (clearAll p)) (m_offset m) \<and>
    set (p_spans (clearAll p)) \<subseteq> set (p_spans p) \<and>
    (\<not> overHighlight p \<longrightarrow> p_spans (clearAll p) = p_spans p)"
  using assms
  by (auto simp: overHighlight_def clearAll_def highlight_def covered_def in_span_def in_removeAt spanAt_None_iff
      removeAt_def filter_id_conv not_less not_le split: option.split)

theorem menu_correct_witness:
  "overHighlight \<lparr>p_spans = [\<lparr>span_start = 0, span_end = 4\<rparr>], p_menu = Some \<lparr>m_x = 0, m_y = 0, m_offset = 2,
       m_hasSelection = False\<rparr>, p_split = Even\<rparr>"
  using menu_correct [of "\<lparr>p_spans = [\<lparr>span_start = 0, span_end = 4\<rparr>], p_menu = Some \<lparr>m_x = 0, m_y = 0, m_offset = 2,
       m_hasSelection = False\<rparr>, p_split = Even\<rparr>" "\<lparr>m_x = 0, m_y = 0, m_offset = 2, m_hasSelection = False\<rparr>" "[]" None]
  by (simp add: normalised_def in_span_def)

end
