(* ===== verification/Assignments.thy ===== *)
theory Assignments
  imports JsNum "HOL-Library.Product_Lexorder"
begin

text \<open>
  What a student may do with assigned work, of \<open>student/src/home/assignments.ts\<close>: the state of an
  assignment at a time, the attempts left, the words for a deadline and the order of the list.
\<close>

record assignment =
  as_xid :: string
  opens_at :: string
  closes_at :: string
  max_attempts :: "int option"
  my_attempts_used :: "int option"
  time_limit_seconds :: "int option"

datatype work_state = Startable | Upcoming | Closed | Exhausted

definition stateOf :: "assignment \<Rightarrow> real \<Rightarrow> work_state" where
  "stateOf a now =
     (let opens = date_parse (opens_at a); closes = date_parse (closes_at a) in
      if Num now < opens then Upcoming
      else if closes \<le> Num now then Closed
      else
        let used = nullish (my_attempts_used a) 0; limit = nullish (max_attempts a) 1
        in if limit \<le> used then Exhausted else Startable)"

definition attemptsLeft :: "assignment \<Rightarrow> int" where
  "attemptsLeft a = max 0 (nullish (max_attempts a) 1 - nullish (my_attempts_used a) 0)"

text \<open>\<open>Math.round\<close> rounds a half up; a number of minutes, hours or days is put in words.\<close>

definition math_round :: "real \<Rightarrow> int" where
  "math_round x = \<lfloor>x + 1 / 2\<rfloor>"

definition duration_words :: "real \<Rightarrow> string" where
  "duration_words ms =
     (let minutes = math_round (ms / 60000) in
      if minutes < 1 then '' now''
      else if minutes < 60 then '' in '' @ show_int minutes @ '' min''
      else
        let hours = math_round (of_int minutes / 60) in
        if hours < 24 then '' in '' @ show_int hours @ '' '' @ (if hours = 1 then ''hour'' else ''hours'')
        else
          let days = math_round (of_int hours / 24)
          in '' in '' @ show_int days @ '' '' @ (if days = 1 then ''day'' else ''days''))"

definition deadlineText :: "assignment \<Rightarrow> real \<Rightarrow> string" where
  "deadlineText a now =
     (let s = stateOf a now in
      if s = Closed then ''closed''
      else
        let target = (if s = Upcoming then date_parse (opens_at a) else date_parse (closes_at a));
            verb = (if s = Upcoming then ''opens'' else ''closes'')
        in case target - Num now of
             NaN \<Rightarrow> verb @ '' in NaN days''
           | Num ms \<Rightarrow> verb @ duration_words ms)"

definition limitText :: "assignment \<Rightarrow> string option" where
  "limitText a =
     (case time_limit_seconds a of
        None \<Rightarrow> None
      | Some t \<Rightarrow> if t = 0 then None else Some (show_int (math_round (of_int t / 60)) @ '' min''))"

definition RANK :: "work_state \<Rightarrow> nat" where
  "RANK s = (case s of Startable \<Rightarrow> 0 | Upcoming \<Rightarrow> 1 | Exhausted \<Rightarrow> 2 | Closed \<Rightarrow> 3)"

definition deadline_key :: "real \<Rightarrow> assignment \<Rightarrow> jsnum" where
  "deadline_key now x =
     (if stateOf x now = Upcoming then date_parse (opens_at x) else date_parse (closes_at x))"

definition work_after :: "real \<Rightarrow> assignment \<Rightarrow> assignment \<Rightarrow> bool" where
  "work_after now a b =
     (let byState = int (RANK (stateOf a now)) - int (RANK (stateOf b now)) in
      if byState \<noteq> 0 then byState > 0
      else deadline_key now a - deadline_key now b > 0)"

definition ordered :: "assignment list \<Rightarrow> real \<Rightarrow> assignment list" where
  "ordered ws now = js_sort (work_after now) ws"

subsection \<open>The state\<close>

text \<open>
  What the list offers is what the four gates allow. Work can be started exactly when its
  window is open and an attempt is left; a window that is over is said to be over even when the
  attempts are spent too; and every state is reached by one of these conditions only.
\<close>
theorem stateOf_correct:
  assumes "date_parse (opens_at a) = Num opens" and "date_parse (closes_at a) = Num closes"
  shows "(stateOf a now = Startable \<longleftrightarrow> opens \<le> now \<and> now < closes \<and> attemptsLeft a > 0) \<and>
    (stateOf a now = Upcoming \<longleftrightarrow> now < opens) \<and>
    (stateOf a now = Closed \<longleftrightarrow> opens \<le> now \<and> closes \<le> now) \<and>
    (stateOf a now = Exhausted \<longleftrightarrow> opens \<le> now \<and> now < closes \<and> attemptsLeft a = 0)"
  using assms by (auto simp: stateOf_def attemptsLeft_def Let_def)

definition sample_work :: assignment where
  "sample_work = \<lparr>as_xid = ''w'', opens_at = ''2026-03-01T00:00:00Z'', closes_at = ''2026-03-08T00:00:00Z'',
     max_attempts = Some 2, my_attempts_used = Some 1, time_limit_seconds = Some 3600\<rparr>"

lemma sample_dates:
  "date_parse (opens_at sample_work) = Num 1772323200000"
  "date_parse (closes_at sample_work) = Num 1772928000000"
  by (simp_all add: sample_work_def date_parse_eval)

theorem stateOf_correct_witness: "stateOf sample_work 1772409600000 = Startable"
  using stateOf_correct [OF sample_dates, of 1772409600000] by (simp add: attemptsLeft_def sample_work_def)

subsection \<open>The words\<close>

lemma math_round_le: "\<bar>of_int (math_round x) - x\<bar> \<le> 1 / 2"
  unfolding math_round_def by linarith

text \<open>
  The words for a deadline are coarse but not wrong. For a time that is not past, "now" means
  under half a minute, minutes are right to half a minute, hours to thirty and a half minutes and
  days to twelve and a half hours and half a minute, though each is rounded from the last.
\<close>
theorem duration_words_accurate:
  assumes "0 \<le> ms"
  shows "(duration_words ms = '' now'' \<and> ms < 30000) \<or>
    (\<exists>n. duration_words ms = '' in '' @ show_int n @ '' min'' \<and> 1 \<le> n \<and> n < 60 \<and>
       \<bar>of_int n * 60000 - ms\<bar> \<le> 30000) \<or>
    (\<exists>n unit. duration_words ms = '' in '' @ show_int n @ '' '' @ unit \<and> unit \<in> {''hour'', ''hours''} \<and>
       1 \<le> n \<and> n < 24 \<and> \<bar>of_int n * 3600000 - ms\<bar> \<le> 30000 + 1800000) \<or>
    (\<exists>n unit. duration_words ms = '' in '' @ show_int n @ '' '' @ unit \<and> unit \<in> {''day'', ''days''} \<and>
       1 \<le> n \<and> \<bar>of_int n * 86400000 - ms\<bar> \<le> 30000 + 1800000 + 43200000)"
proof -
  define m where "m = math_round (ms / 60000)"
  define h where "h = math_round (of_int m / 60)"
  define d where "d = math_round (of_int h / 24)"
  have m: "\<bar>of_int m * 60000 - ms\<bar> \<le> 30000"
    using math_round_le [of "ms / 60000"] by (simp add: m_def abs_le_iff field_simps)
  have h: "\<bar>of_int h * 3600000 - of_int m * 60000\<bar> \<le> (1800000 :: real)"
    using math_round_le [of "of_int m / 60"] by (simp add: h_def abs_le_iff field_simps)
  have d: "\<bar>of_int d * 86400000 - of_int h * 3600000\<bar> \<le> (43200000 :: real)"
    using math_round_le [of "of_int h / 24"] by (simp add: d_def abs_le_iff field_simps)
  have words: "duration_words ms =
     (if m < 1 then '' now''
      else if m < 60 then '' in '' @ show_int m @ '' min''
      else if h < 24 then '' in '' @ show_int h @ '' '' @ (if h = 1 then ''hour'' else ''hours'')
      else '' in '' @ show_int d @ '' '' @ (if d = 1 then ''day'' else ''days''))"
    by (simp add: duration_words_def m_def h_def d_def Let_def)
  consider "m < 1" | "1 \<le> m" "m < 60" | "60 \<le> m" "h < 24" | "60 \<le> m" "24 \<le> h" by linarith
  then show ?thesis
  proof cases
    case 1
    moreover have "ms < 30000"
      using 1 unfolding m_def math_round_def by linarith
    ultimately show ?thesis by (simp add: words)
  next
    case 2
    with m show ?thesis by (intro disjI2 disjI1 exI [of _ m]) (simp add: words)
  next
    case 3
    have "1 \<le> h" using 3(1) unfolding h_def math_round_def by linarith
    moreover have "\<bar>of_int h * 3600000 - ms\<bar> \<le> 30000 + 1800000" using m h by linarith
    ultimately show ?thesis using 3
      by (intro disjI2 disjI1 exI [of _ h] exI [of _ "if h = 1 then ''hour'' else ''hours''"]) (simp add: words)
  next
    case 4
    have "1 \<le> d" using 4(2) unfolding d_def math_round_def by linarith
    moreover have "\<bar>of_int d * 86400000 - ms\<bar> \<le> 30000 + 1800000 + 43200000" using m h d by linarith
    ultimately show ?thesis using 4
      by (intro disjI2 exI [of _ d] exI [of _ "if d = 1 then ''day'' else ''days''"]) (simp add: words)
  qed
qed

theorem duration_words_accurate_witness:
  "duration_words 5400000 = '' in 2 hours'' \<and> \<bar>of_int 2 * 3600000 - (5400000 :: real)\<bar> \<le> 30000 + 1800000"
proof -
  have w: "duration_words 5400000 = '' in 2 hours''"
    by (simp add: duration_words_def math_round_def Let_def show_int_def show_nat_eval digit_char_def)
  show ?thesis using duration_words_accurate [of 5400000] w by simp
qed

subsection \<open>The order\<close>

definition work_key :: "real \<Rightarrow> assignment \<Rightarrow> nat \<times> real" where
  "work_key now a = (RANK (stateOf a now), (case deadline_key now a of Num t \<Rightarrow> t | NaN \<Rightarrow> 0))"

definition dated :: "assignment \<Rightarrow> bool" where
  "dated a \<longleftrightarrow> date_parse (opens_at a) \<noteq> NaN \<and> date_parse (closes_at a) \<noteq> NaN"

lemma work_after_key:
  assumes "dated a" "dated b"
  shows "work_after now a b \<longleftrightarrow> work_key now b < work_key now a"
proof -
  obtain x y where k: "deadline_key now a = Num x" "deadline_key now b = Num y"
    using assms by (cases "deadline_key now a"; cases "deadline_key now b")
      (auto simp: deadline_key_def dated_def split: if_splits)
  then show ?thesis by (auto simp: work_after_def work_key_def Let_def less_prod_def)
qed

text \<open>
  The list is the same work, ordered by what can be done with it: startable first, then
  upcoming, exhausted and closed, and within each the soonest deadline that matters first; work
  of one state and deadline stays in the order it came.
\<close>
theorem ordered_correct:
  assumes "\<forall>a \<in> set ws. dated a"
  shows "mset (ordered ws now) = mset ws \<and>
    sorted (map (\<lambda>a. RANK (stateOf a now)) (ordered ws now)) \<and>
    (\<forall>s. sorted (map (\<lambda>a. snd (work_key now a)) (filter (\<lambda>a. stateOf a now = s) (ordered ws now)))) \<and>
    (\<forall>k. filter (\<lambda>a. work_key now a = k) (ordered ws now) = filter (\<lambda>a. work_key now a = k) ws)"
proof -
  have eq: "ordered ws now = sort_key (work_key now) ws"
    unfolding ordered_def using assms by (intro js_sort_sort_key) (simp add: work_after_key)
  have sk: "sorted (map (work_key now) (ordered ws now))" by (simp add: eq)
  then have "sorted (map (\<lambda>a. RANK (stateOf a now)) (ordered ws now))"
    unfolding sorted_map
    by (rule sorted_wrt_mono_rel [rotated]) (auto simp: less_eq_prod_def work_key_def)
  moreover have "sorted (map (\<lambda>a. snd (work_key now a)) (filter (\<lambda>a. stateOf a now = s) (ordered ws now)))" for s
  proof -
    have "sorted_wrt (\<lambda>a b. work_key now a \<le> work_key now b) (filter (\<lambda>a. stateOf a now = s) (ordered ws now))"
      using sk by (simp add: sorted_map sorted_wrt_filter)
    then show ?thesis unfolding sorted_map
      by (rule sorted_wrt_mono_rel [rotated]) (auto simp: work_key_def less_eq_prod_def)
  qed
  moreover have "filter (\<lambda>a. work_key now a = k) (ordered ws now) = filter (\<lambda>a. work_key now a = k) ws" for k
    unfolding eq by (rule sort_key_stable)
  ultimately show ?thesis by (simp add: ordered_def)
qed

theorem ordered_correct_witness: "ordered [sample_work, sample_work] 0 = [sample_work, sample_work]"
proof -
  have "\<forall>a \<in> set [sample_work, sample_work]. dated a" by (simp add: dated_def sample_dates)
  from ordered_correct [OF this, of 0] have "mset (ordered [sample_work, sample_work] 0) = {#sample_work, sample_work#}"
    by simp
  then have "set (ordered [sample_work, sample_work] 0) = {sample_work}" "length (ordered [sample_work, sample_work] 0) = 2"
    by (metis insert_absorb2 list.set(1) list.simps(15) mset.simps mset_eq_setD set_mset_mset add_mset_commute)
       (simp add: ordered_def)
  then show ?thesis by (auto simp: length_Suc_conv numeral_2_eq_2)
qed

end
