(* ===== verification/Marking.thy ===== *)
theory Marking
  imports JsNum
begin

text \<open>
  The review screen's data, of \<open>student/src/review/marking.ts\<close>: the tally of marked slots, their
  grouping under the paper's sections and questions, the near-miss hint with its edit distance,
  and the student's answers read back for the renderer. The collation of \<open>localeCompare\<close> and the
  reading of a slot's number are parameters. Points are exact reals.
\<close>

record item =
  item_number :: "int option"
  item_question :: string
  item_slot :: string
  verdict :: string
  awarded :: real
  max_points :: real
  raw_response :: "string option"
  normalized_response :: "string option"
  accepted_answers :: "string list option"
  explain_primitive :: "string option"

record question =
  q_number :: int
  q_xid :: string
  q_slot_keys :: "string list option"

record section_of =
  sec_position :: int
  sec_skill :: string
  sec_title :: "string option"
  sec_passage_title :: "string option"
  sec_groups :: "question list option list option"

record marked_question =
  mq_question :: "question option"
  mq_xid :: string
  mq_number :: int
  mq_items :: "item list"
  mq_awarded :: real
  mq_max :: real

record marked_section =
  ms_position :: int
  ms_title :: string
  ms_skill :: string
  ms_questions :: "marked_question list"
  ms_awarded :: real
  ms_max :: real

subsection \<open>Tally\<close>

record tally_of =
  t_awarded :: real
  t_max :: real
  t_right :: nat
  t_of :: nat

definition tally :: "item list \<Rightarrow> tally_of" where
  "tally items =
     (let (a, m, r) = fold (\<lambda>i (a, m, r). (a + awarded i, m + max_points i,
                              if verdict i = ''correct'' then r + 1 else r)) items (0, 0, 0)
      in \<lparr>t_awarded = a, t_max = m, t_right = r, t_of = length items\<rparr>)"

definition totals :: "item list \<Rightarrow> real \<times> real" where
  "totals items = (t_awarded (tally items), t_max (tally items))"

subsection \<open>Grouping\<close>

text \<open>\<open>bySlot\<close>: by the number after the letters, where both have one; else by collation.\<close>

definition bySlot_after :: "(string \<Rightarrow> real option) \<Rightarrow> (string \<Rightarrow> string \<Rightarrow> int) \<Rightarrow> item \<Rightarrow> item \<Rightarrow> bool" where
  "bySlot_after num collate a b =
     (let strip = dropWhile (\<lambda>c. \<not> is_digit c) in
      case (num (strip (item_slot a)), num (strip (item_slot b))) of
        (Some na, Some nb) \<Rightarrow> if na \<noteq> nb then na - nb > 0 else collate (item_slot a) (item_slot b) > 0
      | _ \<Rightarrow> collate (item_slot a) (item_slot b) > 0)"

definition by_xid :: "item list \<Rightarrow> (string, item list) jsmap" where
  "by_xid items = fold (\<lambda>i m. jsmap_set (item_question i)
      (case jsmap_get m (item_question i) of Some held \<Rightarrow> held @ [i] | None \<Rightarrow> [i]) m) items []"

definition mark_question ::
  "(item \<Rightarrow> item \<Rightarrow> bool) \<Rightarrow> question option \<Rightarrow> string \<Rightarrow> int \<Rightarrow> item list \<Rightarrow> marked_question" where
  "mark_question slot_after q xid n own =
     \<lparr>mq_question = q, mq_xid = xid, mq_number = n, mq_items = js_sort slot_after own,
      mq_awarded = fst (totals own), mq_max = snd (totals own)\<rparr>"

definition section_questions :: "section_of \<Rightarrow> question list" where
  "section_questions s = concat (map (\<lambda>g. nullish g []) (nullish (sec_groups s) []))"

definition placed_questions ::
  "(item \<Rightarrow> item \<Rightarrow> bool) \<Rightarrow> (string, item list) jsmap \<Rightarrow> section_of \<Rightarrow> marked_question list" where
  "placed_questions slot_after held s =
     concat (map (\<lambda>q. case jsmap_get held (q_xid q) of
                 None \<Rightarrow> []
               | Some own \<Rightarrow> [mark_question slot_after (Some q) (q_xid q) (q_number q) own])
       (section_questions s))"

definition by_number :: "marked_question \<Rightarrow> marked_question \<Rightarrow> bool" where
  "by_number a b \<longleftrightarrow> mq_number a - mq_number b > 0"

definition section_title :: "section_of \<Rightarrow> string" where
  "section_title s =
     (case sec_title s of
        Some t \<Rightarrow> t
      | None \<Rightarrow> (case sec_passage_title s of
          Some t \<Rightarrow> t
        | None \<Rightarrow> ''Part '' @ show_int (sec_position s)))"

definition mark_section :: "int \<Rightarrow> string \<Rightarrow> string \<Rightarrow> marked_question list \<Rightarrow> marked_section" where
  "mark_section pos title skill qs =
     (let sorted = js_sort by_number qs; t = totals (concat (map mq_items sorted))
      in \<lparr>ms_position = pos, ms_title = title, ms_skill = skill, ms_questions = sorted,
          ms_awarded = fst t, ms_max = snd t\<rparr>)"

definition MAX_SAFE_INTEGER :: int where
  "MAX_SAFE_INTEGER = 9007199254740991"

definition organise :: "(item \<Rightarrow> item \<Rightarrow> bool) \<Rightarrow> section_of list \<Rightarrow> item list \<Rightarrow> marked_section list" where
  "organise slot_after sections items =
     (let held = by_xid items;
          placed = set (concat (map (\<lambda>s. map mq_xid (placed_questions slot_after held s)) sections));
          out = concat (map (\<lambda>s.
                  let qs = placed_questions slot_after held s in
                  if qs = [] then []
                  else [mark_section (sec_position s) (section_title s) (sec_skill s) qs]) sections);
          orphans = filter (\<lambda>(xid, own). xid \<notin> placed) held
      in if orphans = [] then out
         else out @ [mark_section MAX_SAFE_INTEGER ''Marked, but not on the paper'' []
                (map (\<lambda>(xid, own). mark_question slot_after None xid
                        (case own of [] \<Rightarrow> 0 | i # _ \<Rightarrow> nullish (item_number i) 0) own) orphans)])"

subsection \<open>The edit distance\<close>

text \<open>One row of the table from the row above, left to right; \<open>diag\<close> is the entry above and to the left.\<close>

fun lev_row :: "char \<Rightarrow> string \<Rightarrow> nat \<Rightarrow> nat list \<Rightarrow> nat \<Rightarrow> nat list" where
  "lev_row x (y # ys) diag (up # ups) left =
     (let cell = min (min (up + 1) (left + 1)) (diag + (if x = y then 0 else 1))
      in cell # lev_row x ys up ups cell)"
| "lev_row x _ diag _ left = []"

fun lev_rows :: "string \<Rightarrow> string \<Rightarrow> nat \<Rightarrow> nat list \<Rightarrow> nat list" where
  "lev_rows [] b i row = row"
| "lev_rows (x # xs) b i row = lev_rows xs b (Suc i) (Suc i # lev_row x b (hd row) (tl row) (Suc i))"

definition levenshtein :: "string \<Rightarrow> string \<Rightarrow> nat" where
  "levenshtein a b =
     (if \<bar>int (length a) - int (length b)\<bar> > 1 then 99
      else last (lev_rows a b 0 [0..<Suc (length b)]))"

subsection \<open>The near miss and the answers\<close>

definition isSelection :: "item \<Rightarrow> bool" where
  "isSelection i \<longleftrightarrow> explain_primitive i = Some ''set_selection''"

definition no_space :: "string \<Rightarrow> string" where
  "no_space s = filter (\<lambda>c. \<not> is_space c) s"

text \<open>The hint is the accepted answer it names.\<close>

definition nearMiss :: "item \<Rightarrow> string option" where
  "nearMiss i =
     (if verdict i = ''correct'' then None
      else if isSelection i then None
      else
        let written = js_trim (nullish (raw_response i) []) in
        if written = [] then None
        else
          let normalised = js_trim (nullish (normalized_response i) []);
              accepted = nullish (accepted_answers i) []
          in if accepted = [] then None
             else
               let folded = to_lower normalised in
               case find (\<lambda>a. let other = to_lower (js_trim a) in
                       other \<noteq> folded \<and>
                       (no_space other = no_space folded \<or> levenshtein other folded \<le> 1)) accepted of
                 None \<Rightarrow> None
               | Some close \<Rightarrow> if close = [] then None else Some close)"

datatype slot_value = One string | Many "string list"

definition answersFor :: "marked_question \<Rightarrow> (string, slot_value) jsmap" where
  "answersFor entry =
     fold (\<lambda>i out.
       let written = nullish (raw_response i) [] in
       if \<not> isSelection i then jsmap_set (item_slot i) (One written) out
       else
         let slot = (case mq_question entry of
                       Some q \<Rightarrow> (case nullish (q_slot_keys q) [] of s # _ \<Rightarrow> s | [] \<Rightarrow> item_slot i)
                     | None \<Rightarrow> item_slot i)
         in jsmap_set slot (Many (filter (\<lambda>s. s \<noteq> []) (map js_trim (js_split (CHR '','') written)))) out)
       (mq_items entry) []"

subsection \<open>Nothing is dropped\<close>

lemma tally_sums:
  "tally items = \<lparr>t_awarded = sum_list (map awarded items), t_max = sum_list (map max_points items),
     t_right = length (filter (\<lambda>i. verdict i = ''correct'') items), t_of = length items\<rparr>"
proof -
  have "fold (\<lambda>i (a, m, r). (a + awarded i, m + max_points i,
            if verdict i = ''correct'' then r + 1 else r)) items (x, y, z) =
      (x + sum_list (map awarded items), y + sum_list (map max_points items),
       z + length (filter (\<lambda>i. verdict i = ''correct'') items))" for x y z
    by (induction items arbitrary: x y z) auto
  then show ?thesis by (simp add: tally_def)
qed

lemma by_xid_get: "jsmap_get (by_xid items) x =
   (let own = filter (\<lambda>i. item_question i = x) items in if own = [] then None else Some own)"
proof -
  have "jsmap_get (fold (\<lambda>i m. jsmap_set (item_question i)
      (case jsmap_get m (item_question i) of Some held \<Rightarrow> held @ [i] | None \<Rightarrow> [i]) m) items m) x =
    (let own = filter (\<lambda>i. item_question i = x) items in
     case jsmap_get m x of Some held \<Rightarrow> Some (held @ own) | None \<Rightarrow> if own = [] then None else Some own)" for m
    by (induction items arbitrary: m) (auto simp: Let_def split: option.splits)
  from this [of "[]"] show ?thesis by (simp add: by_xid_def)
qed

lemma by_xid_distinct: "distinct (map fst (by_xid items))"
proof -
  have "distinct (map fst m) \<Longrightarrow> distinct (map fst (fold (\<lambda>i m. jsmap_set (item_question i)
      (case jsmap_get m (item_question i) of Some held \<Rightarrow> held @ [i] | None \<Rightarrow> [i]) m) items m))" for m
    by (induction items arbitrary: m) (simp_all add: distinct_update)
  then show ?thesis by (simp add: by_xid_def)
qed

definition shown_items :: "marked_section list \<Rightarrow> item list" where
  "shown_items out = concat (map (\<lambda>s. concat (map mq_items (ms_questions s))) out)"

lemma shown_items_simps [simp]:
  "shown_items [] = []" "shown_items (s # out) = concat (map mq_items (ms_questions s)) @ shown_items out"
  "shown_items (out @ out') = shown_items out @ shown_items out'"
  by (simp_all add: shown_items_def)

lemma mset_concat_map_cong:
  assumes "mset qs = mset qs'"
  shows "mset (concat (map f qs)) = mset (concat (map f qs'))"
proof -
  have key: "mset (concat (map f rs)) = (\<Sum>q\<in>#mset rs. mset (f q))" for rs
    by (induction rs) auto
  show ?thesis by (simp only: key assms)
qed

lemma mark_section_fields [simp]:
  "mset (concat (map mq_items (ms_questions (mark_section pos title skill qs)))) = mset (concat (map mq_items qs))"
  "ms_awarded (mark_section pos title skill qs) =
     sum_list (map awarded (concat (map mq_items (ms_questions (mark_section pos title skill qs)))))"
  using mset_concat_map_cong [of "js_sort by_number qs" qs mq_items]
  by (simp_all add: mark_section_def Let_def totals_def tally_sums del: mset_concat mset_map)

lemma mark_question_items [simp]:
  "mset (mq_items (mark_question after q xid n own)) = mset own"
  "mq_xid (mark_question after q xid n own) = xid"
  by (simp_all add: mark_question_def)

definition own_items :: "item list \<Rightarrow> string \<Rightarrow> item multiset" where
  "own_items items x = filter_mset (\<lambda>i. item_question i = x) (mset items)"

lemma sum_own_items: "finite K \<Longrightarrow> item_question ` set items \<subseteq> K \<Longrightarrow> (\<Sum>x\<in>K. own_items items x) = mset items"
proof (induction items)
  case (Cons i items)
  have "own_items (i # items) x = own_items items x + (if x = item_question i then {#i#} else {#})" for x
    by (simp add: own_items_def)
  then have "(\<Sum>x\<in>K. own_items (i # items) x) =
      (\<Sum>x\<in>K. own_items items x) + (\<Sum>x\<in>K. if x = item_question i then {#i#} else {#})"
    by (simp add: sum.distrib)
  also have "(\<Sum>x\<in>K. if x = item_question i then {#i#} else {#}) = {#i#}"
    using Cons.prems by simp
  finally show ?case using Cons by simp
qed (simp add: own_items_def)

lemma placed_items:
  "mset (concat (map mq_items (placed_questions after (by_xid items) s))) =
     (\<Sum>q\<leftarrow>section_questions s. own_items items (q_xid q))"
proof -
  have "mset (concat (map mq_items (case jsmap_get (by_xid items) (q_xid q) of None \<Rightarrow> []
        | Some own \<Rightarrow> [mark_question after (Some q) (q_xid q) (q_number q) own]))) = own_items items (q_xid q)" for q
    by (auto simp: by_xid_get Let_def own_items_def mark_question_def filter_empty_conv
        simp flip: mset_filter)
  then have "mset (concat (map mq_items (concat (map (\<lambda>q. case jsmap_get (by_xid items) (q_xid q) of None \<Rightarrow> []
        | Some own \<Rightarrow> [mark_question after (Some q) (q_xid q) (q_number q) own]) qs)))) =
      (\<Sum>q\<leftarrow>qs. own_items items (q_xid q))" for qs
    by (induction qs) simp_all
  then show ?thesis by (simp add: placed_questions_def)
qed

definition paper_questions :: "section_of list \<Rightarrow> question list" where
  "paper_questions sections = concat (map section_questions sections)"

lemma placed_xids:
  "set (map mq_xid (placed_questions after (by_xid items) s)) =
     q_xid ` set (section_questions s) \<inter> item_question ` set items"
proof -
  have "set (map mq_xid (case jsmap_get (by_xid items) (q_xid q) of None \<Rightarrow> []
        | Some own \<Rightarrow> [mark_question after (Some q) (q_xid q) (q_number q) own])) =
      {q_xid q} \<inter> item_question ` set items" for q
    by (auto simp: by_xid_get Let_def filter_empty_conv intro: rev_image_eqI)
  then have "set (map mq_xid (concat (map (\<lambda>q. case jsmap_get (by_xid items) (q_xid q) of None \<Rightarrow> []
        | Some own \<Rightarrow> [mark_question after (Some q) (q_xid q) (q_number q) own]) qs))) =
      q_xid ` set qs \<inter> item_question ` set items" for qs
    by (induction qs) (auto simp del: set_map)
  then show ?thesis by (simp add: placed_questions_def)
qed

lemma by_xid_keys: "fst ` set (by_xid items) = item_question ` set items"
proof -
  have "fst ` set (by_xid items) = dom (jsmap_get (by_xid items))" by (simp add: dom_map_of_conv_image_fst)
  then show ?thesis by (auto simp: by_xid_get Let_def filter_empty_conv dom_def split: if_splits)
qed

lemma by_xid_values: "(x, own) \<in> set (by_xid items) \<Longrightarrow> mset own = own_items items x"
proof -
  assume "(x, own) \<in> set (by_xid items)"
  with by_xid_distinct have "jsmap_get (by_xid items) x = Some own" by simp
  then have "own = filter (\<lambda>i. item_question i = x) items" by (simp add: by_xid_get Let_def split: if_splits)
  then show ?thesis by (simp add: own_items_def)
qed

lemma map_fst_filter: "map fst (filter (\<lambda>(x, y). P x) xs) = filter P (map fst xs)"
  by (induction xs) auto

lemma set_mset_sum_list: "set_mset (\<Sum>x\<leftarrow>xs. f x) = (\<Union>x \<in> set xs. set_mset (f x))"
  by (induction xs) auto

lemma set_mset_sum_set: "finite A \<Longrightarrow> set_mset (\<Sum>x\<in>A. f x) = (\<Union>x \<in> A. set_mset (f x))"
  by (induction A rule: finite_induct) auto

lemma orphan_items:
  "(\<Sum>(x, own) \<leftarrow> filter (\<lambda>(x, own). x \<notin> P) (by_xid items). mset own) =
     (\<Sum>x \<in> item_question ` set items - P. own_items items x)"
proof -
  let ?o = "filter (\<lambda>(x, own). x \<notin> P) (by_xid items)"
  have "(\<Sum>(x, own) \<leftarrow> ?o. mset own) = (\<Sum>x \<leftarrow> map fst ?o. own_items items x)"
    by (auto intro!: arg_cong [where f = sum_list] map_cong simp: by_xid_values)
  also have "\<dots> = (\<Sum>x \<in> set (map fst ?o). own_items items x)"
  proof (rule sum_list_distinct_conv_sum_set)
    have "map fst ?o = filter (\<lambda>x. x \<notin> P) (map fst (by_xid items))"
      by (rule map_fst_filter)
    then show "distinct (map fst ?o)" using by_xid_distinct by (metis distinct_filter)
  qed
  also have "set (map fst ?o) = item_question ` set items - P"
    unfolding by_xid_keys [symmetric] by force
  finally show ?thesis .
qed

lemma organise_items:
  "mset (shown_items (organise after sections items)) =
     (\<Sum>q\<leftarrow>paper_questions sections. own_items items (q_xid q)) +
     (\<Sum>x \<in> item_question ` set items - q_xid ` set (paper_questions sections). own_items items x)"
proof -
  let ?held = "by_xid items"
  let ?qs = "placed_questions after ?held"
  let ?sec = "\<lambda>s. if ?qs s = [] then [] else [mark_section (sec_position s) (section_title s) (sec_skill s) (?qs s)]"
  let ?placed = "set (concat (map (\<lambda>s. map mq_xid (?qs s)) sections))"
  have placed: "?placed = q_xid ` set (paper_questions sections) \<inter> item_question ` set items"
  proof (induction sections)
    case (Cons s ss)
    then show ?case using placed_xids [of after items s] by (auto simp: paper_questions_def simp del: set_map)
  qed (simp add: paper_questions_def)
  have "mset (shown_items (?sec s)) = (\<Sum>q\<leftarrow>section_questions s. own_items items (q_xid q))" for s
    using placed_items [of after items s] by (auto simp del: mset_concat)
  then have out: "mset (shown_items (concat (map ?sec ss))) =
      (\<Sum>q\<leftarrow>paper_questions ss. own_items items (q_xid q))" for ss
    by (induction ss) (simp_all add: paper_questions_def)
  let ?o = "filter (\<lambda>(xid, own). xid \<notin> ?placed) ?held"
  let ?mk = "\<lambda>(xid, own). mark_question after None xid
                        (case own of [] \<Rightarrow> 0 | i # _ \<Rightarrow> nullish (item_number i) 0) own"
  have "mset (concat (map mq_items (map ?mk os))) = (\<Sum>(x, own) \<leftarrow> os. mset own)" for os
    by (induction os) (auto simp: case_prod_beta)
  then have orph: "mset (concat (map mq_items (map ?mk ?o))) =
      (\<Sum>x \<in> item_question ` set items - ?placed. own_items items x)"
    by (simp only: orphan_items)
  have "item_question ` set items - ?placed = item_question ` set items - q_xid ` set (paper_questions sections)"
    unfolding placed by blast
  with orph have orph': "mset (concat (map mq_items (map ?mk ?o))) =
      (\<Sum>x \<in> item_question ` set items - q_xid ` set (paper_questions sections). own_items items x)" by simp
  have org: "organise after sections items =
      (if ?o = [] then concat (map ?sec sections)
       else concat (map ?sec sections) @ [mark_section MAX_SAFE_INTEGER ''Marked, but not on the paper'' [] (map ?mk ?o)])"
    by (simp only: organise_def Let_def)
  show ?thesis
  proof (cases "?o = []")
    case True
    then have "(\<Sum>x \<in> item_question ` set items - q_xid ` set (paper_questions sections). own_items items x) = {#}"
      using orph' by simp
    with out [of sections] show ?thesis unfolding org if_P [OF True] by simp
  next
    case False
    show ?thesis unfolding org if_not_P [OF False]
      using out [of sections] orph' by (simp del: mset_concat map_map)
  qed
qed

lemma awarded_mset: "mset xs = mset ys \<Longrightarrow> sum_list (map awarded xs) = sum_list (map awarded ys)"
  by (metis mset_map sum_mset_sum_list)

lemma awarded_shown:
  assumes "\<And>s. s \<in> set out \<Longrightarrow> ms_awarded s = sum_list (map awarded (concat (map mq_items (ms_questions s))))"
  shows "sum_list (map ms_awarded out) = sum_list (map awarded (shown_items out))"
  using assms by (induction out) simp_all

text \<open>
  Review drops no mark and invents none. Every marked slot is shown; where no question stands
  on the paper twice, each is shown exactly once, whether or not the paper mentions it, and the
  points shown on the sections add up to the points of the attempt.
\<close>
theorem organise_complete:
  "set (shown_items (organise after sections items)) = set items \<and>
   (distinct (map q_xid (paper_questions sections)) \<longrightarrow>
      mset (shown_items (organise after sections items)) = mset items \<and>
      sum_list (map ms_awarded (organise after sections items)) = t_awarded (tally items))"
proof -
  let ?ids = "q_xid ` set (paper_questions sections)"
  let ?out = "organise after sections items"
  have all: "mset items = (\<Sum>x \<in> ?ids \<union> (item_question ` set items - ?ids). own_items items x)"
    by (rule sum_own_items [symmetric]) auto
  also have "\<dots> = (\<Sum>x \<in> ?ids. own_items items x) + (\<Sum>x \<in> item_question ` set items - ?ids. own_items items x)"
    by (rule sum.union_disjoint) auto
  finally have split: "mset items = \<dots>" .
  have "set_mset (mset (shown_items ?out)) = set_mset (mset items)"
    unfolding organise_items split by (simp add: set_mset_sum_list set_mset_sum_set)
  then have "set (shown_items ?out) = set items" by simp
  moreover have "mset (shown_items ?out) = mset items" if "distinct (map q_xid (paper_questions sections))"
  proof -
    have "(\<Sum>q\<leftarrow>paper_questions sections. own_items items (q_xid q)) = (\<Sum>x \<in> ?ids. own_items items x)"
      using sum_list_distinct_conv_sum_set [OF that, of "own_items items"] by (simp add: comp_def)
    then show ?thesis unfolding organise_items split by simp
  qed
  moreover have "sum_list (map ms_awarded ?out) = sum_list (map awarded (shown_items ?out))"
    by (rule awarded_shown) (auto simp: organise_def Let_def split: if_splits)
  moreover have "t_awarded (tally items) = sum_list (map awarded items)" by (simp add: tally_sums)
  ultimately show ?thesis using awarded_mset [of "shown_items ?out" items] by simp
qed

definition sample_item :: "string \<Rightarrow> item" where
  "sample_item q = \<lparr>item_number = None, item_question = q, item_slot = ''s1'', verdict = ''correct'', awarded = 1,
     max_points = 1, raw_response = Some ''x'', normalized_response = None, accepted_answers = None,
     explain_primitive = None\<rparr>"

theorem organise_complete_witness:
  "sum_list (map ms_awarded (organise (\<lambda>_ _. False)
      [\<lparr>sec_position = 1, sec_skill = ''reading'', sec_title = None, sec_passage_title = None,
        sec_groups = Some [Some [\<lparr>q_number = 1, q_xid = ''q1'', q_slot_keys = None\<rparr>]]\<rparr>]
      [sample_item ''q1'', sample_item ''lost''])) = 2"
  using organise_complete [of "\<lambda>_ _. False"
      "[\<lparr>sec_position = 1, sec_skill = ''reading'', sec_title = None, sec_passage_title = None,
        sec_groups = Some [Some [\<lparr>q_number = 1, q_xid = ''q1'', q_slot_keys = None\<rparr>]]\<rparr>]"
      "[sample_item ''q1'', sample_item ''lost'']"]
  by (simp add: paper_questions_def section_questions_def tally_sums sample_item_def)

subsection \<open>The near miss is one edit away\<close>

text \<open>The distance on reversed strings, as the table builds it up from the front.\<close>

fun rdist :: "string \<Rightarrow> string \<Rightarrow> nat" where
  "rdist [] b = length b"
| "rdist (x # a) [] = Suc (length a)"
| "rdist (x # a) (y # b) =
     min (min (rdist a (y # b) + 1) (rdist (x # a) b + 1)) (rdist a b + (if x = y then 0 else 1))"

text \<open>The non-empty reversed prefixes of \<open>b\<close>, after the reversed prefix \<open>c\<close>.\<close>

fun prefixes_after :: "string \<Rightarrow> string \<Rightarrow> string list" where
  "prefixes_after c [] = []"
| "prefixes_after c (y # ys) = (y # c) # prefixes_after (y # c) ys"

lemma lev_row_rdist:
  "lev_row x ys (rdist p c) (map (rdist p) (prefixes_after c ys)) (rdist (x # p) c) =
   map (rdist (x # p)) (prefixes_after c ys)"
proof (induction ys arbitrary: c)
  case (Cons y ys)
  have "lev_row x (y # ys) (rdist p c) (map (rdist p) (prefixes_after c (y # ys))) (rdist (x # p) c) =
      rdist (x # p) (y # c) # lev_row x ys (rdist p (y # c)) (map (rdist p) (prefixes_after (y # c) ys))
        (rdist (x # p) (y # c))"
    by (simp only: lev_row.simps prefixes_after.simps list.map Let_def rdist.simps)
  with Cons [of "y # c"] show ?case by (simp only: prefixes_after.simps list.map)
qed simp

lemma rdist_Nil_right [simp]: "rdist a [] = length a"
  by (cases a) auto

lemma lev_rows_rdist:
  "lev_rows xs b (length p) (map (rdist p) ([] # prefixes_after [] b)) =
   map (rdist (rev xs @ p)) ([] # prefixes_after [] b)"
proof (induction xs arbitrary: p)
  case (Cons x xs)
  have "lev_row x b (length p) (map (rdist p) (prefixes_after [] b)) (Suc (length p)) =
      map (rdist (x # p)) (prefixes_after [] b)"
    using lev_row_rdist [of x b p "[]"] by simp
  with Cons [of "x # p"] show ?case by simp
qed simp

lemma map_length_prefixes: "map length (prefixes_after c ys) = [Suc (length c)..<Suc (length c + length ys)]"
proof (induction ys arbitrary: c)
  case (Cons y ys)
  from Cons [of "y # c"] show ?case by (simp add: upt_conv_Cons del: upt_Suc)
qed simp

lemma last_prefixes: "last (c # prefixes_after c ys) = rev ys @ c"
  by (induction ys arbitrary: c) auto

lemma levenshtein_rdist:
  "levenshtein a b = (if \<bar>int (length a) - int (length b)\<bar> > 1 then 99 else rdist (rev a) (rev b))"
proof -
  have "map (rdist []) ([] # prefixes_after [] b) = [0..<Suc (length b)]"
  proof -
    have "rdist [] = length" by (rule ext) simp
    then show ?thesis using map_length_prefixes [of "[]" b] by (simp add: upt_conv_Cons del: upt_Suc)
  qed
  with lev_rows_rdist [of a b "[]"] have "lev_rows a b 0 [0..<Suc (length b)] =
      map (rdist (rev a)) ([] # prefixes_after [] b)" by simp
  then have "last (lev_rows a b 0 [0..<Suc (length b)]) = rdist (rev a) (rev b)"
    using last_prefixes [of "[]" b] by (metis append_Nil2 last_map list.distinct(1))
  then show ?thesis by (simp add: levenshtein_def)
qed

text \<open>One character inserted, deleted or replaced.\<close>

definition one_edit :: "string \<Rightarrow> string \<Rightarrow> bool" where
  "one_edit a b \<longleftrightarrow> (\<exists>u v x. a = u @ x # v \<and> b = u @ v) \<or> (\<exists>u v x. a = u @ v \<and> b = u @ x # v) \<or>
     (\<exists>u v x y. a = u @ x # v \<and> b = u @ y # v \<and> x \<noteq> y)"

lemma one_edit_rev: "one_edit (rev a) (rev b) \<longleftrightarrow> one_edit a b"
proof -
  have "one_edit (rev a) (rev b)" if "one_edit a b" for a b
    using that unfolding one_edit_def
  proof (elim disjE exE conjE)
    fix u v x assume "a = u @ x # v" "b = u @ v"
    then have "rev a = rev v @ x # rev u \<and> rev b = rev v @ rev u" by simp
    then show "(\<exists>u v x. rev a = u @ x # v \<and> rev b = u @ v) \<or> (\<exists>u v x. rev a = u @ v \<and> rev b = u @ x # v) \<or>
      (\<exists>u v x y. rev a = u @ x # v \<and> rev b = u @ y # v \<and> x \<noteq> y)" by blast
  next
    fix u v x assume "a = u @ v" "b = u @ x # v"
    then have "rev a = rev v @ rev u \<and> rev b = rev v @ x # rev u" by simp
    then show "(\<exists>u v x. rev a = u @ x # v \<and> rev b = u @ v) \<or> (\<exists>u v x. rev a = u @ v \<and> rev b = u @ x # v) \<or>
      (\<exists>u v x y. rev a = u @ x # v \<and> rev b = u @ y # v \<and> x \<noteq> y)" by blast
  next
    fix u v x y assume "a = u @ x # v" "b = u @ y # v" "x \<noteq> y"
    then have "rev a = rev v @ x # rev u \<and> rev b = rev v @ y # rev u \<and> x \<noteq> y" by simp
    then show "(\<exists>u v x. rev a = u @ x # v \<and> rev b = u @ v) \<or> (\<exists>u v x. rev a = u @ v \<and> rev b = u @ x # v) \<or>
      (\<exists>u v x y. rev a = u @ x # v \<and> rev b = u @ y # v \<and> x \<noteq> y)" by blast
  qed
  from this [of a b] this [of "rev a" "rev b"] show ?thesis by auto
qed

lemma one_edit_Cons:
  "one_edit (x # a) (y # b) \<longleftrightarrow> x = y \<and> one_edit a b \<or> x \<noteq> y \<and> a = b \<or> a = y # b \<or> x # a = b"
proof -
  have del: "(\<exists>u v z. x # a = u @ z # v \<and> y # b = u @ v) \<longleftrightarrow> a = y # b \<or> x = y \<and> (\<exists>u v z. a = u @ z # v \<and> b = u @ v)"
    by (auto simp: Cons_eq_append_conv) (blast+)?
  have ins: "(\<exists>u v z. x # a = u @ v \<and> y # b = u @ z # v) \<longleftrightarrow> x # a = b \<or> x = y \<and> (\<exists>u v z. a = u @ v \<and> b = u @ z # v)"
    by (auto simp: Cons_eq_append_conv) (blast+)?
  have sub: "(\<exists>u v z z'. x # a = u @ z # v \<and> y # b = u @ z' # v \<and> z \<noteq> z') \<longleftrightarrow>
      x \<noteq> y \<and> a = b \<or> x = y \<and> (\<exists>u v z z'. a = u @ z # v \<and> b = u @ z' # v \<and> z \<noteq> z')"
    by (auto simp: Cons_eq_append_conv) (blast+)?
  show ?thesis unfolding one_edit_def del ins sub by blast
qed

lemma one_edit_Nil: "one_edit [] b \<longleftrightarrow> length b = 1" "one_edit a [] \<longleftrightarrow> length a = 1"
  by (auto simp: one_edit_def length_Suc_conv)

lemma rdist_zero: "rdist a b = 0 \<longleftrightarrow> a = b"
  by (induction a b rule: rdist.induct) (auto simp: min_def)

lemma rdist_one: "rdist a b \<le> 1 \<longleftrightarrow> a = b \<or> one_edit a b"
proof (induction a b rule: rdist.induct)
  case (3 x a y b)
  have "rdist (x # a) (y # b) \<le> 1 \<longleftrightarrow> rdist a (y # b) = 0 \<or> rdist (x # a) b = 0 \<or>
      (if x = y then rdist a b \<le> 1 else rdist a b = 0)"
    by (auto simp: min_le_iff_disj)
  with 3 show ?case by (auto simp: rdist_zero one_edit_Cons)
qed (auto simp: one_edit_Nil le_Suc_eq)

lemma one_edit_length: "one_edit a b \<Longrightarrow> \<bar>int (length a) - int (length b)\<bar> \<le> 1"
  by (auto simp: one_edit_def)

text \<open>
  C37: the table is right where it is used. The bounded table gives at most one exactly for equal
  strings and for strings one insertion, deletion or replacement apart, and zero only for equal
  ones; strings whose lengths differ by more are told apart without it.
\<close>
theorem levenshtein_correct:
  "(levenshtein a b \<le> 1 \<longleftrightarrow> a = b \<or> one_edit a b) \<and> (levenshtein a b = 0 \<longleftrightarrow> a = b)"
  using one_edit_length [of a b] rdist_one [of "rev a" "rev b"] rdist_zero [of "rev a" "rev b"]
    one_edit_rev [of a b] by (auto simp: levenshtein_rdist)

subsection \<open>A selection read back\<close>

lemma trim_split_join:
  assumes "\<forall>l \<in> set ls. l \<noteq> [] \<and> CHR '','' \<notin> set l \<and> \<not> is_space (hd l) \<and> \<not> is_space (last l)"
  shows "filter (\<lambda>s. s \<noteq> []) (map js_trim (js_split (CHR '','') (js_join '', '' ls))) = ls"
  using assms
proof (induction ls rule: induct_list012)
  case 1
  show ?case by (simp add: js_trim_def trim_start_def)
next
  case (2 l)
  then show ?case by (simp add: js_split_no_sep js_trim_id)
next
  case (3 l m ls)
  let ?rest = "js_join '', '' (m # ls)"
  have "map js_trim (js_split (CHR '','') (CHR '' '' # s)) = map js_trim (js_split (CHR '','') s)" for s
    by (auto split: list.split simp: js_trim_space is_space_def)
  moreover have "js_split (CHR '','') (js_join '', '' (l # m # ls)) = l # js_split (CHR '','') (CHR '' '' # ?rest)"
    using 3(3) js_split_append [of "CHR '',''" l "CHR '' '' # ?rest"] by simp
  ultimately show ?case using 3 by (simp add: js_trim_id)
qed

text \<open>
  A multiple choice comes back as it was ticked. The scorer reports it joined by commas; for
  options without commas or outer spaces, the renderer is given the same options in the same
  order, under the slot the question declares.
\<close>
theorem answersFor_selection:
  assumes "mq_items entry = [i]" and "isSelection i" and "raw_response i = Some (js_join '', '' ls)"
    and "mq_question entry = Some q" and "q_slot_keys q = Some (slot # others)"
    and "\<forall>l \<in> set ls. l \<noteq> [] \<and> CHR '','' \<notin> set l \<and> \<not> is_space (hd l) \<and> \<not> is_space (last l)"
  shows "answersFor entry = [(slot, Many ls)]"
  using assms(1-5) trim_split_join [OF assms(6)] by (simp add: answersFor_def Let_def)

theorem answersFor_selection_witness:
  "answersFor \<lparr>mq_question = Some \<lparr>q_number = 1, q_xid = ''q'', q_slot_keys = Some [''s1'']\<rparr>, mq_xid = ''q'',
      mq_number = 1, mq_items = [(sample_item ''q'')\<lparr>item_slot := ''selection'',
        raw_response := Some ''B, D'', explain_primitive := Some ''set_selection''\<rparr>], mq_awarded = 1, mq_max = 1\<rparr>
    = [(''s1'', Many [''B'', ''D''])]"
  by (rule answersFor_selection [where ls = "[''B'', ''D'']" and others = "[]" and
        i = "(sample_item ''q'')\<lparr>item_slot := ''selection'', raw_response := Some ''B, D'',
          explain_primitive := Some ''set_selection''\<rparr>" and
        q = "\<lparr>q_number = 1, q_xid = ''q'', q_slot_keys = Some [''s1'']\<rparr>"])
     (simp_all add: isSelection_def is_space_def sample_item_def)

end
