(* ===== verification/Json.thy ===== *)
theory Json
  imports JsNum
begin

text \<open>
  Values of type \<open>unknown\<close> as they arrive from JSON: objects keep their keys in order, and reading
  an absent key gives \<open>undefined\<close> (\<^const>\<open>None\<close>).
\<close>

datatype json =
    JNull
  | JBool bool
  | JNum real
  | JStr string
  | JArr "json list"
  | JObj "(string \<times> json) list"

text \<open>\<open>typeof v === "object" && v !== null\<close>; a property of such a value; \<open>Array.isArray\<close>.\<close>

definition is_object :: "json \<Rightarrow> bool" where
  "is_object v = (case v of JArr _ \<Rightarrow> True | JObj _ \<Rightarrow> True | _ \<Rightarrow> False)"

definition field :: "string \<Rightarrow> json \<Rightarrow> json option" where
  "field k v = (case v of JObj fields \<Rightarrow> jsmap_get fields k | _ \<Rightarrow> None)"

definition as_array :: "json option \<Rightarrow> json list option" where
  "as_array v = (case v of Some (JArr xs) \<Rightarrow> Some xs | _ \<Rightarrow> None)"

definition as_string :: "json option \<Rightarrow> string option" where
  "as_string v = (case v of Some (JStr s) \<Rightarrow> Some s | _ \<Rightarrow> None)"

definition as_object :: "json option \<Rightarrow> json option" where
  "as_object v = (case v of Some x \<Rightarrow> if is_object x then Some x else None | None \<Rightarrow> None)"

text \<open>\<open>Object.entries\<close>; an array's keys are its indices.\<close>

definition entries :: "json \<Rightarrow> (string \<times> json) list" where
  "entries v = (case v of JObj fields \<Rightarrow> fields | JArr xs \<Rightarrow> map (\<lambda>(i, x). (show_nat i, x)) (enumerate 0 xs) | _ \<Rightarrow> [])"

definition strings_of :: "json list \<Rightarrow> string list" where
  "strings_of xs = concat (map (\<lambda>x. case x of JStr s \<Rightarrow> [s] | _ \<Rightarrow> []) xs)"

lemmas json_defs = is_object_def field_def as_array_def as_string_def as_object_def entries_def strings_of_def

lemma strings_of_map [simp]: "strings_of (map JStr ss) = ss"
  by (induction ss) (simp_all add: strings_of_def)

end
