(* ===== verification/AnswerKey.thy ===== *)
theory AnswerKey
  imports Json
begin

text \<open>
  The answer-key editor of \<open>web/src/features/questions/answerKey.ts\<close>: which control a question type
  gets, the alternatives a teacher types, the key sent to the server and the key read back.
\<close>

datatype control =
    Alternatives "string list"
  | Fixed "string list" "string list"
  | Pick "string list" "string list" string
  | Multi "string list"
  | Raw string

record fixed_option =
  fo_id :: "string option"
  fo_text :: "string option"

record scoring_options =
  option_source :: "string option"
  fixed_options :: "fixed_option list option"

record definition_of =
  key_widget :: "string option"
  scoring_primitive :: "string option"
  scoring_opts :: "scoring_options option"

definition ALTERNATIVES :: "string list" where
  "ALTERNATIVES = [''alternatives_editor'', ''slot_alternatives_grid'']"

definition PICKERS :: "string list" where
  "PICKERS = [''slot_to_bank_grid'', ''option_picker'', ''paragraph_to_heading_grid'',
              ''paragraph_picker'', ''single_option_picker'']"

definition LETTERS :: "string list" where
  "LETTERS = [''A'', ''B'', ''C'', ''D'', ''E'', ''F'', ''G'', ''H'', ''I'', ''J'']"

definition no_options :: scoring_options where
  "no_options = \<lparr>option_source = None, fixed_options = None\<rparr>"

definition controlFor :: "definition_of option \<Rightarrow> string list \<Rightarrow> string list \<Rightarrow> control" where
  "controlFor def slots bank =
     (let widget = (case def of None \<Rightarrow> [] | Some d \<Rightarrow> nullish (key_widget d) []);
          primitive = (case def of None \<Rightarrow> None | Some d \<Rightarrow> scoring_primitive d);
          options = (case def of None \<Rightarrow> no_options | Some d \<Rightarrow> nullish (scoring_opts d) no_options)
      in
      if widget \<in> set ALTERNATIVES then Alternatives slots
      else if widget = ''tfng_picker'' \<or> widget = ''ynng_picker'' then
        Fixed (take 1 slots)
          (filter (\<lambda>s. s \<noteq> []) (map (\<lambda>o'. case fo_id o' of Some i \<Rightarrow> i | None \<Rightarrow> nullish (fo_text o') [])
             (nullish (fixed_options options) [])))
      else if widget = ''multi_option_picker'' \<or> primitive = Some ''set_selection'' then
        Multi (if bank \<noteq> [] then bank else LETTERS)
      else if widget \<in> set PICKERS then
        Pick (if widget = ''paragraph_picker'' \<or> widget = ''single_option_picker'' then take 1 slots else slots)
          bank (nullish (option_source options) [])
      else Raw (if widget \<noteq> [] then widget else ''none declared''))"

definition slotIds :: "int \<Rightarrow> string list" where
  "slotIds n = map (\<lambda>i. CHR ''s'' # show_nat (i + 1)) [0..<nat (max 1 n)]"

subsection \<open>Alternatives\<close>

text \<open>\<open>text.split(/[|,]/)\<close>.\<close>

fun split_on :: "(char \<Rightarrow> bool) \<Rightarrow> string \<Rightarrow> string list" where
  "split_on sep [] = [[]]"
| "split_on sep (x # xs) =
     (if sep x then [] # split_on sep xs
      else (case split_on sep xs of [] \<Rightarrow> [[x]] | p # ps \<Rightarrow> (x # p) # ps))"

definition is_sep :: "char \<Rightarrow> bool" where
  "is_sep c \<longleftrightarrow> c = CHR ''|'' \<or> c = CHR '',''"

definition splitAlternatives :: "string \<Rightarrow> string list" where
  "splitAlternatives text = filter (\<lambda>s. s \<noteq> []) (map js_trim (split_on is_sep text))"

definition joinAlternatives :: "string list \<Rightarrow> string" where
  "joinAlternatives vs = js_join '' | '' vs"

subsection \<open>To the server and back\<close>

record key_value =
  kv_slots :: "(string, string) jsmap"
  kv_correct :: "string list"
  caseSensitive :: bool

definition emptyValue :: key_value where
  "emptyValue = \<lparr>kv_slots = [], kv_correct = [], caseSensitive = False\<rparr>"

text \<open>\<open>sort\<close> without a comparator orders by code unit.\<close>

definition char_less :: "char \<Rightarrow> char \<Rightarrow> bool" where
  "char_less a b \<longleftrightarrow> (of_char a :: nat) < of_char b"

fun string_after :: "string \<Rightarrow> string \<Rightarrow> bool" where
  "string_after [] b = False"
| "string_after (x # a) [] = True"
| "string_after (x # a) (y # b) = (if x = y then string_after a b else char_less y x)"

definition control_slots :: "control \<Rightarrow> string list" where
  "control_slots c = (case c of Alternatives s \<Rightarrow> s | Fixed s _ \<Rightarrow> s | Pick s _ _ \<Rightarrow> s | Multi _ \<Rightarrow> [] | Raw _ \<Rightarrow> [])"

definition is_alternatives :: "control \<Rightarrow> bool" where
  "is_alternatives c = (case c of Alternatives _ \<Rightarrow> True | _ \<Rightarrow> False)"

definition slot_key_json :: "bool \<Rightarrow> string list \<Rightarrow> json" where
  "slot_key_json sensitive accept =
     JObj ((''accept'', JArr (map JStr accept)) #
           (if sensitive then [(''case_sensitive'', JBool True)] else []))"

definition slot_step :: "control \<Rightarrow> key_value \<Rightarrow> string \<Rightarrow> (string, json) jsmap \<Rightarrow> (string, json) jsmap" where
  "slot_step c v slot out =
     (let raw = js_trim (nullish (jsmap_get (kv_slots v) slot) []) in
      if raw = [] then out
      else
        let accept = (if is_alternatives c then splitAlternatives raw else [raw]) in
        if accept = [] then out
        else jsmap_set slot (slot_key_json (is_alternatives c \<and> caseSensitive v) accept) out)"

definition toKey :: "control \<Rightarrow> key_value \<Rightarrow> json option" where
  "toKey c v =
     (case c of
        Multi _ \<Rightarrow>
          if kv_correct v \<noteq> []
          then Some (JObj [(''correct'', JArr (map JStr (js_sort string_after (kv_correct v))))])
          else None
      | Raw _ \<Rightarrow> None
      | _ \<Rightarrow>
          let slots = fold (slot_step c v) (control_slots c) []
          in if slots \<noteq> [] then Some (JObj [(''slots'', JObj slots)]) else None)"

definition read_slot :: "string \<times> json \<Rightarrow> key_value \<Rightarrow> key_value" where
  "read_slot entry v =
     (case entry of (slot, spec) \<Rightarrow>
        if \<not> is_object spec then v
        else
          let accept = (case as_array (field ''accept'' spec) of Some xs \<Rightarrow> strings_of xs | None \<Rightarrow> []);
              v' = v\<lparr>kv_slots := jsmap_set slot (joinAlternatives accept) (kv_slots v)\<rparr>
          in if field ''case_sensitive'' spec = Some (JBool True) then v'\<lparr>caseSensitive := True\<rparr> else v')"

definition fromKey :: "json \<Rightarrow> key_value" where
  "fromKey key =
     (if \<not> is_object key then emptyValue
      else case as_array (field ''correct'' key) of
        Some xs \<Rightarrow> emptyValue\<lparr>kv_correct := strings_of xs\<rparr>
      | None \<Rightarrow>
          (case as_object (field ''slots'' key) of
             None \<Rightarrow> emptyValue
           | Some slots \<Rightarrow> fold read_slot (entries slots) emptyValue))"

definition slotCountOf :: "json \<Rightarrow> nat" where
  "slotCountOf key =
     (case as_object (field ''slots'' key) of None \<Rightarrow> 1 | Some slots \<Rightarrow> max 1 (length (entries slots)))"

subsection \<open>The round trip\<close>

lemma split_on_nonempty [simp]: "split_on sep s \<noteq> []"
  by (induction s) (auto split: list.split)

lemma split_on_append:
  "\<forall>c \<in> set s. \<not> sep c \<Longrightarrow> sep c \<Longrightarrow> split_on sep (s @ c # rest) = s # split_on sep rest"
  by (induction s) auto

lemma split_on_none: "\<forall>c \<in> set s. \<not> sep c \<Longrightarrow> split_on sep s = [s]"
  by (induction s) auto

text \<open>An alternative that survives the box: not blank at its ends, and free of both separators.\<close>

definition plain :: "string \<Rightarrow> bool" where
  "plain s \<longleftrightarrow> s \<noteq> [] \<and> \<not> is_space (hd s) \<and> \<not> is_space (last s) \<and> (\<forall>c \<in> set s. \<not> is_sep c)"

lemma plain_trim: "plain s \<Longrightarrow> js_trim s = s"
  by (simp add: plain_def js_trim_id)

lemma trim_trailing_space: "is_space c \<Longrightarrow> s \<noteq> [] \<Longrightarrow> \<not> is_space (hd s) \<Longrightarrow> js_trim (s @ [c]) = js_trim s"
  by (cases s) (simp_all add: js_trim_def trim_start_def)

lemma map_trim_split_space:
  "map js_trim (split_on is_sep (CHR '' '' # s)) = map js_trim (split_on is_sep s)"
  by (auto simp: is_sep_def js_trim_space is_space_def split: list.split)

lemma split_join:
  assumes "\<forall>s \<in> set vs. plain s"
  shows "splitAlternatives (joinAlternatives vs) = vs"
  using assms
proof (induction vs rule: induct_list012)
  case 1
  show ?case by (simp add: splitAlternatives_def joinAlternatives_def js_trim_def trim_start_def)
next
  case (2 s)
  then have p: "plain s" by simp
  then have "split_on is_sep s = [s]" "s \<noteq> []" by (simp_all add: plain_def split_on_none)
  with plain_trim [OF p] show ?case by (simp add: splitAlternatives_def joinAlternatives_def)
next
  case (3 s t vs)
  let ?rest = "joinAlternatives (t # vs)"
  have s: "plain s" using 3 by simp
  have "split_on is_sep ((s @ '' '') @ CHR ''|'' # CHR '' '' # ?rest) =
      (s @ '' '') # split_on is_sep (CHR '' '' # ?rest)"
    by (rule split_on_append) (use s in \<open>auto simp: plain_def is_sep_def\<close>)
  moreover have "joinAlternatives (s # t # vs) = (s @ '' '') @ CHR ''|'' # CHR '' '' # ?rest"
    by (simp add: joinAlternatives_def)
  moreover have "js_trim (s @ '' '') = s"
    using trim_trailing_space [of "CHR '' ''" s] s plain_trim [OF s] by (simp add: plain_def is_space_def)
  moreover have "splitAlternatives ?rest = t # vs" using 3 by simp
  ultimately show ?case
    using s unfolding splitAlternatives_def by (simp only: list.map map_trim_split_space) (simp add: plain_def)
qed

text \<open>The value the form holds for what it would send: trimmed, blanks gone, alternatives re-joined.\<close>

definition entered_alternatives :: "key_value \<Rightarrow> string \<Rightarrow> string list" where
  "entered_alternatives v slot = splitAlternatives (js_trim (nullish (jsmap_get (kv_slots v) slot) []))"

lemma slot_fold:
  assumes "distinct slots" "set slots \<inter> fst ` set out = {}"
  shows "fold (slot_step (Alternatives all) v) slots out =
    out @ map (\<lambda>s. (s, slot_key_json (caseSensitive v) (entered_alternatives v s)))
            (filter (\<lambda>s. entered_alternatives v s \<noteq> []) slots)"
  using assms
proof (induction slots arbitrary: out)
  case (Cons s slots)
  have blank: "splitAlternatives [] = []"
    by (simp add: splitAlternatives_def js_trim_def trim_start_def)
  have "s \<notin> fst ` set out" using Cons.prems(2) by auto
  then have upd: "jsmap_set s j out = out @ [(s, j)]" for j
    by (induction out) auto
  have "slot_step (Alternatives all) v s out =
      (if entered_alternatives v s = [] then out
       else out @ [(s, slot_key_json (caseSensitive v) (entered_alternatives v s))])"
    by (auto simp: slot_step_def entered_alternatives_def Let_def blank is_alternatives_def upd)
  with Cons.IH [of "slot_step (Alternatives all) v s out"] Cons.prems show ?case by auto
qed simp

lemma read_slot_key:
  "read_slot (s, slot_key_json cs accept) v =
     v\<lparr>kv_slots := jsmap_set s (joinAlternatives accept) (kv_slots v), caseSensitive := cs \<or> caseSensitive v\<rparr>"
  by (cases cs) (simp_all add: read_slot_def slot_key_json_def is_object_def as_array_def field_def Let_def)

lemma read_slots:
  "fold read_slot (map (\<lambda>s. (s, slot_key_json cs (f s))) ss) v =
     v\<lparr>kv_slots := fold (\<lambda>s. jsmap_set s (joinAlternatives (f s))) ss (kv_slots v),
       caseSensitive := (cs \<and> ss \<noteq> []) \<or> caseSensitive v\<rparr>"
proof (induction ss arbitrary: v)
  case (Cons s ss)
  have "((cs \<and> ss \<noteq> []) \<or> cs \<or> caseSensitive v) = (cs \<or> caseSensitive v)" by blast
  then show ?case by (simp add: read_slot_key Cons)
qed simp

lemma join_fold_get:
  "jsmap_get (fold (\<lambda>s. jsmap_set s (g s)) ss m) x = (if x \<in> set ss then Some (g x) else jsmap_get m x)"
  by (induction ss arbitrary: m) auto

lemma split_on_parts: "p \<in> set (split_on sep s) \<Longrightarrow> \<forall>c \<in> set p. \<not> sep c"
proof (induction s arbitrary: p)
  case (Cons x s)
  obtain q qs where q: "split_on sep s = q # qs" by (cases "split_on sep s") simp_all
  show ?case
  proof (cases "sep x")
    case True
    with Cons show ?thesis by auto
  next
    case False
    then have "p = x # q \<or> p \<in> set qs" using Cons.prems q by simp
    moreover have "\<forall>c \<in> set r. \<not> sep c" if "r \<in> set (q # qs)" for r
      using Cons.IH [of r] that q by simp
    ultimately show ?thesis using False by fastforce
  qed
qed simp

lemma js_trim_set: "set (js_trim s) \<subseteq> set s"
  by (auto simp: js_trim_def trim_start_def dest!: set_dropWhileD)

lemma splitAlternatives_plain: "s \<in> set (splitAlternatives text) \<Longrightarrow> plain s"
proof -
  assume "s \<in> set (splitAlternatives text)"
  then obtain p where p: "p \<in> set (split_on is_sep text)" "s = js_trim p" "s \<noteq> []"
    by (auto simp: splitAlternatives_def)
  with split_on_parts [OF p(1)] js_trim_set [of p] js_trim_ends [of p] show ?thesis
    by (auto simp: plain_def)
qed

lemma join_trim:
  assumes "\<forall>s \<in> set vs. plain s"
  shows "js_trim (joinAlternatives vs) = joinAlternatives vs"
proof (cases "vs = []")
  case True
  then show ?thesis by (simp add: joinAlternatives_def js_trim_def trim_start_def)
next
  case False
  with assms have "joinAlternatives vs \<noteq> [] \<and> \<not> is_space (hd (joinAlternatives vs)) \<and>
      \<not> is_space (last (joinAlternatives vs))"
    by (induction vs rule: induct_list012) (auto simp: joinAlternatives_def plain_def)
  then show ?thesis by (intro js_trim_id) simp_all
qed

text \<open>
  Opening a saved key and saving it again changes nothing, when the form made the key. For a
  type answered by alternatives, the key read back gives every slot the alternatives that were
  sent for it, and the flag for case, so the key sent again is the same.
\<close>
theorem toKey_fromKey:
  assumes "toKey (Alternatives slots) v = Some key" and "distinct slots"
  shows "toKey (Alternatives slots) (fromKey key) = Some key"
proof -
  let ?ss = "filter (\<lambda>s. entered_alternatives v s \<noteq> []) slots"
  let ?out = "map (\<lambda>s. (s, slot_key_json (caseSensitive v) (entered_alternatives v s))) ?ss"
  have out: "fold (slot_step (Alternatives slots) v) slots [] = ?out"
    using slot_fold [OF assms(2), of "[]" slots v] by simp
  with assms(1) have key: "key = JObj [(''slots'', JObj ?out)]" "?ss \<noteq> []"
    by (auto simp: toKey_def control_slots_def Let_def split: if_splits)
  let ?v = "fromKey key"
  have "?v = fold read_slot ?out emptyValue" by (simp add: fromKey_def key json_defs)
  then have v: "jsmap_get (kv_slots ?v) x = (if x \<in> set ?ss then Some (joinAlternatives (entered_alternatives v x)) else None)"
    "caseSensitive ?v = caseSensitive v" for x
    using key(2) by (simp_all add: read_slots emptyValue_def join_fold_get)
  have again: "entered_alternatives ?v s = entered_alternatives v s" if "s \<in> set slots" for s
  proof (cases "s \<in> set ?ss")
    case True
    have pl: "\<forall>a \<in> set (entered_alternatives v s). plain a"
      by (auto simp: entered_alternatives_def intro: splitAlternatives_plain)
    have "splitAlternatives (js_trim (joinAlternatives (entered_alternatives v s))) = entered_alternatives v s"
      using join_trim [OF pl] split_join [OF pl] True by simp
    then show ?thesis using True by (simp add: entered_alternatives_def [of ?v] v)
  next
    case False
    then show ?thesis using that v by (simp add: entered_alternatives_def splitAlternatives_def js_trim_def trim_start_def)
  qed
  have "fold (slot_step (Alternatives slots) ?v) slots [] = ?out"
    using slot_fold [OF assms(2), of "[]" slots ?v] again v(2) by (simp cong: filter_cong)
  then show ?thesis using key by (simp add: toKey_def control_slots_def)
qed

theorem toKey_fromKey_witness:
  "\<exists>key. toKey (Alternatives [''s1'']) \<lparr>kv_slots = [(''s1'', ''14, fourteen'')], kv_correct = [], caseSensitive = True\<rparr> = Some key \<and>
     toKey (Alternatives [''s1'']) (fromKey key) = Some key"
proof -
  let ?v = "\<lparr>kv_slots = [(''s1'', ''14, fourteen'')], kv_correct = [], caseSensitive = True\<rparr>"
  have "toKey (Alternatives [''s1'']) ?v \<noteq> None"
    by (simp add: toKey_def control_slots_def slot_step_def is_alternatives_def splitAlternatives_def
        js_trim_def trim_start_def is_space_def is_sep_def)
  then obtain key where "toKey (Alternatives [''s1'']) ?v = Some key" by blast
  with toKey_fromKey [OF this] show ?thesis by auto
qed

text \<open>
  A key the form did not make can be changed by opening it. An accepted answer that holds a
  comma, as an imported key may, is shown joined by pipes but read back split at its comma too:
  saving the untouched form sends a key that no longer accepts the answer.
\<close>
theorem comma_alternative_lost:
  "let key = JObj [(''slots'', JObj [(''s1'', JObj [(''accept'', JArr [JStr ''1,000''])])])] in
   toKey (Alternatives [''s1'']) (fromKey key) =
     Some (JObj [(''slots'', JObj [(''s1'', JObj [(''accept'', JArr [JStr ''1'', JStr ''000''])])])])"
  by (simp add: fromKey_def json_defs read_slot_def emptyValue_def joinAlternatives_def toKey_def
      control_slots_def slot_step_def is_alternatives_def splitAlternatives_def js_trim_def
      trim_start_def is_space_def is_sep_def slot_key_json_def)

end
