(* ===== verification/Markers.thy ===== *)
theory Markers
  imports Prelude
begin

text \<open>
  Blank markers in running text, as the two applications read them: the student's renderer splits
  at \<open>{{word}}\<close> (\<open>withSlots\<close> of \<open>student/src/exam/Question.tsx\<close>), the authoring console reads
  \<open>{{s1}}\<close> with optional spaces and optional \<open>s\<close> (\<open>payloadParts.ts\<close>). Regular expressions are
  modelled as the scanners they denote: leftmost matches, left to right.
\<close>

subsection \<open>The student's scanner\<close>

definition is_word :: "char \<Rightarrow> bool" where
  "is_word c \<longleftrightarrow> (let n = (of_char c :: nat) in
     48 \<le> n \<and> n \<le> 57 \<or> 65 \<le> n \<and> n \<le> 90 \<or> 97 \<le> n \<and> n \<le> 122 \<or> n = 95)"

text \<open>\<open>\{\{(\w+)\}\}\<close> at the front of a string: the captured word and what follows the match.\<close>

definition match_gap :: "string \<Rightarrow> (string \<times> string) option" where
  "match_gap s =
     (if take 2 s = ''{{''
      then let w = takeWhile is_word (drop 2 s); rest = dropWhile is_word (drop 2 s)
           in if w \<noteq> [] \<and> take 2 rest = ''}}'' then Some (w, drop 2 rest) else None
      else None)"

lemma match_gap_Some:
  assumes "match_gap s = Some (w, rest)"
  shows "s = ''{{'' @ w @ ''}}'' @ rest \<and> w \<noteq> [] \<and> list_all is_word w"
proof -
  from assms have t: "take 2 s = ''{{''" "take 2 (dropWhile is_word (drop 2 s)) = ''}}''"
    "w = takeWhile is_word (drop 2 s)" "rest = drop 2 (dropWhile is_word (drop 2 s))" "w \<noteq> []"
    by (auto simp: match_gap_def Let_def split: if_splits)
  have "s = take 2 s @ drop 2 s" by simp
  also have "drop 2 s = w @ dropWhile is_word (drop 2 s)" by (simp add: t(3))
  also have "dropWhile is_word (drop 2 s) = take 2 (dropWhile is_word (drop 2 s)) @ rest" by (simp add: t(4))
  finally have "s = ''{{'' @ w @ ''}}'' @ rest" using t(1,2) by simp
  moreover have "list_all is_word w" by (auto simp: t(3) list_all_iff dest: set_takeWhileD)
  ultimately show ?thesis using t(5) by blast
qed

lemma match_gap_word:
  assumes "w \<noteq> []" "list_all is_word w"
  shows "match_gap (''{{'' @ w @ ''}}'' @ rest) = Some (w, rest)"
proof -
  have "takeWhile is_word (w @ ''}}'' @ rest) = w" "dropWhile is_word (w @ ''}}'' @ rest) = ''}}'' @ rest"
    using assms(2) by (auto simp: takeWhile_append2 dropWhile_append2 list_all_iff is_word_def)
  then show ?thesis using assms(1) by (simp add: match_gap_def)
qed

text \<open>
  \<open>text.split(/\{\{(\w+)\}\}/g)\<close>: text and captured words alternate, text first and last.
\<close>

function split_gaps :: "string \<Rightarrow> string list" where
  "split_gaps [] = [[]]"
| "split_gaps (c # cs) =
     (case match_gap (c # cs) of
        Some (w, rest) \<Rightarrow> [] # w # split_gaps rest
      | None \<Rightarrow> (case split_gaps cs of [] \<Rightarrow> [[c]] | p # ps \<Rightarrow> (c # p) # ps))"
  by pat_completeness auto
termination
  by (relation "measure length") (auto dest!: match_gap_Some)

definition texts :: "'a list \<Rightarrow> 'a list" where
  "texts parts = map snd (filter (\<lambda>(i, _). i mod 2 = 0) (enumerate 0 parts))"

definition gaps :: "'a list \<Rightarrow> 'a list" where
  "gaps parts = map snd (filter (\<lambda>(i, _). i mod 2 \<noteq> 0) (enumerate 0 parts))"

lemma enumerate_shift: "enumerate (Suc (Suc n)) xs = map (\<lambda>(i, x). (i + 2, x)) (enumerate n xs)"
  by (induction xs arbitrary: n) auto

lemma alternate_simps [simp]:
  "texts [] = []" "gaps [] = []" "texts [p] = [p]" "gaps [p] = []"
  "texts (p # w # ps) = p # texts ps" "gaps (p # w # ps) = w # gaps ps"
  by (simp_all add: texts_def gaps_def enumerate_shift filter_map comp_def case_prod_unfold)

lemma alternate_Cons [simp]: "gaps (p # ps) = texts ps" "texts (p # ps) = p # gaps ps"
  by (induction ps arbitrary: p rule: induct_list012) simp_all

lemma split_gaps_nonempty [simp]: "split_gaps s \<noteq> []"
  by (cases s rule: split_gaps.cases) (auto split: option.split list.split)

fun unsplit :: "string list \<Rightarrow> string" where
  "unsplit (p # w # ps) = p @ ''{{'' @ w @ ''}}'' @ unsplit ps"
| "unsplit [p] = p"
| "unsplit [] = []"

lemma unsplit_split_gaps: "unsplit (split_gaps s) = s"
proof (induction s rule: split_gaps.induct)
  case (2 c cs)
  show ?case
  proof (cases "match_gap (c # cs)")
    case None
    obtain p ps where p: "split_gaps cs = p # ps" by (cases "split_gaps cs") auto
    have "unsplit ((c # p) # ps) = c # unsplit (p # ps)" by (cases ps) auto
    with None 2(1) [OF None] p show ?thesis by (simp del: unsplit.simps)
  next
    case (Some x)
    then obtain w rest where x: "match_gap (c # cs) = Some (w, rest)" by (cases x) auto
    with 2(2) [OF x refl] match_gap_Some [OF x] show ?thesis by simp
  qed
qed simp

lemma gaps_words: "w \<in> set (gaps (split_gaps s)) \<Longrightarrow> w \<noteq> [] \<and> list_all is_word w"
proof (induction s rule: split_gaps.induct)
  case (2 c cs)
  show ?case
  proof (cases "match_gap (c # cs)")
    case None
    obtain p ps where p: "split_gaps cs = p # ps" by (cases "split_gaps cs") auto
    with None 2 show ?thesis by simp
  next
    case (Some x)
    then obtain v rest where x: "match_gap (c # cs) = Some (v, rest)" by (cases x) auto
    with 2 match_gap_Some [OF x] show ?thesis by (auto simp del: alternate_Cons)
  qed
qed simp

lemma split_gaps_marker:
  assumes "w \<noteq> []" "list_all is_word w" "\<forall>c \<in> set a. c \<noteq> CHR ''{''"
  shows "split_gaps (a @ ''{{'' @ w @ ''}}'' @ rest) = a # w # split_gaps rest"
  using assms(3)
proof (induction a)
  case Nil
  show ?case using match_gap_word [OF assms(1,2), of rest] by simp
next
  case (Cons c a)
  then have "match_gap (c # a @ ''{{'' @ w @ ''}}'' @ rest) = None" by (simp add: match_gap_def)
  with Cons show ?case by simp
qed

end
