(* ===== verification/Question.thy ===== *)
theory Question
  imports Json Markers OutboxRules
begin

text \<open>
  Rendering a question, \<open>student/src/exam/Question.tsx\<close>: the value helpers and the view, which is
  modelled as the list of elements it draws, each input with the slot its changes are reported
  for. \<open>payload\<close> is a JSON object.
\<close>

subsection \<open>Values\<close>

definition asText :: "answer option \<Rightarrow> string" where
  "asText value = (case value of Some (Text t) \<Rightarrow> t | _ \<Rightarrow> [])"

definition asList :: "answer option \<Rightarrow> string list" where
  "asList value = (case value of
      Some (Many chosen) \<Rightarrow> chosen
    | Some (Text t) \<Rightarrow> if t \<noteq> [] then [t] else []
    | None \<Rightarrow> [])"

record paragraph_slot =
  para_key :: string
  para_name :: string

definition paragraph_entry :: "json \<Rightarrow> paragraph_slot list" where
  "paragraph_entry entry =
     (if \<not> is_object entry then []
      else (case (as_string (field ''key'' entry), as_string (field ''paragraph'' entry)) of
          (Some key, Some p) \<Rightarrow> [\<lparr>para_key = key, para_name = p\<rparr>]
        | _ \<Rightarrow> []))"

definition paragraphSlots :: "json \<Rightarrow> string list \<Rightarrow> paragraph_slot list" where
  "paragraphSlots payload slotKeys =
     (let found = (case as_array (field ''slots'' payload) of
          Some raw \<Rightarrow> concat (map paragraph_entry raw)
        | None \<Rightarrow> [])
      in if found \<noteq> [] then found
         else map (\<lambda>key. \<lparr>para_key = key, para_name = key\<rparr>) slotKeys)"

text \<open>\<open>Object.values\<close> gives the locales in the order the object has them.\<close>

definition rubricOf :: "(string \<times> json) list option \<Rightarrow> string option" where
  "rubricOf instructions =
     (case instructions of
        None \<Rightarrow> None
      | Some locales \<Rightarrow>
          if truthy_str (as_string (jsmap_get locales ''en'')) then as_string (jsmap_get locales ''en'')
          else Option.bind (List.find (\<lambda>v. truthy_str (as_string (Some v))) (map snd locales))
                 (\<lambda>v. as_string (Some v)))"

definition toggleSelection :: "string list \<Rightarrow> string \<Rightarrow> string list \<Rightarrow> string list" where
  "toggleSelection chosen i optionIds =
     (if i \<in> set chosen then filter (\<lambda>c. c \<noteq> i) chosen
      else filter (\<lambda>opt. opt = i \<or> opt \<in> set chosen) optionIds)"

subsection \<open>The view\<close>

record option_row =
  opt_id :: string
  opt_text :: string

record word_limit =
  max_words :: "nat option"
  allow_number :: "bool option"

record question =
  q_number :: nat
  q_version :: string
  type_key :: string
  payload :: json
  slot_keys :: "string list option"

record question_group =
  instructions :: "(string \<times> json) list option"
  group_limit :: "word_limit option"
  option_bank :: "option_row list option"

datatype piece = Words string | Gap string string

datatype view_element =
    Stem string
  | Instruction string
  | Sentence "piece list"
  | Radio string "(option_row \<times> bool) list"
  | Checkboxes string "(option_row \<times> bool) list"
  | Count bool nat real
  | Dropdown string string string "option_row list"
  | Box string string string
  | Muted string

type_synonym slot_answers = "string \<Rightarrow> answer option"

fun sentence_pieces :: "slot_answers \<Rightarrow> string list \<Rightarrow> piece list" where
  "sentence_pieces answers (part # w # parts) =
     Words part # Gap w (asText (answers w)) # sentence_pieces answers parts"
| "sentence_pieces answers [part] = [Words part]"
| "sentence_pieces answers [] = []"

definition withSlots :: "string \<Rightarrow> slot_answers \<Rightarrow> piece list" where
  "withSlots text answers = sentence_pieces answers (split_gaps text)"

definition Choices :: "slot_answers \<Rightarrow> option_row list \<Rightarrow> string \<Rightarrow> view_element list" where
  "Choices answers options slot =
     [Radio slot (map (\<lambda>opt. (opt, asText (answers slot) = opt_id opt)) options)]"

definition MultiChoice :: "slot_answers \<Rightarrow> option_row list \<Rightarrow> string \<Rightarrow> real \<Rightarrow> view_element list" where
  "MultiChoice answers options slot expect =
     (let chosen = asList (answers slot);
          over = (expect > 0 \<and> real (length chosen) > expect)
      in [Checkboxes slot (map (\<lambda>opt. (opt, opt_id opt \<in> set chosen)) options),
          Count over (length chosen) expect])"

text \<open>A click on a box of the multiple choice, and what it reports.\<close>

definition multi_toggle :: "slot_answers \<Rightarrow> option_row list \<Rightarrow> string \<Rightarrow> string \<Rightarrow> answer" where
  "multi_toggle answers options slot i = Many (toggleSelection (asList (answers slot)) i (map opt_id options))"

definition TFNG :: "string list" where
  "TFNG = [''TRUE'', ''FALSE'', ''NOT GIVEN'']"

definition YNNG :: "string list" where
  "YNNG = [''YES'', ''NO'', ''NOT GIVEN'']"

definition TEXT_ANSWER :: "string list" where
  "TEXT_ANSWER =
     [''sentence_completion'', ''summary_completion'', ''note_completion'', ''table_completion'',
      ''form_completion'', ''flowchart_completion'', ''diagram_completion'', ''short_answer'']"

definition limit_line :: "word_limit option \<Rightarrow> string \<Rightarrow> string option" where
  "limit_line limit kind =
     (case Option.bind limit max_words of
        None \<Rightarrow> None
      | Some n \<Rightarrow>
          if n \<noteq> 0 \<and> kind \<in> set TEXT_ANSWER
          then Some (''No more than '' @ show_nat n @ '' word'' @ (if n = 1 then [] else ''s'') @
                 (if nullish (Option.bind limit allow_number) False then '' and/or a number'' else []))
          else None)"

text \<open>\<open>String(p[k] ?? ...)\<close> for text fields.\<close>

definition text_field :: "json \<Rightarrow> string \<Rightarrow> string option" where
  "text_field p k = as_string (field k p)"

definition first_text :: "string option list \<Rightarrow> string \<Rightarrow> string" where
  "first_text alternatives d = (case List.find (\<lambda>x. x \<noteq> None) alternatives of Some (Some t) \<Rightarrow> t | _ \<Rightarrow> d)"

definition option_rows :: "json \<Rightarrow> option_row list" where
  "option_rows p = map (\<lambda>v. \<lparr>opt_id = nullish (as_string (field ''id'' v)) [],
        opt_text = nullish (as_string (field ''text'' v)) []\<rparr>) (nullish (as_array (field ''options'' p)) [])"

text \<open>\<open>Number(p["select_count"] ?? 2)\<close> of a count sent as a number.\<close>

definition select_count :: "json \<Rightarrow> real" where
  "select_count p = (case field ''select_count'' p of Some (JNum n) \<Rightarrow> n | _ \<Rightarrow> 2)"

definition how_many :: "real \<Rightarrow> string" where
  "how_many expect = (if expect = 2 then ''TWO'' else if expect = 3 then ''THREE'' else show_int \<lfloor>expect\<rfloor>)"

text \<open>A select when the group has a bank, else a box.\<close>

definition bank_control :: "slot_answers \<Rightarrow> option_row list \<Rightarrow> string \<Rightarrow> string \<Rightarrow> view_element" where
  "bank_control answers bank slot label =
     (if length bank > 0 then Dropdown slot (asText (answers slot)) label bank
      else Box slot (asText (answers slot)) label)"

definition question_body :: "question \<Rightarrow> question_group \<Rightarrow> slot_answers \<Rightarrow> view_element list" where
  "question_body q g answers =
     (let p = payload q; slots = nullish (slot_keys q) [];
          first = (case slots of [] \<Rightarrow> ''s1'' | s # _ \<Rightarrow> s);
          kind = type_key q; label = ''Question '' @ show_nat (q_number q);
          bank = nullish (option_bank g) []
      in
      if kind = ''true_false_notgiven'' \<or> kind = ''yes_no_notgiven'' then
        Stem (first_text [text_field p ''statement''] []) #
        Choices answers (map (\<lambda>c. \<lparr>opt_id = c, opt_text = c\<rparr>)
            (if kind = ''true_false_notgiven'' then TFNG else YNNG)) first
      else if kind = ''mcq_single'' then
        Stem (first_text [text_field p ''stem''] []) # Choices answers (option_rows p) first
      else if kind = ''mcq_multi'' then
        let expect = select_count p in
        [Stem (first_text [text_field p ''stem''] []),
         Instruction (''Choose '' @ how_many expect @ (if expect = 1 then '' letter.'' else '' letters.''))] @
        MultiChoice answers (option_rows p) first expect
      else if kind \<in> {''sentence_completion'', ''summary_completion'', ''summary_completion_bank''} then
        [Sentence (withSlots (first_text [text_field p ''text'', text_field p ''summary''] []) answers)]
      else if kind = ''short_answer'' then
        [Stem (first_text [text_field p ''question''] []), Box first (asText (answers first)) label]
      else if kind = ''matching_headings'' then
        map (\<lambda>(i, s). bank_control answers bank (para_key s)
              (show_nat (q_number q + i) @ ''. Paragraph '' @ para_name s))
          (enumerate 0 (paragraphSlots p slots))
      else if kind = ''matching_information'' \<or> kind = ''matching_features'' then
        [Stem (first_text [text_field p ''statement'', text_field p ''stem''] label),
         bank_control answers bank first label]
      else
        (let title = first_text [text_field p ''title'', text_field p ''caption''] [] in
         (if title \<noteq> [] then [Stem title] else []) @
         (if slots = [] then [Muted ''This question type has no answer slots.''] else []) @
         map (\<lambda>slot. Box slot (asText (answers slot)) (label @ '', '' @ slot)) slots))"

record question_view =
  qv_number :: nat
  qv_limit :: "string option"
  qv_rubric :: "string option"
  qv_body :: "view_element list"

definition QuestionView :: "question \<Rightarrow> question_group \<Rightarrow> slot_answers \<Rightarrow> question_view" where
  "QuestionView q g answers =
     \<lparr>qv_number = q_number q, qv_limit = limit_line (group_limit g) (type_key q),
      qv_rubric = rubricOf (instructions g), qv_body = question_body q g answers\<rparr>"

text \<open>The slots a view can answer, and the value it shows for each.\<close>

definition piece_slots :: "piece \<Rightarrow> (string \<times> string) list" where
  "piece_slots x = (case x of Words _ \<Rightarrow> [] | Gap slot v \<Rightarrow> [(slot, v)])"

definition text_inputs :: "view_element \<Rightarrow> (string \<times> string) list" where
  "text_inputs e = (case e of
      Sentence ps \<Rightarrow> concat (map piece_slots ps)
    | Dropdown slot v _ _ \<Rightarrow> [(slot, v)]
    | Box slot v _ \<Rightarrow> [(slot, v)]
    | _ \<Rightarrow> [])"

definition element_slots :: "view_element \<Rightarrow> string list" where
  "element_slots e = (case e of
      Radio slot _ \<Rightarrow> [slot] | Checkboxes slot _ \<Rightarrow> [slot] | _ \<Rightarrow> map fst (text_inputs e))"

definition bound_slots :: "view_element list \<Rightarrow> string list" where
  "bound_slots es = concat (map element_slots es)"

subsection \<open>What a view answers\<close>

definition PARAGRAPH_FREE :: "string list" where
  "PARAGRAPH_FREE = [''true_false_notgiven'', ''yes_no_notgiven'', ''mcq_single'', ''mcq_multi'',
     ''short_answer'', ''matching_information'', ''matching_features'']"

definition SENTENCES :: "string list" where
  "SENTENCES = [''sentence_completion'', ''summary_completion'', ''summary_completion_bank'']"

lemma bound_slots_simps [simp]:
  "bound_slots [] = []"
  "bound_slots (e # es) = element_slots e @ bound_slots es"
  "bound_slots (es @ es') = bound_slots es @ bound_slots es'"
  by (simp_all add: bound_slots_def)

lemma sentence_pieces_slots:
  "concat (map piece_slots (sentence_pieces answers parts)) = map (\<lambda>w. (w, asText (answers w))) (gaps parts)"
  by (induction answers parts rule: sentence_pieces.induct) (simp_all add: piece_slots_def del: alternate_Cons)

lemma text_inputs_simps [simp]:
  "text_inputs (Sentence ps) = concat (map piece_slots ps)" "text_inputs (Box slot v l) = [(slot, v)]"
  "text_inputs (Stem t) = []" "text_inputs (Muted t) = []" "text_inputs (Instruction t) = []"
  "text_inputs (Radio slot rs) = []" "text_inputs (Checkboxes slot rs) = []" "text_inputs (Count b n x) = []"
  "text_inputs (Dropdown slot v l bank) = [(slot, v)]"
  "text_inputs (bank_control answers bank slot l) = [(slot, asText (answers slot))]"
  by (simp_all add: text_inputs_def bank_control_def)

lemma element_slots_simps [simp]:
  "element_slots (Radio slot rs) = [slot]" "element_slots (Checkboxes slot rs) = [slot]"
  "element_slots (Sentence ps) = map fst (concat (map piece_slots ps))" "element_slots (Box slot v l) = [slot]"
  "element_slots (Stem t) = []" "element_slots (Muted t) = []" "element_slots (Instruction t) = []"
  "element_slots (Count b n x) = []" "element_slots (bank_control answers bank slot l) = [slot]"
  by (simp_all add: element_slots_def bank_control_def)

lemma bound_boxes: "bound_slots (map (\<lambda>slot. Box slot (v slot) (l slot)) slots) = slots"
  by (induction slots) simp_all

lemma bound_paragraphs:
  "bound_slots (map (\<lambda>(i, s). bank_control answers bank (para_key s) (l i s)) (enumerate n ps)) = map para_key ps"
  by (induction ps arbitrary: n) simp_all

lemma bound_slots_question:
  "bound_slots (question_body q g answers) =
     (if type_key q \<in> set PARAGRAPH_FREE then [case nullish (slot_keys q) [] of [] \<Rightarrow> ''s1'' | s # _ \<Rightarrow> s]
      else if type_key q \<in> set SENTENCES then
        gaps (split_gaps (first_text [text_field (payload q) ''text'', text_field (payload q) ''summary''] []))
      else if type_key q = ''matching_headings'' then
        map para_key (paragraphSlots (payload q) (nullish (slot_keys q) []))
      else nullish (slot_keys q) [])"
  by (auto simp: question_body_def Let_def Choices_def MultiChoice_def PARAGRAPH_FREE_def SENTENCES_def
      withSlots_def sentence_pieces_slots comp_def bound_boxes bound_paragraphs)


definition sample_question :: question where
  "sample_question = \<lparr>q_number = 7, q_version = ''v'', type_key = ''sentence_completion'',
     payload = JObj [(''text'', JStr ''a {{s1}} b'')], slot_keys = Some [''s1'']\<rparr>"


text \<open>
  A completion sentence is drawn word for word. Writing each gap of the drawn pieces back as
  its marker gives the payload's text.
\<close>
theorem sentence_faithful:
  "concat (map (\<lambda>x. case x of Words t \<Rightarrow> t | Gap w _ \<Rightarrow> ''{{'' @ w @ ''}}'') (withSlots text answers)) = text"
proof -
  have "concat (map (\<lambda>x. case x of Words t \<Rightarrow> t | Gap w _ \<Rightarrow> ''{{'' @ w @ ''}}'') (sentence_pieces answers parts)) =
      unsplit parts" for parts
    by (induction answers parts rule: sentence_pieces.induct) simp_all
  then show ?thesis by (simp add: withSlots_def unsplit_split_gaps)
qed

text \<open>
  A click toggles exactly one option and keeps the options' order, and a second click undoes
  it; the count warns exactly when more are chosen than asked.
\<close>
theorem toggle_correct:
  assumes "distinct optionIds" "i \<in> set optionIds" "chosen = filter (\<lambda>opt. opt \<in> set chosen) optionIds"
  shows "toggleSelection chosen i optionIds =
       filter (\<lambda>opt. (opt \<in> set chosen) \<noteq> (opt = i)) optionIds \<and>
     toggleSelection (toggleSelection chosen i optionIds) i optionIds = chosen"
proof -
  have t: "toggleSelection c i optionIds = filter (\<lambda>opt. (opt \<in> set c) \<noteq> (opt = i)) optionIds"
    if "c = filter (\<lambda>opt. opt \<in> set c) optionIds" for c
  proof (cases "i \<in> set c")
    case True
    then have "toggleSelection c i optionIds = filter (\<lambda>x. x \<noteq> i) (filter (\<lambda>opt. opt \<in> set c) optionIds)"
      using that by (simp add: toggleSelection_def)
    with True show ?thesis by (auto intro: filter_cong)
  next
    case False
    then show ?thesis by (auto simp: toggleSelection_def intro: filter_cong)
  qed
  let ?c = "filter (\<lambda>opt. (opt \<in> set chosen) \<noteq> (opt = i)) optionIds"
  have "?c = filter (\<lambda>opt. opt \<in> set ?c) optionIds" by (rule filter_cong) auto
  from t [OF this] have "toggleSelection ?c i optionIds = filter (\<lambda>opt. opt \<in> set chosen) optionIds"
    by (auto intro: filter_cong)
  with t [OF assms(3)] assms(3) show ?thesis by simp
qed

theorem toggle_correct_witness:
  "toggleSelection [''B''] ''A'' [''A'', ''B'', ''C''] = [''A'', ''B'']"
  using toggle_correct [of "[''A'', ''B'', ''C'']" "''A''" "[''B'']"] by simp

end
