(* ===== verification/PayloadParts.thy ===== *)
theory PayloadParts
  imports Json Markers
begin

text \<open>
  The question-body builders of \<open>web/src/features/questions/payloadParts.ts\<close>: reading and
  normalising blank markers, numbered slot lists, prose with blanks, notes, flowcharts, forms and
  tables, and the audio cue. Numbers beyond 2^53 are not modelled, and a Unicode space other than
  the no-break space is not a space here.
\<close>

subsection \<open>Markers\<close>

text \<open>\<open>\s*s?(\d+)\s*\}\}\<close> after the two opening braces: the digits and what follows.\<close>

definition skip_s :: "string \<Rightarrow> string" where
  "skip_s s = (case s of c # cs \<Rightarrow> if c = CHR ''s'' then cs else s | [] \<Rightarrow> [])"

definition match_body :: "string \<Rightarrow> (string \<times> string) option" where
  "match_body s =
     (let s1 = skip_s (dropWhile is_space s);
          digits = takeWhile is_digit s1;
          s2 = dropWhile is_space (dropWhile is_digit s1)
      in if digits \<noteq> [] \<and> take 2 s2 = ''}}'' then Some (digits, drop 2 s2) else None)"

definition MARKER :: "string \<Rightarrow> (string \<times> string) option" where
  "MARKER s = (if take 2 s = ''{{'' then match_body (drop 2 s) else None)"

definition ONLY_MARKER :: "string \<Rightarrow> bool" where
  "ONLY_MARKER s = (case MARKER (dropWhile is_space s) of
      None \<Rightarrow> False | Some (_, rest) \<Rightarrow> list_all is_space rest)"

lemma char_kinds:
  "is_digit c \<Longrightarrow> \<not> is_space c \<and> c \<noteq> CHR ''s'' \<and> c \<noteq> CHR ''{'' \<and> c \<noteq> CHR ''}''"
  "is_space c \<Longrightarrow> \<not> is_digit c \<and> c \<noteq> CHR ''s'' \<and> c \<noteq> CHR ''{'' \<and> c \<noteq> CHR ''}''"
  by (auto simp: is_digit_def is_space_def)

lemma brace_kinds [simp]: "\<not> is_space (CHR ''}'')" "\<not> is_digit (CHR ''}'')" "\<not> is_space (CHR ''s'')"
  "\<not> is_space (CHR ''{'')" "\<not> is_digit (CHR ''{'')"
  by (simp_all add: is_digit_def is_space_def)

lemma match_body_shape:
  assumes "list_all is_space sp" "es \<in> {[], ''s''}" "ds \<noteq> []" "list_all is_digit ds" "list_all is_space sp2"
  shows "match_body (sp @ es @ ds @ sp2 @ ''}}'' @ r) = Some (ds, r)"
proof -
  obtain d ds' where ds: "ds = d # ds'" "is_digit d" using assms(3,4) by (cases ds) auto
  have "skip_s (dropWhile is_space (sp @ es @ ds @ sp2 @ ''}}'' @ r)) = ds @ sp2 @ ''}}'' @ r"
    using assms(1,2) char_kinds(1) [OF ds(2)] by (auto simp: ds(1) drop_all_then skip_s_def)
  moreover have "takeWhile is_digit (ds @ sp2 @ ''}}'' @ r) = ds \<and> dropWhile is_digit (ds @ sp2 @ ''}}'' @ r) = sp2 @ ''}}'' @ r"
    using assms(4,5) char_kinds(2) by (cases sp2) (auto simp: drop_all_then)
  moreover have "dropWhile is_space (sp2 @ ''}}'' @ r) = ''}}'' @ r"
    using assms(5) by (simp add: drop_all_then)
  ultimately show ?thesis using assms(3) by (simp add: match_body_def Let_def)
qed

lemma match_body_parts:
  assumes "match_body s = Some (ds, rest)"
  shows "\<exists>sp es sp2. s = sp @ es @ ds @ sp2 @ ''}}'' @ rest \<and> list_all is_space sp \<and> es \<in> {[], ''s''} \<and>
    ds \<noteq> [] \<and> list_all is_digit ds \<and> list_all is_space sp2"
proof -
  define t where "t = dropWhile is_space s"
  define u where "u = dropWhile is_digit (skip_s t)"
  from assms have d: "ds = takeWhile is_digit (skip_s t)" "ds \<noteq> []" and
    r: "take 2 (dropWhile is_space u) = ''}}''" "rest = drop 2 (dropWhile is_space u)"
    unfolding t_def u_def by (auto simp: match_body_def Let_def split: if_splits)
  have s: "s = takeWhile is_space s @ t" by (simp add: t_def)
  have "\<exists>es \<in> {[], ''s''}. t = es @ skip_s t" by (cases t) (auto simp: skip_s_def)
  then obtain es where es: "es \<in> {[], ''s''}" "t = es @ skip_s t" by blast
  have sk: "skip_s t = ds @ u" by (simp add: d(1) u_def)
  have u: "u = takeWhile is_space u @ ''}}'' @ rest"
    using r by (metis append_take_drop_id takeWhile_dropWhile_id)
  have "list_all is_space (takeWhile is_space s)" "list_all is_space (takeWhile is_space u)" "list_all is_digit ds"
    by (auto simp: list_all_iff d(1) dest: set_takeWhileD)
  moreover have "s = takeWhile is_space s @ es @ ds @ takeWhile is_space u @ ''}}'' @ rest"
    using s es(2) sk u by metis
  ultimately show ?thesis using es(1) d(2) by blast
qed

lemma match_body_Some:
  assumes "match_body s = Some (ds, rest)"
  shows "\<exists>m. s = m @ rest \<and> CHR ''{'' \<notin> set m \<and> m \<noteq> [] \<and> last m = CHR ''}'' \<and> (\<forall>r. match_body (m @ r) = Some (ds, r))"
proof -
  from match_body_parts [OF assms] obtain sp es sp2 where p: "s = sp @ es @ ds @ sp2 @ ''}}'' @ rest"
    "list_all is_space sp" "es \<in> {[], ''s''}" "ds \<noteq> []" "list_all is_digit ds" "list_all is_space sp2" by blast
  let ?m = "sp @ es @ ds @ sp2 @ ''}}''"
  have "CHR ''{'' \<notin> set ?m" using p(2-6) by (auto simp: list_all_iff)
  then show ?thesis using p(1) match_body_shape [OF p(2-6)] by (intro exI [of _ ?m]) simp
qed

lemma MARKER_Some:
  assumes "MARKER s = Some (ds, rest)"
  shows "\<exists>m. s = ''{{'' @ m @ rest \<and> CHR ''{'' \<notin> set m \<and> m \<noteq> [] \<and> last m = CHR ''}'' \<and>
    (\<forall>r. MARKER (''{{'' @ m @ r) = Some (ds, r))"
proof -
  from assms have t: "take 2 s = ''{{''" "match_body (drop 2 s) = Some (ds, rest)"
    by (auto simp: MARKER_def split: if_splits)
  from match_body_Some [OF t(2)] obtain m where m: "drop 2 s = m @ rest" "CHR ''{'' \<notin> set m" "m \<noteq> []"
    "last m = CHR ''}''" "\<forall>r. match_body (m @ r) = Some (ds, r)" by blast
  have "s = ''{{'' @ m @ rest" using t(1) m(1) by (metis append_take_drop_id)
  with m show ?thesis by (intro exI [of _ m]) (simp add: MARKER_def)
qed

text \<open>A text as its characters and the numbers of its markers, the matches of the global pattern.\<close>

function scan :: "string \<Rightarrow> (char + nat) list" where
  "scan [] = []"
| "scan (c # cs) =
     (case MARKER (c # cs) of
        Some (digits, rest) \<Rightarrow> Inr (read_nat digits) # scan rest
      | None \<Rightarrow> Inl c # scan cs)"
  by pat_completeness auto
termination
proof (relation "measure length")
  fix c cs x digits rest
  assume "MARKER (c # cs) = Some x" "(digits, rest) = x"
  then have "MARKER (c # cs) = Some (digits, rest)" by simp
  from MARKER_Some [OF this] obtain m where "c # cs = ''{{'' @ m @ rest" by blast
  then have "length (c # cs) = length (''{{'' @ m @ rest)" by (rule arg_cong)
  then show "(rest, c # cs) \<in> measure length" by simp
qed auto

definition slot_id :: "nat \<Rightarrow> string" where
  "slot_id n = ''s'' @ show_nat n"

definition marker_text :: "nat \<Rightarrow> string" where
  "marker_text n = ''{{'' @ slot_id n @ ''}}''"

text \<open>First appearances only, in order.\<close>

definition add_new :: "'a \<Rightarrow> 'a list \<Rightarrow> 'a list" where
  "add_new x seen = (if x \<in> set seen then seen else seen @ [x])"

definition marker_numbers :: "string \<Rightarrow> nat list" where
  "marker_numbers text = concat (map (\<lambda>t. case t of Inr n \<Rightarrow> [n] | Inl _ \<Rightarrow> []) (scan text))"

definition slotsInText :: "string \<Rightarrow> string list" where
  "slotsInText text = fold add_new (map slot_id (marker_numbers text)) []"

definition slotsInLines :: "string list \<Rightarrow> string list" where
  "slotsInLines lines = fold (\<lambda>line seen. fold add_new (slotsInText line) seen) lines []"

definition normaliseMarkers :: "string \<Rightarrow> string" where
  "normaliseMarkers text = concat (map (\<lambda>t. case t of Inl c \<Rightarrow> [c] | Inr n \<Rightarrow> marker_text n) (scan text))"

definition keyFor :: "nat \<Rightarrow> string" where
  "keyFor index = ''s'' @ show_nat (index + 1)"

subsection \<open>Slot lists\<close>

definition slot_object :: "string \<Rightarrow> nat \<times> string \<Rightarrow> json" where
  "slot_object field_name x = (case x of (index, value) \<Rightarrow>
     JObj (jsmap_set field_name (JStr value) [(''key'', JStr (keyFor index))]))"

definition slotList :: "string \<Rightarrow> string list \<Rightarrow> json list" where
  "slotList field_name vals =
     map (slot_object field_name)
       (enumerate 0 (filter (\<lambda>v. v \<noteq> []) (map js_trim vals)))"

text \<open>Fields of a slot are strings or absent.\<close>

definition slotListValues :: "string \<Rightarrow> json \<Rightarrow> string list" where
  "slotListValues field_name payload =
     (case as_array (field ''slots'' payload) of
        None \<Rightarrow> [[]]
      | Some slots \<Rightarrow>
          (let vals = map (\<lambda>slot. if is_object slot then nullish (as_string (field field_name slot)) [] else []) slots
           in if vals \<noteq> [] then vals else [[]]))"

subsection \<open>Prose with blanks\<close>

definition blankText :: "string \<Rightarrow> string \<Rightarrow> json" where
  "blankText field_name text =
     (let body = js_trim text in
      JObj (jsmap_set ''slots'' (JArr (map JStr (slotsInText body))) [(field_name, JStr (normaliseMarkers body))]))"

definition blankTextValue :: "string \<Rightarrow> json \<Rightarrow> string" where
  "blankTextValue field_name payload = nullish (as_string (field field_name payload)) []"

definition nextMarker :: "string \<Rightarrow> string" where
  "nextMarker text =
     (let used = map (\<lambda>slot. read_nat (drop 1 slot)) (slotsInText text)
      in ''{{s'' @ show_nat (if used \<noteq> [] then Max (set used) + 1 else 1) @ ''}}'')"

definition is_slot_id :: "string \<Rightarrow> bool" where
  "is_slot_id s = (case s of c # ds \<Rightarrow> c = CHR ''s'' \<and> ds \<noteq> [] \<and> list_all is_digit ds | [] \<Rightarrow> False)"

definition slotIdsOf :: "json \<Rightarrow> string list option" where
  "slotIdsOf payload =
     (case as_array (field ''slots'' payload) of
        None \<Rightarrow> None
      | Some slots \<Rightarrow>
          if length slots = 0 then None
          else
            (let ids = filter is_slot_id (map (\<lambda>slot. case slot of
                   JStr s \<Rightarrow> s
                 | _ \<Rightarrow> nullish (as_string (field ''key'' slot)) []) slots)
             in if ids \<noteq> [] then Some ids else None))"

subsection \<open>The audio cue\<close>

definition parseTimestamp :: "string \<Rightarrow> nat option" where
  "parseTimestamp text =
     (let trimmed = js_trim text in
      if trimmed = [] then None
      else
        let parts = js_split (CHR '':'') trimmed in
        if length parts > 2 then None
        else if \<exists>p \<in> set parts. js_trim p = [] \<or> \<not> list_all is_digit (js_trim p) then None
        else
          let n = map (\<lambda>p. read_nat (js_trim p)) parts;
              seconds = (if length parts = 2 then n ! 0 * 60 + n ! 1 else n ! 0)
          in Some (seconds * 1000))"

text \<open>\<open>Math.round\<close> rounds halves up.\<close>

definition formatTimestamp :: "real option \<Rightarrow> string" where
  "formatTimestamp ms =
     (case ms of
        None \<Rightarrow> []
      | Some v \<Rightarrow>
          if v < 0 then []
          else let s = nat \<lfloor>v / 1000 + 1 / 2\<rfloor>
               in show_nat (s div 60) @ '':'' @ pad_start 2 (CHR ''0'') (show_nat (s mod 60)))"

subsection \<open>Structured bodies\<close>

datatype note_kind = Heading | Bullet | Subbullet | Line

record note_block =
  kind :: note_kind
  block_text :: string

definition kind_name :: "note_kind \<Rightarrow> string" where
  "kind_name k = (case k of Heading \<Rightarrow> ''heading'' | Bullet \<Rightarrow> ''bullet'' | Subbullet \<Rightarrow> ''subbullet'' | Line \<Rightarrow> ''line'')"

definition noteBlocks :: "note_block list \<Rightarrow> json" where
  "noteBlocks blocks =
     (let kept = filter (\<lambda>b. js_trim (block_text b) \<noteq> []) blocks in
      JObj [(''blocks'', JArr (map (\<lambda>b. JObj [(''kind'', JStr (kind_name (kind b))),
                (''text'', JStr (normaliseMarkers (js_trim (block_text b))))]) kept)),
            (''slots'', JArr (map JStr (slotsInLines (map block_text kept))))])"

record flow_step =
  step_text :: string
  branch :: "string option"

definition step_object :: "flow_step \<Rightarrow> json" where
  "step_object s =
     (let text = JStr (normaliseMarkers (js_trim (step_text s)));
          b = js_trim (nullish (branch s) [])
      in if b \<noteq> [] then JObj [(''text'', text), (''branch'', JStr b)] else JObj [(''text'', text)])"

definition flowSteps :: "flow_step list \<Rightarrow> json" where
  "flowSteps steps =
     (let kept = filter (\<lambda>s. js_trim (step_text s) \<noteq> []) steps in
      JObj [(''steps'', JArr (map step_object kept)),
            (''slots'', JArr (map JStr (slotsInLines (map step_text kept))))])"

record form_row =
  row_label :: string
  row_value :: string

definition form_field :: "form_row \<Rightarrow> json" where
  "form_field row =
     (let raw = js_trim (row_value row); label = JStr (js_trim (row_label row)) in
      case slotsInText raw of
        slot # _ \<Rightarrow>
          if slot \<noteq> [] \<and> ONLY_MARKER raw then JObj [(''label'', label), (''slot'', JStr slot)]
          else JObj [(''label'', label), (''value'', JStr (normaliseMarkers raw))]
      | [] \<Rightarrow>
          if raw \<noteq> [] then JObj [(''label'', label), (''value'', JStr (normaliseMarkers raw))]
          else JObj [(''label'', label)])"

definition formFields :: "form_row list \<Rightarrow> json" where
  "formFields rows =
     (let kept = filter (\<lambda>r. js_trim (row_label r) \<noteq> [] \<or> js_trim (row_value r) \<noteq> []) rows in
      JObj [(''fields'', JArr (map form_field kept)),
            (''slots'', JArr (map JStr (slotsInLines (map row_value kept))))])"

definition grid_cell :: "string \<Rightarrow> json" where
  "grid_cell cell =
     (let text = js_trim cell in
      if ONLY_MARKER text
      then JObj [(''kind'', JStr ''blank''),
                 (''slot'', JStr (case slotsInText text of s # _ \<Rightarrow> s | [] \<Rightarrow> ''s1''))]
      else JObj [(''kind'', JStr ''text''), (''value'', JStr (normaliseMarkers text))])"

definition tableGrid :: "string list \<Rightarrow> string list list \<Rightarrow> json" where
  "tableGrid columns cells =
     (let keptColumns = filter (\<lambda>c. c \<noteq> []) (map js_trim columns);
          keptRows = filter (\<lambda>row. \<exists>cell \<in> set row. js_trim cell \<noteq> []) cells
      in JObj [(''columns'', JArr (map JStr keptColumns)),
               (''rows'', JArr (map (\<lambda>row. JArr (map grid_cell (take (max 1 (length keptColumns)) row))) keptRows)),
               (''slots'', JArr (map JStr (slotsInLines (concat keptRows))))])"

subsection \<open>Normalising keeps the blanks\<close>

abbreviation no_brace :: "char \<Rightarrow> bool" where
  "no_brace c \<equiv> c \<noteq> CHR ''{''"

lemma normaliseMarkers_simps [simp]:
  "normaliseMarkers [] = []"
  "MARKER (c # cs) = None \<Longrightarrow> normaliseMarkers (c # cs) = c # normaliseMarkers cs"
  "MARKER (c # cs) = Some (ds, rest) \<Longrightarrow>
     normaliseMarkers (c # cs) = marker_text (read_nat ds) @ normaliseMarkers rest"
  by (simp_all add: normaliseMarkers_def)

lemma MARKER_text [simp]: "MARKER (marker_text n @ r) = Some (show_nat n, r)"
proof -
  have "list_all is_digit (show_nat n)" by (auto simp: list_all_iff dest: show_nat_digits)
  from match_body_shape [OF _ _ show_nat_nonempty this, of "[]" "''s''" "[]" r]
  show ?thesis by (simp add: MARKER_def marker_text_def slot_id_def)
qed

lemma MARKER_starts: "MARKER (c # cs) = Some x \<Longrightarrow> c = CHR ''{''"
  by (cases cs) (auto simp: MARKER_def split: if_splits)

lemma takeWhile_normalise: "takeWhile no_brace (normaliseMarkers s) = takeWhile no_brace s"
proof (induction s rule: scan.induct)
  case (2 c cs)
  show ?case
  proof (cases "MARKER (c # cs)")
    case None
    with 2(1) [OF None] show ?thesis by simp
  next
    case (Some x)
    moreover from MARKER_starts [OF this] have "c = CHR ''{''" .
    ultimately show ?thesis by (cases x) (simp add: marker_text_def)
  qed
qed simp

lemma prefix_normalise:
  assumes "normaliseMarkers s = m @ rest" "CHR ''{'' \<notin> set m"
  shows "\<exists>rest'. s = m @ rest'"
proof -
  have "\<forall>c \<in> set m. no_brace c" using assms(2) by auto
  then have "takeWhile no_brace (m @ rest) = m @ takeWhile no_brace rest" by (simp add: takeWhile_append2)
  then have "takeWhile no_brace s = m @ takeWhile no_brace rest"
    using takeWhile_normalise [of s] assms(1) by simp
  then have "s = m @ takeWhile no_brace rest @ dropWhile no_brace s"
    using takeWhile_dropWhile_id [of no_brace s] by simp
  then show ?thesis by blast
qed

lemma MARKER_normalise:
  assumes "MARKER (c # cs) = None"
  shows "MARKER (c # normaliseMarkers cs) = None"
proof (rule ccontr)
  assume "MARKER (c # normaliseMarkers cs) \<noteq> None"
  then obtain ds rest where "MARKER (c # normaliseMarkers cs) = Some (ds, rest)" by auto
  from MARKER_Some [OF this] obtain m where m: "c # normaliseMarkers cs = ''{{'' @ m @ rest"
    "CHR ''{'' \<notin> set m" "m \<noteq> []" "\<forall>r. MARKER (''{{'' @ m @ r) = Some (ds, r)" by blast
  then have c: "c = CHR ''{''" "normaliseMarkers cs = CHR ''{'' # m @ rest" by simp_all
  then have "takeWhile no_brace cs = []" "cs \<noteq> []" using takeWhile_normalise [of cs] by auto
  then obtain cs' where cs: "cs = CHR ''{'' # cs'" by (cases cs) (auto split: if_splits)
  show False
  proof (cases "MARKER cs")
    case None
    with c cs have "normaliseMarkers cs' = m @ rest" by simp
    from prefix_normalise [OF this m(2)] obtain rest' where "cs' = m @ rest'" by blast
    with m(4) c(1) cs assms show False by simp
  next
    case (Some x)
    with c cs have "CHR ''{'' # m @ rest = marker_text (read_nat (fst x)) @ normaliseMarkers (snd x)"
      by (cases x) simp
    with m(2,3) show False by (cases m) (auto simp: marker_text_def)
  qed
qed

lemma scan_marker_text [simp]: "scan (marker_text n @ r) = Inr n # scan r"
proof -
  obtain c cs where "marker_text n @ r = c # cs" by (simp add: marker_text_def)
  then show ?thesis using MARKER_text [of n r] by simp
qed

lemma scan_normalise: "scan (normaliseMarkers s) = scan s"
proof (induction s rule: scan.induct)
  case (2 c cs)
  show ?case
  proof (cases "MARKER (c # cs)")
    case None
    with 2(1) [OF None] MARKER_normalise [OF None] show ?thesis by simp
  next
    case (Some x)
    with 2(2) [OF Some] show ?thesis by (cases x) simp
  qed
qed simp

lemma marker_numbers_simps [simp]:
  "marker_numbers [] = []"
  "MARKER (c # cs) = None \<Longrightarrow> marker_numbers (c # cs) = marker_numbers cs"
  "MARKER (c # cs) = Some (ds, rest) \<Longrightarrow> marker_numbers (c # cs) = read_nat ds # marker_numbers rest"
  by (simp_all add: marker_numbers_def)

lemma slots_normalise: "slotsInText (normaliseMarkers s) = slotsInText s"
  by (simp add: slotsInText_def marker_numbers_def scan_normalise)

lemma markers_drop_space: "marker_numbers (dropWhile is_space s) = marker_numbers s"
proof (induction s)
  case (Cons c s)
  moreover have "MARKER (c # s) = None" if "is_space c"
    using that MARKER_starts [of c s] by (cases "MARKER (c # s)") auto
  ultimately show ?case by auto
qed simp

lemma markers_snoc_space:
  assumes "is_space c"
  shows "marker_numbers (s @ [c]) = marker_numbers s"
proof (induction s rule: scan.induct)
  case 1
  have "MARKER [c] = None" by (simp add: MARKER_def)
  then show ?case by simp
next
  case (2 x xs)
  show ?case
  proof (cases "MARKER (x # xs)")
    case None
    have "MARKER (x # xs @ [c]) = None"
    proof (rule ccontr)
      assume "MARKER (x # xs @ [c]) \<noteq> None"
      then obtain ds rest where "MARKER (x # xs @ [c]) = Some (ds, rest)" by auto
      from MARKER_Some [OF this] obtain m where m: "x # xs @ [c] = ''{{'' @ m @ rest" "m \<noteq> []" "last m = CHR ''}''"
        "\<forall>r. MARKER (''{{'' @ m @ r) = Some (ds, r)" by blast
      have "rest \<noteq> []"
      proof
        assume "rest = []"
        with m(1,2) have "last (x # xs @ [c]) = last m" by simp
        with m(3) assms show False by simp
      qed
      then obtain rest' d where r: "rest = rest' @ [d]" by (cases rest rule: rev_cases) auto
      with m(1) have "(x # xs) @ [c] = (''{{'' @ m @ rest') @ [d]" by simp
      then have "x # xs = ''{{'' @ m @ rest'" by (simp only: append1_eq_conv)
      with m(4) None show False by simp
    qed
    with 2(1) [OF None] None show ?thesis by simp
  next
    case (Some y)
    then obtain ds rest where y: "MARKER (x # xs) = Some (ds, rest)" by (cases y) auto
    from MARKER_Some [OF y] obtain m where m: "x # xs = ''{{'' @ m @ rest" "\<forall>r. MARKER (''{{'' @ m @ r) = Some (ds, r)"
      by blast
    from m(1) have "x # xs @ [c] = ''{{'' @ m @ rest @ [c]" by simp
    with m(2) have "MARKER (x # xs @ [c]) = Some (ds, rest @ [c])" by simp
    with 2(2) [OF y refl] y show ?thesis by simp
  qed
qed

lemma markers_append_space: "list_all is_space ws \<Longrightarrow> marker_numbers (s @ ws) = marker_numbers s"
proof (induction ws rule: rev_induct)
  case (snoc w ws)
  then show ?case using markers_snoc_space [of w "s @ ws"] by simp
qed simp

lemma markers_trim: "marker_numbers (js_trim s) = marker_numbers s"
proof -
  let ?t = "dropWhile is_space s"
  have "?t = js_trim s @ rev (takeWhile is_space (rev ?t))"
    unfolding js_trim_def trim_start_def
    by (metis rev_append rev_rev_ident takeWhile_dropWhile_id)
  moreover have "list_all is_space (rev (takeWhile is_space (rev ?t)))"
    by (auto simp: list_all_iff dest: set_takeWhileD)
  ultimately have "marker_numbers ?t = marker_numbers (js_trim s)" by (metis markers_append_space)
  then show ?thesis by (simp add: markers_drop_space)
qed

lemma slots_trim: "slotsInText (js_trim s) = slotsInText s"
  by (simp add: slotsInText_def markers_trim)

lemma add_new_fold:
  "distinct seen \<Longrightarrow> distinct (fold add_new xs seen) \<and> set (fold add_new xs seen) = set seen \<union> set xs \<and>
     (\<exists>ys. fold add_new xs seen = seen @ ys)"
proof (induction xs arbitrary: seen)
  case (Cons x xs)
  have new: "distinct (add_new x seen)" "set (add_new x seen) = insert x (set seen)" "\<exists>z. add_new x seen = seen @ z"
    using Cons.prems by (auto simp: add_new_def)
  from Cons.IH [OF new(1)] new(2,3) show ?case by auto
qed simp

lemma slotsInText_set: "distinct (slotsInText t)" "set (slotsInText t) = slot_id ` set (marker_numbers t)"
  using add_new_fold [of "[]" "map slot_id (marker_numbers t)"] by (simp_all add: slotsInText_def)

text \<open>
  Writing markers in their normal form changes no blank. Normalising is idempotent, finds the
  same blanks in the same order, and is not disturbed by spaces around the text; a list of blanks
  never repeats one.
\<close>
theorem normalise_stable:
  "normaliseMarkers (normaliseMarkers t) = normaliseMarkers t \<and>
   slotsInText (normaliseMarkers (js_trim t)) = slotsInText t \<and> distinct (slotsInText t)"
proof -
  have "normaliseMarkers (normaliseMarkers t) = normaliseMarkers t"
    by (subst (1 3) normaliseMarkers_def) (simp add: scan_normalise)
  then show ?thesis by (simp add: slots_normalise slots_trim slotsInText_set)
qed

subsection \<open>The student sees every blank\<close>

lemma not_word_brace [simp]: "\<not> is_word (CHR ''{'')" "\<not> is_word (CHR ''}'')"
  by (simp_all add: is_word_def)

lemma overlapE:
  assumes "a @ x = b @ y"
  obtains us where "a = b @ us" "us @ x = y" | us where "us \<noteq> []" "a @ us = b" "x = us @ y"
proof -
  from assms obtain us where "a = b @ us \<and> us @ x = y \<or> a @ us = b \<and> x = us @ y"
    by (auto simp: append_eq_append_conv2)
  with that show ?thesis by (cases "us = []") auto
qed

lemma before_brace:
  assumes "as @ CHR ''{'' # us = vs" "CHR ''{'' \<notin> set (tl vs)" "vs \<noteq> []"
  shows "as = [] \<and> us = tl vs"
  using assms by (cases as) auto

lemma gap_found:
  assumes "w \<noteq> []" "list_all is_word w"
  shows "w \<in> set (gaps (split_gaps (a @ ''{{'' @ w @ ''}}'' @ b)))"
proof (induction "length a" arbitrary: a rule: less_induct)
  case less
  show ?case
  proof (cases a)
    case Nil
    then show ?thesis using match_gap_word [OF assms, of b] by (simp del: alternate_Cons)
  next
    case (Cons c a')
    let ?u = "a @ ''{{'' @ w @ ''}}'' @ b"
    show ?thesis
    proof (cases "match_gap ?u")
      case None
      have "w \<in> set (gaps (split_gaps (a' @ ''{{'' @ w @ ''}}'' @ b)))" by (rule less) (simp add: Cons)
      moreover obtain p ps where "split_gaps (a' @ ''{{'' @ w @ ''}}'' @ b) = p # ps"
        by (cases "split_gaps (a' @ ''{{'' @ w @ ''}}'' @ b)") auto
      ultimately show ?thesis using None Cons by simp
    next
      case (Some x)
      then obtain v rest where x: "match_gap ?u = Some (v, rest)" by (cases x) auto
      from match_gap_Some [OF x] have u: "?u = (''{{'' @ v @ ''}}'') @ rest" and v: "list_all is_word v" "v \<noteq> []"
        by auto
      then have no: "CHR ''{'' \<notin> set (v @ ''}}'')" by (auto simp: list_all_iff)
      from u show ?thesis
      proof (rule overlapE)
        fix us assume 1: "a = (''{{'' @ v @ ''}}'') @ us" "us @ ''{{'' @ w @ ''}}'' @ b = rest"
        have "w \<in> set (gaps (split_gaps rest))" using less [of us] 1 by simp
        with x Cons show ?thesis by (simp del: alternate_Cons)
      next
        fix us assume 2: "us \<noteq> []" "a @ us = ''{{'' @ v @ ''}}''" "''{{'' @ w @ ''}}'' @ b = us @ rest"
        then obtain us' where us: "us = CHR ''{'' # us'" by (cases us) auto
        from 2(2) Cons have "a' @ CHR ''{'' # us' = CHR ''{'' # v @ ''}}''" by (simp add: us)
        from before_brace [OF this] no have us': "us' = v @ ''}}''" by simp
        obtain v0 v' where "v = v0 # v'" using v(2) by (cases v) auto
        with 2(3) us us' v(1) show ?thesis by (auto simp: is_word_def)
      qed
    qed
  qed
qed

lemma slot_id_word: "slot_id n \<noteq> []" "list_all is_word (slot_id n)"
proof -
  have "is_digit c \<Longrightarrow> is_word c" for c by (auto simp: is_digit_def is_word_def)
  then show "list_all is_word (slot_id n)"
    by (auto simp: slot_id_def list_all_iff is_word_def dest: show_nat_digits)
qed (simp add: slot_id_def)

lemma marker_in_normal_form:
  "n \<in> set (marker_numbers t) \<Longrightarrow> \<exists>a b. normaliseMarkers t = a @ marker_text n @ b"
proof (induction t rule: scan.induct)
  case (2 c cs)
  show ?case
  proof (cases "MARKER (c # cs)")
    case None
    with 2 obtain a b where "normaliseMarkers cs = a @ marker_text n @ b" by auto
    with None have "normaliseMarkers (c # cs) = (c # a) @ marker_text n @ b" by simp
    then show ?thesis by blast
  next
    case (Some x)
    then obtain ds rest where x: "MARKER (c # cs) = Some (ds, rest)" by (cases x) auto
    show ?thesis
    proof (cases "n = read_nat ds")
      case True
      with x have "normaliseMarkers (c # cs) = [] @ marker_text n @ normaliseMarkers rest" by simp
      then show ?thesis by blast
    next
      case False
      with x 2(2) [OF x refl] 2(3) obtain a b where "normaliseMarkers rest = a @ marker_text n @ b" by auto
      with x have "normaliseMarkers (c # cs) = (marker_text (read_nat ds) @ a) @ marker_text n @ b" by simp
      then show ?thesis by blast
    qed
  qed
qed simp

lemma slots_drawn: "set (slotsInText t) \<subseteq> set (gaps (split_gaps (normaliseMarkers t)))"
proof
  fix s assume "s \<in> set (slotsInText t)"
  then obtain n where n: "s = slot_id n" "n \<in> set (marker_numbers t)" by (auto simp: slotsInText_set)
  from marker_in_normal_form [OF n(2)] obtain a b where
    "normaliseMarkers t = a @ ''{{'' @ slot_id n @ ''}}'' @ b" by (auto simp: marker_text_def)
  with gap_found [OF slot_id_word, of n a b] n(1)
  show "s \<in> set (gaps (split_gaps (normaliseMarkers t)))" by simp
qed

subsection \<open>Building bodies\<close>

lemma scan_snoc_marker: "scan (t @ marker_text n) = scan t @ [Inr n]"
proof (induction t rule: scan.induct)
  case 1
  show ?case using scan_marker_text [of n "[]"] by simp
next
  case (2 c cs)
  show ?case
  proof (cases "MARKER (c # cs)")
    case None
    have "MARKER (c # cs @ marker_text n) = None"
    proof (rule ccontr)
      assume "MARKER (c # cs @ marker_text n) \<noteq> None"
      then obtain ds rest where "MARKER (c # cs @ marker_text n) = Some (ds, rest)" by auto
      from MARKER_Some [OF this] obtain m where m: "(c # cs) @ marker_text n = ''{{'' @ m @ rest"
        "CHR ''{'' \<notin> set m" "m \<noteq> []" "\<forall>r. MARKER (''{{'' @ m @ r) = Some (ds, r)" by auto
      from m(1) have e: "(c # cs) @ marker_text n = (''{{'' @ m) @ rest" by simp
      from e show False
      proof (rule overlapE)
        fix us assume "c # cs = (''{{'' @ m) @ us"
        with m(4) None show False by simp
      next
        fix us assume us: "us \<noteq> []" "(c # cs) @ us = ''{{'' @ m" "marker_text n = us @ rest"
        then obtain us' where us': "us = CHR ''{'' # us'" by (cases us) (auto simp: marker_text_def)
        from us(2) have "cs @ CHR ''{'' # us' = CHR ''{'' # m" by (simp add: us')
        from before_brace [OF this] m(2) have "us' = m" by simp
        with us(3) us' m(2,3) show False by (cases m) (auto simp: marker_text_def)
      qed
    qed
    with 2(1) [OF None] None show ?thesis by simp
  next
    case (Some y)
    then obtain ds rest where y: "MARKER (c # cs) = Some (ds, rest)" by (cases y) auto
    from MARKER_Some [OF y] obtain m where m: "c # cs = ''{{'' @ m @ rest" "\<forall>r. MARKER (''{{'' @ m @ r) = Some (ds, r)"
      by blast
    from m(1) have "c # cs @ marker_text n = ''{{'' @ m @ rest @ marker_text n" by simp
    with m(2) have "MARKER (c # cs @ marker_text n) = Some (ds, rest @ marker_text n)" by simp
    with 2(2) [OF y refl] y show ?thesis by simp
  qed
qed

lemma slot_id_inject [simp]: "slot_id m = slot_id n \<longleftrightarrow> m = n"
  by (simp add: slot_id_def)

text \<open>
  Inserting a blank adds exactly one. The marker offered is numbered past every blank of the
  text, so appending it gives the same blanks and then the new one.
\<close>
theorem next_marker_fresh:
  "\<exists>n. nextMarker t = marker_text n \<and> (\<forall>k \<in> set (marker_numbers t). k < n) \<and>
     slotsInText (t @ nextMarker t) = slotsInText t @ [slot_id n]"
proof -
  let ?used = "map (\<lambda>slot. read_nat (drop 1 slot)) (slotsInText t)"
  define n where "n = (if ?used \<noteq> [] then Max (set ?used) + 1 else 1)"
  have used: "set ?used = set (marker_numbers t)"
    by (simp add: slotsInText_set image_image slot_id_def)
  have nm: "nextMarker t = marker_text n"
    by (simp add: nextMarker_def Let_def marker_text_def slot_id_def n_def)
  have lt: "k < n" if "k \<in> set (marker_numbers t)" for k
  proof -
    from that have "k \<in> set ?used" by (simp only: used)
    then have "k \<le> Max (set ?used)" "?used \<noteq> []" by (rule Max_ge [OF finite_set], auto)
    then show ?thesis unfolding n_def by simp
  qed
  have "slot_id n \<notin> set (slotsInText t)" using lt [of n] by (auto simp: slotsInText_set)
  then have "slotsInText (t @ nextMarker t) = slotsInText t @ [slot_id n]"
    by (simp add: nm slotsInText_def marker_numbers_def scan_snoc_marker add_new_def)
  with nm lt show ?thesis by blast
qed

theorem next_marker_fresh_witness:
  "\<exists>n. nextMarker ''{{s3}} and {{1}}'' = marker_text n \<and> 3 < n"
proof -
  have "marker_numbers ''{{s3}} and {{1}}'' = [3, 1]"
    by (simp add: marker_numbers_def MARKER_def match_body_def skip_s_def is_space_def is_digit_def Let_def
        read_nat_def digit_val_def)
  with next_marker_fresh [of "''{{s3}} and {{1}}''"] show ?thesis by auto
qed

lemma keyFor_slot_id: "keyFor i = slot_id (Suc i)"
  by (simp add: keyFor_def slot_id_def)

text \<open>
  A slot list numbers what the author wrote. Blank rows are dropped, the keys are
  \<open>s1\<close>, \<open>s2\<close>, ... by position without gap or repeat, the answer key is given one row for each,
  and reading the list back gives the boxes.
\<close>
theorem slot_list_correct:
  fixes vals :: "string list" and field_name :: string
  assumes "field_name \<noteq> ''key''"
  defines "kept \<equiv> filter (\<lambda>v. v \<noteq> []) (map js_trim vals)"
    and "payload \<equiv> JObj [(''slots'', JArr (slotList field_name vals))]"
  shows "map (\<lambda>s. as_string (field ''key'' s)) (slotList field_name vals) = map (\<lambda>i. Some (slot_id (Suc i))) [0..<length kept] \<and>
    slotListValues field_name payload = (if kept = [] then [[]] else kept) \<and>
    slotIdsOf payload = (if kept = [] then None else Some (map (slot_id \<circ> Suc) [0..<length kept]))"
proof -
  let ?o = "slot_object field_name"
  have o: "as_string (field ''key'' (?o x)) = Some (slot_id (Suc (fst x)))"
    "as_string (field field_name (?o x)) = Some (snd x)" "is_object (?o x)" "\<And>s. ?o x \<noteq> JStr s" for x
    using assms(1)
    by (auto simp: slot_object_def field_def as_string_def is_object_def keyFor_slot_id split: prod.split)
  have sl: "slotList field_name vals = map ?o (enumerate 0 kept)" by (simp add: slotList_def kept_def)
  have fsts: "map (\<lambda>x. f (fst x)) (enumerate 0 kept) = map f [0..<length kept]" for f :: "nat \<Rightarrow> 'b"
    by (simp add: enumerate_eq_zip flip: map_map [unfolded comp_def])
  have snds: "map snd (enumerate 0 kept) = kept" by (simp add: enumerate_eq_zip)
  have keys: "map (\<lambda>s. as_string (field ''key'' s)) (slotList field_name vals) = map (\<lambda>i. Some (slot_id (Suc i))) [0..<length kept]"
    by (simp add: sl comp_def o(1) fsts [of "\<lambda>i. Some (slot_id (Suc i))"])
  have slots: "as_array (field ''slots'' payload) = Some (map ?o (enumerate 0 kept))"
    by (simp add: payload_def sl field_def as_array_def)
  have vals: "slotListValues field_name payload = (if kept = [] then [[]] else kept)"
    by (simp add: slotListValues_def slots comp_def o snds)
  have ok: "is_slot_id (slot_id n)" for n
    by (auto simp: is_slot_id_def slot_id_def list_all_iff dest: show_nat_digits)
  have "(case ?o x of JStr s \<Rightarrow> s | _ \<Rightarrow> nullish (as_string (field ''key'' (?o x))) []) = slot_id (Suc (fst x))" for x
    using o(1,4) [of x] by (cases "?o x") auto
  then have "slotIdsOf payload = (if kept = [] then None else Some (map (\<lambda>x. slot_id (Suc (fst x))) (enumerate 0 kept)))"
    by (cases kept) (simp_all add: slotIdsOf_def slots comp_def ok filter_id_conv Let_def)
  with keys vals show ?thesis by (simp add: fsts [of "\<lambda>i. slot_id (Suc i)"] comp_def)
qed

theorem slot_list_correct_witness:
  "slotListValues ''label'' (JObj [(''slots'', JArr (slotList ''label'' [''tap'', '' '', ''sink'']))]) = [''tap'', ''sink'']"
  using slot_list_correct [of "''label''" "[''tap'', '' '', ''sink'']"]
  by (simp add: js_trim_def trim_start_def is_space_def)

subsection \<open>Declared and drawn blanks\<close>

definition declared_slots :: "json \<Rightarrow> string list" where
  "declared_slots payload = strings_of (nullish (as_array (field ''slots'' payload)) [])"

definition items :: "string \<Rightarrow> json \<Rightarrow> json list" where
  "items k payload = nullish (as_array (field k payload)) []"

text \<open>The blanks an item shows: its slot, or the markers of its text or value.\<close>

definition item_slots :: "json \<Rightarrow> string list" where
  "item_slots item = (case as_string (field ''slot'' item) of
      Some s \<Rightarrow> [s]
    | None \<Rightarrow> slotsInText (case as_string (field ''text'' item) of
          Some t \<Rightarrow> t | None \<Rightarrow> nullish (as_string (field ''value'' item)) []))"

definition in_order :: "string list list \<Rightarrow> string list" where
  "in_order xss = fold add_new (concat xss) []"

lemma slotsInLines_in_order: "slotsInLines lines = in_order (map slotsInText lines)"
proof -
  have "fold (\<lambda>line seen. fold add_new (slotsInText line) seen) lines seen =
      fold add_new (concat (map slotsInText lines)) seen" for seen
    by (induction lines arbitrary: seen) simp_all
  then show ?thesis by (simp add: slotsInLines_def in_order_def)
qed

lemma declared_slots_obj:
  "declared_slots (JObj [(k, v), (''slots'', JArr (map JStr ss))]) = (if k = ''slots'' then declared_slots (JObj [(k, v)]) else ss)"
  "declared_slots (JObj [(k, v), (k', v'), (''slots'', JArr (map JStr ss))]) =
     (if k = ''slots'' then declared_slots (JObj [(k, v)]) else if k' = ''slots'' then declared_slots (JObj [(k', v')]) else ss)"
  by (simp_all add: declared_slots_def field_def as_array_def)

lemma slotsInText_Nil [simp]: "slotsInText [] = []"
  by (simp add: slotsInText_def)

lemma ONLY_MARKER_slots:
  assumes "ONLY_MARKER t"
  shows "\<exists>s. slotsInText t = [s] \<and> s \<noteq> []"
proof -
  from assms obtain ds rest where m: "MARKER (dropWhile is_space t) = Some (ds, rest)" "list_all is_space rest"
    by (auto simp: ONLY_MARKER_def split: option.splits)
  then obtain c cs where c: "dropWhile is_space t = c # cs" by (cases "dropWhile is_space t") (auto simp: MARKER_def)
  have "marker_numbers rest = []" using markers_append_space [OF m(2), of "[]"] by simp
  with m c markers_drop_space [of t] have "marker_numbers t = [read_nat ds]" by simp
  then show ?thesis by (simp add: slotsInText_def add_new_def slot_id_def)
qed

lemma item_slots_simps [simp]:
  "item_slots (JObj [(''label'', l), (''slot'', JStr s)]) = [s]"
  "item_slots (JObj [(''kind'', l), (''slot'', JStr s)]) = [s]"
  "item_slots (JObj [(''label'', l), (''value'', JStr t)]) = slotsInText t"
  "item_slots (JObj [(''kind'', l), (''value'', JStr t)]) = slotsInText t"
  "item_slots (JObj [(''kind'', l), (''text'', JStr t)]) = slotsInText t"
  "item_slots (JObj [(''text'', JStr t)]) = slotsInText t"
  "item_slots (JObj [(''text'', JStr t), (''branch'', JStr b)]) = slotsInText t"
  "item_slots (JObj [(''label'', l)]) = []"
  by (simp_all add: item_slots_def field_def as_string_def)

lemma form_field_slots: "item_slots (form_field row) = slotsInText (row_value row)"
proof (cases "slotsInText (js_trim (row_value row))")
  case Nil
  then show ?thesis using slots_trim [of "row_value row"]
    by (auto simp: form_field_def Let_def slots_normalise)
next
  case (Cons s ss)
  show ?thesis
  proof (cases "ONLY_MARKER (js_trim (row_value row))")
    case True
    with ONLY_MARKER_slots [OF True] Cons show ?thesis using slots_trim [of "row_value row"]
      by (auto simp: form_field_def Let_def)
  next
    case False
    with Cons have "form_field row = JObj [(''label'', JStr (js_trim (row_label row))),
        (''value'', JStr (normaliseMarkers (js_trim (row_value row))))]"
      by (simp add: form_field_def Let_def)
    then show ?thesis by (simp add: slots_normalise slots_trim)
  qed
qed

lemma grid_cell_slots: "item_slots (grid_cell cell) = slotsInText cell"
proof (cases "ONLY_MARKER (js_trim cell)")
  case True
  with ONLY_MARKER_slots [OF True] slots_trim [of cell] show ?thesis
    by (auto simp: grid_cell_def Let_def)
next
  case False
  then show ?thesis by (simp add: grid_cell_def Let_def slots_normalise slots_trim)
qed

text \<open>
  The list of blanks and the body never disagree. For notes, flowcharts and forms the
  declared slots are exactly the blanks the written items show, in order of appearance.
\<close>
theorem structured_slots_agree:
  "declared_slots (noteBlocks blocks) = in_order (map item_slots (items ''blocks'' (noteBlocks blocks)))
   \<and> declared_slots (flowSteps steps) = in_order (map item_slots (items ''steps'' (flowSteps steps)))
   \<and> declared_slots (formFields frows) = in_order (map item_slots (items ''fields'' (formFields frows)))"
proof (intro conjI)
  show "declared_slots (noteBlocks blocks) = in_order (map item_slots (items ''blocks'' (noteBlocks blocks)))"
    by (simp add: noteBlocks_def Let_def declared_slots_obj slotsInLines_in_order)
       (simp add: items_def field_def as_array_def comp_def slots_normalise slots_trim)
  have "item_slots (step_object s) = slotsInText (step_text s)" for s
    by (simp add: step_object_def Let_def slots_normalise slots_trim)
  then show "declared_slots (flowSteps steps) = in_order (map item_slots (items ''steps'' (flowSteps steps)))"
    by (simp add: flowSteps_def Let_def declared_slots_obj slotsInLines_in_order)
       (simp add: items_def field_def as_array_def comp_def)
  show "declared_slots (formFields frows) = in_order (map item_slots (items ''fields'' (formFields frows)))"
    by (simp add: formFields_def Let_def declared_slots_obj slotsInLines_in_order)
       (simp add: items_def field_def as_array_def comp_def form_field_slots)
qed

definition drawn_cells :: "json \<Rightarrow> json list" where
  "drawn_cells payload = concat (map (\<lambda>row. nullish (as_array (Some row)) []) (items ''rows'' payload))"

text \<open>
  A table agrees with its slot list as long as no row is longer than the headed columns.
\<close>
theorem table_slots_agree:
  assumes "\<forall>row \<in> set cells. length row \<le> max 1 (length (filter (\<lambda>c. c \<noteq> []) (map js_trim columns)))"
  shows "declared_slots (tableGrid columns cells) = in_order (map item_slots (drawn_cells (tableGrid columns cells)))"
proof -
  let ?n = "max 1 (length (filter (\<lambda>c. c \<noteq> []) (map js_trim columns)))"
  let ?rows = "filter (\<lambda>row. \<exists>cell \<in> set row. js_trim cell \<noteq> []) cells"
  have "map (take ?n) ?rows = ?rows" using assms by (intro map_idI) auto
  moreover have "drawn_cells (tableGrid columns cells) = map grid_cell (concat (map (take ?n) ?rows))"
    by (simp add: drawn_cells_def items_def tableGrid_def Let_def field_def as_array_def comp_def map_concat)
  ultimately have "drawn_cells (tableGrid columns cells) = map grid_cell (concat ?rows)" by (simp only:)
  moreover have "declared_slots (tableGrid columns cells) = in_order (map slotsInText (concat ?rows))"
    by (simp add: tableGrid_def Let_def declared_slots_obj slotsInLines_in_order)
  ultimately show ?thesis by (simp add: comp_def grid_cell_slots)
qed

lemmas marker_eval = MARKER_def match_body_def skip_s_def is_space_def is_digit_def Let_def read_nat_def digit_val_def

theorem table_slots_agree_witness:
  "declared_slots (tableGrid [''A'', ''B''] [[''x'', ''y'']]) =
   in_order (map item_slots (drawn_cells (tableGrid [''A'', ''B''] [[''x'', ''y'']])))"
  by (rule table_slots_agree) (simp add: js_trim_def trim_start_def is_space_def)

text \<open>
  A blank beyond the headed columns is declared and never drawn. A column whose heading is
  still empty shortens every row, but the slot list is read from the whole rows: the paper has a
  slot no student can see.
\<close>
theorem table_slot_never_drawn:
  "declared_slots (tableGrid [''Place'', []] [[''lake'', ''{{s1}}'']]) = [''s1''] \<and>
   ''s1'' \<notin> set (concat (map item_slots (drawn_cells (tableGrid [''Place'', []] [[''lake'', ''{{s1}}'']]))))"
proof -
  have t: "js_trim ''Place'' = ''Place''" "js_trim ''lake'' = ''lake''" "js_trim [] = []" "js_trim ''{{s1}}'' = ''{{s1}}''"
    by (simp_all add: js_trim_def trim_start_def is_space_def)
  have s: "slotsInText ''lake'' = []" "slotsInText ''{{s1}}'' = [''s1'']"
    by (simp_all add: slotsInText_def marker_numbers_def marker_eval add_new_def slot_id_def show_nat_eval digit_char_def)
  have "drawn_cells (tableGrid [''Place'', []] [[''lake'', ''{{s1}}'']]) = [grid_cell ''lake'']"
    by (simp add: drawn_cells_def items_def tableGrid_def Let_def t field_def as_array_def)
  moreover have "declared_slots (tableGrid [''Place'', []] [[''lake'', ''{{s1}}'']]) = [''s1'']"
    by (simp add: tableGrid_def Let_def t slotsInLines_in_order in_order_def s add_new_def)
       (simp add: declared_slots_def field_def as_array_def strings_of_def)
  ultimately show ?thesis by (simp add: grid_cell_slots s)
qed

subsection \<open>The audio cue\<close>

lemma trim_digits: "s \<noteq> [] \<Longrightarrow> list_all is_digit s \<Longrightarrow> js_trim s = s"
  by (rule js_trim_id) (auto simp: list_all_iff char_kinds)

text \<open>
  An audio cue shown as minutes and seconds is read back as the same whole second; a bare
  number is seconds.
\<close>
theorem timestamp_roundtrip:
  "parseTimestamp (formatTimestamp (Some (real (1000 * s)))) = Some (1000 * s) \<and>
   parseTimestamp (show_nat s) = Some (1000 * s)"
proof -
  have digits: "list_all is_digit (show_nat n)" for n by (auto simp: list_all_iff dest: show_nat_digits)
  let ?m = "show_nat (s div 60)" and ?p = "pad_start 2 (CHR ''0'') (show_nat (s mod 60))"
  have p: "?p \<noteq> []" "list_all is_digit ?p"
    using digits [of "s mod 60"] by (simp_all add: pad_two_digits) (simp add: is_digit_def)
  have "\<lfloor>real (1000 * s) / 1000 + 1 / 2\<rfloor> = int s" by linarith
  then have f: "formatTimestamp (Some (1000 * real s)) = ?m @ CHR '':'' # ?p"
    by (simp add: formatTimestamp_def)
  have nc: "CHR '':'' \<notin> set ?m" "CHR '':'' \<notin> set ?p"
    using p(2) by (auto simp: list_all_iff is_digit_def)
  then have sp: "js_split (CHR '':'') (?m @ CHR '':'' # ?p) = [?m, ?p]"
    by (simp add: js_split_append js_split_no_sep)
  have h: "\<not> is_space (hd ?m)" using digits [of "s div 60"] char_kinds(1) by (cases ?m) auto
  have l: "\<not> is_space (last ?p)" using p char_kinds(1) by (metis last_in_set list_all_iff)
  have tr: "js_trim (?m @ CHR '':'' # ?p) = ?m @ CHR '':'' # ?p"
    using h l p(1) by (intro js_trim_id) simp_all
  have s: "60000 * (s div 60) + s mod 60 * 1000 = 1000 * s"
    using div_mult_mod_eq [of s 60] by linarith
  have "parseTimestamp (formatTimestamp (Some (real (1000 * s)))) = Some (1000 * s)"
    using digits [of "s div 60"] p
    by (simp add: parseTimestamp_def f tr sp trim_digits pad_two_read Let_def s)
  moreover have "parseTimestamp (show_nat s) = Some (1000 * s)"
    using digits [of s] by (simp add: parseTimestamp_def trim_digits js_split_no_sep Let_def)
  ultimately show ?thesis by blast
qed

end
