(* ===== verification/Authoring.thy ===== *)
theory Authoring
  imports Question PayloadParts
begin

text \<open>
  The authoring console and the exam screen together: a body built by \<open>payloadParts.ts\<close> is drawn by
  \<open>Question.tsx\<close>.
\<close>

lemma blankText_fields:
  assumes "field_name \<noteq> ''slots''"
  shows "text_field (blankText field_name t) field_name = Some (normaliseMarkers (js_trim t))"
    "declared_slots (blankText field_name t) = slotsInText t"
    "k \<noteq> field_name \<Longrightarrow> k \<noteq> ''slots'' \<Longrightarrow> text_field (blankText field_name t) k = None"
  using assms
  by (simp_all add: blankText_def Let_def text_field_def declared_slots_def field_def as_array_def
      as_string_def slots_trim)

text \<open>
  C27: Every blank an author writes is a box the student can type in. The body the console builds
  for a completion sentence, drawn by the exam screen, has a control for each slot it declares.
\<close>
theorem declared_blanks_answerable:
  assumes "type_key q \<in> set SENTENCES" and "field_name \<in> {''text'', ''summary''}"
    and "payload q = blankText field_name t"
  shows "set (declared_slots (payload q)) \<subseteq> set (bound_slots (question_body q g answers))"
proof -
  from assms(2) have "field_name \<noteq> ''slots''" by auto
  note f = blankText_fields [OF this, where t = t]
  have "first_text [text_field (payload q) ''text'', text_field (payload q) ''summary''] [] = normaliseMarkers (js_trim t)"
    using assms(2) f(1) f(3) [of "''text''"] by (auto simp: assms(3) first_text_def)
  moreover have "type_key q \<notin> set PARAGRAPH_FREE" using assms(1) by (auto simp: SENTENCES_def PARAGRAPH_FREE_def)
  ultimately have "bound_slots (question_body q g answers) = gaps (split_gaps (normaliseMarkers (js_trim t)))"
    using bound_slots_question [of q g answers] assms(1) by simp
  then show ?thesis using f(2) slots_drawn [of "js_trim t"] by (simp add: assms(3) slots_trim)
qed

theorem declared_blanks_answerable_witness:
  "set (declared_slots (blankText ''text'' ''a {{1}}'')) \<subseteq>
   set (bound_slots (question_body (sample_question\<lparr>payload := blankText ''text'' ''a {{1}}''\<rparr>)
     \<lparr>instructions = None, group_limit = None, option_bank = None\<rparr> (\<lambda>_. None)))"
  using declared_blanks_answerable [of "sample_question\<lparr>payload := blankText ''text'' ''a {{1}}''\<rparr>" "''text''" "''a {{1}}''"
      "\<lparr>instructions = None, group_limit = None, option_bank = None\<rparr>" "\<lambda>_. None"]
  by (simp add: sample_question_def SENTENCES_def)

end
