(* ===== verification/BandMap.thy ===== *)
theory BandMap
  imports JsNum
begin

text \<open>
  The raw-to-band table editor, \<open>web/src/features/bandmaps/bandMapTable.ts\<close>: reading and writing a
  table as text, and everything that can be wrong with one. Marks are natural numbers, bands exact
  reals; the complaints are a datatype, in the order the code makes them. Of the three dashes a
  range may be written with, only the ASCII one is a character here.
\<close>

record band_row =
  raw_min :: nat
  raw_max :: nat
  band :: real

definition isHalfBand :: "real \<Rightarrow> bool" where
  "isHalfBand b \<longleftrightarrow> b \<ge> 0 \<and> b \<le> 9 \<and> b * 2 = of_int \<lfloor>b * 2 + 1 / 2\<rfloor>"

subsection \<open>The table as text\<close>

definition is_sep :: "char \<Rightarrow> bool" where
  "is_sep c \<longleftrightarrow> is_space c \<or> c = CHR '','' \<or> c = CHR '':''"

text \<open>\<open>\d+(\.\d+)?\<close> to the end of the line, as a number.\<close>

definition read_band :: "string \<Rightarrow> real option" where
  "read_band s =
     (let whole = takeWhile is_digit s; rest = dropWhile is_digit s in
      if whole = [] then None
      else case rest of
        [] \<Rightarrow> Some (real (read_nat whole))
      | c # ds \<Rightarrow>
          if c = CHR ''.'' \<and> ds \<noteq> [] \<and> list_all is_digit ds
          then Some (real (read_nat whole) + real (read_nat ds) / 10 ^ length ds) else None)"

text \<open>The pattern of a line: the mark or range, separators, the band.\<close>

definition match_row :: "string \<Rightarrow> (nat \<times> nat option \<times> real) option" where
  "match_row line =
     (let low = takeWhile is_digit line; rest = dropWhile is_digit line;
          dashed = dropWhile is_space rest;
          (high, rest') =
            (case dashed of
               c # s \<Rightarrow>
                 if c = CHR ''-'' then
                   (let s' = dropWhile is_space s in (Some (takeWhile is_digit s'), dropWhile is_digit s'))
                 else (None, rest)
             | [] \<Rightarrow> (None, rest))
      in if low = [] \<or> high = Some [] \<or> takeWhile is_sep rest' = [] then None
         else map_option (\<lambda>b. (read_nat low, map_option read_nat high, b)) (read_band (dropWhile is_sep rest')))"

definition cannot_read :: "nat \<Rightarrow> string \<Rightarrow> string" where
  "cannot_read index line = ''Line '' @ show_nat (index + 1) @ '': cannot read '' @ [CHR 0x22] @ line @ [CHR 0x22] @
     ''. Write it as '' @ [CHR 0x22] @ ''30-32 7.0'' @ [CHR 0x22] @ ''.''"

definition runs_backwards :: "nat \<Rightarrow> nat \<Rightarrow> nat \<Rightarrow> string" where
  "runs_backwards index low high = ''Line '' @ show_nat (index + 1) @ '': '' @ show_nat low @ ''-'' @ show_nat high @
     '' runs backwards.''"

definition parse_line :: "nat \<times> string \<Rightarrow> band_row list \<times> string list \<Rightarrow> band_row list \<times> string list" where
  "parse_line x acc = (case (x, acc) of ((index, raw), (rows, errors)) \<Rightarrow>
     let line = js_trim raw in
     if line = [] \<or> hd line = CHR ''#'' then (rows, errors)
     else case match_row line of
       None \<Rightarrow> (rows, errors @ [cannot_read index line])
     | Some (rawMin, high, b) \<Rightarrow>
         let rawMax = nullish high rawMin in
         if rawMax < rawMin then (rows, errors @ [runs_backwards index rawMin rawMax])
         else (rows @ [\<lparr>raw_min = rawMin, raw_max = rawMax, band = b\<rparr>], errors))"

definition newline :: char where
  "newline = CHR 0x0A"

definition parseRows :: "string \<Rightarrow> band_row list \<times> string list" where
  "parseRows text = fold parse_line (enumerate 0 (js_split newline text)) ([], [])"

definition format_row :: "band_row \<Rightarrow> string" where
  "format_row r = show_nat (raw_min r) @ (if raw_max r = raw_min r then [] else ''-'' @ show_nat (raw_max r)) @
     '' '' @ to_fixed_1 (band r)"

definition formatRows :: "band_row list \<Rightarrow> string" where
  "formatRows rows = js_join [newline] (map format_row rows)"

subsection \<open>What is wrong with a table\<close>

definition in_row :: "nat \<Rightarrow> band_row \<Rightarrow> bool" where
  "in_row m r \<longleftrightarrow> raw_min r \<le> m \<and> m \<le> raw_max r"

definition uncovered :: "band_row list \<Rightarrow> nat \<Rightarrow> nat list" where
  "uncovered rows maxRaw =
     (let covered = concat (map (\<lambda>r. [max 0 (raw_min r)..<Suc (min maxRaw (raw_max r))]) rows)
      in filter (\<lambda>m. m \<notin> set covered) [0..<Suc maxRaw])"

definition overlap_mark :: "nat \<Rightarrow> nat list \<times> nat list \<Rightarrow> nat list \<times> nat list" where
  "overlap_mark m st = (case st of (seen, twice) \<Rightarrow>
     (m # seen, if m \<in> set seen \<and> m \<notin> set twice then m # twice else twice))"

definition overlapping :: "band_row list \<Rightarrow> nat list" where
  "overlapping rows = sort (snd (fold overlap_mark
     (concat (map (\<lambda>r. [raw_min r..<Suc (raw_max r)]) rows)) ([], [])))"

datatype table_problem =
    BadMaximum
  | EmptyTable
  | OffScale "real list"
  | AboveMaximum nat
  | NoBandFor "nat list"
  | InSeveralRows "nat list"
  | BandFalls

text \<open>Rows whose band is below that of the row before, in order of their lowest mark.\<close>

definition falling :: "band_row list \<Rightarrow> band_row list" where
  "falling rows = (let ordered = sort_key raw_min rows in
     map snd (filter (\<lambda>(before, row). band row < band before) (zip ordered (tl ordered))))"

definition tableProblems :: "band_row list \<Rightarrow> real \<Rightarrow> table_problem list" where
  "tableProblems rows maxRaw =
     (if maxRaw \<noteq> of_int \<lfloor>maxRaw\<rfloor> \<or> maxRaw < 1 then [BadMaximum]
      else if rows = [] then [EmptyTable]
      else
        let n = nat \<lfloor>maxRaw\<rfloor>;
            offScale = filter (\<lambda>r. \<not> isHalfBand (band r)) rows;
            over = filter (\<lambda>r. raw_max r > n) rows;
            missing = uncovered rows n;
            twice = overlapping rows;
            backwards = falling rows
        in (if offScale \<noteq> [] then [OffScale (remdups (map band offScale))] else []) @
           (if over \<noteq> [] then [AboveMaximum (length over)] else []) @
           (if missing \<noteq> [] then [NoBandFor missing] else []) @
           (if twice \<noteq> [] then [InSeveralRows twice] else []) @
           (if backwards \<noteq> [] then [BandFalls] else []))"

text \<open>\<open>mappingRows\<close>: the keys the scorer reads, and what the scorer does with a table.\<close>

definition mappingRows :: "band_row list \<Rightarrow> (string \<times> real) list list" where
  "mappingRows rows = map (\<lambda>r. [(''raw_min'', real (raw_min r)), (''raw_max'', real (raw_max r)), (''band'', band r)]) rows"

definition band_for :: "band_row list \<Rightarrow> nat \<Rightarrow> real option" where
  "band_for rows m = map_option band (List.find (in_row m) rows)"

subsection \<open>A table without problems\<close>

lemma uncovered_iff: "m \<in> set (uncovered rows n) \<longleftrightarrow> m \<le> n \<and> (\<forall>r \<in> set rows. \<not> in_row m r)"
  by (auto simp: uncovered_def in_row_def Let_def simp del: upt_Suc)

lemma overlap_fold:
  "set (fst (fold overlap_mark ms (seen, twice))) = set seen \<union> set ms \<and>
   set (snd (fold overlap_mark ms (seen, twice))) =
     set twice \<union> {m \<in> set ms. m \<in> set seen \<or> 1 < count_list ms m}"
proof (induction ms arbitrary: seen twice)
  case (Cons x ms)
  show ?case
    using Cons [of "x # seen" "if x \<in> set seen \<and> x \<notin> set twice then x # twice else twice"]
    by (auto simp: overlap_mark_def count_list_0_iff split: if_splits)
qed simp

lemma count_marks:
  "count_list (concat (map (\<lambda>r. [raw_min r..<Suc (raw_max r)]) rows)) m = length (filter (in_row m) rows)"
proof (induction rows)
  case (Cons r rows)
  have "count_list [a..<b] m = (if a \<le> m \<and> m < b then 1 else 0)" for a b
    by (induction b) auto
  with Cons show ?case by (auto simp: in_row_def count_list_append simp del: upt_Suc)
qed simp

lemma overlapping_empty: "overlapping rows = [] \<Longrightarrow> length (filter (in_row m) rows) \<le> 1"
proof (rule ccontr)
  define ms where "ms = concat (map (\<lambda>r. [raw_min r..<Suc (raw_max r)]) rows)"
  assume o: "overlapping rows = []" and "\<not> length (filter (in_row m) rows) \<le> 1"
  then have more_than_one: "1 < count_list ms m" by (simp add: ms_def count_marks del: upt_Suc)
  then have "m \<in> set ms" using count_list_0_iff by (metis not_one_less_zero)
  with more_than_one have "m \<in> set (snd (fold overlap_mark ms ([], [])))"
    using conjunct2 [OF overlap_fold [of ms "[]" "[]"]] by simp
  then have "m \<in> set (overlapping rows)" by (simp add: overlapping_def ms_def del: upt_Suc)
  with o show False by simp
qed

lemma falling_empty:
  assumes "falling rows = []"
  shows "sorted (map band (sort_key raw_min rows))"
proof -
  have "sorted (map band xs)" if "\<forall>(a, b) \<in> set (zip xs (tl xs)). \<not> band b < band a" for xs
    using that by (induction xs rule: induct_list012) auto
  moreover have "\<forall>(a, b) \<in> set (zip (sort_key raw_min rows) (tl (sort_key raw_min rows))). \<not> band b < band a"
    using assms by (auto simp: falling_def Let_def filter_empty_conv)
  ultimately show ?thesis by blast
qed

lemma filter_one:
  "length (filter P xs) \<le> 1 \<Longrightarrow> x \<in> set xs \<Longrightarrow> y \<in> set xs \<Longrightarrow> P x \<Longrightarrow> P y \<Longrightarrow> x = y"
proof -
  assume h: "length (filter P xs) \<le> 1" "x \<in> set xs" "y \<in> set xs" "P x" "P y"
  then have "x \<in> set (filter P xs)" "y \<in> set (filter P xs)" by auto
  with h(1) show "x = y" by (cases "filter P xs"; cases "tl (filter P xs)") auto
qed

lemma sorted_pair:
  assumes "sorted (map f xs)" "sorted (map g xs)" "x \<in> set xs" "y \<in> set xs" "f x < (f y :: nat)"
  shows "g x \<le> (g y :: real)"
proof -
  from assms(3,4) obtain i j where ij: "i < length xs" "x = xs ! i" "j < length xs" "y = xs ! j"
    by (auto simp: in_set_conv_nth)
  have "i \<le> j"
  proof (rule ccontr)
    assume "\<not> i \<le> j"
    then have "f (xs ! j) \<le> f (xs ! i)" using assms(1) ij by (simp add: sorted_iff_nth_mono)
    with assms(5) ij show False by simp
  qed
  then show ?thesis using assms(2) ij by (simp add: sorted_iff_nth_mono)
qed

text \<open>
  A table with nothing to complain about grades every mark, once, on the scale, and never
  downwards. Each mark of the paper lies in exactly one row, the scorer's first match gives it a
  whole or half band from 0 to 9, and a higher mark never gets a lower band.
\<close>
theorem clean_table_sound:
  assumes "tableProblems rows maxRaw = []" and "\<forall>r \<in> set rows. raw_min r \<le> raw_max r"
    and "m \<le> nat \<lfloor>maxRaw\<rfloor>"
  shows "length (filter (in_row m) rows) = 1 \<and>
    (\<exists>b. band_for rows m = Some b \<and> isHalfBand b \<and>
       (\<forall>m' b'. m < m' \<and> m' \<le> nat \<lfloor>maxRaw\<rfloor> \<and> band_for rows m' = Some b' \<longrightarrow> b \<le> b'))"
proof -
  let ?n = "nat \<lfloor>maxRaw\<rfloor>"
  from assms(1) have clean: "filter (\<lambda>r. \<not> isHalfBand (band r)) rows = []" "uncovered rows ?n = []"
    "overlapping rows = []" "falling rows = []"
    by (auto simp: tableProblems_def Let_def split: if_splits)
  have one: "length (filter (in_row k) rows) \<le> 1" for k by (rule overlapping_empty [OF clean(3)])
  have found: "\<exists>r \<in> set rows. in_row k r \<and> band_for rows k = Some (band r)" if le: "k \<le> ?n" for k
  proof -
    have "k \<notin> set (uncovered rows ?n)" by (simp add: clean(2))
    then obtain r where r: "r \<in> set rows" "in_row k r" using le by (auto simp: uncovered_iff)
    then obtain r' where f: "List.find (in_row k) rows = Some r'" by (metis find_None_iff option.exhaust)
    then have "r' \<in> set rows \<and> in_row k r'" by (auto simp: find_Some_iff)
    with f show ?thesis by (auto simp: band_for_def)
  qed
  from found [OF assms(3)] obtain r where r: "r \<in> set rows" "in_row m r" "band_for rows m = Some (band r)" by blast
  then have "filter (in_row m) rows \<noteq> []" by (auto simp: filter_empty_conv)
  with one [of m] have "length (filter (in_row m) rows) = 1" by (cases "filter (in_row m) rows") auto
  moreover have "isHalfBand (band r)" using clean(1) r(1) by (auto simp: filter_empty_conv)
  moreover have "band r \<le> b'" if m': "m < m'" "m' \<le> ?n" "band_for rows m' = Some b'" for m' b'
  proof -
    from found [OF m'(2)] m'(3) obtain r' where r': "r' \<in> set rows" "in_row m' r'" "b' = band r'" by auto
    show ?thesis
    proof (cases "r = r'")
      case False
      have "\<not> in_row m r'" using filter_one [OF one [of m] r(1) r'(1) r(2)] False by blast
      then have "raw_min r < raw_min r'" using r(2) r'(2) m'(1) by (auto simp: in_row_def)
      with sorted_pair [OF sorted_sort_key falling_empty [OF clean(4)], of r r'] r(1) r'(1) r'(3)
      show ?thesis by simp
    qed (simp add: r'(3))
  qed
  ultimately show ?thesis using r(3) by blast
qed

theorem clean_table_sound_witness:
  "tableProblems [\<lparr>raw_min = 0, raw_max = 1, band = 4\<rparr>, \<lparr>raw_min = 2, raw_max = 2, band = 5\<rparr>] 2 = [] \<and>
   (\<exists>b. band_for [\<lparr>raw_min = 0, raw_max = 1, band = 4\<rparr>, \<lparr>raw_min = 2, raw_max = 2, band = 5\<rparr>] 1 = Some b \<and> isHalfBand b)"
proof -
  let ?rows = "[\<lparr>raw_min = 0, raw_max = 1, band = 4\<rparr>, \<lparr>raw_min = 2, raw_max = 2, band = 5\<rparr>] :: band_row list"
  have "tableProblems ?rows 2 = []"
    by (simp add: tableProblems_def Let_def isHalfBand_def uncovered_def overlapping_def overlap_mark_def
        falling_def upt_conv_Cons del: upt_Suc)
  with clean_table_sound [OF this, of 1] show ?thesis by auto
qed

subsection \<open>Reading back what was written\<close>

lemma half_band_nat:
  assumes "isHalfBand b"
  obtains k where "b = real k / 2"
proof -
  from assms have "b * 2 = of_int \<lfloor>b * 2 + 1 / 2\<rfloor>" "b \<ge> 0" by (simp_all add: isHalfBand_def)
  then have "b = real (nat \<lfloor>b * 2 + 1 / 2\<rfloor>) / 2" by simp
  with that show ?thesis by blast
qed

lemma to_fixed_half: "to_fixed_1 (real k / 2) = show_nat (k div 2) @ CHR ''.'' # show_nat (5 * (k mod 2))"
proof -
  have "real k / 2 * 10 + 1 / 2 = real (5 * k) + 1 / 2" by simp
  then have "\<lfloor>real k / 2 * 10 + 1 / 2\<rfloor> = int (5 * k)" by linarith
  then have "nat \<lfloor>real k / 2 * 10 + 1 / 2\<rfloor> = 5 * k" by simp
  moreover have "5 * k div 10 = k div 2" "5 * k mod 10 = 5 * (k mod 2)" by presburger+
  ultimately show ?thesis by (simp add: to_fixed_1_def Let_def)
qed

lemma read_band_fixed: "read_band (to_fixed_1 (real k / 2)) = Some (real k / 2)"
proof -
  have len: "length (show_nat (5 * (k mod 2))) = 1"
    by (cases "k mod 2 = 0") (simp_all add: show_nat_eval mod2_eq_if)
  have "real (k div 2) + real (5 * (k mod 2)) / 10 = real k / 2"
    by (cases "even k") (auto elim!: evenE oddE)
  with len show ?thesis
    by (simp add: to_fixed_half read_band_def digits_then Let_def show_nat_all_digits is_digit_def)
qed

lemma match_format_row:
  assumes "isHalfBand (band r)"
  shows "match_row (format_row r) =
    Some (raw_min r, if raw_max r = raw_min r then None else Some (raw_max r), band r)"
proof -
  from half_band_nat [OF assms] obtain k where k: "band r = real k / 2" .
  let ?b = "to_fixed_1 (band r)"
  obtain d ds where ds: "show_nat (k div 2) = d # ds" by (cases "show_nat (k div 2)") auto
  then have "is_digit d" using show_nat_all_digits [of "k div 2"] by simp
  then have d: "?b = d # ds @ CHR ''.'' # show_nat (5 * (k mod 2))" "\<not> is_sep d" "\<not> is_space d" "d \<noteq> CHR ''-''"
    by (auto simp: k to_fixed_half ds is_sep_def is_digit_def is_space_def)
  have sp: "is_space (CHR '' '')" "is_sep (CHR '' '')" "\<not> is_digit (CHR '' '')" "\<not> is_digit (CHR ''-'')" "\<not> is_space (CHR ''-'')"
    by (simp_all add: is_space_def is_sep_def is_digit_def)
  have b: "read_band ?b = Some (band r)" by (simp add: k read_band_fixed)
  have dash: "dropWhile is_space (show_nat n @ s) = show_nat n @ s" for n s
  proof -
    obtain e es where "show_nat n = e # es" "is_digit e"
      using show_nat_all_digits [of n] by (cases "show_nat n") auto
    then show ?thesis by (simp add: is_digit_def is_space_def)
  qed
  show ?thesis
  proof (cases "raw_max r = raw_min r")
    case True
    then have f: "format_row r = show_nat (raw_min r) @ CHR '' '' # ?b" by (simp add: format_row_def)
    show ?thesis unfolding f match_row_def
      using True b sp d by (simp add: digits_then Let_def)
  next
    case False
    then have f: "format_row r = show_nat (raw_min r) @ CHR ''-'' # show_nat (raw_max r) @ CHR '' '' # ?b"
      by (simp add: format_row_def)
    show ?thesis unfolding f match_row_def
      using False b sp d dash by (simp add: digits_then Let_def)
  qed
qed

lemma format_row_shape:
  assumes "isHalfBand (band r)"
  shows "js_trim (format_row r) = format_row r" "format_row r \<noteq> []" "hd (format_row r) \<noteq> CHR ''#''"
    "newline \<notin> set (format_row r)"
proof -
  from half_band_nat [OF assms] obtain k where k: "band r = real k / 2" .
  have digit: "c \<in> set (show_nat n) \<Longrightarrow> is_digit c" for c n by (rule show_nat_digits)
  obtain e es where e: "show_nat (raw_min r) = e # es" "is_digit e"
    using show_nat_all_digits [of "raw_min r"] by (cases "show_nat (raw_min r)") auto
  have l: "last (format_row r) = last (show_nat (5 * (k mod 2)))" "format_row r \<noteq> []"
    by (simp_all add: format_row_def k to_fixed_half)
  have "is_digit (last (show_nat (5 * (k mod 2))))" by (rule digit [of _ "5 * (k mod 2)"]) simp
  moreover have h: "hd (format_row r) = e" by (simp add: format_row_def e)
  ultimately show "js_trim (format_row r) = format_row r" using l e(2)
    by (intro js_trim_id) (auto simp: is_digit_def is_space_def)
  show "format_row r \<noteq> []" "hd (format_row r) \<noteq> CHR ''#''" using l(2) h e(2) by (auto simp: is_digit_def)
  have "newline \<notin> set (show_nat n)" for n using digit [of newline n] by (auto simp: newline_def is_digit_def)
  then show "newline \<notin> set (format_row r)" by (auto simp: format_row_def k to_fixed_half newline_def)
qed

lemma parse_format_rows:
  "\<forall>r \<in> set rows. isHalfBand (band r) \<and> raw_min r \<le> raw_max r \<Longrightarrow>
   fold parse_line (enumerate n (map format_row rows)) (acc, errs) = (acc @ rows, errs)"
proof (induction rows arbitrary: n acc)
  case (Cons r rows)
  then have r: "isHalfBand (band r)" "raw_min r \<le> raw_max r" by simp_all
  have "parse_line (n, format_row r) (acc, errs) = (acc @ [r], errs)"
    using r(2) format_row_shape [OF r(1)] by (auto simp: parse_line_def Let_def match_format_row [OF r(1)])
  with Cons show ?case by simp
qed simp

text \<open>
  A table written for editing is read back unchanged, without complaint: each row on its own
  line, single marks and ranges, bands in halves.
\<close>
theorem table_roundtrip:
  assumes "rows \<noteq> []" and "\<forall>r \<in> set rows. isHalfBand (band r) \<and> raw_min r \<le> raw_max r"
  shows "parseRows (formatRows rows) = (rows, [])"
proof -
  have "js_split newline (formatRows rows) = map format_row rows"
    unfolding formatRows_def using assms format_row_shape(4) by (intro js_split_join) auto
  then show ?thesis using parse_format_rows [OF assms(2), of 0 "[]" "[]"] by (simp add: parseRows_def)
qed

theorem table_roundtrip_witness:
  "parseRows (formatRows [\<lparr>raw_min = 30, raw_max = 32, band = 7\<rparr>]) = ([\<lparr>raw_min = 30, raw_max = 32, band = 7\<rparr>], [])"
  by (rule table_roundtrip) (simp_all add: isHalfBand_def)

end
