(* ===== verification/Money.thy ===== *)
theory Money
  imports JsNum
begin

text \<open>
  Amounts in tiyin, \<open>web/src/features/billing/money.ts\<close>. A JavaScript number is a real here; the
  functions accept only safe integers, on which doubles are exact. The dash shown for an amount that
  cannot be rendered is not an 8-bit character: it is \<^const>\<open>None\<close>.
\<close>

definition MAX_SAFE_INTEGER :: int where
  "MAX_SAFE_INTEGER = 9007199254740991"

definition isSafeInteger :: "real \<Rightarrow> bool" where
  "isSafeInteger x \<longleftrightarrow> x = of_int \<lfloor>x\<rfloor> \<and> \<bar>\<lfloor>x\<rfloor>\<bar> \<le> MAX_SAFE_INTEGER"

definition GROUP_SEPARATOR :: string where
  "GROUP_SEPARATOR = [CHR 0xA0]"

definition DECIMAL_SEPARATOR :: string where
  "DECIMAL_SEPARATOR = '',''"

definition TIYIN_PER_SOM :: int where
  "TIYIN_PER_SOM = 100"

text \<open>The loop of \<open>group\<close>: the slice before \<open>end\<close> goes in front of the parts made so far.\<close>

function group_loop :: "string \<Rightarrow> nat \<Rightarrow> string list \<Rightarrow> string list" where
  "group_loop digits finish parts =
     (if finish > 0
      then group_loop digits (finish - 3) (take (finish - (finish - 3)) (drop (finish - 3) digits) # parts)
      else parts)"
  by pat_completeness auto
termination
  by (relation "measure (\<lambda>(_, finish, _). finish)") auto

declare group_loop.simps [simp del]

definition group_digits :: "string \<Rightarrow> string" where
  "group_digits digits = js_join GROUP_SEPARATOR (group_loop digits (length digits) [])"

definition formatSom :: "real \<Rightarrow> string option" where
  "formatSom amount =
     (if \<not> isSafeInteger amount then None
      else
        let n = \<lfloor>amount\<rfloor>;
            sign = (if n < 0 then ''-'' else []);
            magnitude = \<bar>n\<bar>;
            som = magnitude div TIYIN_PER_SOM;
            tiyin = magnitude mod TIYIN_PER_SOM;
            whole = sign @ group_digits (show_nat (nat som))
        in Some (if tiyin = 0 then whole
                 else whole @ DECIMAL_SEPARATOR @ pad_start 2 (CHR ''0'') (show_nat (nat tiyin))))"

datatype price_text = Rendered string | Unrenderable string

definition formatPrice :: "real \<Rightarrow> string \<Rightarrow> price_text" where
  "formatPrice amount currency =
     (if currency = ''UZS''
      then (case formatSom amount of Some s \<Rightarrow> Rendered (s @ '' so'' @ [CHR 0x27] @ ''m'') | None \<Rightarrow> Unrenderable '' so'')
      else if \<not> isSafeInteger amount then Unrenderable currency
      else Rendered (group_digits (show_int \<lfloor>amount\<rfloor>) @ '' '' @ currency @ '' minor units''))"

definition parseQuantity :: "string \<Rightarrow> nat option" where
  "parseQuantity raw =
     (let trimmed = js_trim raw in
      if trimmed = [] \<or> \<not> list_all is_digit trimmed then None
      else let v = read_nat trimmed in
        if int v > MAX_SAFE_INTEGER \<or> v < 1 then None else Some v)"

definition lineTotal :: "real \<Rightarrow> real \<Rightarrow> int option" where
  "lineTotal unitAmount quantity =
     (if \<not> isSafeInteger unitAmount \<or> unitAmount < 0 then None
      else if \<not> isSafeInteger quantity \<or> quantity < 1 then None
      else let t = \<lfloor>unitAmount\<rfloor> * \<lfloor>quantity\<rfloor> in if \<bar>t\<bar> \<le> MAX_SAFE_INTEGER then Some t else None)"

subsection \<open>Grouping\<close>

lemma concat_group_loop: "finish \<le> length digits \<Longrightarrow> concat (group_loop digits finish parts) = take finish digits @ concat parts"
proof (induction digits finish parts rule: group_loop.induct)
  case (1 digits finish parts)
  show ?case
  proof (cases "finish > 0")
    case True
    have "take (finish - 3) digits @ take (finish - (finish - 3)) (drop (finish - 3) digits) = take finish digits"
      by (metis diff_le_self le_add_diff_inverse take_add)
    with 1 True show ?thesis by (subst group_loop.simps) simp
  qed (subst group_loop.simps, simp)
qed

text \<open>Every part has three digits, except a first one of one to three.\<close>

lemma group_loop_sizes:
  "\<forall>p \<in> set parts. length p = 3 \<Longrightarrow> finish \<le> length digits \<Longrightarrow>
   (\<forall>p \<in> set (tl (group_loop digits finish parts)). length p = 3) \<and>
   (0 < finish \<longrightarrow> 1 \<le> length (hd (group_loop digits finish parts)) \<and> length (hd (group_loop digits finish parts)) \<le> 3)"
proof (induction digits finish parts rule: group_loop.induct)
  case (1 digits finish parts)
  note IH = 1(1) and parts = 1(2) and le = 1(3)
  let ?p = "take (finish - (finish - 3)) (drop (finish - 3) digits)"
  consider (none) "finish = 0" | (last) "0 < finish" "finish \<le> 3" | (next_slice) "3 < finish" by linarith
  then show ?case
  proof cases
    case none
    then have "group_loop digits finish parts = parts" by (simp add: group_loop.simps)
    with none parts show ?thesis by (cases parts) auto
  next
    case last
    then have "group_loop digits finish parts = ?p # parts" by (simp add: group_loop.simps)
    moreover have "length ?p = finish" using last le by simp
    ultimately show ?thesis using parts last by simp
  next
    case next_slice
    then have "group_loop digits finish parts = group_loop digits (finish - 3) (?p # parts)"
      by (subst group_loop.simps) simp
    moreover have "\<forall>p \<in> set (?p # parts). length p = 3" using next_slice le parts by simp
    moreover have "0 < finish" "finish - 3 \<le> length digits" "0 < finish - 3" using next_slice le by simp_all
    ultimately show ?thesis using IH by metis
  qed
qed

lemma filter_join: "\<forall>c \<in> set sep. \<not> P c \<Longrightarrow> filter P (js_join sep ps) = filter P (concat ps)"
  by (induction ps rule: induct_list012) (auto simp: filter_empty_conv)

lemma digits_group: "filter is_digit (group_digits ds) = filter is_digit ds"
  using concat_group_loop [of "length ds" ds "[]"]
  by (simp add: group_digits_def filter_join GROUP_SEPARATOR_def is_digit_def)

text \<open>Reading a displayed amount: the sign, the digits before the comma and the two after it.\<close>

definition shown_tiyin :: "string \<Rightarrow> int" where
  "shown_tiyin s =
     (let v = filter is_digit (takeWhile (\<lambda>c. c \<noteq> CHR '','') s);
          t = filter is_digit (dropWhile (\<lambda>c. c \<noteq> CHR '','') s)
      in (if s \<noteq> [] \<and> hd s = CHR ''-'' then -1 else 1) * (int (read_nat v) * 100 + int (read_nat t)))"

lemma group_no_comma: "CHR '','' \<notin> set (group_digits (show_nat n))" "group_digits (show_nat n) \<noteq> [] \<and> hd (group_digits (show_nat n)) \<noteq> CHR ''-''"
proof -
  have sub: "set (js_join sep ps) \<subseteq> set sep \<union> set (concat ps)" for sep ps
    by (induction ps rule: induct_list012) auto
  have s: "set (group_digits (show_nat n)) \<subseteq> insert (CHR 0xA0) (set (show_nat n))"
    using sub [of GROUP_SEPARATOR "group_loop (show_nat n) (length (show_nat n)) []"]
      concat_group_loop [of "length (show_nat n)" "show_nat n" "[]"]
    by (auto simp: group_digits_def GROUP_SEPARATOR_def)
  moreover have "CHR '','' \<notin> set (show_nat n)" "CHR ''-'' \<notin> set (show_nat n)"
    by (auto dest: show_nat_digits simp: is_digit_def)
  ultimately have no: "CHR '','' \<notin> set (group_digits (show_nat n))" "CHR ''-'' \<notin> set (group_digits (show_nat n))" by auto
  have "filter is_digit (group_digits (show_nat n)) = show_nat n"
    using show_nat_all_digits [of n] by (simp add: digits_group list_all_iff filter_id_conv)
  then have ne: "group_digits (show_nat n) \<noteq> []" by (metis filter.simps(1) show_nat_nonempty)
  then have "hd (group_digits (show_nat n)) \<in> set (group_digits (show_nat n))" by simp
  with no(2) have "hd (group_digits (show_nat n)) \<noteq> CHR ''-''" by metis
  with no ne show "CHR '','' \<notin> set (group_digits (show_nat n))"
    "group_digits (show_nat n) \<noteq> [] \<and> hd (group_digits (show_nat n)) \<noteq> CHR ''-''" by auto
qed

text \<open>
  A displayed price denotes exactly the amount it was made from, to the tiyin, with its sign;
  an amount that is not a safe integer is never shown as a number.
\<close>
theorem price_exact:
  "isSafeInteger amount \<Longrightarrow> \<exists>s. formatSom amount = Some s \<and> real_of_int (shown_tiyin s) = amount"
  "\<not> isSafeInteger amount \<Longrightarrow> formatSom amount = None"
proof -
  assume safe: "isSafeInteger amount"
  define n where "n = \<lfloor>amount\<rfloor>"
  define som where "som = nat (\<bar>n\<bar> div 100)"
  define tiyin where "tiyin = nat (\<bar>n\<bar> mod 100)"
  have amount: "amount = real_of_int n" using safe by (simp add: isSafeInteger_def n_def)
  have n: "\<bar>n\<bar> = int som * 100 + int tiyin" "tiyin < 100" by (simp_all add: som_def tiyin_def pos_imp_zdiv_nonneg_iff)
  let ?g = "group_digits (show_nat som)"
  let ?whole = "(if n < 0 then ''-'' else []) @ ?g"
  let ?tail = "if tiyin = 0 then [] else '','' @ pad_start 2 (CHR ''0'') (show_nat tiyin)"
  have tz: "\<bar>n\<bar> mod 100 = 0 \<longleftrightarrow> tiyin = 0"
    using pos_mod_sign [of 100 "\<bar>n\<bar>", OF zero_less_numeral] unfolding tiyin_def by linarith
  have f: "formatSom amount = Some (?whole @ ?tail)"
    using safe by (simp add: formatSom_def Let_def n_def [symmetric] TIYIN_PER_SOM_def som_def [symmetric] tiyin_def [symmetric] tz DECIMAL_SEPARATOR_def)
  have la: "list_all (\<lambda>c. c \<noteq> CHR '','') ?g" using group_no_comma(1) [of som] by (auto simp: list_all_iff)
  have w: "takeWhile (\<lambda>c. c \<noteq> CHR '','') (?whole @ ?tail) = ?whole" "dropWhile (\<lambda>c. c \<noteq> CHR '','') (?whole @ ?tail) = ?tail"
    using la drop_all_then [OF la, of "CHR '',''"]
    by (auto simp: list_all_iff takeWhile_eq_all_conv dropWhile_eq_Nil_conv)
  have d1: "filter is_digit ?whole = show_nat som"
    using show_nat_all_digits [of som] by (simp add: digits_group is_digit_def list_all_iff filter_id_conv)
  have pad: "pad_start 2 (CHR ''0'') (show_nat tiyin) = (if tiyin < 10 then CHR ''0'' # show_nat tiyin else show_nat tiyin)"
    using n(2) by (auto simp: pad_start_def show_nat_eval)
  have "read_nat (CHR ''0'' # ds) = read_nat ds" for ds by (simp add: read_nat_def digit_val_def)
  then have d2: "read_nat (filter is_digit ?tail) = tiyin"
    using show_nat_all_digits [of tiyin]
    by (auto simp: pad is_digit_def list_all_iff filter_id_conv read_nat_def [of "[]"])
  have h: "?whole @ ?tail \<noteq> [] \<and> (hd (?whole @ ?tail) = CHR ''-'' \<longleftrightarrow> n < 0)"
    using group_no_comma(2) [of som] by auto
  have "shown_tiyin (?whole @ ?tail) = (if n < 0 then -1 else 1) * \<bar>n\<bar>"
    unfolding shown_tiyin_def Let_def w d1 d2 using h n(1) by simp
  then show "\<exists>s. formatSom amount = Some s \<and> real_of_int (shown_tiyin s) = amount"
    using f amount by (auto simp: abs_if)
next
  assume "\<not> isSafeInteger amount"
  then show "formatSom amount = None" by (simp add: formatSom_def)
qed

theorem price_exact_witness: "\<exists>s. formatSom (- 50) = Some s \<and> shown_tiyin s = - 50"
proof -
  have "isSafeInteger (- 50)" by (simp add: isSafeInteger_def MAX_SAFE_INTEGER_def)
  from price_exact(1) [OF this] show ?thesis by auto
qed

text \<open>
  Only a plain count is a count, and a total is the exact product or nothing. What is accepted
  as a quantity is digits alone, at least one seat and exactly representable; a total shown is the
  integer product and is itself safe.
\<close>
theorem quantity_and_total:
  "parseQuantity (show_nat n) = (if 1 \<le> n \<and> int n \<le> MAX_SAFE_INTEGER then Some n else None) \<and>
   (\<forall>v. parseQuantity raw = Some v \<longrightarrow> list_all is_digit (js_trim raw) \<and> 1 \<le> v \<and> int v \<le> MAX_SAFE_INTEGER) \<and>
   (\<forall>t. lineTotal u q = Some t \<longrightarrow> real_of_int t = u * q \<and> 0 \<le> t \<and> t \<le> MAX_SAFE_INTEGER)"
proof (intro conjI allI impI)
  have "js_trim (show_nat n) = show_nat n"
  proof (rule js_trim_id)
    have "c \<in> set (show_nat n) \<Longrightarrow> \<not> is_space c" for c
      by (auto dest: show_nat_digits simp: is_digit_def is_space_def)
    then show "\<not> is_space (hd (show_nat n))" "\<not> is_space (last (show_nat n))" by simp_all
  qed simp
  then show "parseQuantity (show_nat n) = (if 1 \<le> n \<and> int n \<le> MAX_SAFE_INTEGER then Some n else None)"
    by (auto simp: parseQuantity_def show_nat_all_digits Let_def)
next
  fix v assume "parseQuantity raw = Some v"
  then show "list_all is_digit (js_trim raw)" "1 \<le> v" "int v \<le> MAX_SAFE_INTEGER"
    by (auto simp: parseQuantity_def Let_def split: if_splits)
next
  fix t assume "lineTotal u q = Some t"
  then have t: "isSafeInteger u" "isSafeInteger q" "0 \<le> u" "1 \<le> q" "t = \<lfloor>u\<rfloor> * \<lfloor>q\<rfloor>" "\<bar>t\<bar> \<le> MAX_SAFE_INTEGER"
    by (auto simp: lineTotal_def Let_def split: if_splits)
  then show "real_of_int t = u * q" by (simp add: isSafeInteger_def)
  from t(3-5) show "0 \<le> t" by (simp add: mult_nonneg_nonneg)
  from t(6) show "t \<le> MAX_SAFE_INTEGER" by linarith
qed

theorem quantity_and_total_witness: "lineTotal 1200000 3 = Some 3600000 \<and> real_of_int 3600000 = (1200000 :: real) * 3"
proof -
  have "lineTotal 1200000 3 = Some 3600000" by (simp add: lineTotal_def isSafeInteger_def MAX_SAFE_INTEGER_def)
  with quantity_and_total [of 1 "[]" 1200000 3] show ?thesis by auto
qed

text \<open>
  The grouping is anchored at the decimal point, except for a sign. Groups have three digits
  and the first one to three; but outside UZS the sign is grouped as a digit, so minus 123 minor
  units are shown with a separator after the sign.
\<close>
theorem groups_of_three:
  "(\<forall>p \<in> set (tl (group_loop ds (length ds) [])). length p = 3) \<and>
   (ds \<noteq> [] \<longrightarrow> length (hd (group_loop ds (length ds) [])) \<in> {1, 2, 3}) \<and>
   formatPrice (- 123) ''USD'' = Rendered (''-'' @ [CHR 0xA0] @ ''123 USD minor units'')"
proof (intro conjI)
  from group_loop_sizes [of "[]" "length ds" ds] show "\<forall>p \<in> set (tl (group_loop ds (length ds) [])). length p = 3" by simp
  from group_loop_sizes [of "[]" "length ds" ds]
  show "ds \<noteq> [] \<longrightarrow> length (hd (group_loop ds (length ds) [])) \<in> {1, 2, 3}" by (cases ds) auto
  have "show_int (- 123) = ''-123''" by (simp add: show_int_def show_nat_eval digit_char_def)
  then show "formatPrice (- 123) ''USD'' = Rendered (''-'' @ [CHR 0xA0] @ ''123 USD minor units'')"
    by (simp add: formatPrice_def isSafeInteger_def MAX_SAFE_INTEGER_def group_digits_def group_loop.simps GROUP_SEPARATOR_def)
qed

theorem groups_of_three_witness: "length (hd (group_loop ''12345'' 5 [])) = 2"
  using groups_of_three [of "''12345''"] by (simp add: group_loop.simps)

end
