(* ===== verification/Realtime.thy ===== *)
theory Realtime
  imports Json
begin

text \<open>
  The WebSocket gateway connection of the console, \<open>web/src/api/realtime.ts\<close>. The variables of
  \<open>connect\<close> are one record, its inner functions one definition each. Beside them the record keeps
  what the browser holds for it: the calls of \<open>mintTicket\<close> that are still suspended, the sockets
  whose close event has not been delivered (each named by the generation it was opened in), the
  timeouts that have neither fired nor been cleared, and the actions done so far.
\<close>

definition BASE_BACKOFF_MS :: real where
  "BASE_BACKOFF_MS = 1000"

definition MAX_BACKOFF_MS :: real where
  "MAX_BACKOFF_MS = 30000"

definition DEFAULT_HEARTBEAT_SECONDS :: real where
  "DEFAULT_HEARTBEAT_SECONDS = 25"

definition MISSED_HEARTBEATS_BEFORE_DROP :: real where
  "MISSED_HEARTBEATS_BEFORE_DROP = 2"

definition REFUSALS :: "string list" where
  "REFUSALS = [''forbidden_channel'', ''unknown_channel'']"

datatype stream_state = Connecting | Live | Retrying | Closed

datatype action =
    Announce stream_state nat "string list"
  | AskTicket nat
  | OpenSocket nat string
  | CloseSocket nat
  | SendPing nat
  | SendSubscribe nat "string list"
  | OnFrame nat json

record conn =
  socket :: "nat option"
  attempt :: nat
  refused_channels :: "string list"
  stopped :: bool
  retryTimer :: "nat option"
  heartbeatTimer :: "real option"
  heartbeatSeconds :: real
  lastHeard :: real
  generation :: nat
  asking :: "nat list"
  sockets :: "nat list"
  timers :: "nat list"
  next_timer :: nat
  done_so_far :: "action list"

subsection \<open>The operations\<close>

text \<open>\<open>random\<close> is what \<open>Math.random()\<close> answered.\<close>

definition backoffDelay :: "nat \<Rightarrow> real \<Rightarrow> int" where
  "backoffDelay n random =
     (let step = min MAX_BACKOFF_MS (BASE_BACKOFF_MS * 2 ^ max 0 (n - 1))
      in \<lfloor>step * (0.5 + random * 0.5) + 1 / 2\<rfloor>)"

text \<open>\<open>json_parse\<close> is \<open>JSON.parse\<close>, \<^const>\<open>None\<close> where it throws.\<close>

definition parseFrame :: "(string \<Rightarrow> json option) \<Rightarrow> string \<Rightarrow> json option" where
  "parseFrame json_parse payload =
     (case json_parse payload of
        None \<Rightarrow> None
      | Some parsed \<Rightarrow>
          if \<not> is_object parsed then None
          else if as_string (field ''type'' parsed) \<noteq> None then Some parsed else None)"

definition act :: "action list \<Rightarrow> conn \<Rightarrow> conn" where
  "act as c = c\<lparr>done_so_far := done_so_far c @ as\<rparr>"

definition announce :: "stream_state \<Rightarrow> conn \<Rightarrow> conn" where
  "announce st c = act [Announce st (attempt c) (refused_channels c)] c"

definition stopHeartbeat :: "conn \<Rightarrow> conn" where
  "stopHeartbeat c = c\<lparr>heartbeatTimer := None\<rparr>"

definition drop_socket :: "conn \<Rightarrow> conn" where
  "drop_socket c =
     (let dying = socket c; c1 = (stopHeartbeat c)\<lparr>socket := None\<rparr>
      in case dying of None \<Rightarrow> c1 | Some g \<Rightarrow> act [CloseSocket g] c1)"

text \<open>The delay of the timeout is \<^const>\<open>backoffDelay\<close>; when it fires is up to the run.\<close>

definition scheduleRetry :: "conn \<Rightarrow> conn" where
  "scheduleRetry c =
     (if stopped c then c
      else
        let c1 = announce Retrying (c\<lparr>attempt := attempt c + 1\<rparr>)
        in c1\<lparr>timers := timers c1 @ [next_timer c1], retryTimer := Some (next_timer c1),
              next_timer := next_timer c1 + 1\<rparr>)"

definition startHeartbeat :: "real \<Rightarrow> conn \<Rightarrow> conn" where
  "startHeartbeat now c =
     (let c1 = stopHeartbeat c
      in c1\<lparr>lastHeard := now, heartbeatTimer := Some (heartbeatSeconds c1 * 1000)\<rparr>)"

text \<open>One tick of the interval.\<close>

definition heartbeat_tick :: "real \<Rightarrow> conn \<Rightarrow> conn" where
  "heartbeat_tick now c =
     (let silent = now - lastHeard c in
      if silent > heartbeatSeconds c * 1000 * (MISSED_HEARTBEATS_BEFORE_DROP + 0.5)
      then scheduleRetry (drop_socket (c\<lparr>generation := generation c + 1\<rparr>))
      else (case socket c of None \<Rightarrow> c | Some g \<Rightarrow> act [SendPing g] c))"

definition frame_data :: "string \<Rightarrow> json \<Rightarrow> json option" where
  "frame_data k frame = Option.bind (field ''data'' frame) (field k)"

definition hello_seconds :: "json \<Rightarrow> real \<Rightarrow> real" where
  "hello_seconds frame held = (case frame_data ''heartbeat_seconds'' frame of
      Some (JNum seconds) \<Rightarrow> if seconds > 0 then seconds else held
    | _ \<Rightarrow> held)"

definition handle :: "string list \<Rightarrow> json \<Rightarrow> nat \<Rightarrow> real \<Rightarrow> conn \<Rightarrow> conn" where
  "handle channels frame mine now c =
     (if mine \<noteq> generation c then c
      else
        let c1 = c\<lparr>lastHeard := now\<rparr>;
            kind = as_string (field ''type'' frame)
        in if kind = Some ''hello'' then
             let c2 = startHeartbeat now (announce Live
               (c1\<lparr>heartbeatSeconds := hello_seconds frame (heartbeatSeconds c1), attempt := 0\<rparr>))
             in (case socket c2 of None \<Rightarrow> c2 | Some g \<Rightarrow> act [SendSubscribe g channels] c2)
           else
             let c2 = (if kind = Some ''error'' then
                 (case (as_string (frame_data ''code'' frame), as_string (field ''channel'' frame)) of
                    (Some code, Some channel) \<Rightarrow>
                      if code \<in> set REFUSALS \<and> channel \<notin> set (refused_channels c1)
                      then announce Live (c1\<lparr>refused_channels := refused_channels c1 @ [channel]\<rparr>) else c1
                  | _ \<Rightarrow> c1)
               else c1)
             in act [OnFrame mine frame] c2)"

text \<open>\<open>start\<close> up to its \<open>await\<close>, and what follows when the ticket came or did not.\<close>

definition start_conn :: "conn \<Rightarrow> conn" where
  "start_conn c =
     (if stopped c then c
      else
        let c1 = announce Connecting (c\<lparr>generation := generation c + 1, refused_channels := []\<rparr>)
        in act [AskTicket (generation c1)] (c1\<lparr>asking := asking c1 @ [generation c1]\<rparr>))"

definition answered_ask :: "nat \<Rightarrow> conn \<Rightarrow> conn" where
  "answered_ask mine c = c\<lparr>asking := filter (\<lambda>g. g \<noteq> mine) (asking c)\<rparr>"

definition ticket_failed :: "nat \<Rightarrow> conn \<Rightarrow> conn" where
  "ticket_failed mine c = (if mine = generation c then scheduleRetry c else c)"

definition ticket_minted :: "nat \<Rightarrow> string \<Rightarrow> conn \<Rightarrow> conn" where
  "ticket_minted mine ticket c =
     (if stopped c \<or> mine \<noteq> generation c then c
      else act [OpenSocket mine ticket] (c\<lparr>socket := Some mine, sockets := sockets c @ [mine]\<rparr>))"

text \<open>The handlers of a socket, and the timeout.\<close>

definition on_message :: "(string \<Rightarrow> json option) \<Rightarrow> string list \<Rightarrow> nat \<Rightarrow> string \<Rightarrow> real \<Rightarrow> conn \<Rightarrow> conn" where
  "on_message json_parse channels mine payload now c =
     (case parseFrame json_parse payload of None \<Rightarrow> c | Some frame \<Rightarrow> handle channels frame mine now c)"

definition on_closed :: "nat \<Rightarrow> conn \<Rightarrow> conn" where
  "on_closed mine c =
     (let c1 = c\<lparr>sockets := filter (\<lambda>g. g \<noteq> mine) (sockets c)\<rparr> in
      if mine \<noteq> generation c1 then c1
      else scheduleRetry ((stopHeartbeat c1)\<lparr>socket := None\<rparr>))"

definition retry_fired :: "nat \<Rightarrow> conn \<Rightarrow> conn" where
  "retry_fired t c = start_conn (c\<lparr>timers := filter (\<lambda>x. x \<noteq> t) (timers c), retryTimer := None\<rparr>)"

definition close_stream :: "conn \<Rightarrow> conn" where
  "close_stream c =
     (let c1 = c\<lparr>stopped := True, generation := generation c + 1\<rparr>;
          c2 = (case retryTimer c1 of
              None \<Rightarrow> c1
            | Some t \<Rightarrow> c1\<lparr>timers := filter (\<lambda>x. x \<noteq> t) (timers c1), retryTimer := None\<rparr>)
      in announce Closed (drop_socket c2))"

definition connect :: conn where
  "connect = start_conn
     \<lparr>socket = None, attempt = 0, refused_channels = [], stopped = False, retryTimer = None, heartbeatTimer = None,
      heartbeatSeconds = DEFAULT_HEARTBEAT_SECONDS, lastHeard = 0, generation = 0, asking = [], sockets = [],
      timers = [], next_timer = 0, done_so_far = []\<rparr>"

subsection \<open>Runs\<close>

text \<open>
  Everything that can happen next: a ticket comes or is refused, a socket delivers a message or its
  close, a timer fires, the screen closes the stream.
\<close>

inductive stream_step :: "(string \<Rightarrow> json option) \<Rightarrow> string list \<Rightarrow> conn \<Rightarrow> conn \<Rightarrow> bool"
  for json_parse channels where
  Minted: "mine \<in> set (asking c) \<Longrightarrow>
     stream_step json_parse channels c (ticket_minted mine ticket (answered_ask mine c))"
| Unminted: "mine \<in> set (asking c) \<Longrightarrow> stream_step json_parse channels c (ticket_failed mine (answered_ask mine c))"
| Message: "mine \<in> set (sockets c) \<Longrightarrow>
     stream_step json_parse channels c (on_message json_parse channels mine payload now c)"
| Lost: "mine \<in> set (sockets c) \<Longrightarrow> stream_step json_parse channels c (on_closed mine c)"
| Tick: "heartbeatTimer c \<noteq> None \<Longrightarrow> stream_step json_parse channels c (heartbeat_tick now c)"
| Retry: "t \<in> set (timers c) \<Longrightarrow> stream_step json_parse channels c (retry_fired t c)"
| Close: "stream_step json_parse channels c (close_stream c)"

inductive stream_run :: "(string \<Rightarrow> json option) \<Rightarrow> string list \<Rightarrow> conn \<Rightarrow> bool"
  for json_parse channels where
  Connect: "stream_run json_parse channels connect"
| Step: "stream_run json_parse channels c \<Longrightarrow> stream_step json_parse channels c c' \<Longrightarrow>
     stream_run json_parse channels c'"

lemmas conn_ops = act_def announce_def stopHeartbeat_def drop_socket_def scheduleRetry_def startHeartbeat_def
  heartbeat_tick_def handle_def start_conn_def answered_ask_def ticket_failed_def ticket_minted_def
  on_message_def on_closed_def retry_fired_def close_stream_def Let_def

subsection \<open>The invariant\<close>

definition last_status :: "action list \<Rightarrow> stream_state option" where
  "last_status as = fold (\<lambda>a st. case a of Announce s _ _ \<Rightarrow> Some s | _ \<Rightarrow> st) as None"

definition asked_for :: "action list \<Rightarrow> nat list" where
  "asked_for as = concat (map (\<lambda>a. case a of AskTicket g \<Rightarrow> [g] | _ \<Rightarrow> []) as)"

definition opened_by :: "action list \<Rightarrow> nat list" where
  "opened_by as = concat (map (\<lambda>a. case a of OpenSocket g _ \<Rightarrow> [g] | _ \<Rightarrow> []) as)"

lemma last_status_snoc [simp]:
  "last_status (as @ [a]) = (case a of Announce s _ _ \<Rightarrow> Some s | _ \<Rightarrow> last_status as)"
  "last_status (as @ [a, b]) = (case b of Announce s _ _ \<Rightarrow> Some s
     | _ \<Rightarrow> (case a of Announce s _ _ \<Rightarrow> Some s | _ \<Rightarrow> last_status as))"
  by (simp_all add: last_status_def split: action.split)

lemma asked_opened_simps [simp]:
  "asked_for [] = []" "asked_for (a # as) = (case a of AskTicket g \<Rightarrow> [g] | _ \<Rightarrow> []) @ asked_for as"
  "asked_for (as @ bs) = asked_for as @ asked_for bs"
  "opened_by [] = []" "opened_by (a # as) = (case a of OpenSocket g _ \<Rightarrow> [g] | _ \<Rightarrow> []) @ opened_by as"
  "opened_by (as @ bs) = opened_by as @ opened_by bs"
  by (simp_all add: asked_for_def opened_by_def)

text \<open>What the connection is doing, one constructor for each thing it can be waiting for.\<close>

datatype waiting = ForTicket | ForSocket | ForTimer

definition activity :: "conn \<Rightarrow> waiting list" where
  "activity c = (if generation c \<in> set (asking c) then [ForTicket] else []) @
     (if socket c \<noteq> None then [ForSocket] else []) @ replicate (length (timers c)) ForTimer"

definition timers_ok :: "conn \<Rightarrow> bool" where
  "timers_ok c \<longleftrightarrow> timers c = (case retryTimer c of None \<Rightarrow> [] | Some t \<Rightarrow> [t])"

definition sockets_ok :: "conn \<Rightarrow> bool" where
  "sockets_ok c \<longleftrightarrow> socket c = (if generation c \<in> set (sockets c) then Some (generation c) else None) \<and>
     (heartbeatTimer c \<noteq> None \<longrightarrow> socket c \<noteq> None) \<and> (\<forall>g \<in> set (sockets c). g \<le> generation c)"

definition asks_ok :: "conn \<Rightarrow> bool" where
  "asks_ok c \<longleftrightarrow> distinct (asked_for (done_so_far c)) \<and> distinct (opened_by (done_so_far c)) \<and>
     set (opened_by (done_so_far c)) \<subseteq> set (asked_for (done_so_far c)) \<and>
     (\<forall>g \<in> set (asked_for (done_so_far c)). g \<le> generation c) \<and>
     set (asking c) \<subseteq> set (asked_for (done_so_far c)) - set (opened_by (done_so_far c))"

definition status_ok :: "conn \<Rightarrow> bool" where
  "status_ok c \<longleftrightarrow> (case last_status (done_so_far c) of
      None \<Rightarrow> False
    | Some Connecting \<Rightarrow> \<not> stopped c \<and> retryTimer c = None \<and> (generation c \<in> set (asking c) \<longleftrightarrow> socket c = None)
    | Some Live \<Rightarrow> \<not> stopped c \<and> retryTimer c = None \<and> generation c \<notin> set (asking c) \<and> socket c \<noteq> None
    | Some Retrying \<Rightarrow> \<not> stopped c \<and> retryTimer c \<noteq> None \<and> generation c \<notin> set (asking c) \<and> socket c = None
    | Some Closed \<Rightarrow> stopped c \<and> retryTimer c = None \<and> generation c \<notin> set (asking c) \<and> socket c = None)"

definition stream_inv :: "conn \<Rightarrow> bool" where
  "stream_inv c \<longleftrightarrow> timers_ok c \<and> sockets_ok c \<and> asks_ok c \<and> status_ok c"

lemmas inv_parts = stream_inv_def timers_ok_def sockets_ok_def status_ok_def

subsection \<open>Every step keeps it\<close>

text \<open>Between two activities: nothing is asked for, open or scheduled.\<close>

definition between :: "conn \<Rightarrow> bool" where
  "between c \<longleftrightarrow> timers c = [] \<and> retryTimer c = None \<and> socket c = None \<and> heartbeatTimer c = None \<and>
     generation c \<notin> set (asking c) \<and> (\<forall>g \<in> set (sockets c). g \<le> generation c \<and> g \<noteq> generation c) \<and> asks_ok c"

lemma between_scheduleRetry: "between c \<Longrightarrow> \<not> stopped c \<Longrightarrow> stream_inv (scheduleRetry c)"
  by (auto simp: between_def stream_inv_def timers_ok_def sockets_ok_def asks_ok_def status_ok_def activity_def conn_ops)

lemma between_start:
  assumes "between c" "\<not> stopped c"
  shows "stream_inv (start_conn c)"
proof -
  have "Suc (generation c) \<notin> set (asked_for (done_so_far c))"
    using assms(1) by (auto simp: between_def asks_ok_def)
  moreover from this have "Suc (generation c) \<notin> set (opened_by (done_so_far c))"
    using assms(1) by (auto simp: between_def asks_ok_def)
  ultimately show ?thesis using assms
    by (auto simp: between_def stream_inv_def timers_ok_def sockets_ok_def asks_ok_def status_ok_def activity_def conn_ops)
qed

text \<open>What the invariant says of a connection that waits for a ticket, a socket or a timer.\<close>

lemma waits_for_ticket:
  assumes "stream_inv c" "generation c \<in> set (asking c)"
  shows "\<not> stopped c \<and> timers c = [] \<and> retryTimer c = None \<and> socket c = None \<and> heartbeatTimer c = None \<and>
    last_status (done_so_far c) = Some Connecting"
  using assms by (auto simp: inv_parts split: option.splits stream_state.splits)

lemma waits_for_socket:
  assumes "stream_inv c" "generation c \<in> set (sockets c)"
  shows "\<not> stopped c \<and> timers c = [] \<and> retryTimer c = None \<and> socket c = Some (generation c) \<and>
    generation c \<notin> set (asking c)"
  using assms by (auto simp: inv_parts split: option.splits stream_state.splits)

lemma waits_for_timer:
  assumes "stream_inv c" "t \<in> set (timers c)"
  shows "\<not> stopped c \<and> timers c = [t] \<and> retryTimer c = Some t \<and> socket c = None \<and> heartbeatTimer c = None \<and>
    generation c \<notin> set (asking c) \<and> generation c \<notin> set (sockets c)"
  using assms by (auto simp: inv_parts split: option.splits stream_state.splits if_splits)

lemma socket_iff: "stream_inv c \<Longrightarrow> socket c = (if generation c \<in> set (sockets c) then Some (generation c) else None)"
  by (simp add: stream_inv_def sockets_ok_def)

lemma inv_sockets_le: "stream_inv c \<Longrightarrow> g \<in> set (sockets c) \<Longrightarrow> g \<le> generation c"
  by (simp add: stream_inv_def sockets_ok_def)

lemma inv_asks: "stream_inv c \<Longrightarrow> asks_ok c"
  by (simp add: stream_inv_def)

lemma asking_le: "asks_ok c \<Longrightarrow> g \<in> set (asking c) \<Longrightarrow> g \<le> generation c"
  by (auto simp: asks_ok_def)

lemma inv_connect: "stream_inv connect"
  unfolding connect_def by (rule between_start) (simp_all add: between_def asks_ok_def)

lemma connect_live: "\<not> stopped connect"
  by (simp add: connect_def conn_ops)

lemma inv_minted:
  assumes "stream_inv c" "mine \<in> set (asking c)"
  shows "stream_inv (ticket_minted mine ticket (answered_ask mine c))"
proof (cases "mine = generation c")
  case True
  with assms have w: "\<not> stopped c" "timers c = []" "retryTimer c = None" "socket c = None" "heartbeatTimer c = None"
      "last_status (done_so_far c) = Some Connecting"
    using waits_for_ticket [of c] by auto
  have "asks_ok (ticket_minted mine ticket (answered_ask mine c))"
    using inv_asks [OF assms(1)] assms(2) by (auto simp: asks_ok_def ticket_minted_def answered_ask_def act_def)
  then show ?thesis using w True inv_sockets_le [OF assms(1)]
    by (auto simp: inv_parts ticket_minted_def answered_ask_def act_def)
next
  case False
  with assms show ?thesis
    by (auto simp: inv_parts asks_ok_def ticket_minted_def answered_ask_def act_def split: option.splits stream_state.splits if_splits)
qed

lemma between_now:
  assumes "asks_ok c" "timers c = []" "retryTimer c = None" "socket c = None" "heartbeatTimer c = None"
    "generation c \<notin> set (asking c)" "generation c \<notin> set (sockets c)" "\<And>g. g \<in> set (sockets c) \<Longrightarrow> g \<le> generation c"
  shows "between c"
  using assms by (auto simp: between_def)

lemma inv_unminted:
  assumes "stream_inv c" "mine \<in> set (asking c)"
  shows "stream_inv (ticket_failed mine (answered_ask mine c))"
proof (cases "mine = generation c")
  case True
  with assms have w: "\<not> stopped c" "timers c = []" "retryTimer c = None" "socket c = None" "heartbeatTimer c = None"
    using waits_for_ticket [of c] by auto
  have "generation c \<notin> set (sockets c)"
    using assms True waits_for_socket [of c] by blast
  then have "between (answered_ask mine c)"
    using w True inv_asks [OF assms(1)] inv_sockets_le [OF assms(1)]
    by (intro between_now) (auto simp: answered_ask_def asks_ok_def)
  then show ?thesis using True w(1)
    by (simp add: ticket_failed_def between_scheduleRetry answered_ask_def)
next
  case False
  with assms show ?thesis
    by (auto simp: inv_parts asks_ok_def answered_ask_def ticket_failed_def split: option.splits stream_state.splits if_splits)
qed

lemma inv_lost:
  assumes "stream_inv c" "mine \<in> set (sockets c)"
  shows "stream_inv (on_closed mine c)"
proof (cases "mine = generation c")
  case True
  with assms have w: "\<not> stopped c" "timers c = []" "retryTimer c = None" "generation c \<notin> set (asking c)"
    using waits_for_socket [of c] by auto
  then have "between (c\<lparr>sockets := filter (\<lambda>g. g \<noteq> mine) (sockets c), heartbeatTimer := None, socket := None\<rparr>)"
    using True inv_asks [OF assms(1)] inv_sockets_le [OF assms(1)]
    by (intro between_now) (auto simp: asks_ok_def)
  then show ?thesis using True w(1)
    by (simp add: on_closed_def between_scheduleRetry stopHeartbeat_def)
next
  case False
  with assms show ?thesis
    by (auto simp: inv_parts asks_ok_def on_closed_def Let_def split: option.splits stream_state.splits if_splits)
qed

text \<open>The invariant reads these fields only.\<close>

lemma inv_same:
  assumes "stream_inv c" "timers c' = timers c" "retryTimer c' = retryTimer c" "socket c' = socket c"
    "sockets c' = sockets c" "heartbeatTimer c' \<noteq> None \<Longrightarrow> socket c \<noteq> None" "stopped c' = stopped c"
    "generation c' = generation c" "asking c' = asking c"
    "last_status (done_so_far c') = last_status (done_so_far c)"
    "asked_for (done_so_far c') = asked_for (done_so_far c)" "opened_by (done_so_far c') = opened_by (done_so_far c)"
  shows "stream_inv c'"
proof -
  have "timers_ok c' = timers_ok c" "asks_ok c' = asks_ok c" "status_ok c' = status_ok c"
    unfolding timers_ok_def asks_ok_def status_ok_def by (simp_all only: assms(2-5) assms(7-12))
  moreover have "sockets_ok c'"
    using assms(1,6) unfolding stream_inv_def sockets_ok_def by (simp only: assms(4,5,8)) blast
  ultimately show ?thesis using assms(1) by (simp add: stream_inv_def)
qed

lemma act_fields [simp]:
  "timers (act as c) = timers c" "retryTimer (act as c) = retryTimer c" "socket (act as c) = socket c"
  "sockets (act as c) = sockets c" "heartbeatTimer (act as c) = heartbeatTimer c" "stopped (act as c) = stopped c"
  "generation (act as c) = generation c" "asking (act as c) = asking c" "done_so_far (act as c) = done_so_far c @ as"
  "attempt (act as c) = attempt c" "refused_channels (act as c) = refused_channels c" "lastHeard (act as c) = lastHeard c"
  "heartbeatSeconds (act as c) = heartbeatSeconds c"
  by (simp_all add: act_def)

lemma inv_beats: "stream_inv c \<Longrightarrow> heartbeatTimer c \<noteq> None \<Longrightarrow> socket c \<noteq> None"
  unfolding stream_inv_def sockets_ok_def by blast

lemma inv_quiet_act:
  assumes "stream_inv c" "\<And>st n r. a \<noteq> Announce st n r" "\<And>g. a \<noteq> AskTicket g" "\<And>g t. a \<noteq> OpenSocket g t"
  shows "stream_inv (act [a] c)"
  by (rule inv_same [OF assms(1)]) (use assms in \<open>auto simp: inv_beats split: action.splits\<close>)

lemma dropped_between:
  assumes "stream_inv c" "timers c = []" "retryTimer c = None"
  shows "between (drop_socket (c\<lparr>generation := generation c + 1\<rparr>))"
proof -
  have "Suc (generation c) \<notin> set (asking c)" "Suc (generation c) \<notin> set (sockets c)"
    using asking_le [OF inv_asks [OF assms(1)]] inv_sockets_le [OF assms(1)] by fastforce+
  then show ?thesis
    using assms(2,3) inv_asks [OF assms(1)] inv_sockets_le [OF assms(1)]
    by (intro between_now) (auto simp: drop_socket_def stopHeartbeat_def act_def asks_ok_def Let_def le_SucI split: option.splits)
qed

lemma drop_socket_stopped [simp]: "stopped (drop_socket c) = stopped c"
  by (simp add: drop_socket_def stopHeartbeat_def act_def Let_def split: option.splits)

lemma beating_socket:
  assumes "stream_inv c" "heartbeatTimer c \<noteq> None"
  shows "generation c \<in> set (sockets c)"
  using assms by (auto simp: stream_inv_def sockets_ok_def split: if_splits)

lemma inv_tick:
  assumes "stream_inv c" "heartbeatTimer c \<noteq> None"
  shows "stream_inv (heartbeat_tick now c)"
proof -
  have w: "\<not> stopped c" "timers c = []" "retryTimer c = None"
    using waits_for_socket [OF assms(1) beating_socket [OF assms]] by auto
  then have "stream_inv (scheduleRetry (drop_socket (c\<lparr>generation := generation c + 1\<rparr>)))"
    by (intro between_scheduleRetry dropped_between assms(1)) simp_all
  then show ?thesis using assms(1)
    by (auto simp: heartbeat_tick_def Let_def inv_quiet_act split: option.splits)
qed

lemma inv_retry:
  assumes "stream_inv c" "t \<in> set (timers c)"
  shows "stream_inv (retry_fired t c)"
proof -
  have w: "\<not> stopped c" "timers c = [t]" "socket c = None" "heartbeatTimer c = None"
    "generation c \<notin> set (asking c)" "generation c \<notin> set (sockets c)"
    using waits_for_timer [OF assms] by auto
  then have "between (c\<lparr>timers := filter (\<lambda>x. x \<noteq> t) (timers c), retryTimer := None\<rparr>)"
    using inv_asks [OF assms(1)] inv_sockets_le [OF assms(1)] by (intro between_now) (auto simp: asks_ok_def)
  then show ?thesis unfolding retry_fired_def using w(1) by (intro between_start) simp_all
qed

text \<open>A live connection may announce itself again.\<close>

lemma inv_announce_live:
  assumes "stream_inv c" "generation c \<in> set (sockets c)"
  shows "stream_inv (announce Live c)"
proof -
  have "\<not> stopped c" "retryTimer c = None" "socket c = Some (generation c)" "generation c \<notin> set (asking c)"
    using waits_for_socket [OF assms] by auto
  then show ?thesis using assms by (simp add: inv_parts asks_ok_def announce_def)
qed

lemma inv_update:
  assumes "stream_inv c"
  shows "stream_inv (c\<lparr>lastHeard := now\<rparr>)" "stream_inv (c\<lparr>attempt := n\<rparr>)" "stream_inv (c\<lparr>heartbeatSeconds := s\<rparr>)"
    "stream_inv (c\<lparr>refused_channels := r\<rparr>)" "socket c \<noteq> None \<Longrightarrow> stream_inv (startHeartbeat now c)"
  by (rule inv_same [OF assms], simp_all add: inv_beats [OF assms] startHeartbeat_def stopHeartbeat_def)+

lemma announce_fields [simp]:
  "socket (announce st c) = socket c" "sockets (announce st c) = sockets c" "generation (announce st c) = generation c"
  by (simp_all add: announce_def)

lemma startHeartbeat_fields [simp]:
  "socket (startHeartbeat now c) = socket c" "sockets (startHeartbeat now c) = sockets c"
  "generation (startHeartbeat now c) = generation c"
  by (simp_all add: startHeartbeat_def stopHeartbeat_def)

lemma inv_handle:
  assumes "stream_inv c" "mine \<in> set (sockets c)"
  shows "stream_inv (handle channels frame mine now c)"
proof (cases "mine = generation c")
  case True
  with assms have w: "generation c \<in> set (sockets c)" "socket c = Some (generation c)"
    using waits_for_socket [of c] by auto
  have hello: "stream_inv (act [SendSubscribe g channels] (startHeartbeat now (announce Live
      (c\<lparr>lastHeard := now, heartbeatSeconds := s, attempt := 0\<rparr>))))" for s g
    using assms(1) w by (intro inv_quiet_act inv_update inv_announce_live) simp_all
  have error: "stream_inv (act [OnFrame mine frame] (announce Live (c\<lparr>lastHeard := now, refused_channels := r\<rparr>)))"
    "stream_inv (act [OnFrame mine frame] (c\<lparr>lastHeard := now\<rparr>))" for r
    using assms(1) w by (intro inv_quiet_act inv_update inv_announce_live; simp)+
  show ?thesis using True w(2) hello error
    by (simp add: handle_def Let_def split: option.split)
qed (simp add: handle_def assms(1))

lemma inv_message:
  assumes "stream_inv c" "mine \<in> set (sockets c)"
  shows "stream_inv (on_message json_parse channels mine payload now c)"
  using assms by (simp add: on_message_def inv_handle split: option.split)

lemma inv_close:
  assumes "stream_inv c"
  shows "stream_inv (close_stream c)"
proof -
  have "Suc (generation c) \<notin> set (asking c)" "Suc (generation c) \<notin> set (sockets c)"
    using asking_le [OF inv_asks [OF assms]] inv_sockets_le [OF assms] by fastforce+
  then show ?thesis using assms
    by (auto simp: inv_parts asks_ok_def close_stream_def drop_socket_def stopHeartbeat_def announce_def Let_def le_SucI
        split: option.splits if_splits)
qed

lemma inv_step: "stream_step json_parse channels c c' \<Longrightarrow> stream_inv c \<Longrightarrow> stream_inv c'"
  by (induction rule: stream_step.induct)
    (simp_all only: inv_minted inv_unminted inv_message inv_lost inv_tick inv_retry inv_close not_False_eq_True)

lemma inv_run: "stream_run json_parse channels c \<Longrightarrow> stream_inv c"
  by (induction rule: stream_run.induct) (auto intro: inv_connect inv_step)

subsection \<open>The heartbeat\<close>

text \<open>The interval is always the one the server last asked for.\<close>

definition beat_ok :: "conn \<Rightarrow> bool" where
  "beat_ok c \<longleftrightarrow> 0 < heartbeatSeconds c \<and> (\<forall>h. heartbeatTimer c = Some h \<longrightarrow> h = heartbeatSeconds c * 1000)"

lemma beat_parts:
  "beat_ok (scheduleRetry c) = beat_ok c" "beat_ok (act as c) = beat_ok c" "beat_ok c \<Longrightarrow> beat_ok (start_conn c)"
  "beat_ok c \<Longrightarrow> beat_ok (drop_socket c)" "beat_ok c \<Longrightarrow> beat_ok (startHeartbeat now c)"
  "beat_ok c \<Longrightarrow> beat_ok (c\<lparr>generation := g\<rparr>)" "beat_ok (c\<lparr>sockets := ss\<rparr>) = beat_ok c"
  "beat_ok c \<Longrightarrow> beat_ok (stopHeartbeat c)" "beat_ok (c\<lparr>socket := s\<rparr>) = beat_ok c"
  "beat_ok (c\<lparr>timers := ts, retryTimer := r\<rparr>) = beat_ok c" "beat_ok (c\<lparr>lastHeard := now\<rparr>) = beat_ok c"
  by (auto simp: beat_ok_def conn_ops split: option.splits)

lemma hello_seconds_pos: "0 < held \<Longrightarrow> 0 < hello_seconds frame held"
  by (simp add: hello_seconds_def split: option.split json.split)

lemma beat_hello:
  "beat_ok c \<Longrightarrow> beat_ok (startHeartbeat now (announce Live
     (c\<lparr>lastHeard := now, heartbeatSeconds := hello_seconds frame (heartbeatSeconds c), attempt := 0\<rparr>)))"
  by (simp add: beat_ok_def startHeartbeat_def stopHeartbeat_def announce_def hello_seconds_pos)

lemma beat_handle: "beat_ok c \<Longrightarrow> beat_ok (handle channels frame mine now c)"
  using beat_hello [of c now frame]
  by (auto simp: handle_def Let_def beat_parts announce_def split: option.split) (simp_all add: beat_ok_def)

lemma beat_step: "stream_step json_parse channels c c' \<Longrightarrow> beat_ok c \<Longrightarrow> beat_ok c'"
proof (induction rule: stream_step.induct)
  case (Close c)
  then show ?case by (auto simp: close_stream_def Let_def announce_def beat_parts beat_ok_def conn_ops split: option.splits)
qed (auto simp: ticket_minted_def ticket_failed_def answered_ask_def on_message_def on_closed_def heartbeat_tick_def
    retry_fired_def Let_def beat_parts beat_handle split: option.split; simp add: beat_ok_def)+

lemma beat_run: "stream_run json_parse channels c \<Longrightarrow> beat_ok c"
proof (induction rule: stream_run.induct)
  case Connect
  show ?case unfolding connect_def
    by (rule beat_parts(3)) (simp add: beat_ok_def DEFAULT_HEARTBEAT_SECONDS_def)
qed (rule beat_step)

text \<open>Once stopped, nothing is left that could act.\<close>

lemma stopped_step:
  assumes "stream_step json_parse channels c c'" "stream_inv c" "stopped c"
  shows "stopped c' \<and> (done_so_far c' = done_so_far c \<or>
    (\<exists>n r. done_so_far c' = done_so_far c @ [Announce Closed n r]))"
proof -
  have idle: "generation c \<notin> set (asking c)" "generation c \<notin> set (sockets c)" "timers c = []" "heartbeatTimer c = None"
    "socket c = None" "retryTimer c = None"
    using assms(2,3) by (auto simp: inv_parts split: option.splits stream_state.splits if_splits)
  show ?thesis using assms(1,3) idle
    by (induction rule: stream_step.induct)
      (auto simp: ticket_minted_def ticket_failed_def answered_ask_def on_message_def on_closed_def handle_def
        close_stream_def drop_socket_def stopHeartbeat_def announce_def Let_def split: option.split)
qed

lemma stopped_steps:
  assumes "(stream_step json_parse channels)\<^sup>*\<^sup>* c c'" "stream_inv c" "stopped c"
  shows "stream_inv c' \<and> stopped c' \<and>
    (\<exists>more. done_so_far c' = done_so_far c @ more \<and> (\<forall>a \<in> set more. \<exists>n r. a = Announce Closed n r))"
  using assms
proof (induction rule: rtranclp_induct)
  case (step c' c'')
  from step have "stream_inv c'" "stopped c'" by auto
  with step.hyps(2) have "stream_inv c''" and
    "stopped c'' \<and> (done_so_far c'' = done_so_far c' \<or> (\<exists>n r. done_so_far c'' = done_so_far c' @ [Announce Closed n r]))"
    using inv_step stopped_step by blast+
  with step show ?case by fastforce
qed simp

subsection \<open>What the connection promises\<close>

lemma activity_of_status:
  assumes "stream_inv c"
  shows "case last_status (done_so_far c) of
      None \<Rightarrow> False
    | Some Connecting \<Rightarrow> \<not> stopped c \<and> activity c \<in> {[ForTicket], [ForSocket]}
    | Some Live \<Rightarrow> \<not> stopped c \<and> activity c = [ForSocket]
    | Some Retrying \<Rightarrow> \<not> stopped c \<and> activity c = [ForTimer]
    | Some Closed \<Rightarrow> stopped c \<and> activity c = []"
  using assms by (auto simp: inv_parts activity_def split: option.splits stream_state.splits if_splits)

text \<open>A run to look at: connected, greeted, dropped.\<close>

definition hello_parse :: "string \<Rightarrow> json option" where
  "hello_parse payload = Some (JObj [(''type'', JStr ''hello'')])"

definition greeted :: conn where
  "greeted = on_message hello_parse [''safety''] 1 [] 0 (ticket_minted 1 ''t'' (answered_ask 1 connect))"

lemma greeted_run: "stream_run hello_parse [''safety''] greeted"
  unfolding greeted_def
  by (rule Step [OF Step [OF Connect Minted] Message]) (simp_all add: connect_def conn_ops)

lemma greeted_eval:
  "activity greeted = [ForSocket]" "\<not> stopped greeted" "heartbeatTimer greeted = Some 25000" "lastHeard greeted = 0"
  "heartbeatSeconds greeted = 25" "asked_for (done_so_far greeted) = [1]" "generation greeted = 1"
  "last_status (done_so_far greeted) = Some Live"
  by (simp_all add: greeted_def hello_parse_def parseFrame_def connect_def conn_ops activity_def json_defs
      hello_seconds_def frame_data_def DEFAULT_HEARTBEAT_SECONDS_def last_status_def)

text \<open>
  C11: The connection is never stuck and never doubled. At every moment of a run it waits for
  exactly one thing, a ticket, the current socket or one retry timer, until it is closed, and then
  for nothing: no drop, refusal, silent server or late event of an old socket leaves two connections
  racing or none at all.
\<close>
theorem one_activity:
  assumes "stream_run json_parse channels c"
  shows "length (activity c) = (if stopped c then 0 else 1)"
  using activity_of_status [OF inv_run [OF assms]]
  by (auto split: option.splits stream_state.splits)

theorem one_activity_witness: "length (activity greeted) = 1"
  using one_activity [OF greeted_run] by (simp add: greeted_eval)

text \<open>
  The status shown is the truth. When the last status announced is live, a socket of the current
  connection is open; when it is retrying, a retry is scheduled and nothing else is going on; when
  it is connecting, a ticket or a socket is under way; and closed is announced last exactly when the
  stream was closed.
\<close>
theorem status_truthful:
  assumes "stream_run json_parse channels c"
  shows "(last_status (done_so_far c) = Some Live \<longrightarrow> activity c = [ForSocket]) \<and>
    (last_status (done_so_far c) = Some Retrying \<longrightarrow> activity c = [ForTimer]) \<and>
    (last_status (done_so_far c) = Some Connecting \<longrightarrow> activity c = [ForTicket] \<or> activity c = [ForSocket]) \<and>
    (last_status (done_so_far c) = Some Closed \<longleftrightarrow> stopped c) \<and> last_status (done_so_far c) \<noteq> None"
  using activity_of_status [OF inv_run [OF assms]]
  by (auto split: option.splits stream_state.splits)

theorem status_truthful_witness:
  "last_status (done_so_far greeted) = Some Live \<and> activity greeted = [ForSocket]"
  using status_truthful [OF greeted_run] by (simp add: greeted_eval)

text \<open>
  A ticket is used once. Every socket is opened with the ticket of a request made for that very
  connection, no request serves two sockets, and every connect, each retry included, asks again.
\<close>
theorem fresh_ticket_per_connect:
  assumes "stream_run json_parse channels c"
  shows "distinct (opened_by (done_so_far c)) \<and> distinct (asked_for (done_so_far c)) \<and>
    set (opened_by (done_so_far c)) \<subseteq> set (asked_for (done_so_far c)) \<and>
    (\<not> stopped c \<longrightarrow> generation c + 1 \<notin> set (asked_for (done_so_far c)) \<and>
       asked_for (done_so_far (start_conn c)) = asked_for (done_so_far c) @ [generation c + 1])"
  using inv_asks [OF inv_run [OF assms]] by (auto simp: asks_ok_def start_conn_def announce_def Let_def)

theorem fresh_ticket_per_connect_witness: "asked_for (done_so_far (start_conn greeted)) = [1, 2]"
  using fresh_ticket_per_connect [OF greeted_run] by (simp add: greeted_eval)

text \<open>
  Closing is final. After \<open>close()\<close> no ticket is asked for, no socket opened, nothing sent and no
  frame handed to the screen, whatever was still on its way; at most \<open>closed\<close> is announced again.
\<close>
theorem close_is_final:
  assumes "stream_run json_parse channels c"
    "(stream_step json_parse channels)\<^sup>*\<^sup>* (close_stream c) c'"
  shows "\<exists>more. done_so_far c' = done_so_far (close_stream c) @ more \<and> (\<forall>a \<in> set more. \<exists>n r. a = Announce Closed n r)"
  using stopped_steps [OF assms(2) inv_close [OF inv_run [OF assms(1)]]]
  by (auto simp: close_stream_def announce_def Let_def split: option.splits)

theorem close_is_final_witness:
  "\<exists>more. done_so_far (ticket_minted 1 ''t'' (answered_ask 1 (close_stream connect))) =
     done_so_far (close_stream connect) @ more \<and> (\<forall>a \<in> set more. \<exists>n r. a = Announce Closed n r)"
proof -
  have "1 \<in> set (asking (close_stream connect))" by (simp add: connect_def conn_ops)
  then have "(stream_step hello_parse [])\<^sup>*\<^sup>* (close_stream connect) (ticket_minted 1 ''t'' (answered_ask 1 (close_stream connect)))"
    by (intro r_into_rtranclp Minted)
  then show ?thesis by (rule close_is_final [OF Connect])
qed

text \<open>
  A dead connection is noticed. If nothing has been heard since \<open>lastHeard\<close>, then whatever the
  phase of the interval, some tick later than two and a half heartbeats and no later than three and
  a half closes the socket and schedules a retry, saying so; an earlier tick only pings.
\<close>
theorem silence_is_noticed:
  assumes "stream_run json_parse channels c" "heartbeatTimer c = Some h"
  shows "(\<exists>k :: int. lastHeard c + 2.5 * h < t0 + of_int k * h \<and> t0 + of_int k * h \<le> lastHeard c + 3.5 * h \<and>
      last_status (done_so_far (heartbeat_tick (t0 + of_int k * h) c)) = Some Retrying \<and>
      CloseSocket (generation c) \<in> set (done_so_far (heartbeat_tick (t0 + of_int k * h) c))) \<and>
    (now \<le> lastHeard c + 2.5 * h \<longrightarrow> heartbeat_tick now c = act [SendPing (generation c)] c)"
proof -
  have inv: "stream_inv c" by (rule inv_run [OF assms(1)])
  have h: "h = heartbeatSeconds c * 1000" "0 < h"
    using beat_run [OF assms(1)] assms(2) by (auto simp: beat_ok_def)
  have alive: "\<not> stopped c" "socket c = Some (generation c)"
    using waits_for_socket [OF inv beating_socket [OF inv]] assms(2) by auto
  have late: "last_status (done_so_far (heartbeat_tick t c)) = Some Retrying \<and>
      CloseSocket (generation c) \<in> set (done_so_far (heartbeat_tick t c))" if "lastHeard c + 2.5 * h < t" for t
    using that alive h(1) by (simp add: heartbeat_tick_def MISSED_HEARTBEATS_BEFORE_DROP_def drop_socket_def stopHeartbeat_def
        scheduleRetry_def announce_def Let_def)
  define k where "k = \<lfloor>(lastHeard c + 3.5 * h - t0) / h\<rfloor>"
  have "of_int k \<le> (lastHeard c + 3.5 * h - t0) / h" "(lastHeard c + 3.5 * h - t0) / h < of_int k + 1"
    unfolding k_def by linarith+
  then have "t0 + of_int k * h \<le> lastHeard c + 3.5 * h" "lastHeard c + 2.5 * h < t0 + of_int k * h"
    using h(2) by (simp_all add: field_simps)
  with late have "\<exists>k :: int. lastHeard c + 2.5 * h < t0 + of_int k * h \<and> t0 + of_int k * h \<le> lastHeard c + 3.5 * h \<and>
      last_status (done_so_far (heartbeat_tick (t0 + of_int k * h) c)) = Some Retrying \<and>
      CloseSocket (generation c) \<in> set (done_so_far (heartbeat_tick (t0 + of_int k * h) c))"
    by blast
  moreover have "now \<le> lastHeard c + 2.5 * h \<longrightarrow> heartbeat_tick now c = act [SendPing (generation c)] c"
    using alive(2) h(1) by (simp add: heartbeat_tick_def MISSED_HEARTBEATS_BEFORE_DROP_def Let_def)
  ultimately show ?thesis by blast
qed

theorem silence_is_noticed_witness: "heartbeat_tick 25000 greeted = act [SendPing 1] greeted"
  using silence_is_noticed [OF greeted_run greeted_eval(3), of 0 25000] by (simp add: greeted_eval)

text \<open>
  The back-off. Every delay lies between half and the whole of the exponential step, so between
  half a second and thirty seconds, and from the sixth failure in a row it is at least fifteen.
\<close>
theorem backoffDelay_bounds:
  assumes "0 \<le> random" "random < 1" "1 \<le> n"
  shows "500 \<le> backoffDelay n random \<and> backoffDelay n random \<le> 30000 \<and>
    (6 \<le> n \<longrightarrow> 15000 \<le> backoffDelay n random) \<and>
    backoffDelay n random \<le> 1000 * 2 ^ (n - 1)"
proof -
  define st where "st = min MAX_BACKOFF_MS (BASE_BACKOFF_MS * 2 ^ max 0 (n - 1))"
  have one: "(1 :: real) \<le> 2 ^ (n - 1)" by simp
  have st: "1000 \<le> st" "st \<le> 30000" "st \<le> 1000 * 2 ^ (n - 1)"
    using one by (auto simp: st_def MAX_BACKOFF_MS_def BASE_BACKOFF_MS_def)
  have six: "st = 30000" if "6 \<le> n"
  proof -
    have "(2 :: real) ^ 5 \<le> 2 ^ (n - 1)" using that by (intro power_increasing) auto
    then show ?thesis by (simp add: st_def MAX_BACKOFF_MS_def BASE_BACKOFF_MS_def)
  qed
  define y where "y = st * (0.5 + random * 0.5)"
  have d: "st * 0.5 \<le> y" "y \<le> st"
    using assms(1,2) st(1) mult_left_le [of "0.5 + random * 0.5" st] by (auto simp: y_def algebra_simps)
  have "backoffDelay n random = \<lfloor>y + 1 / 2\<rfloor>"
    by (simp add: backoffDelay_def Let_def st_def y_def)
  moreover have "\<lfloor>y + 1 / 2\<rfloor> \<le> 1000 * 2 ^ (n - 1)"
  proof -
    have "y + 1 / 2 < of_int (1000 * 2 ^ (n - 1)) + 1" using d(2) st(3) by simp
    then show ?thesis by linarith
  qed
  moreover have "500 \<le> \<lfloor>y + 1 / 2\<rfloor>" "\<lfloor>y + 1 / 2\<rfloor> \<le> 30000" using d st(1,2) by linarith+
  moreover have "6 \<le> n \<longrightarrow> 15000 \<le> \<lfloor>y + 1 / 2\<rfloor>" using d(1) six by (auto simp: le_floor_iff)
  ultimately show ?thesis by simp
qed

theorem backoffDelay_bounds_witness: "15000 \<le> backoffDelay 7 0.25"
  using backoffDelay_bounds [of "0.25" 7] by simp

end
