(* ===== verification/Upload.thy ===== *)
theory Upload
  imports Complex_Main Problems Json
begin

text \<open>
  The resumable audio upload, \<open>web/src/features/audio/upload.ts\<close>. Every call goes through an
  interface on an opaque world that may fail; the state is that world, the calls made with whether
  they were answered well, and the progress reported. The poll at the end may never stop: it has
  fuel, and \<^const>\<open>None\<close> is a poll still going on. The long dash of one message is written \<open>-\<close>.
\<close>

subsection \<open>The file\<close>

record upload_file =
  file_name :: string
  file_type :: string
  file_bytes :: "nat list"

definition ACCEPTED :: "string list" where
  "ACCEPTED = [''audio/wav'', ''audio/x-wav'', ''audio/wave'', ''audio/mpeg'', ''audio/mp3'',
     ''audio/mp4'', ''audio/m4a'', ''audio/x-m4a'', ''audio/aac'', ''audio/ogg'',
     ''audio/opus'', ''audio/flac'', ''audio/x-flac'', ''audio/webm'']"

definition ACCEPT_ATTRIBUTE :: string where
  "ACCEPT_ATTRIBUTE = js_join '','' ACCEPTED"

type_synonym thrown = "failure option"

definition contentTypeOf :: "upload_file \<Rightarrow> thrown + string" where
  "contentTypeOf file =
     (case List.find (\<lambda>t. t = file_type file) ACCEPTED of
        Some found \<Rightarrow> Inr found
      | None \<Rightarrow> Inl (Some (JsError (if file_type file \<noteq> []
          then file_type file @ '' is not a supported audio format. Use WAV, MP3, M4A, AAC, OGG or FLAC.''
          else ''That file'' @ [CHR 0x27] @ ''s format could not be identified. Use WAV, MP3, M4A, AAC, OGG or FLAC.''))))"

text \<open>\<open>n.toString(16)\<close>.\<close>

definition hex_char :: "nat \<Rightarrow> char" where
  "hex_char d = ''0123456789abcdef'' ! (d mod 16)"

fun show_hex :: "nat \<Rightarrow> string" where
  "show_hex n = (if n < 16 then [hex_char n] else show_hex (n div 16) @ [hex_char (n mod 16)])"

declare show_hex.simps [simp del]

definition byte_hex :: "nat \<Rightarrow> string" where
  "byte_hex b = pad_start 2 (CHR ''0'') (show_hex b)"

text \<open>\<open>subtle\<close> is the browser's SHA-256, absent outside a secure context.\<close>

definition sha256Hex :: "(nat list \<Rightarrow> nat list) option \<Rightarrow> upload_file \<Rightarrow> string option" where
  "sha256Hex subtle file = map_option (\<lambda>sha. concat (map byte_hex (sha (file_bytes file)))) subtle"

subsection \<open>The calls\<close>

record part =
  part_n :: int
  part_url :: string
  part_offset :: "nat option"
  part_length :: "nat option"

record upload_session =
  session_xid :: string
  session_status :: "string option"
  received_bytes :: "nat option"
  parts_received :: "int list option"
  presigned_urls :: "part list option"

record upload_state =
  state_status :: string
  receivedBytes :: nat
  heldParts :: "int list"
  outstanding :: "part list"
  resumable :: bool

record create_body =
  body_title :: string
  body_accent :: "string option"
  body_filename :: string
  body_bytes :: nat
  body_content_type :: string
  body_checksum :: "string option"
  body_attestation :: json

record upload_fields =
  fields_title :: string
  fields_accent :: "string option"
  attestation :: json

record audio_track =
  track_status :: string
  track_duration :: "int option"
  track_loudness :: "real option"

datatype progress =
    Creating
  | Hashing
  | Uploading nat nat
  | Assembling
  | Transcoding
  | ReadyToUse "int option" "real option"
  | FailedToIngest string

datatype call =
    CreateCall bool
  | StateCall
  | PutCall string "nat list"
  | CompleteCall "(int \<times> string) list" bool
  | AbortCall string
  | TrackCall

record 'w upload_io =
  io_subtle :: "(nat list \<Rightarrow> nat list) option"
  io_create :: "create_body \<Rightarrow> 'w \<Rightarrow> (thrown + upload_session \<times> string) \<times> 'w"
  io_state :: "string \<Rightarrow> 'w \<Rightarrow> (thrown + upload_session) \<times> 'w"
  io_put :: "string \<Rightarrow> nat list \<Rightarrow> 'w \<Rightarrow> (failure + nat \<times> string option) \<times> 'w"
  io_complete :: "string \<Rightarrow> (int \<times> string) list \<Rightarrow> 'w \<Rightarrow> (failure + unit) \<times> 'w"
  io_abort :: "string \<Rightarrow> 'w \<Rightarrow> (failure + unit) \<times> 'w"
  io_track :: "string \<Rightarrow> 'w \<Rightarrow> audio_track option \<times> 'w"
  io_signalled :: "'w \<Rightarrow> bool"

record 'w up =
  up_world :: 'w
  up_calls :: "call list"
  up_reports :: "progress list"

definition report :: "progress \<Rightarrow> 'w up \<Rightarrow> 'w up" where
  "report p s = s\<lparr>up_reports := up_reports s @ [p]\<rparr>"

definition calling :: "('a \<Rightarrow> call) \<Rightarrow> ('w \<Rightarrow> 'a \<times> 'w) \<Rightarrow> 'w up \<Rightarrow> 'a \<times> 'w up" where
  "calling name f s = (case f (up_world s) of (res, w) \<Rightarrow> (res, s\<lparr>up_world := w, up_calls := up_calls s @ [name res]\<rparr>))"

definition well :: "'a + 'b \<Rightarrow> bool" where
  "well res \<longleftrightarrow> (case res of Inl _ \<Rightarrow> False | Inr _ \<Rightarrow> True)"

text \<open>Its own failure is swallowed by every caller.\<close>

definition abortUpload :: "'w upload_io \<Rightarrow> string \<Rightarrow> 'w up \<Rightarrow> 'w up" where
  "abortUpload io xid s = snd (calling (\<lambda>_. AbortCall xid) (io_abort io xid) s)"

definition uploadState :: "'w upload_io \<Rightarrow> string \<Rightarrow> 'w up \<Rightarrow> (thrown + upload_state) \<times> 'w up" where
  "uploadState io xid s =
     (case calling (\<lambda>_. StateCall) (io_state io xid) s of
        (Inl failure, s') \<Rightarrow> (Inl (Some (nullish failure (JsError ''Could not read the upload.''))), s')
      | (Inr data, s') \<Rightarrow>
          let held = nullish (parts_received data) []
          in (Inr \<lparr>state_status = nullish (session_status data) ''open'', receivedBytes = nullish (received_bytes data) 0,
                   heldParts = held, outstanding = nullish (presigned_urls data) [],
                   resumable = (length held = 0 \<and> nullish (session_status data) ''open'' = ''open'')\<rparr>, s'))"

subsection \<open>The upload\<close>

definition slice_of :: "upload_file \<Rightarrow> part \<Rightarrow> nat list" where
  "slice_of file p = take (nullish (part_length p) 0) (drop (nullish (part_offset p) 0) (file_bytes file))"

definition unquoted :: "string \<Rightarrow> string" where
  "unquoted etag = filter (\<lambda>c. c \<noteq> CHR 0x22) etag"

fun put_parts ::
  "'w upload_io \<Rightarrow> upload_file \<Rightarrow> nat \<Rightarrow> part list \<Rightarrow> (int \<times> string) list \<Rightarrow> nat \<Rightarrow> 'w up \<Rightarrow>
   (thrown + (int \<times> string) list) \<times> 'w up" where
  "put_parts io file total_bytes [] parts sent s = (Inr parts, s)"
| "put_parts io file total_bytes (p # ps) parts sent s =
     (if io_signalled io (up_world s) then (Inl (Some (JsError ''Upload cancelled.'')), s)
      else (case calling (\<lambda>_. PutCall (part_url p) (slice_of file p)) (io_put io (part_url p) (slice_of file p)) s of
          (Inl failure, s') \<Rightarrow> (Inl (Some failure), s')
        | (Inr (status, etag), s') \<Rightarrow>
            if \<not> (200 \<le> status \<and> status \<le> 299) then
              (Inl (Some (JsError (''Part '' @ show_int (part_n p) @ '' failed to upload (HTTP '' @ show_nat status @ '').''))), s')
            else if \<not> truthy_str etag then
              (Inl (Some (JsError (''Part '' @ show_int (part_n p) @ '' returned no ETag.''))), s')
            else
              let parts' = parts @ [(part_n p, unquoted (nullish etag []))];
                  sent' = sent + nullish (part_length p) 0
              in put_parts io file total_bytes ps parts' sent' (report (Uploading sent' total_bytes) s')))"

text \<open>The \<open>try\<close> block, and its \<open>catch\<close>.\<close>

definition send_all ::
  "'w upload_io \<Rightarrow> upload_file \<Rightarrow> string \<Rightarrow> part list \<Rightarrow> 'w up \<Rightarrow> (thrown + unit) \<times> 'w up" where
  "send_all io file xid todo s =
     (case put_parts io file (sum_list (map (\<lambda>p. nullish (part_length p) 0) todo)) todo [] 0 s of
        (Inl failure, s') \<Rightarrow> (Inl failure, s')
      | (Inr parts, s') \<Rightarrow>
          (case calling (\<lambda>r. CompleteCall parts (well r)) (io_complete io xid parts) (report Assembling s') of
             (Inl failure, s'') \<Rightarrow> (Inl (Some failure), s'')
           | (Inr _, s'') \<Rightarrow> (Inr (), s'')))"

definition transfer ::
  "'w upload_io \<Rightarrow> upload_file \<Rightarrow> string \<Rightarrow> part list \<Rightarrow> 'w up \<Rightarrow> (thrown + unit) \<times> 'w up" where
  "transfer io file xid todo s =
     (case send_all io file xid todo s of
        (Inl failure, s') \<Rightarrow> (Inl failure, abortUpload io xid s')
      | (Inr u, s') \<Rightarrow> (Inr u, s'))"

fun poll :: "nat \<Rightarrow> 'w upload_io \<Rightarrow> string \<Rightarrow> 'w up \<Rightarrow> (thrown + string) option \<times> 'w up" where
  "poll 0 io trackXid s = (None, s)"
| "poll (Suc fuel) io trackXid s =
     (if io_signalled io (up_world s) then (Some (Inl (Some (JsError ''Cancelled.''))), s)
      else (case calling (\<lambda>_. TrackCall) (io_track io trackXid) s of
          (None, s') \<Rightarrow> poll fuel io trackXid s'
        | (Some track, s') \<Rightarrow>
            if track_status track = ''ready'' then
              (Some (Inr trackXid), report (ReadyToUse (track_duration track) (track_loudness track)) s')
            else if track_status track = ''failed'' then
              (Some (Inl (Some (JsError ''Ingest failed.''))),
               report (FailedToIngest ''Ingest failed. Open the track for details.'') s')
            else poll fuel io trackXid s'))"

definition create_request :: "'w upload_io \<Rightarrow> upload_file \<Rightarrow> upload_fields \<Rightarrow> string \<Rightarrow> create_body" where
  "create_request io file form content_type =
     \<lparr>body_title = fields_title form,
      body_accent = (if truthy_str (fields_accent form) then fields_accent form else None),
      body_filename = file_name file, body_bytes = length (file_bytes file), body_content_type = content_type,
      body_checksum = (let c = sha256Hex (io_subtle io) file in if truthy_str c then c else None),
      body_attestation = attestation form\<rparr>"

definition outstanding_parts :: "upload_state option \<Rightarrow> upload_session \<Rightarrow> part list" where
  "outstanding_parts state session =
     (case state of
        Some st \<Rightarrow> if outstanding st \<noteq> [] then outstanding st else nullish (presigned_urls session) []
      | None \<Rightarrow> nullish (presigned_urls session) [])"

text \<open>A session with parts whose etags are lost is cleared and refused.\<close>

definition cannot_resume :: "upload_state option \<Rightarrow> bool" where
  "cannot_resume state \<longleftrightarrow> (case state of
      Some st \<Rightarrow> \<not> resumable st \<and> length (heldParts st) > 0 | None \<Rightarrow> False)"

definition uploadAudioTrack ::
  "nat \<Rightarrow> 'w upload_io \<Rightarrow> upload_file \<Rightarrow> upload_fields \<Rightarrow> 'w up \<Rightarrow> (thrown + string) option \<times> 'w up" where
  "uploadAudioTrack fuel io file form s =
     (let s1 = report Creating (report Hashing s) in
      case contentTypeOf file of
        Inl failure \<Rightarrow> (Some (Inl failure), s1)
      | Inr content_type \<Rightarrow>
          (case calling (\<lambda>r. CreateCall (well r)) (io_create io (create_request io file form content_type)) s1 of
             (Inl createFailed, s2) \<Rightarrow> (Some (Inl createFailed), s2)
           | (Inr (session, trackXid), s2) \<Rightarrow>
               (case uploadState io (session_xid session) s2 of (read, s3) \<Rightarrow>
                  let state = (case read of Inl _ \<Rightarrow> None | Inr st \<Rightarrow> Some st) in
                  if cannot_resume state then
                    (Some (Inl (Some (JsError (''An earlier attempt at this file left parts on the server that cannot '' @
                       ''be reused. That attempt has been cleared - please upload it again.'')))),
                     abortUpload io (session_xid session) s3)
                  else (case transfer io file (session_xid session) (outstanding_parts state session) s3 of
                      (Inl failure, s4) \<Rightarrow> (Some (Inl failure), s4)
                    | (Inr _, s4) \<Rightarrow> poll fuel io trackXid (report Transcoding s4)))))"

subsection \<open>What each stage does\<close>

lemma report_fields [simp]:
  "up_world (report p s) = up_world s" "up_calls (report p s) = up_calls s" "up_reports (report p s) = up_reports s @ [p]"
  by (simp_all add: report_def)

lemma callingE:
  assumes "calling name f s = (res, s')"
  obtains "f (up_world s) = (res, up_world s')" "up_calls s' = up_calls s @ [name res]" "up_reports s' = up_reports s"
  using assms by (auto simp: calling_def split: prod.splits)

definition put_of :: "upload_file \<Rightarrow> part \<Rightarrow> call" where
  "put_of file p = PutCall (part_url p) (slice_of file p)"

fun uploads :: "nat \<Rightarrow> nat \<Rightarrow> part list \<Rightarrow> progress list" where
  "uploads total_bytes sent [] = []"
| "uploads total_bytes sent (p # ps) =
     Uploading (sent + nullish (part_length p) 0) total_bytes # uploads total_bytes (sent + nullish (part_length p) 0) ps"

lemma put_parts_does:
  assumes "put_parts io file total_bytes ps parts sent s = (res, s')"
  shows "(\<exists>n. up_calls s' = up_calls s @ map (put_of file) (take n ps)) \<and>
    (\<forall>parts'. res = Inr parts' \<longrightarrow> up_calls s' = up_calls s @ map (put_of file) ps \<and>
       map fst parts' = map fst parts @ map part_n ps \<and> up_reports s' = up_reports s @ uploads total_bytes sent ps)"
  using assms
proof (induction io "file" total_bytes ps parts sent s rule: put_parts.induct)
  case (1 io "file" total_bytes parts sent s)
  then show ?case by auto
next
  case (2 io "file" total_bytes p ps parts sent s)
  show ?case
  proof (cases "io_signalled io (up_world s)")
    case True
    with 2 have "up_calls s' = up_calls s @ map (put_of file) (take 0 (p # ps))" "\<not> well res" by (auto simp: well_def)
    then show ?thesis by (auto simp: well_def)
  next
    case False
    obtain got s1 where got: "calling (\<lambda>_. PutCall (part_url p) (slice_of file p)) (io_put io (part_url p) (slice_of file p)) s = (got, s1)"
      by fastforce
    then have s1: "up_calls s1 = up_calls s @ map (put_of file) (take 1 (p # ps))" "up_reports s1 = up_reports s"
      by (auto elim!: callingE simp: put_of_def)
    show ?thesis
    proof (cases "\<exists>status etag. got = Inr (status, etag) \<and> 200 \<le> status \<and> status \<le> 299 \<and> truthy_str etag")
      case True
      then obtain status etag where ok: "got = Inr (status, etag)" "200 \<le> status" "status \<le> 299" "truthy_str etag" by blast
      let ?s = "report (Uploading (sent + nullish (part_length p) 0) total_bytes) s1"
      from ok 2(2) False got have rest: "put_parts io file total_bytes ps (parts @ [(part_n p, unquoted (nullish etag []))])
          (sent + nullish (part_length p) 0) ?s = (res, s')"
        by (simp add: Let_def)
      from 2(1) [OF False got [symmetric] ok(1) refl, OF _ _ refl refl rest] ok(2-4)
      obtain n where n: "up_calls s' = up_calls ?s @ map (put_of file) (take n ps)" and
        more: "\<forall>parts'. res = Inr parts' \<longrightarrow> up_calls s' = up_calls ?s @ map (put_of file) ps \<and>
           map fst parts' = map fst (parts @ [(part_n p, unquoted (nullish etag []))]) @ map part_n ps \<and>
           up_reports s' = up_reports ?s @ uploads total_bytes (sent + nullish (part_length p) 0) ps"
        by (metis not_le)
      from n s1 have "\<exists>m. up_calls s' = up_calls s @ map (put_of file) (take m (p # ps))"
        by (intro exI [of _ "Suc n"]) simp
      moreover have "\<forall>parts'. res = Inr parts' \<longrightarrow> up_calls s' = up_calls s @ map (put_of file) (p # ps) \<and>
         map fst parts' = map fst parts @ map part_n (p # ps) \<and> up_reports s' = up_reports s @ uploads total_bytes sent (p # ps)"
        using more s1 by simp
      ultimately show ?thesis by blast
    next
      case bad: False
      with 2(2) False got have "s' = s1" "\<not> well res"
        by (auto simp: well_def Let_def split: sum.splits prod.splits if_splits)
      with s1 show ?thesis by (auto simp: well_def intro: exI [of _ 1])
    qed
  qed
qed

lemma poll_calls: "poll fuel io trackXid s = (res, s') \<Longrightarrow> \<exists>n. up_calls s' = up_calls s @ replicate n TrackCall"
proof (induction fuel io trackXid s rule: poll.induct)
  case (1 io trackXid s)
  then show ?case by (auto intro: exI [of _ 0])
next
  case (2 fuel io trackXid s)
  show ?case
  proof (cases "io_signalled io (up_world s)")
    case True
    with 2 show ?thesis by (auto intro: exI [of _ 0])
  next
    case False
    obtain got s1 where got: "calling (\<lambda>_. TrackCall) (io_track io trackXid) s = (got, s1)" by fastforce
    then have s1: "up_calls s1 = up_calls s @ [TrackCall]" by (auto elim!: callingE)
    have more: "\<exists>n. up_calls s' = up_calls s @ replicate n TrackCall"
      if "\<exists>n. up_calls s' = up_calls s1 @ replicate n TrackCall"
      using that s1 by (metis append.assoc append_Cons append_Nil replicate_Suc)
    show ?thesis using 2 False got more s1
      by (auto split: option.splits if_splits intro: exI [of _ 1])
  qed
qed

text \<open>The whole transfer: every part and a completion, or an abort last and no completion.\<close>

lemma transfer_does:
  assumes "transfer io file xid todo s = (res, s')"
  shows "(\<exists>parts. res = Inr () \<and> up_calls s' = up_calls s @ map (put_of file) todo @ [CompleteCall parts True] \<and>
      map fst parts = map part_n todo \<and>
      up_reports s' = up_reports s @ uploads (sum_list (map (\<lambda>p. nullish (part_length p) 0) todo)) 0 todo @ [Assembling]) \<or>
    (\<exists>e n more. res = Inl e \<and> up_calls s' = up_calls s @ map (put_of file) (take n todo) @ more @ [AbortCall xid] \<and>
      (more = [] \<or> (\<exists>parts. more = [CompleteCall parts False])))"
proof -
  define sz where "sz = sum_list (map (\<lambda>p. nullish (part_length p) 0) todo)"
  obtain sent s1 where puts: "put_parts io file sz todo [] 0 s = (sent, s1)" by fastforce
  have abort: "up_calls (abortUpload io xid t) = up_calls t @ [AbortCall xid]" for t
    by (simp add: abortUpload_def calling_def split: prod.split)
  show ?thesis
  proof (cases sent)
    case (Inl e)
    with puts assms have "res = Inl e" "s' = abortUpload io xid s1"
      by (auto simp: transfer_def send_all_def sz_def)
    moreover obtain n where "up_calls s1 = up_calls s @ map (put_of file) (take n todo)"
      using put_parts_does [OF puts] by blast
    ultimately have "res = Inl e \<and> up_calls s' = up_calls s @ map (put_of file) (take n todo) @ [] @ [AbortCall xid]"
      by (simp add: abort)
    then show ?thesis by blast
  next
    case (Inr parts)
    with put_parts_does [OF puts] have put: "up_calls s1 = up_calls s @ map (put_of file) todo"
      "map fst parts = map part_n todo" "up_reports s1 = up_reports s @ uploads sz 0 todo" by auto
    obtain ans s2 where comp: "calling (\<lambda>r. CompleteCall parts (well r)) (io_complete io xid parts) (report Assembling s1) = (ans, s2)"
      by fastforce
    then have s2: "up_calls s2 = up_calls s1 @ [CompleteCall parts (well ans)]" "up_reports s2 = up_reports s1 @ [Assembling]"
      by (auto elim!: callingE)
    show ?thesis
    proof (cases ans)
      case (Inl e)
      with puts Inr comp assms have "res = Inl (Some e)" "s' = abortUpload io xid s2"
        by (auto simp: transfer_def send_all_def sz_def)
      moreover have "up_calls (abortUpload io xid s2) =
        up_calls s @ map (put_of file) (take (length todo) todo) @ [CompleteCall parts False] @ [AbortCall xid]"
        using put s2 Inl by (simp add: abort well_def)
      ultimately show ?thesis by blast
    next
      case (Inr u)
      with puts \<open>sent = Inr parts\<close> comp assms have "res = Inr ()" "s' = s2"
        by (auto simp: transfer_def send_all_def sz_def)
      with put s2 Inr show ?thesis by (simp add: well_def sz_def)
    qed
  qed
qed

lemma uploadState_calls: "uploadState io xid s = (res, s') \<Longrightarrow> up_calls s' = up_calls s @ [StateCall]"
  by (auto simp: uploadState_def Let_def elim!: callingE split: prod.splits sum.splits)

definition completed :: "call list \<Rightarrow> bool" where
  "completed cs \<longleftrightarrow> (\<exists>parts. CompleteCall parts True \<in> set cs)"

definition aborts :: "call list \<Rightarrow> nat" where
  "aborts cs = length (filter (\<lambda>c. case c of AbortCall _ \<Rightarrow> True | _ \<Rightarrow> False) cs)"

lemma aborts_simps [simp]:
  "aborts [] = 0" "aborts (cs @ ds) = aborts cs + aborts ds" "aborts (map (put_of file) ps) = 0"
  "aborts (replicate n TrackCall) = 0"
  "aborts (c # cs) = (case c of AbortCall _ \<Rightarrow> 1 | _ \<Rightarrow> 0) + aborts cs"
  by (simp_all add: aborts_def put_of_def filter_empty_conv split: call.splits)

lemma completed_simps [simp]:
  "\<not> completed []" "completed (cs @ ds) \<longleftrightarrow> completed cs \<or> completed ds" "\<not> completed (map (put_of file) ps)"
  "\<not> completed (replicate n TrackCall)"
  "completed (c # cs) \<longleftrightarrow> (\<exists>parts. c = CompleteCall parts True) \<or> completed cs"
  by (auto simp: completed_def put_of_def)

text \<open>A world for the examples: the reads of the track that are still to come.\<close>

definition sample_session :: upload_session where
  "sample_session = \<lparr>session_xid = ''u1'', session_status = None, received_bytes = None, parts_received = None,
     presigned_urls = Some [\<lparr>part_n = 1, part_url = ''/p1'', part_offset = Some 0, part_length = Some 2\<rparr>,
       \<lparr>part_n = 2, part_url = ''/p2'', part_offset = Some 2, part_length = Some 1\<rparr>]\<rparr>"

definition sample_io :: "bool \<Rightarrow> audio_track option list upload_io" where
  "sample_io online = \<lparr>io_subtle = None, io_create = (\<lambda>_ w. (Inr (sample_session, ''t1''), w)),
     io_state = (\<lambda>_ w. (Inl None, w)), io_put = (\<lambda>_ _ w. (Inr (200, Some ''e''), w)),
     io_complete = (\<lambda>_ _ w. (if online then Inr () else Inl (JsError ''offline''), w)), io_abort = (\<lambda>_ w. (Inr (), w)),
     io_track = (\<lambda>_ w. (hd w, tl w)), io_signalled = (\<lambda>_. False)\<rparr>"

definition sample_file :: upload_file where
  "sample_file = \<lparr>file_name = ''a.wav'', file_type = ''audio/wav'', file_bytes = [7, 8, 9]\<rparr>"

definition sample_form :: upload_fields where
  "sample_form = \<lparr>fields_title = ''A'', fields_accent = None, attestation = JNull\<rparr>"

definition sample_up :: "audio_track option list up" where
  "sample_up = \<lparr>up_world = [], up_calls = [], up_reports = []\<rparr>"

text \<open>
  C12: An upload closes what it opens. Once the server has opened a session, the run either completes
  it and never aborts it, or fails and aborts it exactly once, as the last thing it does; whatever
  goes wrong between (a cancel, a lost connection, a refused part, a missing ETag, a failed
  completion, parts that cannot be resumed), and however long the poll after it takes.
\<close>
theorem upload_closes_what_it_opens:
  assumes "uploadAudioTrack fuel io file form s = (res, s')" "up_calls s = []" "contentTypeOf file = Inr ct"
    "io_create io (create_request io file form ct) (up_world s) = (Inr (session, trackXid), w)"
  shows "(completed (up_calls s') \<and> aborts (up_calls s') = 0) \<or>
    (\<not> completed (up_calls s') \<and> aborts (up_calls s') = 1 \<and> last (up_calls s') = AbortCall (session_xid session) \<and>
      (\<exists>e. res = Some (Inl e)))"
proof -
  define s1 where "s1 = report Creating (report Hashing s)"
  obtain s2 where s2: "calling (\<lambda>r. CreateCall (well r)) (io_create io (create_request io file form ct)) s1 =
      (Inr (session, trackXid), s2)"
    using assms(4) by (auto simp: calling_def s1_def)
  then have c2: "up_calls s2 = [CreateCall True]"
    using assms(2) by (auto elim!: callingE simp: s1_def well_def)
  obtain rd s3 where s3: "uploadState io (session_xid session) s2 = (rd, s3)" by fastforce
  have c3: "up_calls s3 = [CreateCall True, StateCall]" using uploadState_calls [OF s3] c2 by simp
  define state where "state = (case rd of Inl _ \<Rightarrow> None | Inr st \<Rightarrow> Some st)"
  have run: "(if cannot_resume state then (Some (Inl (Some (JsError (''An earlier attempt at this file left parts on the server that cannot '' @
          ''be reused. That attempt has been cleared - please upload it again.'')))), abortUpload io (session_xid session) s3)
      else (case transfer io file (session_xid session) (outstanding_parts state session) s3 of
          (Inl failure, s4) \<Rightarrow> (Some (Inl failure), s4)
        | (Inr _, s4) \<Rightarrow> poll fuel io trackXid (report Transcoding s4))) = (res, s')"
    using assms(1) s2 s3 unfolding uploadAudioTrack_def Let_def state_def s1_def [symmetric] assms(3) by simp
  show ?thesis
  proof (cases "cannot_resume state")
    case True
    with run c3 show ?thesis by (auto simp: abortUpload_def calling_def split: prod.splits)
  next
    case False
    obtain tr s4 where s4: "transfer io file (session_xid session) (outstanding_parts state session) s3 = (tr, s4)"
      by fastforce
    from transfer_does [OF this] consider
      (ok) parts where "tr = Inr ()" "up_calls s4 = up_calls s3 @ map (put_of file) (outstanding_parts state session) @ [CompleteCall parts True]"
    | (bad) e n more where "tr = Inl e"
        "up_calls s4 = up_calls s3 @ map (put_of file) (take n (outstanding_parts state session)) @ more @ [AbortCall (session_xid session)]"
        "more = [] \<or> (\<exists>parts. more = [CompleteCall parts False])"
      by blast
    then show ?thesis
    proof cases
      case ok
      with run False s4 have "poll fuel io trackXid (report Transcoding s4) = (res, s')" by simp
      from poll_calls [OF this] obtain n where "up_calls s' = up_calls s4 @ replicate n TrackCall" by auto
      with ok(2) c3 show ?thesis by simp
    next
      case bad
      with run False s4 have "res = Some (Inl e)" "s' = s4" by simp_all
      with bad(2,3) c3 show ?thesis by auto
    qed
  qed
qed

lemma sample_run:
  "\<exists>s'. uploadAudioTrack 0 (sample_io False) sample_file sample_form sample_up =
     (Some (Inl (Some (JsError ''offline''))), s')"
  by (simp add: uploadAudioTrack_def sample_io_def sample_file_def sample_form_def sample_up_def contentTypeOf_def ACCEPTED_def
      calling_def report_def uploadState_def cannot_resume_def transfer_def send_all_def outstanding_parts_def abortUpload_def
      sample_session_def Let_def)

theorem upload_closes_what_it_opens_witness:
  "\<exists>s'. uploadAudioTrack 0 (sample_io False) sample_file sample_form sample_up =
     (Some (Inl (Some (JsError ''offline''))), s') \<and> aborts (up_calls s') \<le> 1"
proof -
  obtain s' where run: "uploadAudioTrack 0 (sample_io False) sample_file sample_form sample_up =
     (Some (Inl (Some (JsError ''offline''))), s')" using sample_run by blast
  have ct: "contentTypeOf sample_file = Inr ''audio/wav''" by (simp add: contentTypeOf_def sample_file_def ACCEPTED_def)
  have "io_create (sample_io False) body w = (Inr (sample_session, ''t1''), w)" for body w by (simp add: sample_io_def)
  from upload_closes_what_it_opens [OF run _ ct this] have "aborts (up_calls s') \<le> 1" by (auto simp: sample_up_def)
  with run show ?thesis by blast
qed

text \<open>Parts that cover the file in order, each from where the last one stopped.\<close>

fun tiles :: "upload_file \<Rightarrow> nat \<Rightarrow> part list \<Rightarrow> bool" where
  "tiles file pos [] \<longleftrightarrow> pos = length (file_bytes file)"
| "tiles file pos (p # ps) \<longleftrightarrow> part_offset p = Some pos \<and> pos + nullish (part_length p) 0 \<le> length (file_bytes file) \<and>
     tiles file (pos + nullish (part_length p) 0) ps"

lemma tiles_slices: "tiles file pos ps \<Longrightarrow> concat (map (slice_of file) ps) = drop pos (file_bytes file)"
proof (induction ps arbitrary: pos)
  case (Cons p ps)
  then have "concat (map (slice_of file) ps) = drop (pos + nullish (part_length p) 0) (file_bytes file)" by simp
  moreover have "slice_of file p = take (nullish (part_length p) 0) (drop pos (file_bytes file))"
    using Cons.prems by (simp add: slice_of_def)
  ultimately show ?case
    using append_take_drop_id [of "nullish (part_length p) 0" "drop pos (file_bytes file)"]
    by (simp add: add.commute)
qed simp

lemma tiles_total:
  "tiles file pos ps \<Longrightarrow> pos + sum_list (map (\<lambda>p. nullish (part_length p) 0) ps) = length (file_bytes file)"
  by (induction "file" pos ps rule: tiles.induct) auto

lemma uploads_last:
  "ps \<noteq> [] \<Longrightarrow> last (uploads tb sent ps) = Uploading (sent + sum_list (map (\<lambda>p. nullish (part_length p) 0) ps)) tb"
proof (induction ps arbitrary: sent)
  case (Cons p ps)
  show ?case
  proof (cases "ps = []")
    case False
    then have "uploads tb (sent + nullish (part_length p) 0) ps \<noteq> []" by (cases ps) auto
    with Cons.IH [OF False, of "sent + nullish (part_length p) 0"] show ?thesis by (simp add: add.assoc)
  qed simp
qed simp

text \<open>
  What is assembled is the file. When a transfer succeeds over parts that tile the file, the
  slices sent, in order, are the file's bytes, one request for each part and each part reported to
  the completion once under its own number, and the last progress reported is all of it.
\<close>
theorem transfer_sends_the_file:
  assumes "transfer io file xid todo s = (Inr u, s')" "tiles file 0 todo" "todo \<noteq> []"
  shows "\<exists>parts puts reps. up_calls s' = up_calls s @ puts @ [CompleteCall parts True] \<and>
    map fst parts = map part_n todo \<and> puts = map (\<lambda>p. PutCall (part_url p) (slice_of file p)) todo \<and>
    concat (map (slice_of file) todo) = file_bytes file \<and>
    up_reports s' = up_reports s @ reps @ [Assembling] \<and>
    last reps = Uploading (length (file_bytes file)) (length (file_bytes file))"
  using transfer_does [OF assms(1)] tiles_slices [OF assms(2)] tiles_total [OF assms(2)] uploads_last [OF assms(3), of _ 0]
  by (auto simp: put_of_def)

lemma sample_transfer:
  "\<exists>s'. transfer (sample_io True) sample_file ''u1'' (the (presigned_urls sample_session)) sample_up = (Inr (), s')"
  by (simp add: transfer_def send_all_def sample_io_def calling_def report_def sample_session_def sample_up_def Let_def)

theorem transfer_sends_the_file_witness:
  "\<exists>s' reps. transfer (sample_io True) sample_file ''u1'' (the (presigned_urls sample_session)) sample_up = (Inr (), s') \<and>
     up_reports s' = reps @ [Assembling] \<and> last reps = Uploading 3 3"
proof -
  obtain s' where run: "transfer (sample_io True) sample_file ''u1'' (the (presigned_urls sample_session)) sample_up = (Inr (), s')"
    using sample_transfer by blast
  have "tiles sample_file 0 (the (presigned_urls sample_session))" "the (presigned_urls sample_session) \<noteq> []"
    by (simp_all add: sample_file_def sample_session_def)
  from transfer_sends_the_file [OF run this] run show ?thesis by (auto simp: sample_up_def sample_file_def)
qed

text \<open>The world after \<open>n\<close> reads of the track, and what the next one answers.\<close>

fun after_reads :: "nat \<Rightarrow> 'w upload_io \<Rightarrow> string \<Rightarrow> 'w \<Rightarrow> 'w" where
  "after_reads 0 io xid w = w"
| "after_reads (Suc n) io xid w = after_reads n io xid (snd (io_track io xid w))"

definition settles :: "audio_track option \<Rightarrow> bool" where
  "settles t \<longleftrightarrow> (case t of Some track \<Rightarrow> track_status track = ''ready'' \<or> track_status track = ''failed'' | None \<Rightarrow> False)"

lemma poll_Suc:
  assumes "\<not> io_signalled io (up_world s)" "\<not> settles (fst (io_track io xid (up_world s)))"
  shows "poll (Suc fuel) io xid s =
    poll fuel io xid (s\<lparr>up_world := snd (io_track io xid (up_world s)), up_calls := up_calls s @ [TrackCall]\<rparr>)"
  using assms by (auto simp: calling_def settles_def split: prod.split option.splits)

text \<open>
  The wait for the transcode. With \<open>n\<close> reads that settle nothing and no cancel, the next read
  decides: a ready track is returned and its length and loudness reported last, a failed one is an
  error and reported as such, and any fuel beyond \<open>n\<close> is enough to see it.
\<close>
theorem poll_settles:
  assumes "\<And>i. i \<le> n \<Longrightarrow> \<not> io_signalled io (after_reads i io xid (up_world s))"
    "\<And>i. i < n \<Longrightarrow> \<not> settles (fst (io_track io xid (after_reads i io xid (up_world s))))"
    "fst (io_track io xid (after_reads n io xid (up_world s))) = Some track" "settles (Some track)" "n < fuel"
  shows "(track_status track = ''ready'' \<longrightarrow> fst (poll fuel io xid s) = Some (Inr xid) \<and>
      last (up_reports (snd (poll fuel io xid s))) = ReadyToUse (track_duration track) (track_loudness track)) \<and>
    (track_status track = ''failed'' \<longrightarrow> fst (poll fuel io xid s) = Some (Inl (Some (JsError ''Ingest failed.''))))"
  using assms
proof (induction n arbitrary: fuel s)
  case 0
  then obtain f where "fuel = Suc f" by (cases fuel) auto
  with 0 show ?case by (auto simp: calling_def split: prod.splits)
next
  case (Suc n)
  then obtain f where f: "fuel = Suc f" "n < f" by (cases fuel) auto
  let ?s = "s\<lparr>up_world := snd (io_track io xid (up_world s)), up_calls := up_calls s @ [TrackCall]\<rparr>"
  have first: "\<not> io_signalled io (up_world s)" "\<not> settles (fst (io_track io xid (up_world s)))"
    using Suc.prems(1) [of 0] Suc.prems(2) [of 0] by simp_all
  have "\<not> io_signalled io (after_reads i io xid (up_world ?s))" if "i \<le> n" for i
    using Suc.prems(1) [of "Suc i"] that by simp
  moreover have "\<not> settles (fst (io_track io xid (after_reads i io xid (up_world ?s))))" if "i < n" for i
    using Suc.prems(2) [of "Suc i"] that by simp
  moreover have "fst (io_track io xid (after_reads n io xid (up_world ?s))) = Some track"
    using Suc.prems(3) by simp
  ultimately show ?case using Suc.IH [of ?s f] Suc.prems(4) f by (simp add: poll_Suc [OF first] del: poll.simps)
qed

definition ready_track :: audio_track where
  "ready_track = \<lparr>track_status = ''ready'', track_duration = Some 5, track_loudness = None\<rparr>"

theorem poll_settles_witness:
  "fst (poll 3 (sample_io True) ''t1'' (sample_up\<lparr>up_world := [None, Some ready_track]\<rparr>)) = Some (Inr ''t1'')"
  using poll_settles [of 1 "sample_io True" "''t1''" "sample_up\<lparr>up_world := [None, Some ready_track]\<rparr>" ready_track 3]
  by (simp add: sample_io_def settles_def ready_track_def)

text \<open>
  C38: A track that leaves \<open>processing\<close> any other way is polled for ever. While the reads answer
  \<open>archived\<close> or \<open>draft\<close>, or nothing at all because the track is gone, no amount of polling returns:
  the upload form waits on "normalising" until somebody presses cancel.
\<close>
theorem archived_track_polls_forever:
  assumes "\<And>w. \<not> io_signalled io w"
    "\<And>w. case fst (io_track io xid w) of None \<Rightarrow> True | Some t \<Rightarrow> track_status t \<in> {''archived'', ''draft'', ''processing''}"
  shows "fst (poll fuel io xid s) = None"
proof (induction fuel arbitrary: s)
  case (Suc fuel)
  have "\<not> settles (fst (io_track io xid (up_world s)))"
    using assms(2) [of "up_world s"] by (auto simp: settles_def split: option.splits)
  then show ?case by (simp add: poll_Suc assms(1) Suc del: poll.simps)
qed simp

definition archived_io :: "unit upload_io" where
  "archived_io = \<lparr>io_subtle = None, io_create = (\<lambda>_ w. (Inl None, w)), io_state = (\<lambda>_ w. (Inl None, w)),
     io_put = (\<lambda>_ _ w. (Inl (JsError []), w)), io_complete = (\<lambda>_ _ w. (Inl (JsError []), w)), io_abort = (\<lambda>_ w. (Inr (), w)),
     io_track = (\<lambda>_ w. (Some \<lparr>track_status = ''archived'', track_duration = None, track_loudness = None\<rparr>, w)),
     io_signalled = (\<lambda>_. False)\<rparr>"

theorem archived_track_polls_forever_witness:
  "fst (poll 1000 archived_io ''t1'' \<lparr>up_world = (), up_calls = [], up_reports = []\<rparr>) = None"
  by (rule archived_track_polls_forever) (simp_all add: archived_io_def)

subsection \<open>What the form shows of a failure\<close>

text \<open>
  The \<open>onError\<close> of \<open>AudioLibrary.tsx\<close>: whether the upload was cancelled, and the text of the error.
\<close>

definition shown_error :: "bool \<Rightarrow> thrown \<Rightarrow> string option" where
  "shown_error cancelled thrown_value =
     (if cancelled then None
      else let t = problemText (Option.bind thrown_value as_problem)
           in Some (if t \<noteq> [] then t else (case thrown_value of
                Some (JsError m) \<Rightarrow> ''Error: '' @ m | Some _ \<Rightarrow> ''[object Object]'' | None \<Rightarrow> ''undefined'')))"

text \<open>
  The reasons \<open>upload.ts\<close> words so carefully never reach the teacher. An unsupported format, a
  part without an ETag, a session that cannot be resumed: each is an \<open>Error\<close>, which
  \<open>problemText\<close> renders as the generic sentence, so the fallback to its message is dead.
\<close>
theorem upload_reason_lost:
  "shown_error False (Some (JsError m)) = Some ''Something went wrong.'' \<and>
   (case contentTypeOf f of Inl e \<Rightarrow> shown_error False e = Some ''Something went wrong.'' | Inr _ \<Rightarrow> True)"
  by (simp add: shown_error_def as_problem_def problemText_def coalesce_def contentTypeOf_def split: option.split)

end
