(* ===== verification/Moderation.thy ===== *)
theory Moderation
  imports JsNum
begin

text \<open>
  The moderation queue and its actions: the order of work of \<open>web/src/features/moderation/queue.ts\<close>,
  the rules of \<open>action.ts\<close>, and the request that \<open>Moderation.tsx\<close> builds from a checked draft.
\<close>

subsection \<open>The queue\<close>

definition PRIORITY_ORDER :: "string list" where
  "PRIORITY_ORDER = [''critical'', ''high'', ''normal'']"

definition UNATTENDED :: "string list" where
  "UNATTENDED = [''new'', ''triage'', ''investigating'']"

record reviewable =
  rv_status :: "string option"
  rv_priority :: "string option"
  rv_created_at :: "string option"

definition priorityRank :: "string option \<Rightarrow> nat" where
  "priorityRank priority =
     (case find_index (\<lambda>p. p = nullish priority []) PRIORITY_ORDER of
        None \<Rightarrow> length PRIORITY_ORDER | Some i \<Rightarrow> i)"

definition isUnattended :: "reviewable \<Rightarrow> bool" where
  "isUnattended report \<longleftrightarrow> nullish (rv_status report) [] \<in> set UNATTENDED"

definition filedAt :: "reviewable \<Rightarrow> real option" where
  "filedAt report =
     (if \<not> truthy_str (rv_created_at report) then None
      else (case date_parse (nullish (rv_created_at report) []) of NaN \<Rightarrow> None | Num t \<Rightarrow> Some t))"

text \<open>Whether the comparator is positive.\<close>

definition review_after :: "reviewable \<Rightarrow> reviewable \<Rightarrow> bool" where
  "review_after a b =
     (let byPriority = int (priorityRank (rv_priority a)) - int (priorityRank (rv_priority b)) in
      if byPriority \<noteq> 0 then byPriority > 0
      else (case (filedAt a, filedAt b) of
          (None, _) \<Rightarrow> True
        | (Some _, None) \<Rightarrow> False
        | (Some first, Some second) \<Rightarrow> first - second > 0))"

definition forReview :: "reviewable list \<Rightarrow> reviewable list" where
  "forReview reports = js_sort review_after reports"

definition unattendedCount :: "reviewable list \<Rightarrow> nat" where
  "unattendedCount reports = length (filter isUnattended reports)"

definition waited :: "string option \<Rightarrow> real \<Rightarrow> string" where
  "waited createdAt now =
     (if \<not> truthy_str createdAt then ''unknown''
      else (case date_parse (nullish createdAt []) of
          NaN \<Rightarrow> ''unknown''
        | Num t \<Rightarrow>
            let minutes = \<lfloor>(now - t) / 60000\<rfloor> in
            if minutes < 1 then ''just now''
            else if minutes < 60 then show_int minutes @ '' min''
            else let hours = minutes div 60 in
              if hours < 48 then show_int hours @ '' h'' else show_int (hours div 24) @ '' days''))"

definition upper_char :: "char \<Rightarrow> char" where
  "upper_char c = (let n = (of_char c :: nat) in if 97 \<le> n \<and> n \<le> 122 then char_of (n - 32) else c)"

definition categoryLabel :: "string option \<Rightarrow> string" where
  "categoryLabel category =
     (if \<not> truthy_str category then []
      else let words = map (\<lambda>c. if c = CHR ''_'' then CHR '' '' else c) (nullish category [])
        in map upper_char (take 1 words) @ drop 1 words)"

subsection \<open>Actions\<close>

definition USER_ACTIONS :: "string list" where
  "USER_ACTIONS = [''warn'', ''mute'', ''shadow_limit'', ''suspend'', ''ban'']"

definition CONTENT_ACTIONS :: "string list" where
  "CONTENT_ACTIONS = [''content_hide'', ''content_remove'']"

definition SUBJECT_TYPES :: "string list" where
  "SUBJECT_TYPES = [''test'', ''passage'', ''audio_track'', ''question_group'',
     ''question'', ''cue_card_set'', ''band_map'']"

definition REVOKES_SESSIONS :: "string list" where
  "REVOKES_SESSIONS = [''suspend'', ''ban'']"

definition toAction :: "string \<Rightarrow> string option" where
  "toAction value = List.find (\<lambda>known. known = value) (USER_ACTIONS @ CONTENT_ACTIONS)"

definition toSubjectType :: "string \<Rightarrow> string" where
  "toSubjectType value = nullish (List.find (\<lambda>known. known = value) SUBJECT_TYPES) []"

record action_draft =
  draft_action :: string
  draft_reason :: string
  targetUserXid :: string
  subjectType :: string
  subjectXid :: string
  expiresLocal :: string
  acknowledged :: bool

definition is_hex :: "char \<Rightarrow> bool" where
  "is_hex c \<longleftrightarrow> is_digit c \<or> c \<in> set ''abcdefABCDEF''"

text \<open>\<open>/^[0-9a-f]{8}-[0-9a-f]{4}-...$/i\<close>.\<close>

definition UUID :: "string \<Rightarrow> bool" where
  "UUID s \<longleftrightarrow> map length (js_split (CHR ''-'') s) = [8, 4, 4, 4, 12] \<and>
     list_all (list_all is_hex) (js_split (CHR ''-'') s)"

definition isContent :: "string \<Rightarrow> bool" where
  "isContent act = prefix ''content_'' act"

definition problemWith :: "action_draft \<Rightarrow> string option" where
  "problemWith draft =
     (if js_trim (draft_reason draft) = [] then
        Some (''Give a reason. It is written to a log that cannot be edited, and '' @ ''somebody reads it months later.'')
      else if isContent (draft_action draft) then
        (if js_trim (subjectXid draft) = [] then Some ''Name the content this acts on.''
         else if subjectType draft = [] then Some ''Choose what kind of content that is.''
         else if \<not> UUID (js_trim (subjectXid draft)) then Some ''That is not a content id.''
         else None)
      else if js_trim (targetUserXid draft) = [] then
        Some (''Name the person. An action with nobody named is recorded as done '' @ ''and ends no session.'')
      else if \<not> UUID (js_trim (targetUserXid draft)) then Some ''That is not a user id.''
      else if draft_action draft \<in> set REVOKES_SESSIONS \<and> \<not> acknowledged draft then
        Some ''Confirm that you are ending every session this person has open.''
      else None)"

text \<open>
  \<open>local_time\<close> is \<open>new Date(local)\<close> in the browser's own zone, \<open>None\<close> for an invalid date, and
  \<open>isoText\<close> its \<open>toISOString\<close>.
\<close>

definition expiryIso :: "(string \<Rightarrow> int option) \<Rightarrow> (int \<Rightarrow> string) \<Rightarrow> string \<Rightarrow> string option" where
  "expiryIso local_time isoText local = (if js_trim local = [] then None else map_option isoText (local_time local))"

subsection \<open>The request\<close>

record action_request =
  rq_action :: string
  rq_reason :: string
  rq_report :: string
  rq_subject :: "(string \<times> string) option"
  rq_user :: "string option"
  rq_expires :: "string option"

text \<open>The mutation of \<open>ActionForm\<close>, up to the call: \<open>Inl\<close> is the error it throws.\<close>

definition take_action ::
  "(string \<Rightarrow> int option) \<Rightarrow> (int \<Rightarrow> string) \<Rightarrow> string \<Rightarrow> action_draft \<Rightarrow> bool \<Rightarrow> string + action_request" where
  "take_action local_time isoText reportXid draft ack =
     (case problemWith (draft\<lparr>acknowledged := ack\<rparr>) of
        Some problem \<Rightarrow> Inl problem
      | None \<Rightarrow>
          let expires = expiryIso local_time isoText (expiresLocal draft);
              kind = subjectType draft;
              content = isContent (draft_action draft)
          in if content \<and> kind = [] then Inl ''Choose what kind of content that is.''
             else Inr \<lparr>rq_action = draft_action draft, rq_reason = js_trim (draft_reason draft), rq_report = reportXid,
                    rq_subject = (if content \<and> kind \<noteq> [] then Some (kind, js_trim (subjectXid draft)) else None),
                    rq_user = (if content \<and> kind \<noteq> [] then None else Some (js_trim (targetUserXid draft))),
                    rq_expires = expires\<rparr>)"

text \<open>
  The form's submit: a suspension or a ban only opens the dialog, whose confirmation runs the
  mutation with \<open>acknowledged\<close> true; anything else goes out at once.
\<close>

datatype form_event = SubmitForm | ConfirmDialog | DismissDialog

definition form_step ::
  "(string \<Rightarrow> int option) \<Rightarrow> (int \<Rightarrow> string) \<Rightarrow> string \<Rightarrow> action_draft \<Rightarrow> form_event \<Rightarrow>
   bool \<times> action_request list \<Rightarrow> bool \<times> action_request list" where
  "form_step local_time isoText reportXid draft ev st =
     (case st of (asking, sent) \<Rightarrow>
       let go = (\<lambda>ack. case take_action local_time isoText reportXid draft ack of
             Inl _ \<Rightarrow> (False, sent) | Inr rq \<Rightarrow> (False, sent @ [rq]))
       in case ev of
            SubmitForm \<Rightarrow> if draft_action draft \<in> set REVOKES_SESSIONS then (True, sent) else go False
          | ConfirmDialog \<Rightarrow> if asking then go True else st
          | DismissDialog \<Rightarrow> (False, sent))"

subsection \<open>The order of work\<close>

text \<open>What comes first: the more urgent, then the dated before the undated, the older first.\<close>

definition no_later :: "reviewable \<Rightarrow> reviewable \<Rightarrow> bool" where
  "no_later a b \<longleftrightarrow> priorityRank (rv_priority a) < priorityRank (rv_priority b) \<or>
     priorityRank (rv_priority a) = priorityRank (rv_priority b) \<and>
     (case (filedAt a, filedAt b) of
        (Some x, Some y) \<Rightarrow> x \<le> y | (_, None) \<Rightarrow> True | (None, Some _) \<Rightarrow> False)"

lemma no_later_trans: "no_later a b \<Longrightarrow> no_later b c \<Longrightarrow> no_later a c"
  by (auto simp: no_later_def split: option.splits)

lemma review_after_no_later: "if review_after a b then no_later b a else no_later a b"
  by (auto simp: review_after_def no_later_def Let_def split: option.splits)

interpretation review: list_order review_after no_later
  by unfold_locales (rule review_after_no_later, rule no_later_trans)

text \<open>
  The queue is worked in the right order. The list shown is the server's, each report once, and
  of any two the earlier is at least as urgent; among equally urgent ones the dated come before the
  undated, oldest first; and the count that leads the screen is the number of those still waiting,
  however they are ordered.
\<close>
theorem forReview_correct:
  "mset (forReview reports) = mset reports \<and> sorted_wrt no_later (forReview reports) \<and>
   unattendedCount (forReview reports) = unattendedCount reports"
proof -
  have m: "mset (forReview reports) = mset reports" by (simp add: forReview_def)
  then have "unattendedCount (forReview reports) = unattendedCount reports"
    unfolding unattendedCount_def by (metis mset_filter size_mset)
  moreover have "sorted_wrt no_later (forReview reports)"
    unfolding forReview_def by (rule review.sorts)
  ultimately show ?thesis using m by blast
qed

text \<open>
  The comparator contradicts itself. Two undated reports of one priority each sort after the
  other, for which JavaScript leaves the order of the whole array to the engine.
\<close>
theorem undated_reports_contradict:
  assumes "filedAt a = None" "filedAt b = None" "rv_priority a = rv_priority b"
  shows "review_after a b \<and> review_after b a"
  using assms by (simp add: review_after_def)

theorem undated_reports_contradict_witness:
  "review_after \<lparr>rv_status = Some ''new'', rv_priority = None, rv_created_at = None\<rparr>
     \<lparr>rv_status = Some ''triage'', rv_priority = None, rv_created_at = None\<rparr>"
  by (rule undated_reports_contradict [THEN conjunct1]) (simp_all add: filedAt_def)

subsection \<open>What is sent\<close>

text \<open>
  A draft is sent only if it says everything. No problem is reported exactly when there is a
  reason and, for an action on content, a kind and a well-formed id, for one on a person a
  well-formed id and, if it ends sessions, the acknowledgement.
\<close>
theorem problemWith_correct:
  "problemWith d = None \<longleftrightarrow> js_trim (draft_reason d) \<noteq> [] \<and>
     (if isContent (draft_action d)
      then subjectType d \<noteq> [] \<and> UUID (js_trim (subjectXid d))
      else UUID (js_trim (targetUserXid d)) \<and>
        (draft_action d \<in> {''suspend'', ''ban''} \<longrightarrow> acknowledged d))"
proof -
  have "\<not> UUID []" by (simp add: UUID_def)
  then show ?thesis by (auto simp: problemWith_def REVOKES_SESSIONS_def)
qed

lemma take_action_Inr:
  assumes "take_action local_time isoText reportXid d ack = Inr rq"
  shows "rq_action rq = draft_action d \<and> rq_report rq = reportXid \<and> rq_reason rq \<noteq> [] \<and>
    (if isContent (draft_action d) then rq_user rq = None \<and> (\<exists>k i. rq_subject rq = Some (k, i) \<and> k \<noteq> [] \<and> UUID i)
     else rq_subject rq = None \<and> (\<exists>u. rq_user rq = Some u \<and> UUID u)) \<and>
    (draft_action d \<in> set REVOKES_SESSIONS \<and> \<not> isContent (draft_action d) \<longrightarrow> ack)"
  using assms problemWith_correct [of "d\<lparr>acknowledged := ack\<rparr>"]
  by (auto simp: take_action_def Let_def REVOKES_SESSIONS_def split: option.splits if_splits)

lemma form_step_sends:
  assumes "form_step local_time isoText reportXid d ev (asking, sent) = (asking', sent')"
    "asking \<longrightarrow> draft_action d \<in> set REVOKES_SESSIONS"
  shows "(sent' = sent \<or> (\<exists>rq ack. sent' = sent @ [rq] \<and> take_action local_time isoText reportXid d ack = Inr rq \<and>
      (draft_action d \<in> set REVOKES_SESSIONS \<longrightarrow> ev = ConfirmDialog \<and> asking)))"
  using assms by (cases ev) (auto simp: form_step_def Let_def split: sum.splits if_splits)

text \<open>
  Nothing malformed and nothing unconfirmed is recorded. Every request of the form names exactly
  one target, a person or a piece of content, by a well-formed id, gives a reason and cites the
  report; and one that ends sessions goes out only from the confirmation of an open dialog.
\<close>
theorem form_sends_only_sound_requests:
  assumes "form_step local_time isoText reportXid d ev (asking, sent) = (asking', sent')"
    "asking \<longrightarrow> draft_action d \<in> set REVOKES_SESSIONS"
  shows "sent' = sent \<or> (\<exists>rq. sent' = sent @ [rq] \<and> rq_reason rq \<noteq> [] \<and> rq_report rq = reportXid \<and>
    ((\<exists>u. rq_user rq = Some u \<and> UUID u) \<and> rq_subject rq = None \<or>
     rq_user rq = None \<and> (\<exists>k i. rq_subject rq = Some (k, i) \<and> k \<noteq> [] \<and> UUID i)) \<and>
    (rq_action rq \<in> {''suspend'', ''ban''} \<longrightarrow> ev = ConfirmDialog \<and> asking))"
  using form_step_sends [OF assms]
proof (elim disjE exE conjE)
  fix rq ack
  assume s: "sent' = sent @ [rq]" "take_action local_time isoText reportXid d ack = Inr rq"
    "draft_action d \<in> set REVOKES_SESSIONS \<longrightarrow> ev = ConfirmDialog \<and> asking"
  from take_action_Inr [OF s(2)] s(1,3) show ?thesis by (auto simp: REVOKES_SESSIONS_def split: if_splits)
qed simp

definition sample_ban :: action_draft where
  "sample_ban = \<lparr>draft_action = ''ban'', draft_reason = ''x'', targetUserXid = ''018f2a1c-4c6e-7b3a-9d21-5f0e6a7b8c90'',
     subjectType = [], subjectXid = [], expiresLocal = [], acknowledged = False\<rparr>"

theorem form_sends_only_sound_requests_witness:
  "snd (form_step (\<lambda>_. None) (\<lambda>_. []) ''r'' sample_ban SubmitForm (False, [])) = []"
proof -
  have "form_step (\<lambda>_. None) (\<lambda>_. []) ''r'' sample_ban SubmitForm (False, []) = (True, [])"
    by (simp add: form_step_def sample_ban_def REVOKES_SESSIONS_def Let_def)
  from form_sends_only_sound_requests [OF this] this show ?thesis by (simp add: sample_ban_def REVOKES_SESSIONS_def)
qed

end
