(* ===== verification/OptionBank.thy ===== *)
theory OptionBank
  imports Prelude
begin

text \<open>
  The shared list of a matching or word-bank set, \<open>web/src/features/groups/optionBank.ts\<close>: the
  identifiers assigned by position, and the text box they are read from. Of the three dashes that
  may follow a pasted identifier only the ASCII one is a character here.
\<close>

datatype bank_style = Letters | Roman

record bank_option =
  opt_id :: string
  opt_text :: string

definition ROMAN :: "string list" where
  "ROMAN = [''i'', ''ii'', ''iii'', ''iv'', ''v'', ''vi'', ''vii'', ''viii'', ''ix'', ''x'',
     ''xi'', ''xii'', ''xiii'', ''xiv'', ''xv'', ''xvi'']"

definition LETTERS26 :: string where
  "LETTERS26 = ''ABCDEFGHIJKLMNOPQRSTUVWXYZ''"

definition identifier_of :: "nat \<Rightarrow> bank_style \<Rightarrow> string" where
  "identifier_of index style =
     (case style of
        Roman \<Rightarrow> if index < length ROMAN then ROMAN ! index else ''x'' @ show_nat (index + 1)
      | Letters \<Rightarrow>
          if index < length LETTERS26 then [LETTERS26 ! index]
          else
            let k = index div length LETTERS26 - 1;
                first = (if k < length LETTERS26 then LETTERS26 ! k else CHR ''Z'')
            in [first, LETTERS26 ! (index mod length LETTERS26)])"

subsection \<open>Identifiers in pasted text\<close>

definition is_letter :: "char \<Rightarrow> bool" where
  "is_letter c \<longleftrightarrow> (let n = (of_char c :: nat) in 65 \<le> n \<and> n \<le> 90 \<or> 97 \<le> n \<and> n \<le> 122)"

text \<open>
  \<open>[A-Za-z]|\<close> the roman numerals, whatever the case: a run of letters, since what must follow it is
  not one.
\<close>

definition pasted_id :: "string \<Rightarrow> bool" where
  "pasted_id s \<longleftrightarrow> length s = 1 \<or> to_lower s \<in> set ROMAN"

definition ID_SEPARATORS :: string where
  "ID_SEPARATORS = ''.)=:-''"

text \<open>What follows a leading identifier and its separator.\<close>

definition after_id :: "string \<Rightarrow> string option" where
  "after_id line =
     (let s = dropWhile is_space line; rest = dropWhile is_space (dropWhile is_letter s)
      in if pasted_id (takeWhile is_letter s) \<and> rest \<noteq> [] \<and> hd rest \<in> set ID_SEPARATORS then Some (tl rest) else None)"

definition LEADING_ID :: "string \<Rightarrow> string option" where
  "LEADING_ID line = (case after_id line of
      Some (c # r) \<Rightarrow> if is_space c then Some (dropWhile is_space r) else None | _ \<Rightarrow> None)"

definition BARE_ID :: "string \<Rightarrow> bool" where
  "BARE_ID line \<longleftrightarrow> (case after_id line of Some r \<Rightarrow> list_all is_space r | None \<Rightarrow> False)"

definition stripIdentifier :: "string \<Rightarrow> string" where
  "stripIdentifier line =
     (let stripped = js_trim (case LEADING_ID line of Some rest \<Rightarrow> rest | None \<Rightarrow> line)
      in if stripped \<noteq> [] then stripped else js_trim line)"

subsection \<open>The text box\<close>

definition parseBank :: "string \<Rightarrow> bank_style \<Rightarrow> bank_option list" where
  "parseBank text style =
     map (\<lambda>(index, body). \<lparr>opt_id = identifier_of index style, opt_text = body\<rparr>)
       (enumerate 0
         (filter (\<lambda>line. line \<noteq> [])
           (map stripIdentifier
             (filter (\<lambda>line. line \<noteq> [] \<and> \<not> BARE_ID line)
               (map js_trim (js_split (CHR 0x0A) text))))))"

definition formatBank :: "bank_option list option \<Rightarrow> string" where
  "formatBank options = js_join [CHR 0x0A] (map opt_text (nullish options []))"

definition styleOf :: "bank_option list option \<Rightarrow> bank_style" where
  "styleOf options =
     (let first = (case nullish options [] of [] \<Rightarrow> [] | x # _ \<Rightarrow> opt_id x)
      in if first \<noteq> [] \<and> list_all (\<lambda>c. c \<in> set ''ivx'') first then Roman else Letters)"

text \<open>The first text that repeats an earlier one, whatever the case.\<close>

fun repeated :: "string set \<Rightarrow> bank_option list \<Rightarrow> bank_option option" where
  "repeated seen [] = None"
| "repeated seen (x # xs) =
     (if to_lower (opt_text x) \<in> seen then Some x else repeated (insert (to_lower (opt_text x)) seen) xs)"

definition bankProblem :: "bank_option list \<Rightarrow> nat \<Rightarrow> nat \<Rightarrow> string option" where
  "bankProblem options least most =
     (if length options = 0 then None
      else if least \<noteq> 0 \<and> length options < least then
        Some (''A bank needs at least '' @ show_nat least @ '' options - there '' @
          (if length options = 1 then ''is 1'' else ''are '' @ show_nat (length options)) @ ''.'')
      else if most \<noteq> 0 \<and> length options > most then
        Some (''A bank holds at most '' @ show_nat most @ '' options - there are '' @ show_nat (length options) @ ''.'')
      else map_option (\<lambda>x. [CHR 0x22] @ opt_text x @ [CHR 0x22] @
          '' is in the list twice. A student choosing between '' @ ''two identical options has no right answer.'')
        (repeated {} options))"

subsection \<open>Properties\<close>

lemma distinct_letters: "distinct LETTERS26" "length LETTERS26 = 26"
  by (simp_all add: LETTERS26_def)

lemma length_ROMAN: "length ROMAN = 16" "distinct ROMAN"
  by (simp_all add: ROMAN_def)

lemma roman_letters: "s \<in> set ROMAN \<Longrightarrow> s \<noteq> [] \<and> list_all (\<lambda>c. c \<in> set ''ivx'') s"
  by (auto simp: ROMAN_def)

lemma letters_id:
  assumes "i < 702"
  shows "identifier_of i Letters =
    (if i < 26 then [LETTERS26 ! i] else [LETTERS26 ! (i div 26 - 1), LETTERS26 ! (i mod 26)])"
proof -
  have "i div 26 - 1 < 26" using assms by simp
  then show ?thesis by (simp add: identifier_of_def Let_def distinct_letters)
qed

lemma letters_nth_eq: "a < 26 \<Longrightarrow> b < 26 \<Longrightarrow> LETTERS26 ! a = LETTERS26 ! b \<longleftrightarrow> a = b"
  using distinct_letters by (simp add: nth_eq_iff_index_eq)

lemma identifier_letters_inj:
  assumes "i < 702" "j < 702" "identifier_of i Letters = identifier_of j Letters"
  shows "i = j"
proof (cases "i < 26 \<or> j < 26")
  case True
  with assms show ?thesis by (auto simp: letters_id letters_nth_eq split: if_splits)
next
  case False
  then have "i div 26 - 1 = j div 26 - 1" "i mod 26 = j mod 26"
    using assms letters_nth_eq [of "i div 26 - 1" "j div 26 - 1"] letters_nth_eq [of "i mod 26" "j mod 26"]
    by (auto simp: letters_id)
  moreover have "1 \<le> i div 26" "1 \<le> j div 26" using False by auto
  ultimately have "i div 26 = j div 26" "i mod 26 = j mod 26" by linarith+
  then show ?thesis by (metis div_mult_mod_eq)
qed

lemma identifier_roman_inj:
  assumes "identifier_of i Roman = identifier_of j Roman"
  shows "i = j"
proof -
  have digit: "\<not> list_all (\<lambda>c. c \<in> set ''ivx'') (''x'' @ show_nat n)" for n
  proof -
    obtain c where c: "c \<in> set (show_nat n)" using show_nat_nonempty [of n] by (cases "show_nat n") auto
    then have "is_digit c" by (rule show_nat_digits)
    then have "c \<notin> set ''ivx''" by (auto simp: is_digit_def)
    with c show ?thesis by (auto simp: list_all_iff)
  qed
  have roman: "list_all (\<lambda>c. c \<in> set ''ivx'') (ROMAN ! n)" if "n < 16" for n
    using roman_letters [of "ROMAN ! n"] that by (simp add: length_ROMAN)
  show ?thesis
  proof (cases "i < 16")
    case i: True
    show ?thesis
    proof (cases "j < 16")
      case True
      with i assms show ?thesis using length_ROMAN by (simp add: identifier_of_def nth_eq_iff_index_eq)
    next
      case False
      with i assms have "ROMAN ! i = ''x'' @ show_nat (j + 1)" by (simp add: identifier_of_def length_ROMAN)
      with digit [of "j + 1"] roman [OF i] show ?thesis by simp
    qed
  next
    case i: False
    show ?thesis
    proof (cases "j < 16")
      case True
      with i assms have "ROMAN ! j = ''x'' @ show_nat (i + 1)" by (simp add: identifier_of_def length_ROMAN)
      with digit [of "i + 1"] roman [OF True] show ?thesis by simp
    next
      case False
      with i assms show ?thesis by (simp add: identifier_of_def length_ROMAN)
    qed
  qed
qed

text \<open>
  Every option of a bank has an identifier of its own. In either style the identifiers of a
  parsed bank are pairwise different, as long as letters suffice (702 options), and the style the
  bank was saved in is read back from it.
\<close>
theorem bank_identifiers_distinct:
  assumes "style = Letters \<longrightarrow> length (parseBank text style) \<le> 702"
  shows "distinct (map opt_id (parseBank text style)) \<and>
    (parseBank text style \<noteq> [] \<longrightarrow> styleOf (Some (parseBank text style)) = style)"
proof -
  define bodies where "bodies = filter (\<lambda>line. line \<noteq> [])
    (map stripIdentifier (filter (\<lambda>line. line \<noteq> [] \<and> \<not> BARE_ID line) (map js_trim (js_split (CHR 0x0A) text))))"
  have p: "parseBank text style = map (\<lambda>(index, body). \<lparr>opt_id = identifier_of index style, opt_text = body\<rparr>) (enumerate 0 bodies)"
    by (simp add: parseBank_def bodies_def)
  have "map opt_id (parseBank text style) = map (\<lambda>i. identifier_of i style) [0..<length bodies]"
    unfolding p by (rule nth_equalityI) (simp_all add: nth_enumerate_eq)
  moreover have "inj_on (\<lambda>i. identifier_of i style) {0..<length bodies}"
    using assms p by (cases style) (auto intro!: inj_onI intro: identifier_letters_inj identifier_roman_inj)
  ultimately have d: "distinct (map opt_id (parseBank text style))"
    by (simp add: distinct_map)
  have "styleOf (Some (parseBank text style)) = style" if "parseBank text style \<noteq> []"
  proof -
    from that p obtain b bs where "bodies = b # bs" by (cases bodies) auto
    then have "opt_id (hd (parseBank text style)) = identifier_of 0 style" using p by simp
    with that show ?thesis
      by (cases "parseBank text style"; cases style) (auto simp: styleOf_def identifier_of_def ROMAN_def LETTERS26_def)
  qed
  with d show ?thesis by blast
qed

theorem bank_identifiers_distinct_witness:
  "distinct (map opt_id (parseBank ''war'' Letters))"
  by (rule bank_identifiers_distinct [THEN conjunct1]) (simp add: parseBank_def)

text \<open>A text the box gives back as it is: trimmed, on one line, with nothing that looks pasted.\<close>

definition plain_text :: "string \<Rightarrow> bool" where
  "plain_text t \<longleftrightarrow> t \<noteq> [] \<and> \<not> is_space (hd t) \<and> \<not> is_space (last t) \<and> CHR 0x0A \<notin> set t \<and> after_id t = None"

lemma plain_facts:
  assumes "plain_text t"
  shows "js_trim t = t" "stripIdentifier t = t" "\<not> BARE_ID t" "t \<noteq> []"
  using assms js_trim_id [of t] by (simp_all add: plain_text_def stripIdentifier_def LEADING_ID_def BARE_ID_def)

text \<open>
  Reopening a bank changes nothing. When no option's text itself begins like a pasted
  identifier, the texts shown in the box are read back as the same options with the same
  identifiers, in either style.
\<close>
theorem bank_roundtrip:
  assumes "list_all (\<lambda>x. plain_text (opt_text x)) options"
    "map opt_id options = map (\<lambda>i. identifier_of i style) [0..<length options]"
  shows "parseBank (formatBank (Some options)) style = options"
proof (cases "options = []")
  case True
  then show ?thesis by (simp add: parseBank_def formatBank_def js_trim_def trim_start_def)
next
  case False
  have plain: "plain_text t" if "t \<in> set (map opt_text options)" for t
    using that assms(1) by (auto simp: list_all_iff)
  have "js_split (CHR 0x0A) (formatBank (Some options)) = map opt_text options"
    unfolding formatBank_def using False plain by (simp add: js_split_join plain_text_def)
  moreover have "map js_trim (map opt_text options) = map opt_text options"
    using plain plain_facts(1) by (intro map_idI) blast
  moreover have "filter (\<lambda>line. line \<noteq> [] \<and> \<not> BARE_ID line) (map opt_text options) = map opt_text options"
    using plain plain_facts(3,4) by (intro filter_True) blast
  moreover have "map stripIdentifier (map opt_text options) = map opt_text options"
    using plain plain_facts(2) by (intro map_idI) blast
  moreover have "filter (\<lambda>line. line \<noteq> []) (map opt_text options) = map opt_text options"
    using plain plain_facts(4) by (intro filter_True) blast
  ultimately have p: "parseBank (formatBank (Some options)) style =
      map (\<lambda>(index, body). \<lparr>opt_id = identifier_of index style, opt_text = body\<rparr>) (enumerate 0 (map opt_text options))"
    by (simp only: parseBank_def)
  have "opt_id (options ! i) = identifier_of i style" if "i < length options" for i
    using arg_cong [OF assms(2), of "\<lambda>xs. xs ! i"] that by simp
  then show ?thesis unfolding p by (intro nth_equalityI) (simp_all add: nth_enumerate_eq)
qed

lemmas bank_eval = js_trim_def trim_start_def is_space_def BARE_ID_def LEADING_ID_def after_id_def pasted_id_def
  is_letter_def to_lower_def lower_char_def stripIdentifier_def ID_SEPARATORS_def Let_def

lemma tax_plain: "plain_text ''Tax: who paid''"
  by (simp add: plain_text_def after_id_def pasted_id_def is_letter_def is_space_def to_lower_def lower_char_def ROMAN_def Let_def)

theorem bank_roundtrip_witness:
  "parseBank (formatBank (Some [\<lparr>opt_id = ''i'', opt_text = ''Tax: who paid''\<rparr>])) Roman = [\<lparr>opt_id = ''i'', opt_text = ''Tax: who paid''\<rparr>]"
  by (rule bank_roundtrip) (simp_all add: tax_plain identifier_of_def ROMAN_def)

text \<open>
  But one pasted identifier hides another. A heading that itself starts with a letter and a dash
  survives being pasted with its identifier, and loses its first word the next time the bank is
  opened and saved untouched.
\<close>
theorem reopened_bank_loses_word:
  "map opt_text (parseBank ''B. A - Z guide'' Letters) = [''A - Z guide''] \<and>
   map opt_text (parseBank (formatBank (Some (parseBank ''B. A - Z guide'' Letters))) Letters) = [''Z guide'']"
proof -
  have "\<not> BARE_ID ''B. A - Z guide''" "stripIdentifier ''B. A - Z guide'' = ''A - Z guide''" "js_trim ''B. A - Z guide'' = ''B. A - Z guide''"
    "\<not> BARE_ID ''A - Z guide''" "stripIdentifier ''A - Z guide'' = ''Z guide''" "js_trim ''A - Z guide'' = ''A - Z guide''"
    by (simp_all add: bank_eval)
  then show ?thesis by (simp add: parseBank_def formatBank_def)
qed

end
