(* ===== verification/Items.thy ===== *)
theory Items
  imports JsNum "HOL-Library.Product_Lexorder"
begin

text \<open>
  Reading an item analysis, \<open>web/src/features/analytics/items.ts\<close>, beside the rules of the server it
  mirrors, \<open>app/modules/analytics/stats.py\<close>. Numbers are exact; \<open>Math.round\<close> rounds halves up and
  Python's \<open>round\<close> to the even neighbour.
\<close>

definition js_round :: "real \<Rightarrow> int" where
  "js_round x = \<lfloor>x + 1 / 2\<rfloor>"

definition MIN_RESPONSES :: int where
  "MIN_RESPONSES = 20"

definition NEAR_ZERO_P :: real where
  "NEAR_ZERO_P = 0.05"

definition NEAR_ONE_P :: real where
  "NEAR_ONE_P = 0.98"

definition COMMON_WRONG_SHARE :: real where
  "COMMON_WRONG_SHARE = 0.1"

definition CONCENTRATED_WRONG :: real where
  "CONCENTRATED_WRONG = 0.5"

datatype reason = NegativeDiscrimination | CommonWrongAnswer | NearZeroP | NearOneP

datatype verdict = Broken | CheckKey | Fine | NoData

record wrong_entry =
  we_value :: "string option"
  we_count :: "int option"

record item =
  it_number :: "int option"
  question_xid :: "string option"
  n_responses :: "int option"
  p_value :: "jsnum option"
  discrimination :: "jsnum option"
  common_wrong :: "wrong_entry list option"
  flag_reasons :: "reason list option"

record wrong_answer =
  wa_value :: string
  wa_count :: int
  share :: real
  shareOfWrong :: "real option"
  likelyMissingAnswer :: bool

record assessment =
  as_verdict :: verdict
  reasons :: "reason list"
  thin :: bool
  as_n :: int

subsection \<open>Assessing an item\<close>

definition numberOrNull :: "jsnum option \<Rightarrow> real option" where
  "numberOrNull value = (case value of Some (Num x) \<Rightarrow> Some x | _ \<Rightarrow> None)"

definition answers_of :: "item \<Rightarrow> int" where
  "answers_of i = nullish (n_responses i) 0"

definition wrong_count :: "item \<Rightarrow> int option" where
  "wrong_count i = map_option (\<lambda>p. js_round (of_int (answers_of i) * (1 - p))) (numberOrNull (p_value i))"

definition wrong_row :: "item \<Rightarrow> wrong_entry \<Rightarrow> wrong_answer list" where
  "wrong_row i entry =
     (let value = nullish (we_value entry) []; number = nullish (we_count entry) 0 in
      if value = [] \<or> number \<le> 0 then []
      else
        let sh = of_int number / of_int (answers_of i);
            shOfWrong = (case wrong_count i of
                Some w \<Rightarrow> if w > 0 then Some (min 1 (of_int number / of_int w)) else None
              | None \<Rightarrow> None)
        in [\<lparr>wa_value = value, wa_count = number, share = sh, shareOfWrong = shOfWrong,
             likelyMissingAnswer = (sh \<ge> COMMON_WRONG_SHARE \<and>
               ((case shOfWrong of Some s \<Rightarrow> s \<ge> CONCENTRATED_WRONG | None \<Rightarrow> False) \<or>
                (case numberOrNull (discrimination i) of Some d \<Rightarrow> d < 0 | None \<Rightarrow> False)))\<rparr>])"

definition wrongAnswers :: "item \<Rightarrow> wrong_answer list" where
  "wrongAnswers i =
     (if answers_of i \<le> 0 then [] else concat (map (wrong_row i) (nullish (common_wrong i) [])))"

text \<open>Whether the item's own numbers give the reason.\<close>

definition own_reason :: "item \<Rightarrow> reason \<Rightarrow> bool" where
  "own_reason i r = (case r of
      NegativeDiscrimination \<Rightarrow> (case numberOrNull (discrimination i) of Some d \<Rightarrow> d < 0 | None \<Rightarrow> False)
    | CommonWrongAnswer \<Rightarrow> (\<exists>w \<in> set (wrongAnswers i). share w \<ge> COMMON_WRONG_SHARE)
    | NearZeroP \<Rightarrow> (case numberOrNull (p_value i) of Some p \<Rightarrow> p < NEAR_ZERO_P | None \<Rightarrow> False)
    | NearOneP \<Rightarrow> (case numberOrNull (p_value i) of Some p \<Rightarrow> p > NEAR_ONE_P | None \<Rightarrow> False))"

definition assess :: "item \<Rightarrow> assessment" where
  "assess i =
     (let n = answers_of i in
      if n \<le> 0 then \<lparr>as_verdict = NoData, reasons = [], thin = True, as_n = 0\<rparr>
      else
        let served = set (nullish (flag_reasons i) []);
            found = filter (\<lambda>r. own_reason i r \<or> r \<in> served) [NegativeDiscrimination, CommonWrongAnswer, NearZeroP, NearOneP];
            v = (if NegativeDiscrimination \<in> set found \<or> NearZeroP \<in> set found then Broken
                 else if CommonWrongAnswer \<in> set found then CheckKey else Fine)
        in \<lparr>as_verdict = v, reasons = found, thin = (n < MIN_RESPONSES), as_n = n\<rparr>)"

subsection \<open>Ordering and grouping\<close>

definition RANK :: "verdict \<Rightarrow> int" where
  "RANK v = (case v of Broken \<Rightarrow> 0 | CheckKey \<Rightarrow> 1 | Fine \<Rightarrow> 2 | NoData \<Rightarrow> 3)"

definition topWrongShare :: "item \<Rightarrow> real" where
  "topWrongShare i = foldl (\<lambda>most w. max most (share w)) 0 (wrongAnswers i)"

definition concern_rank :: "item \<Rightarrow> int" where
  "concern_rank i = RANK (as_verdict (assess i)) * 2 + (if thin (assess i) then 1 else 0)"

definition number_order :: "item \<Rightarrow> item \<Rightarrow> real" where
  "number_order a b = of_int (nullish (it_number a) 0 - nullish (it_number b) 0)"

text \<open>The comparator: a negative number puts \<open>a\<close> first.\<close>

definition concern_order :: "item \<Rightarrow> item \<Rightarrow> real" where
  "concern_order a b =
     (if concern_rank a \<noteq> concern_rank b then of_int (concern_rank a - concern_rank b)
      else
        let dl = numberOrNull (discrimination a); dr = numberOrNull (discrimination b);
            sl = topWrongShare a; sr = topWrongShare b
        in if as_verdict (assess a) = Broken \<and> dl \<noteq> dr
           then (case dl of None \<Rightarrow> 1 | Some x \<Rightarrow> (case dr of None \<Rightarrow> - 1 | Some y \<Rightarrow> x - y))
           else if as_verdict (assess a) = CheckKey \<and> sl \<noteq> sr then sr - sl
           else number_order a b)"

definition byConcern :: "item list \<Rightarrow> item list" where
  "byConcern items = js_sort (\<lambda>a b. concern_order a b > 0) items"

definition dedupe_row :: "item \<Rightarrow> (string, item) jsmap \<times> item list \<Rightarrow> (string, item) jsmap \<times> item list" where
  "dedupe_row row st = (case st of (best, ungrouped) \<Rightarrow>
     if \<not> truthy_str (question_xid row) then (best, ungrouped @ [row])
     else
       let key = nullish (question_xid row) []
       in (case jsmap_get best key of
             None \<Rightarrow> (jsmap_set key row best, ungrouped)
           | Some held \<Rightarrow>
               if answers_of row > answers_of held then (jsmap_set key row best, ungrouped) else (best, ungrouped)))"

definition dedupeByQuestion :: "item list \<Rightarrow> item list" where
  "dedupeByQuestion rows = (case fold dedupe_row rows ([], []) of (best, ungrouped) \<Rightarrow> map snd best @ ungrouped)"

record verdict_tally =
  t_broken :: nat
  t_checkKey :: nat
  t_fine :: nat
  t_noData :: nat

definition tally_item :: "item \<Rightarrow> verdict_tally \<Rightarrow> verdict_tally" where
  "tally_item i t = (case as_verdict (assess i) of
      Broken \<Rightarrow> t\<lparr>t_broken := t_broken t + 1\<rparr>
    | CheckKey \<Rightarrow> t\<lparr>t_checkKey := t_checkKey t + 1\<rparr>
    | Fine \<Rightarrow> t\<lparr>t_fine := t_fine t + 1\<rparr>
    | NoData \<Rightarrow> t\<lparr>t_noData := t_noData t + 1\<rparr>)"

definition summarise :: "item list \<Rightarrow> verdict_tally" where
  "summarise items = fold tally_item items \<lparr>t_broken = 0, t_checkKey = 0, t_fine = 0, t_noData = 0\<rparr>"

subsection \<open>Display\<close>

datatype bar_side = Negative | Positive

definition discriminationBar :: "jsnum option \<Rightarrow> (bar_side \<times> int) option" where
  "discriminationBar value = map_option (\<lambda>correlation.
     let clamped = max (- 1) (min 1 correlation)
     in (if clamped < 0 then Negative else Positive, js_round (\<bar>clamped\<bar> * 100))) (numberOrNull value)"

definition meanTime :: "jsnum option \<Rightarrow> string option" where
  "meanTime ms = (case numberOrNull ms of
      None \<Rightarrow> None
    | Some value \<Rightarrow>
        if value \<le> 0 then None
        else let seconds = js_round (value / 1000) in
          if seconds < 60 then Some (show_int seconds @ ''s'')
          else Some (show_int (seconds div 60) @ ''m '' @ pad_start 2 (CHR ''0'') (show_int (seconds mod 60)) @ ''s''))"

text \<open>\<^const>\<open>None\<close> is the dash.\<close>

definition percentCorrect :: "jsnum option \<Rightarrow> string option" where
  "percentCorrect p = map_option (\<lambda>value. show_int (js_round (value * 100)) @ ''%'') (numberOrNull p)"

record test_version =
  version_no :: int
  version_status :: string

definition preferredVersion :: "test_version list \<Rightarrow> test_version option" where
  "preferredVersion versions =
     (let newestFirst = js_sort (\<lambda>a b. version_no b - version_no a > 0) versions in
      case List.find (\<lambda>v. version_status v = ''published'') newestFirst of
        Some v \<Rightarrow> Some v
      | None \<Rightarrow> (case List.find (\<lambda>v. version_status v = ''archived'') newestFirst of
          Some v \<Rightarrow> Some v
        | None \<Rightarrow> (case newestFirst of v # _ \<Rightarrow> Some v | [] \<Rightarrow> None)))"

subsection \<open>The server's rules\<close>

text \<open>\<open>round(x, 4)\<close>.\<close>

definition round4 :: "real \<Rightarrow> real" where
  "round4 x = (let y = x * 10000; f = \<lfloor>y\<rfloor>; d = y - of_int f
     in of_int (if d < 1 / 2 then f else if d > 1 / 2 then f + 1 else if even f then f else f + 1) / 10000)"

record item_stats =
  st_n :: int
  st_p_value :: "real option"
  st_discrimination :: "real option"
  st_wrong :: "(string \<times> int) list"

definition server_flagged :: "item_stats \<Rightarrow> reason list" where
  "server_flagged st =
     (if st_n st \<ge> 20 then
        (case st_p_value st of Some p \<Rightarrow> if p < 0.05 then [NearZeroP] else [] | None \<Rightarrow> []) @
        (case st_p_value st of Some p \<Rightarrow> if p > 0.98 then [NearOneP] else [] | None \<Rightarrow> []) @
        (case st_discrimination st of Some d \<Rightarrow> if d < 0 then [NegativeDiscrimination] else [] | None \<Rightarrow> []) @
        (if \<exists>w \<in> set (st_wrong st). round4 (of_int (snd w) / of_int (st_n st)) \<ge> 0.10 then [CommonWrongAnswer] else [])
      else [])"

datatype server_action = ReviewKey | ReviewItem | RetireTooEasy | NoAction

definition action_for :: "reason list \<Rightarrow> server_action" where
  "action_for rs =
     (if NegativeDiscrimination \<in> set rs then ReviewKey
      else if CommonWrongAnswer \<in> set rs then ReviewKey
      else if NearZeroP \<in> set rs then ReviewItem
      else if NearOneP \<in> set rs then RetireTooEasy else NoAction)"

text \<open>The row the endpoint sends: the statistics without their shares, and the flags.\<close>

definition item_of :: "item_stats \<Rightarrow> item" where
  "item_of st = \<lparr>it_number = None, question_xid = None, n_responses = Some (st_n st),
     p_value = map_option Num (st_p_value st), discrimination = map_option Num (st_discrimination st),
     common_wrong = Some (map (\<lambda>(v, c). \<lparr>we_value = Some v, we_count = Some c\<rparr>) (st_wrong st)),
     flag_reasons = Some (server_flagged st)\<rparr>"

subsection \<open>The same findings as the server\<close>

lemma round4_ge: "0.1 \<le> x \<Longrightarrow> 0.1 \<le> round4 x"
proof -
  assume "0.1 \<le> x"
  then have "1000 \<le> \<lfloor>x * 10000\<rfloor>" by (simp add: le_floor_iff)
  then show ?thesis by (auto simp: round4_def Let_def)
qed

lemma reasons_set:
  "0 < answers_of i \<Longrightarrow> set (reasons (assess i)) = {r. own_reason i r \<or> r \<in> set (nullish (flag_reasons i) [])}"
proof -
  assume n: "0 < answers_of i"
  have all: "r \<in> set [NegativeDiscrimination, CommonWrongAnswer, NearZeroP, NearOneP]" for r by (cases r) auto
  have "reasons (assess i) = filter (\<lambda>r. own_reason i r \<or> r \<in> set (nullish (flag_reasons i) []))
      [NegativeDiscrimination, CommonWrongAnswer, NearZeroP, NearOneP]"
    using n by (simp add: assess_def Let_def del: filter.simps)
  then show ?thesis using all by (simp only: set_filter) blast
qed

lemma wrong_share:
  "w \<in> set (wrongAnswers (item_of st)) \<Longrightarrow> \<exists>v c. (v, c) \<in> set (st_wrong st) \<and> share w = of_int c / of_int (st_n st)"
  by (auto simp: wrongAnswers_def item_of_def answers_of_def wrong_row_def Let_def split: if_splits)

lemma own_served:
  assumes "20 \<le> st_n st" "own_reason (item_of st) r"
  shows "r \<in> set (server_flagged st)"
proof (cases r)
  case CommonWrongAnswer
  with assms(2) obtain w where w: "w \<in> set (wrongAnswers (item_of st))" "0.1 \<le> share w"
    by (auto simp: own_reason_def COMMON_WRONG_SHARE_def)
  from wrong_share [OF w(1)] w(2) have "\<exists>w \<in> set (st_wrong st). round4 (of_int (snd w) / of_int (st_n st)) \<ge> 0.10"
    using round4_ge by force
  with assms(1) CommonWrongAnswer show ?thesis by (simp add: server_flagged_def)
qed (use assms in \<open>auto simp: own_reason_def server_flagged_def item_of_def numberOrNull_def NEAR_ZERO_P_def NEAR_ONE_P_def
    split: option.splits jsnum.splits\<close>)

lemma action_for_cong: "set rs = set rs' \<Longrightarrow> action_for rs = action_for rs'"
  by (simp add: action_for_def)

text \<open>
  The screen and the server say the same. With at least twenty responses the reasons shown are
  exactly the server's flags, so the badge never disagrees with the suggested action, which is the
  action of the first reason listed; with fewer, where the server flags nothing, the row's own
  numbers still decide, and the row is marked thin.
\<close>
theorem assess_agrees_with_server:
  assumes "0 < st_n st"
  shows "(20 \<le> st_n st \<longrightarrow> set (reasons (assess (item_of st))) = set (server_flagged st) \<and> \<not> thin (assess (item_of st))) \<and>
    (st_n st < 20 \<longrightarrow> server_flagged st = [] \<and> set (reasons (assess (item_of st))) = {r. own_reason (item_of st) r} \<and>
       thin (assess (item_of st))) \<and>
    action_for (reasons (assess (item_of st))) =
      (case reasons (assess (item_of st)) of [] \<Rightarrow> NoAction | r # _ \<Rightarrow> action_for [r])"
proof -
  have n: "answers_of (item_of st) = st_n st" "nullish (flag_reasons (item_of st)) [] = server_flagged st"
    by (simp_all add: answers_of_def item_of_def)
  have th: "thin (assess (item_of st)) \<longleftrightarrow> st_n st < 20"
    using assms n by (simp add: assess_def MIN_RESPONSES_def Let_def del: filter.simps)
  have set: "set (reasons (assess (item_of st))) = {r. own_reason (item_of st) r \<or> r \<in> set (server_flagged st)}"
    using assms reasons_set [of "item_of st"] n by simp
  have none: "st_n st < 20 \<Longrightarrow> server_flagged st = []" by (simp add: server_flagged_def)
  have "action_for (filter P [NegativeDiscrimination, CommonWrongAnswer, NearZeroP, NearOneP]) =
      (case filter P [NegativeDiscrimination, CommonWrongAnswer, NearZeroP, NearOneP] of [] \<Rightarrow> NoAction | r # _ \<Rightarrow> action_for [r])" for P
    by (simp add: action_for_def)
  moreover obtain P where "reasons (assess (item_of st)) = filter P [NegativeDiscrimination, CommonWrongAnswer, NearZeroP, NearOneP]"
    using assms n(1) by (auto simp: assess_def Let_def simp del: filter.simps)
  ultimately have "action_for (reasons (assess (item_of st))) =
      (case reasons (assess (item_of st)) of [] \<Rightarrow> NoAction | r # _ \<Rightarrow> action_for [r])" by simp
  with th set none own_served [of st] show ?thesis by auto
qed

definition sample_stats :: item_stats where
  "sample_stats = \<lparr>st_n = 25, st_p_value = Some 0.4, st_discrimination = Some (- 0.2), st_wrong = [(''cat'', 10)]\<rparr>"

theorem assess_agrees_with_server_witness:
  "set (reasons (assess (item_of sample_stats))) = set (server_flagged sample_stats)"
  using assess_agrees_with_server [of sample_stats] by (simp add: sample_stats_def)

subsection \<open>Worst first\<close>

text \<open>
  The order is that of a key, compared from left to right: verdict and evidence, whether the
  deciding number is missing, that number, the position on the paper.
\<close>

definition concern_key :: "item \<Rightarrow> int \<times> nat \<times> real \<times> int" where
  "concern_key a = (concern_rank a,
     (if as_verdict (assess a) = Broken \<and> numberOrNull (discrimination a) = None then 1 else 0),
     (case as_verdict (assess a) of
        Broken \<Rightarrow> nullish (numberOrNull (discrimination a)) 0
      | CheckKey \<Rightarrow> - topWrongShare a
      | _ \<Rightarrow> 0),
     nullish (it_number a) 0)"

lemma rank_verdict: "concern_rank a = concern_rank b \<Longrightarrow> as_verdict (assess a) = as_verdict (assess b)"
  by (cases "as_verdict (assess a)"; cases "as_verdict (assess b)") (auto simp: concern_rank_def RANK_def split: if_splits)

lemma concern_order_key: "concern_order a b > 0 \<longleftrightarrow> concern_key b < concern_key a"
proof (cases "concern_rank a = concern_rank b")
  case True
  then have v: "as_verdict (assess b) = as_verdict (assess a)" by (metis rank_verdict)
  show ?thesis
  proof (cases "as_verdict (assess a)")
    case Broken
    with True v show ?thesis
      by (cases "numberOrNull (discrimination a)"; cases "numberOrNull (discrimination b)")
        (auto simp: concern_order_def concern_key_def number_order_def Let_def)
  qed (use True v in \<open>auto simp: concern_order_def concern_key_def number_order_def Let_def\<close>)
next
  case False
  then show ?thesis by (auto simp: concern_order_def concern_key_def less_prod_simp)
qed

text \<open>
  The worst comes first. The list shown holds the same rows; a broken item is never below a
  key to check nor that below a fine one; within a verdict solid evidence comes before thin; broken
  items are ordered by how negative their discrimination is, the ones without a number last, keys to
  check by their most popular wrong answer; and the paper's numbering only breaks ties.
\<close>
theorem byConcern_correct:
  "mset (byConcern items) = mset items \<and> sorted (map concern_key (byConcern items)) \<and>
   sorted (map (\<lambda>i. RANK (as_verdict (assess i))) (byConcern items))"
proof -
  have "byConcern items = sort_key concern_key items"
    unfolding byConcern_def by (rule js_sort_sort_key) (rule concern_order_key)
  then have s: "sorted (map concern_key (byConcern items))" by simp
  have "RANK (as_verdict (assess a)) \<le> RANK (as_verdict (assess b))" if "concern_key a \<le> concern_key b" for a b
    using that by (auto simp: concern_key_def less_eq_prod_simp concern_rank_def split: if_splits)
  with s have "sorted (map (\<lambda>i. RANK (as_verdict (assess i))) (byConcern items))"
    unfolding sorted_map by (rule sorted_wrt_mono_rel [rotated]) blast
  with s show ?thesis by (simp add: byConcern_def)
qed

subsection \<open>One row per question\<close>

definition grouped :: "item \<Rightarrow> bool" where
  "grouped r \<longleftrightarrow> truthy_str (question_xid r)"

definition best_of :: "item list \<Rightarrow> string \<Rightarrow> item \<Rightarrow> bool" where
  "best_of rows k r \<longleftrightarrow> r \<in> set rows \<and> grouped r \<and> question_xid r = Some k \<and>
     (\<forall>r' \<in> set rows. question_xid r' = Some k \<longrightarrow> answers_of r' \<le> answers_of r)"

definition dedupe_inv :: "item list \<Rightarrow> (string, item) jsmap \<times> item list \<Rightarrow> bool" where
  "dedupe_inv rows st \<longleftrightarrow> (case st of (best, ungrouped) \<Rightarrow>
     ungrouped = filter (\<lambda>r. \<not> grouped r) rows \<and> distinct (map fst best) \<and>
     (\<forall>k. case jsmap_get best k of
        Some r \<Rightarrow> best_of rows k r
      | None \<Rightarrow> \<not> (\<exists>r \<in> set rows. grouped r \<and> question_xid r = Some k)))"

lemma grouped_key: "grouped r \<Longrightarrow> question_xid r = Some (nullish (question_xid r) [])"
  by (cases "question_xid r") (auto simp: grouped_def)

lemma dedupe_row_inv:
  assumes "dedupe_inv rows st"
  shows "dedupe_inv (rows @ [row]) (dedupe_row row st)"
proof -
  obtain best ungrouped where st: "st = (best, ungrouped)" by (cases st)
  define key where "key = nullish (question_xid row) []"
  have inv: "ungrouped = filter (\<lambda>r. \<not> grouped r) rows" "distinct (map fst best)"
    "\<And>k. case jsmap_get best k of Some r \<Rightarrow> best_of rows k r
      | None \<Rightarrow> \<not> (\<exists>r \<in> set rows. grouped r \<and> question_xid r = Some k)"
    using assms by (auto simp: dedupe_inv_def st)
  show ?thesis
  proof (cases "grouped row")
    case False
    then have k: "question_xid row \<noteq> Some k" if "k \<noteq> []" for k using that by (auto simp: grouped_def)
    have "case jsmap_get best k of Some r \<Rightarrow> best_of (rows @ [row]) k r
      | None \<Rightarrow> \<not> (\<exists>r \<in> set (rows @ [row]). grouped r \<and> question_xid r = Some k)" for k
    proof (cases "jsmap_get best k")
      case None
      with inv(3) [of k] False show ?thesis by auto
    next
      case (Some r)
      with inv(3) [of k] have "best_of rows k r" by simp
      moreover from this have "k \<noteq> []" by (auto simp: best_of_def grouped_def)
      ultimately show ?thesis using Some k by (auto simp: best_of_def)
    qed
    with False inv show ?thesis by (auto simp: dedupe_inv_def st dedupe_row_def grouped_def)
  next
    case True
    then have key: "question_xid row = Some key" unfolding key_def by (rule grouped_key)
    have other: "case jsmap_get best k of Some r \<Rightarrow> best_of (rows @ [row]) k r
      | None \<Rightarrow> \<not> (\<exists>r \<in> set (rows @ [row]). grouped r \<and> question_xid r = Some k)" if "k \<noteq> key" for k
      using inv(3) [of k] that key by (cases "jsmap_get best k") (auto simp: best_of_def)
    have new: "best_of (rows @ [row]) key row" if "\<And>r. jsmap_get best key = Some r \<Longrightarrow> answers_of r < answers_of row"
    proof -
      have "answers_of r' \<le> answers_of row" if r': "r' \<in> set rows" "question_xid r' = Some key" for r'
      proof (cases "jsmap_get best key")
        case None
        with inv(3) [of key] r' True key show ?thesis by (auto simp: grouped_def)
      next
        case (Some r)
        with inv(3) [of key] r' \<open>\<And>r. jsmap_get best key = Some r \<Longrightarrow> answers_of r < answers_of row\<close> [OF Some]
        show ?thesis by (fastforce simp: best_of_def)
      qed
      with True key show ?thesis by (auto simp: best_of_def)
    qed
    have keep: "best_of (rows @ [row]) key r" if "jsmap_get best key = Some r" "\<not> answers_of r < answers_of row" for r
      using inv(3) [of key] that by (auto simp: best_of_def)
    show ?thesis
    proof (cases "\<forall>r. jsmap_get best key = Some r \<longrightarrow> answers_of r < answers_of row")
      case upd: True
      then have "dedupe_row row st = (jsmap_set key row best, ungrouped)"
        using True by (auto simp: st dedupe_row_def grouped_def key_def [symmetric] split: option.split)
      with inv(1,2) True other new upd show ?thesis
        by (auto simp: dedupe_inv_def distinct_update)
    next
      case old: False
      then obtain r where r: "jsmap_get best key = Some r" "\<not> answers_of r < answers_of row" by blast
      then have "dedupe_row row st = (best, ungrouped)"
        using True by (simp add: st dedupe_row_def grouped_def key_def [symmetric])
      moreover have "case jsmap_get best k of Some r \<Rightarrow> best_of (rows @ [row]) k r
        | None \<Rightarrow> \<not> (\<exists>r \<in> set (rows @ [row]). grouped r \<and> question_xid r = Some k)" for k
        using other [of k] r keep [OF r] by (cases "k = key") simp_all
      ultimately show ?thesis using inv(1,2) True by (auto simp: dedupe_inv_def)
    qed
  qed
qed

lemma dedupe_fold_inv: "dedupe_inv seen st \<Longrightarrow> dedupe_inv (seen @ rows) (fold dedupe_row rows st)"
proof (induction rows arbitrary: seen st)
  case (Cons r rows)
  from Cons.IH [OF dedupe_row_inv [OF Cons.prems]] show ?case by simp
qed simp

text \<open>
  One row per question. Of the rows of one question exactly one is kept, with the most
  responses of them; every question keeps one; and rows without a question stay as they came.
\<close>
theorem dedupe_correct:
  "(\<exists>kept. dedupeByQuestion rows = kept @ filter (\<lambda>r. \<not> grouped r) rows \<and> list_all grouped kept \<and>
     distinct (map question_xid kept) \<and> list_all (\<lambda>r. best_of rows (the (question_xid r)) r) kept \<and>
     question_xid ` set kept = question_xid ` {r \<in> set rows. grouped r})"
proof -
  obtain best ungrouped where f: "fold dedupe_row rows ([], []) = (best, ungrouped)" by fastforce
  have "dedupe_inv [] ([], [])" by (simp add: dedupe_inv_def)
  from dedupe_fold_inv [OF this, of rows] f have inv: "dedupe_inv rows (best, ungrouped)" by simp
  then have u: "ungrouped = filter (\<lambda>r. \<not> grouped r) rows" "distinct (map fst best)"
    and k: "\<And>k. case jsmap_get best k of Some r \<Rightarrow> best_of rows k r
      | None \<Rightarrow> \<not> (\<exists>r \<in> set rows. grouped r \<and> question_xid r = Some k)"
    by (auto simp: dedupe_inv_def)
  have best: "best_of rows key r" if "(key, r) \<in> set best" for key r
    using k [of key] map_of_is_SomeI [OF u(2) that] by simp
  then have xid: "map question_xid (map snd best) = map Some (map fst best)"
    by (auto simp: best_of_def)
  have "question_xid ` set (map snd best) = question_xid ` {r \<in> set rows. grouped r}" (is "?l = ?r")
  proof
    show "?l \<subseteq> ?r" using best by (force simp: best_of_def)
    show "?r \<subseteq> ?l"
    proof
      fix q assume "q \<in> ?r"
      then obtain r where r: "r \<in> set rows" "grouped r" "q = question_xid r" by blast
      with grouped_key [of r] obtain key where key: "question_xid r = Some key" by blast
      with k [of key] r obtain r' where "jsmap_get best key = Some r'" by (cases "jsmap_get best key") auto
      then have "(key, r') \<in> set best" by (rule map_of_SomeD)
      moreover from best [OF this] have "question_xid r' = q" using r(3) key by (simp add: best_of_def)
      ultimately show "q \<in> ?l" by force
    qed
  qed
  moreover have "list_all grouped (map snd best)" "list_all (\<lambda>r. best_of rows (the (question_xid r)) r) (map snd best)"
    using best by (auto simp: list_all_iff best_of_def)
  moreover have "distinct (map question_xid (map snd best))" unfolding xid using u(2)
    by (subst distinct_map) simp
  ultimately show ?thesis using f u(1) by (intro exI [of _ "map snd best"]) (simp add: dedupeByQuestion_def)
qed

text \<open>Every row is counted once, and the bar stays on its track.\<close>

lemma tally_fold:
  "t_broken (fold tally_item items t) + t_checkKey (fold tally_item items t) + t_fine (fold tally_item items t) +
     t_noData (fold tally_item items t) =
   length items + t_broken t + t_checkKey t + t_fine t + t_noData t"
proof (induction items arbitrary: t)
  case (Cons i items)
  from Cons.IH [of "tally_item i t"] show ?case by (simp add: tally_item_def split: verdict.split)
qed simp

lemma summarise_counts_all:
  "t_broken (summarise items) + t_checkKey (summarise items) + t_fine (summarise items) + t_noData (summarise items) = length items"
  using tally_fold [of items "\<lparr>t_broken = 0, t_checkKey = 0, t_fine = 0, t_noData = 0\<rparr>"] by (simp add: summarise_def)

lemma discriminationBar_bounds:
  "discriminationBar v = Some (side, p) \<Longrightarrow> 0 \<le> p \<and> p \<le> 100 \<and> (side = Negative \<longleftrightarrow> (\<exists>x. v = Some (Num x) \<and> x < 0))"
proof -
  assume "discriminationBar v = Some (side, p)"
  then obtain x where x: "v = Some (Num x)" "side = (if max (- 1) (min 1 x) < 0 then Negative else Positive)"
    "p = \<lfloor>\<bar>max (- 1) (min 1 x)\<bar> * 100 + 1 / 2\<rfloor>"
    by (auto simp: discriminationBar_def numberOrNull_def js_round_def Let_def split: option.splits jsnum.splits)
  have "\<bar>max (- 1) (min 1 x)\<bar> \<le> 1" by (auto simp: max_def min_def)
  then have "0 \<le> p" "p \<le> 100" unfolding x(3) by linarith+
  with x(1,2) show ?thesis by (auto simp: max_def min_def split: if_splits)
qed

end
