(* ===== verification/Cohort.thy ===== *)
theory Cohort
  imports Json "HOL-Library.Product_Lexorder"
begin

text \<open>
  The arithmetic of the two cohort screens, \<open>web/src/features/analytics/cohort.ts\<close>. The fields of a
  row are of type \<open>unknown\<close>, a number or a string from JSON; \<open>localeCompare\<close> compares by the sort key
  \<open>collate\<close> of the browser's collation, which is a parameter.
\<close>

definition BAND_FLOOR :: real where
  "BAND_FLOOR = 4"

definition BAND_CEILING :: real where
  "BAND_CEILING = 9"

definition MONTHS :: "string list" where
  "MONTHS = [''Jan'', ''Feb'', ''Mar'', ''Apr'', ''May'', ''Jun'', ''Jul'', ''Aug'', ''Sep'', ''Oct'', ''Nov'', ''Dec'']"

subsection \<open>Numbers from the endpoint\<close>

definition numeric :: "json option \<Rightarrow> real option" where
  "numeric value = (case value of
      Some (JNum x) \<Rightarrow> Some x
    | Some (JStr s) \<Rightarrow> (let trimmed = js_trim s in if trimmed = [] then None else js_number trimmed)
    | _ \<Rightarrow> None)"

definition whole :: "json option \<Rightarrow> int" where
  "whole value = (case numeric value of
      None \<Rightarrow> 0 | Some parsed \<Rightarrow> if parsed < 0 then 0 else \<lfloor>parsed + 1 / 2\<rfloor>)"

text \<open>A day that is not whole prints as it was written.\<close>

definition weekLabel :: "string \<Rightarrow> string" where
  "weekLabel week =
     (case js_split (CHR ''-'') week of
        _ # month # day # _ \<Rightarrow>
          (case number_of month of
             Some m \<Rightarrow>
               if m = of_int \<lfloor>m\<rfloor> \<and> 1 \<le> m \<and> m \<le> 12 then
                 (case number_of day of
                    Some d \<Rightarrow> (if d = of_int \<lfloor>d\<rfloor> then show_int \<lfloor>d\<rfloor> else day) @ '' '' @ MONTHS ! (nat \<lfloor>m\<rfloor> - 1)
                  | None \<Rightarrow> ''NaN '' @ MONTHS ! (nat \<lfloor>m\<rfloor> - 1))
               else week
           | None \<Rightarrow> week)
      | _ \<Rightarrow> week)"

subsection \<open>Attendance\<close>

record person =
  person_xid :: "string option"
  given_name :: "string option"
  family_name :: "string option"

record attendance_row =
  at_user :: "person option"
  at_assigned :: "json option"
  at_started :: "json option"
  at_completed :: "json option"
  at_late :: "json option"

record attendance_counts =
  assigned :: int
  started :: int
  completed :: int
  late :: int

record attendance_segments =
  onTime :: int
  seg_late :: int
  unfinished :: int
  notStarted :: int

definition counts :: "attendance_row \<Rightarrow> attendance_counts" where
  "counts row = \<lparr>assigned = whole (at_assigned row), started = whole (at_started row),
     completed = whole (at_completed row), late = whole (at_late row)\<rparr>"

definition segments :: "attendance_counts \<Rightarrow> attendance_segments" where
  "segments row =
     (let st = min (started row) (assigned row);
          co = min (completed row) st;
          la = min (late row) co
      in \<lparr>onTime = co - la, seg_late = la, unfinished = st - co, notStarted = assigned row - st\<rparr>)"

definition completion :: "attendance_counts \<Rightarrow> int option" where
  "completion row =
     (if assigned row = 0 then None
      else Some \<lfloor>of_int (min (completed row) (assigned row)) / of_int (assigned row) * 100 + (1 / 2 :: real)\<rfloor>)"

definition outstanding :: "attendance_segments \<Rightarrow> int" where
  "outstanding parts = notStarted parts + unfinished parts"

definition personName :: "person option \<Rightarrow> string" where
  "personName user =
     (let parts = filter (\<lambda>p. js_trim p \<noteq> [])
            (concat (map (\<lambda>p. case p of Some s \<Rightarrow> [s] | None \<Rightarrow> [])
              [Option.bind user given_name, Option.bind user family_name]))
      in if length parts > 0 then js_join '' '' parts
         else if truthy_str (Option.bind user person_xid)
           then ''Student '' @ take 8 (nullish (Option.bind user person_xid) [])
         else ''Unnamed student'')"

record student_attendance =
  sa_key :: string
  sa_name :: string
  sa_counts :: attendance_counts
  sa_parts :: attendance_segments
  sa_completion :: "int option"

definition attendanceRows :: "attendance_row list \<Rightarrow> student_attendance list" where
  "attendanceRows rows = map (\<lambda>(index, row).
     let totals = counts row
     in \<lparr>sa_key = nullish (Option.bind (at_user row) person_xid) (''row-'' @ show_nat index),
         sa_name = personName (at_user row), sa_counts = totals, sa_parts = segments totals,
         sa_completion = completion totals\<rparr>) (enumerate 0 rows)"

datatype row_order = ByName | ByAttention

definition orderAttendance ::
  "(string \<Rightarrow> 'k :: linorder) \<Rightarrow> row_order \<Rightarrow> student_attendance list \<Rightarrow> student_attendance list" where
  "orderAttendance collate order rows =
     (case order of
        ByName \<Rightarrow> js_sort (\<lambda>a b. collate (sa_name b) < collate (sa_name a)) rows
      | ByAttention \<Rightarrow> js_sort (\<lambda>a b.
          let first = outstanding (sa_parts b) - outstanding (sa_parts a);
              second = late (sa_counts b) - late (sa_counts a)
          in if first \<noteq> 0 then first > 0
             else if second \<noteq> 0 then second > 0
             else collate (sa_name b) < collate (sa_name a)) rows)"

record member =
  mem_user :: "person option"
  mem_status :: "string option"

definition unlisted :: "(string \<Rightarrow> 'k :: linorder) \<Rightarrow> member list \<Rightarrow> attendance_row list \<Rightarrow> string list" where
  "unlisted collate members rows =
     (let present = set (filter (\<lambda>x. x \<noteq> [])
            (concat (map (\<lambda>row. case Option.bind (at_user row) person_xid of Some x \<Rightarrow> [x] | None \<Rightarrow> []) rows)))
      in js_sort (\<lambda>a b. collate b < collate a)
        (map (\<lambda>m. personName (mem_user m))
          (filter (\<lambda>m. \<not> truthy_str (Option.bind (mem_user m) person_xid) \<or>
              nullish (Option.bind (mem_user m) person_xid) [] \<notin> present)
            (filter (\<lambda>m. mem_status m \<noteq> Some ''left'') members))))"

subsection \<open>Progress\<close>

record week_row =
  wk_week :: "json option"
  wk_attempts :: "json option"
  wk_avg :: "json option"
  wk_reading :: "json option"
  wk_listening :: "json option"

record week_point =
  wp_week :: string
  wp_attempts :: int
  overall :: "real option"
  reading :: "real option"
  listening :: "real option"

definition weekSeries :: "(string \<Rightarrow> 'k :: linorder) \<Rightarrow> week_row list \<Rightarrow> week_point list" where
  "weekSeries collate weeks =
     js_sort (\<lambda>a b. collate (wp_week b) < collate (wp_week a))
       (filter (\<lambda>p. wp_week p \<noteq> [])
         (map (\<lambda>row. \<lparr>wp_week = nullish (as_string (wk_week row)) [], wp_attempts = whole (wk_attempts row),
            overall = numeric (wk_avg row), reading = numeric (wk_reading row), listening = numeric (wk_listening row)\<rparr>) weeks))"

definition bandHeight :: "real option \<Rightarrow> real option" where
  "bandHeight value = map_option (\<lambda>v.
     let clamped = min BAND_CEILING (max BAND_FLOOR v)
     in (clamped - BAND_FLOOR) / (BAND_CEILING - BAND_FLOOR) * 100) value"

record trend_of =
  trend_from :: real
  trend_to :: real
  trend_delta :: real

definition round_tenth :: "real \<Rightarrow> real" where
  "round_tenth x = of_int \<lfloor>x * 10 + 1 / 2\<rfloor> / 10"

definition trend :: "week_point list \<Rightarrow> (week_point \<Rightarrow> real option) \<Rightarrow> trend_of option" where
  "trend series skill =
     (let points = concat (map (\<lambda>p. case skill p of Some v \<Rightarrow> [v] | None \<Rightarrow> []) series) in
      if length points < 2 then None
      else Some \<lparr>trend_from = hd points, trend_to = last points, trend_delta = round_tenth (last points - hd points)\<rparr>)"

record student_row =
  sr_user :: "person option"
  sr_attempts :: "json option"
  sr_first :: "json option"
  sr_latest :: "json option"

record student_spread =
  ss_key :: string
  ss_name :: string
  weeks :: int
  lowest :: "real option"
  highest :: "real option"
  spread :: "real option"

definition spread_of :: "nat \<times> student_row \<Rightarrow> student_spread" where
  "spread_of x = (case x of (index, row) \<Rightarrow>
     let lo = numeric (sr_first row); hi = numeric (sr_latest row)
     in \<lparr>ss_key = nullish (Option.bind (sr_user row) person_xid) (''student-'' @ show_nat index),
         ss_name = personName (sr_user row), weeks = whole (sr_attempts row), lowest = lo, highest = hi,
         spread = (case (lo, hi) of (Some l, Some h) \<Rightarrow> Some (round_tenth (h - l)) | _ \<Rightarrow> None)\<rparr>)"

definition studentSpreads :: "(string \<Rightarrow> 'k :: linorder) \<Rightarrow> student_row list \<Rightarrow> student_spread list" where
  "studentSpreads collate students =
     js_sort (\<lambda>a b. let d = nullish (highest b) (- 1) - nullish (highest a) (- 1)
         in if d \<noteq> 0 then d > 0 else collate (ss_name b) < collate (ss_name a))
       (map spread_of (enumerate 0 students))"

subsection \<open>Properties\<close>

lemma whole_nonneg: "0 \<le> whole value"
proof -
  have "0 \<le> \<lfloor>x + 1 / 2\<rfloor>" if "\<not> x < 0" for x :: real using that by linarith
  then show ?thesis by (auto simp: whole_def split: option.split)
qed

text \<open>
  The four parts of a bar never overlap and always add up. Whatever numbers or strings the
  endpoint sends, no part is negative and together they are the work assigned; where the counts nest,
  as the job that writes them means them to, each part is exactly its count; and completion is a
  percentage between 0 and 100, absent exactly when nothing was assigned.
\<close>
theorem segments_partition:
  "let c = counts row; g = segments c in
     onTime g + seg_late g + unfinished g + notStarted g = assigned c \<and>
     0 \<le> onTime g \<and> 0 \<le> seg_late g \<and> 0 \<le> unfinished g \<and> 0 \<le> notStarted g \<and>
     outstanding g = assigned c - (onTime g + seg_late g) \<and>
     (late c \<le> completed c \<and> completed c \<le> started c \<and> started c \<le> assigned c \<longrightarrow>
        seg_late g = late c \<and> onTime g + seg_late g = completed c \<and> notStarted g = assigned c - started c) \<and>
     (case completion c of None \<Rightarrow> assigned c = 0 | Some p \<Rightarrow> assigned c \<noteq> 0 \<and> 0 \<le> p \<and> p \<le> 100)"
proof -
  define c where "c = counts row"
  have pos: "0 \<le> assigned c" "0 \<le> started c" "0 \<le> completed c" "0 \<le> late c"
    by (simp_all add: c_def counts_def whole_nonneg)
  have "0 \<le> p \<and> p \<le> 100" if "completion c = Some p" for p
  proof -
    have a: "0 < assigned c" using that pos(1) by (auto simp: completion_def split: if_splits)
    define q where "q = (of_int (min (completed c) (assigned c)) / of_int (assigned c) :: real)"
    have "0 \<le> q" "q \<le> 1" using a pos by (simp_all add: q_def)
    moreover have "p = \<lfloor>q * 100 + 1 / 2\<rfloor>" using that by (auto simp: completion_def q_def split: if_splits)
    ultimately show ?thesis by linarith
  qed
  moreover have "completion c = None \<longleftrightarrow> assigned c = 0" by (simp add: completion_def)
  ultimately have comp: "case completion c of None \<Rightarrow> assigned c = 0 | Some p \<Rightarrow> assigned c \<noteq> 0 \<and> 0 \<le> p \<and> p \<le> 100"
    by (auto split: option.split)
  show ?thesis using pos comp
    unfolding c_def [symmetric] by (simp add: segments_def outstanding_def Let_def min_def)
qed

theorem segments_partition_witness:
  "let g = segments (counts \<lparr>at_user = None, at_assigned = Some (JNum 4), at_started = Some (JNum 3), at_completed = Some (JNum 2),
      at_late = Some (JNum 1)\<rparr>) in seg_late g = 1 \<and> onTime g + seg_late g = 2 \<and> notStarted g = 1"
  using segments_partition [of "\<lparr>at_user = None, at_assigned = Some (JNum 4), at_started = Some (JNum 3),
    at_completed = Some (JNum 2), at_late = Some (JNum 1)\<rparr>"]
  by (simp add: counts_def whole_def numeric_def Let_def)

text \<open>
  Who needs attention comes first. Both orders keep every student; by name it is the collation's
  order, by attention the most work owed first, then the most late, then the name; students alike in
  all of that keep the order they came in.
\<close>
theorem orderAttendance_correct:
  fixes collate :: "string \<Rightarrow> 'k :: linorder"
  shows "mset (orderAttendance collate order rows) = mset rows \<and>
    orderAttendance collate ByName rows = sort_key (\<lambda>s. collate (sa_name s)) rows \<and>
    orderAttendance collate ByAttention rows =
      sort_key (\<lambda>s. (- outstanding (sa_parts s), - late (sa_counts s), collate (sa_name s))) rows"
  by (cases order) (auto simp: orderAttendance_def Let_def intro!: js_sort_sort_key)

lemma find_listed: "x \<in> set (concat (map (\<lambda>row. case f row of Some x \<Rightarrow> [x] | None \<Rightarrow> []) rows)) \<longleftrightarrow> (\<exists>row \<in> set rows. f row = Some x)"
  by (force split: option.splits)

text \<open>
  Nobody in the class is missing from the page. The names listed apart are, in collation order,
  those of exactly the members who have not left and have no row of their own.
\<close>
theorem unlisted_correct:
  fixes collate :: "string \<Rightarrow> 'k :: linorder"
  shows "sorted (map collate (unlisted collate members rows)) \<and>
    mset (unlisted collate members rows) = mset (map (\<lambda>m. personName (mem_user m))
      (filter (\<lambda>m. mem_status m \<noteq> Some ''left'' \<and>
         \<not> (\<exists>x row. Option.bind (mem_user m) person_xid = Some x \<and> x \<noteq> [] \<and> row \<in> set rows \<and>
              Option.bind (at_user row) person_xid = Some x)) members))"
proof -
  have same: "(\<not> truthy_str (Option.bind (mem_user m) person_xid) \<or> nullish (Option.bind (mem_user m) person_xid) [] \<notin>
      set (filter (\<lambda>x. x \<noteq> []) (concat (map (\<lambda>row. case Option.bind (at_user row) person_xid of Some x \<Rightarrow> [x] | None \<Rightarrow> []) rows)))) \<longleftrightarrow>
    \<not> (\<exists>x row. Option.bind (mem_user m) person_xid = Some x \<and> x \<noteq> [] \<and> row \<in> set rows \<and>
        Option.bind (at_user row) person_xid = Some x)" for m
    by (cases "Option.bind (mem_user m) person_xid") (simp_all only: set_filter find_listed mem_Collect_eq; auto)+
  have "unlisted collate members rows = sort_key collate (map (\<lambda>m. personName (mem_user m))
      (filter (\<lambda>m. \<not> (\<exists>x row. Option.bind (mem_user m) person_xid = Some x \<and> x \<noteq> [] \<and> row \<in> set rows \<and>
          Option.bind (at_user row) person_xid = Some x)) (filter (\<lambda>m. mem_status m \<noteq> Some ''left'') members)))"
    unfolding unlisted_def Let_def same by (rule js_sort_sort_key) simp
  then show ?thesis by (simp add: conj_commute)
qed

text \<open>A bar stays within its track.\<close>

lemma bandHeight_bounds: "bandHeight (Some v) = Some h \<Longrightarrow> 0 \<le> h \<and> h \<le> 100"
proof -
  assume h: "bandHeight (Some v) = Some h"
  define c where "c = min 9 (max 4 v)"
  have "4 \<le> c" "c \<le> 9" by (simp_all add: c_def)
  moreover have "h = (c - 4) / 5 * 100"
    using h by (simp add: bandHeight_def BAND_FLOOR_def BAND_CEILING_def c_def Let_def)
  ultimately show ?thesis by simp
qed

end
