(* ===== verification/Slots.thy ===== *)
theory Slots
  imports JsNum
begin

text \<open>
  The rules of a speaking slot, \<open>web/src/features/speaking/slotRules.ts\<close>: what is wrong with a draft,
  and whether its author's own list will show it. The complaints are a datatype, one constructor
  for each sentence; \<open>local_time\<close> is \<open>new Date(s).getTime()\<close> in the browser's zone, \<^const>\<open>NaN\<close> for a
  string that is no date.
\<close>

datatype age_band = Minor | Adult | MixedSupervised

datatype audience = Public | Org | CohortOnly

definition AGE_BANDS :: "age_band list" where
  "AGE_BANDS = [Minor, Adult, MixedSupervised]"

record slot_draft =
  startsAt :: string
  ageBand :: "age_band option"
  audience :: audience
  cohortXid :: string
  bandMin :: string
  bandMax :: string

record creator =
  isPlatformAdmin :: bool
  hasOrg :: bool
  isMinor :: bool

text \<open>\<^const>\<open>None\<close> is \<open>null\<close>.\<close>

definition slot_band :: "string \<Rightarrow> jsnum option" where
  "slot_band value =
     (if js_trim value = [] then None
      else Some (case number_of value of Some x \<Rightarrow> Num x | None \<Rightarrow> NaN))"

datatype band_end = Lowest | Highest

datatype slot_problem =
    ChooseAge
  | MixedNeedsClass
  | ChooseClass
  | NoCentre
  | BandOutside band_end
  | RangeBackwards
  | NoStart
  | StartPassed

definition off_scale :: "jsnum option \<Rightarrow> bool" where
  "off_scale v \<longleftrightarrow> (case v of None \<Rightarrow> False | Some NaN \<Rightarrow> True | Some (Num x) \<Rightarrow> x < 0 \<or> x > 9)"

definition slotProblems :: "(string \<Rightarrow> jsnum) \<Rightarrow> real \<Rightarrow> slot_draft \<Rightarrow> creator \<Rightarrow> slot_problem list" where
  "slotProblems local_time now draft creator =
     (let low = slot_band (bandMin draft); high = slot_band (bandMax draft) in
      (if ageBand draft = None then [ChooseAge] else []) @
      (if ageBand draft = Some MixedSupervised \<and> audience draft \<noteq> CohortOnly then [MixedNeedsClass] else []) @
      (if audience draft = CohortOnly \<and> cohortXid draft = [] then [ChooseClass] else []) @
      (if audience draft = Org \<and> \<not> hasOrg creator then [NoCentre] else []) @
      (if off_scale low then [BandOutside Lowest] else []) @
      (if off_scale high then [BandOutside Highest] else []) @
      (case (low, high) of (Some l, Some h) \<Rightarrow> if h < l then [RangeBackwards] else [] | _ \<Rightarrow> []) @
      (if startsAt draft = [] then [NoStart]
       else if local_time (startsAt draft) \<le> Num now then [StartPassed] else []))"

record created_slot =
  cs_audience :: "string option"
  cs_age_band :: "string option"

datatype shown = Shown | OtherAge | ClassOnly

definition appearsInMyList :: "created_slot \<Rightarrow> creator \<Rightarrow> shown" where
  "appearsInMyList slot creator =
     (let permitted = (if isMinor creator then [''minor'', ''mixed_supervised''] else [''adult'', ''mixed_supervised'']) in
      if truthy_str (cs_age_band slot) \<and> nullish (cs_age_band slot) [] \<notin> set permitted then OtherAge
      else if cs_audience slot = Some ''cohort'' then ClassOnly else Shown)"

definition ageBandLabel :: "string \<Rightarrow> string" where
  "ageBandLabel band =
     (if band = ''minor'' then ''Under 18 only''
      else if band = ''adult'' then ''18 and over only''
      else if band = ''mixed_supervised'' then ''Mixed ages, teacher supervised''
      else band)"

text \<open>\<open>text_of\<close> prints a band.\<close>

definition rangeLabel :: "(real \<Rightarrow> string) \<Rightarrow> real option \<Rightarrow> real option \<Rightarrow> string" where
  "rangeLabel text_of least most =
     (case (least, most) of
        (None, None) \<Rightarrow> ''Any band''
      | (Some a, Some b) \<Rightarrow> ''Band '' @ text_of a @ ''-'' @ text_of b
      | (Some a, None) \<Rightarrow> ''Band '' @ text_of a @ '' and above''
      | (None, Some b) \<Rightarrow> ''Band '' @ text_of b @ '' and below'')"

text \<open>What the endpoint and the listings require of a slot that somebody can find.\<close>

definition reachable_slot :: "(string \<Rightarrow> jsnum) \<Rightarrow> real \<Rightarrow> slot_draft \<Rightarrow> creator \<Rightarrow> bool" where
  "reachable_slot local_time now d c \<longleftrightarrow>
     ageBand d \<noteq> None \<and> (ageBand d = Some MixedSupervised \<longrightarrow> audience d = CohortOnly) \<and>
     (audience d = CohortOnly \<longrightarrow> cohortXid d \<noteq> []) \<and> (audience d = Org \<longrightarrow> hasOrg c) \<and>
     (\<forall>v \<in> set_option (slot_band (bandMin d)) \<union> set_option (slot_band (bandMax d)). \<exists>x. v = Num x \<and> 0 \<le> x \<and> x \<le> 9) \<and>
     (\<forall>l \<in> set_option (slot_band (bandMin d)). \<forall>h \<in> set_option (slot_band (bandMax d)). l \<le> h) \<and>
     startsAt d \<noteq> [] \<and> (\<forall>t. local_time (startsAt d) = Num t \<longrightarrow> now < t)"

text \<open>
  No complaint means a slot that can work. The list of problems is empty exactly when the age
  group is chosen and a mixed one has a class, the class or centre exists, every band given is a
  number between 0 and 9 and they run from low to high, and the start is set and not known to have
  passed.
\<close>
theorem slotProblems_correct:
  "slotProblems local_time now d c = [] \<longleftrightarrow> reachable_slot local_time now d c"
proof -
  have scale: "\<not> off_scale v \<longleftrightarrow> (\<forall>v' \<in> set_option v. \<exists>x. v' = Num x \<and> 0 \<le> x \<and> x \<le> 9)" for v
    by (auto simp: off_scale_def not_less split: option.split jsnum.split)
  have start: "\<not> local_time (startsAt d) \<le> Num now \<longleftrightarrow> (\<forall>t. local_time (startsAt d) = Num t \<longrightarrow> now < t)"
    by (cases "local_time (startsAt d)") (auto simp: not_le)
  have range: "(case (low, high) of (Some l, Some h) \<Rightarrow> if h < l then [RangeBackwards] else [] | _ \<Rightarrow> []) = [] \<longleftrightarrow>
      (\<forall>l \<in> set_option low. \<forall>h \<in> set_option high. l \<le> h)" if "\<not> off_scale low" "\<not> off_scale high" for low high
    using that by (auto simp: off_scale_def split: option.splits jsnum.splits if_splits)
  define low where "low = slot_band (bandMin d)"
  define high where "high = slot_band (bandMax d)"
  show ?thesis
  proof (cases "off_scale low \<or> off_scale high")
    case True
    then have "slotProblems local_time now d c \<noteq> []" by (auto simp: slotProblems_def low_def high_def Let_def)
    moreover have "\<not> reachable_slot local_time now d c"
      using True scale [of low] scale [of high] unfolding reachable_slot_def low_def [symmetric] high_def [symmetric] by blast
    ultimately show ?thesis by simp
  next
    case False
    then show ?thesis
      using range [of low high] scale [of low] scale [of high] start
      unfolding reachable_slot_def slotProblems_def Let_def low_def [symmetric] high_def [symmetric]
      by (auto simp del: start)
  qed
qed

text \<open>
  An unreadable start is let through. A date string the browser cannot read compares false with
  the present, so of all invalid starts only the empty one is refused.
\<close>
theorem unreadable_start_accepted:
  "slotProblems (\<lambda>_. NaN) now \<lparr>startsAt = ''soon'', ageBand = Some Adult, audience = Public, cohortXid = [], bandMin = [], bandMax = []\<rparr>
     c = []"
  by (simp add: slotProblems_correct reachable_slot_def slot_band_def js_trim_def trim_start_def)

end
