(* ===== verification/Ordering.thy ===== *)
theory Ordering
  imports Prelude
begin

text \<open>
  Putting a test's sections in order: \<open>web/src/features/compose/ordering.ts\<close>, and what the server
  does with one section's new position, \<open>_move_section\<close> and its siblings of
  \<open>app/api/routers/tests_authoring.py\<close>. The server's rows keep their positions under a unique
  index; a statement that could trip it is \<^const>\<open>None\<close>, the 500 of the code. The locale
  \<open>section_sequence\<close> is what the console relies on; it is interpreted on the server's rows.
\<close>

subsection \<open>The console's arithmetic\<close>

text \<open>\<open>Array.prototype.splice\<close> reads a negative index from the end and clamps the rest.\<close>

definition splice_index :: "int \<Rightarrow> 'a list \<Rightarrow> nat" where
  "splice_index i xs =
     (if i < 0 then nat (max 0 (int (length xs) + i)) else nat (min i (int (length xs))))"

definition reorder :: "'a list \<Rightarrow> int \<Rightarrow> int \<Rightarrow> 'a list" where
  "reorder xs start goal =
     (let k = splice_index start xs in
      case drop k xs of
        [] \<Rightarrow> xs
      | moved # rest \<Rightarrow>
          let next = take k xs @ rest;
              j = splice_index goal next
          in take j next @ moved # drop j next)"

text \<open>Sections as \<open>(xid, position)\<close>; positions are 1-based.\<close>

definition sectionMoves :: "(string \<times> int option) list \<Rightarrow> (string \<times> int) list" where
  "sectionMoves desired =
     map fst (filter (\<lambda>(next, old). old \<noteq> Some (snd next))
       (map2 (\<lambda>s i. ((fst s, int i + 1), snd s)) desired [0..<length desired]))"

definition isContiguous :: "int option list \<Rightarrow> bool" where
  "isContiguous positions =
     (let sorted = sort (map the (filter (\<lambda>p. p \<noteq> None) positions)) in
      if length sorted \<noteq> length positions then False
      else list_all (\<lambda>(p, i). p = int i + 1) (zip sorted [0..<length sorted]))"

lemma map_the_Some: "None \<notin> set xs \<Longrightarrow> map Some (map the xs) = xs"
  by (induction xs) auto

lemma mset_map_Some: "mset (map Some xs) = mset (map Some ys) \<longleftrightarrow> mset xs = mset ys"
proof
  assume "mset (map Some xs) = mset (map Some ys)"
  then have "mset (map the (map Some xs)) = mset (map the (map Some ys))" by (metis mset_map)
  then show "mset xs = mset ys" by (simp add: comp_def)
qed simp

lemma sort_upto: "sort xs = map int [1..<Suc n] \<longleftrightarrow> mset xs = mset (map int [1..<Suc n])"
proof
  assume "mset xs = mset (map int [1..<Suc n])"
  moreover have "sorted (map int [1..<Suc n])" by (simp add: sorted_wrt_map del: upt_Suc)
  ultimately show "sort xs = map int [1..<Suc n]" by (metis properties_for_sort)
qed (metis mset_sort)

lemma length_filter_all: "length (filter P xs) = length xs \<longleftrightarrow> (\<forall>x \<in> set xs. P x)"
proof (cases "\<forall>x \<in> set xs. P x")
  case False
  then obtain x where "x \<in> set xs" "\<not> P x" by blast
  with length_filter_less [of x xs P] False show ?thesis by auto
qed simp

text \<open>A list of positions is accepted exactly when it is 1 to n in some order.\<close>

lemma counting: "length (map int [1..<Suc n]) = n" "i < n \<Longrightarrow> map int [1..<Suc n] ! i = int i + 1"
  by (simp_all del: upt_Suc)

lemma counts_up: "list_all (\<lambda>(p, i). p = int i + 1) (zip xs [0..<length xs]) \<longleftrightarrow> xs = map int [1..<Suc (length xs)]"
proof -
  have "list_all (\<lambda>(p, i). p = int i + 1) (zip xs [0..<length xs]) \<longleftrightarrow> (\<forall>i < length xs. xs ! i = int i + 1)"
    by (simp add: list_all_length)
  also have "\<dots> \<longleftrightarrow> xs = map int [1..<Suc (length xs)]"
    unfolding list_eq_iff_nth_eq counting(1) using counting(2) by metis
  finally show ?thesis .
qed

lemma all_present: "length (filter (\<lambda>p. p \<noteq> None) ps) = length ps \<longleftrightarrow> None \<notin> set ps"
  unfolding length_filter_all by (metis (full_types))

lemma isContiguous_iff:
  "isContiguous positions \<longleftrightarrow> mset positions = mset (map (Some \<circ> int) [1..<Suc (length positions)])"
proof (cases "None \<in> set positions")
  case True
  then have "\<not> isContiguous positions"
    unfolding isContiguous_def Let_def length_sort length_map all_present by simp
  moreover have "mset positions \<noteq> mset (map (Some \<circ> int) [1..<Suc (length positions)])"
  proof
    assume "mset positions = mset (map (Some \<circ> int) [1..<Suc (length positions)])"
    from mset_eq_setD [OF this] True have "None \<in> (Some \<circ> int) ` set [1..<Suc (length positions)]"
      by (simp only: set_map)
    then show False by (auto simp del: upt_Suc)
  qed
  ultimately show ?thesis by blast
next
  case False
  then have id: "filter (\<lambda>p. p \<noteq> None) positions = positions"
    using all_present [of positions] by (metis length_filter_all filter_True)
  let ?ps = "map the positions"
  have len: "length (sort ?ps) = length positions" by (simp only: length_sort length_map)
  have "isContiguous positions \<longleftrightarrow> sort ?ps = map int [1..<Suc (length (sort ?ps))]"
    unfolding isContiguous_def Let_def id counts_up using len by auto
  also have "\<dots> \<longleftrightarrow> mset (map Some ?ps) = mset (map Some (map int [1..<Suc (length positions)]))"
    unfolding len sort_upto mset_map_Some ..
  finally show ?thesis unfolding map_the_Some [OF False] by (simp only: map_map)
qed

subsection \<open>Placing one element\<close>

text \<open>The sequence after one element is put at an index, the others keeping their order.\<close>

definition place :: "'a \<Rightarrow> nat \<Rightarrow> 'a list \<Rightarrow> 'a list" where
  "place x j xs = (let rest = remove1 x xs in take j rest @ x # drop j rest)"

text \<open>The sequence that starts with the elements already placed.\<close>

definition arranged :: "'a list \<Rightarrow> 'a list \<Rightarrow> 'a list" where
  "arranged front xs = front @ filter (\<lambda>x. x \<notin> set front) xs"

lemma place_arranged:
  assumes "distinct xs" and "x \<in> set xs" and "x \<notin> set front"
  shows "place x (length front) (arranged front xs) = arranged (front @ [x]) xs"
proof -
  have rest: "remove1 x (filter P xs) = filter (\<lambda>y. P y \<and> y \<noteq> x) xs" for P
    using assms(1) by (auto simp: distinct_remove1_removeAll removeAll_filter_not_eq intro!: filter_cong)
  have "remove1 x (arranged front xs) = front @ remove1 x (filter (\<lambda>y. y \<notin> set front) xs)"
    using assms(3) by (simp add: arranged_def remove1_append)
  also have "\<dots> = front @ filter (\<lambda>y. y \<notin> set (front @ [x])) xs"
    unfolding rest by (auto intro!: filter_cong)
  finally show ?thesis by (simp add: place_def arranged_def)
qed

lemma arranged_all: "set front = set xs \<Longrightarrow> arranged front xs = front"
  by (simp add: arranged_def)

lemma arranged_in_place:
  assumes "distinct xs" and "i < length xs" and "set front = set (take i xs)" and "distinct front"
  shows "arranged front xs = front @ drop i xs" and "arranged (front @ [xs ! i]) xs = arranged front xs"
proof -
  have front: "filter (\<lambda>x. x \<notin> set front) xs = drop j xs" if "set front = set (take j xs)" for front j
    unfolding that using assms(1)
  proof (induction xs arbitrary: j)
    case (Cons x xs)
    then have "filter (\<lambda>y. y \<noteq> x \<and> y \<notin> S) xs = filter (\<lambda>y. y \<notin> S) xs" for S
      by (auto intro!: filter_cong)
    with Cons show ?case by (cases j) simp_all
  qed simp
  show one: "arranged front xs = front @ drop i xs"
    using front [OF assms(3)] by (simp add: arranged_def)
  have "set (front @ [xs ! i]) = set (take (Suc i) xs)"
    using assms(2,3) by (simp add: take_Suc_conv_app_nth)
  then have "arranged (front @ [xs ! i]) xs = (front @ [xs ! i]) @ drop (Suc i) xs"
    using front by (simp add: arranged_def)
  with one show "arranged (front @ [xs ! i]) xs = arranged front xs"
    using assms(2) by (simp add: Cons_nth_drop_Suc)
qed

subsection \<open>The server's rows\<close>

record section_row =
  sec_xid :: string
  sec_position :: int
  sec_skill :: string
  sec_title :: string
  sec_limit :: "int option"
  sec_declared :: "int option"
  sec_play_once :: bool
  sec_passage :: "string option"
  sec_audio :: "string option"

text \<open>
  One \<open>UPDATE\<close> of the positions. PostgreSQL checks the unique index row by row, in an order it
  chooses; the statement is safe when no new position is one that a row has before it, and
  \<^const>\<open>None\<close> otherwise.
\<close>

definition update_positions ::
  "(section_row \<Rightarrow> bool) \<Rightarrow> (int \<Rightarrow> int) \<Rightarrow> section_row list \<Rightarrow> section_row list option" where
  "update_positions which f rs =
     (let targets = map (f \<circ> sec_position) (filter which rs) in
      if distinct targets \<and> set targets \<inter> set (map sec_position rs) = {}
      then Some (map (\<lambda>r. if which r then r\<lparr>sec_position := f (sec_position r)\<rparr> else r) rs)
      else None)"

definition move_section :: "string \<Rightarrow> int \<Rightarrow> section_row list \<Rightarrow> section_row list option" where
  "move_section me goal rs =
     (case List.find (\<lambda>r. sec_xid r = me) rs of
        None \<Rightarrow> None
      | Some mover \<Rightarrow>
          let to = max 1 (min goal (int (length rs)));
              frm = sec_position mover
          in if to = frm then Some rs
             else
               let (low, high, delta) = (if to > frm then (frm + 1, to, -1) else (to, frm - 1, 1));
                   span = (\<lambda>r. low \<le> sec_position r \<and> sec_position r \<le> high)
               in Option.bind (update_positions (\<lambda>r. sec_xid r = me) (\<lambda>_. - frm) rs) (\<lambda>parked.
                  Option.bind (update_positions span uminus parked) (\<lambda>shifting.
                  Option.bind
                    (if filter span parked = [] then Some shifting
                     else update_positions (\<lambda>r. sec_position r < 0 \<and> sec_xid r \<noteq> me) (\<lambda>p. - p + delta) shifting)
                    (update_positions (\<lambda>r. sec_xid r = me) (\<lambda>_. to)))))"

definition make_room :: "int \<Rightarrow> section_row list \<Rightarrow> section_row list option" where
  "make_room position rs =
     (let after = (\<lambda>r. position \<le> sec_position r) in
      Option.bind (update_positions after uminus rs) (\<lambda>shifting.
        if filter after rs = [] then Some shifting
        else update_positions (\<lambda>r. sec_position r < 0) (\<lambda>p. - p + 1) shifting))"

definition close_position_gap :: "int \<Rightarrow> section_row list \<Rightarrow> section_row list option" where
  "close_position_gap removed rs =
     Option.bind (update_positions (\<lambda>r. removed < sec_position r) uminus rs)
       (update_positions (\<lambda>r. sec_position r < 0) (\<lambda>p. - p - 1))"

text \<open>Creating a section at a position, and deleting one.\<close>

definition create_section :: "section_row \<Rightarrow> section_row list \<Rightarrow> section_row list option" where
  "create_section new rs =
     (let position = min (sec_position new) (int (length rs) + 1) in
      Option.bind (make_room position rs) (\<lambda>rs'.
        if position \<in> set (map sec_position rs') then None
        else Some (rs' @ [new\<lparr>sec_position := position\<rparr>])))"

definition delete_section :: "string \<Rightarrow> section_row list \<Rightarrow> section_row list option" where
  "delete_section xid rs =
     (case List.find (\<lambda>r. sec_xid r = xid) rs of
        None \<Rightarrow> None
      | Some gone \<Rightarrow> close_position_gap (sec_position gone) (filter (\<lambda>r. sec_xid r \<noteq> xid) rs))"

text \<open>The listing of the sections, and the sections a sequence stands for.\<close>

definition listing :: "section_row list \<Rightarrow> section_row list" where
  "listing rs = sort_key sec_position rs"

fun number_from :: "int \<Rightarrow> section_row list \<Rightarrow> section_row list" where
  "number_from k [] = []"
| "number_from k (r # rs) = r\<lparr>sec_position := k\<rparr> # number_from (k + 1) rs"

definition numbering :: "section_row list \<Rightarrow> section_row list \<Rightarrow> bool" where
  "numbering xs rs \<longleftrightarrow> distinct (map sec_xid xs) \<and> mset rs = mset (number_from 1 xs)"

subsection \<open>Numbered sections\<close>

abbreviation put_position :: "(int \<Rightarrow> int) \<Rightarrow> section_row \<Rightarrow> section_row" where
  "put_position f r \<equiv> r\<lparr>sec_position := f (sec_position r)\<rparr>"

lemma number_from_append: "number_from k (xs @ ys) = number_from k xs @ number_from (k + int (length xs)) ys"
  by (induction xs arbitrary: k) (simp_all add: algebra_simps)

lemma number_from_keys [simp]:
  "map sec_xid (number_from k xs) = map sec_xid xs" "length (number_from k xs) = length xs"
  by (induction xs arbitrary: k) simp_all

lemma number_from_set [simp]:
  "sec_xid ` set (number_from k xs) = sec_xid ` set xs"
  using number_from_keys(1) [of k xs] by (metis set_map)

lemma in_number_from:
  assumes "r \<in> set (number_from k xs)"
  shows "k \<le> sec_position r \<and> sec_position r < k + int (length xs) \<and> sec_xid r \<in> sec_xid ` set xs"
  using assms by (induction xs arbitrary: k) fastforce+

lemma positions_distinct: "distinct (map sec_position (number_from k xs))"
proof (induction xs arbitrary: k)
  case (Cons x xs)
  have "k \<notin> sec_position ` set (number_from (k + 1) xs)" using in_number_from [of _ "k + 1" xs] by fastforce
  with Cons show ?case by simp
qed simp

lemma positions_sorted: "sorted (map sec_position (number_from k xs))"
  by (induction xs arbitrary: k) (auto dest!: in_number_from)

lemma number_from_shift: "map (put_position (\<lambda>p. p + d)) (number_from k xs) = number_from (k + d) xs"
  by (induction xs arbitrary: k) (simp_all add: algebra_simps)

lemma number_from_back:
  "map (put_position (\<lambda>p. - p + d)) (map (put_position uminus) (number_from k xs)) = number_from (k + d) xs"
  using number_from_shift [of d k xs] by (simp add: comp_def add.commute)

lemma number_from_fields: "map f (number_from k xs) = map f xs" if "\<And>r p. f (r\<lparr>sec_position := p\<rparr>) = f r"
  using that by (induction xs arbitrary: k) simp_all

lemma filter_by_key:
  assumes "distinct (map f ys)" and "k \<in> set ys"
  shows "filter (\<lambda>x. f k = f x) ys = [k]"
  using assms
proof (induction ys)
  case (Cons y ys)
  then show ?case
    by (cases "k = y") (auto simp: filter_empty_conv, metis image_eqI)
qed simp

lemma sort_key_unique:
  assumes "mset xs = mset ys" and "distinct (map f ys)" and "sorted (map f ys)"
  shows "sort_key f xs = ys"
proof (rule properties_for_sort_key)
  fix k assume k: "k \<in> set ys"
  have "mset (filter (\<lambda>x. f k = f x) xs) = mset (filter (\<lambda>x. f k = f x) ys)"
    using assms(1) by (metis mset_filter)
  also have "\<dots> = {#k#}" unfolding filter_by_key [OF assms(2) k] by simp
  finally have "filter (\<lambda>x. f k = f x) xs = [k]" unfolding mset_single_iff .
  then show "filter (\<lambda>x. f k = f x) ys = filter (\<lambda>x. f k = f x) xs"
    unfolding filter_by_key [OF assms(2) k] by (rule sym)
qed (use assms in simp_all)

text \<open>The listing of numbered rows is the sequence, with the numbers 1 to n.\<close>

lemma listing_numbering: "numbering xs rs \<Longrightarrow> listing rs = number_from 1 xs"
  unfolding numbering_def listing_def
  by (intro sort_key_unique) (simp_all add: positions_distinct positions_sorted)

text \<open>A statement whose new positions are free: what it keeps and what it renumbers.\<close>

lemma update_positions_works:
  assumes "mset rs = mset (keep @ hit)"
    and "\<And>r. r \<in> set keep \<Longrightarrow> \<not> which r" and "\<And>r. r \<in> set hit \<Longrightarrow> which r"
    and "distinct (map (f \<circ> sec_position) hit)"
    and "\<And>r r'. r \<in> set hit \<Longrightarrow> r' \<in> set (keep @ hit) \<Longrightarrow> f (sec_position r) \<noteq> sec_position r'"
  obtains rs' where "update_positions which f rs = Some rs'" "mset rs' = mset (keep @ map (put_position f) hit)"
proof -
  let ?g = "\<lambda>r. if which r then put_position f r else r"
  have parts: "filter which (keep @ hit) = hit" "map ?g (keep @ hit) = keep @ map (put_position f) hit"
  proof -
    have "filter which keep = []" "filter which hit = hit"
      by (simp_all add: assms(2,3) filter_empty_conv filter_id_conv)
    then show "filter which (keep @ hit) = hit" by simp
    have "map ?g keep = keep" by (rule map_idI) (simp add: assms(2))
    moreover have "map ?g hit = map (put_position f) hit" by (simp add: assms(3))
    ultimately show "map ?g (keep @ hit) = keep @ map (put_position f) hit" by simp
  qed
  have hit: "mset (filter which rs) = mset hit" using assms(1) parts(1) by (metis mset_filter)
  have "mset (map (f \<circ> sec_position) (filter which rs)) = mset (map (f \<circ> sec_position) hit)"
    by (simp only: mset_map hit)
  from mset_eq_imp_distinct_iff [OF this] assms(4)
  have "distinct (map (f \<circ> sec_position) (filter which rs))" by (simp only:)
  moreover have "set (map (f \<circ> sec_position) (filter which rs)) \<inter> set (map sec_position rs) = {}"
    unfolding set_map mset_eq_setD [OF hit] mset_eq_setD [OF assms(1)] using assms(5) by auto
  ultimately have "update_positions which f rs = Some (map ?g rs)" by (simp only: update_positions_def Let_def if_True simp_thms)
  moreover have "mset (map ?g rs) = mset (keep @ map (put_position f) hit)"
    unfolding parts(2) [symmetric] by (simp only: mset_map assms(1))
  ultimately show thesis by (rule that)
qed

lemma find_by_xid:
  assumes "mset rs = mset (keep @ [x])" and "\<And>r. r \<in> set keep \<Longrightarrow> sec_xid r \<noteq> sec_xid x"
  shows "List.find (\<lambda>r. sec_xid r = sec_xid x) rs = Some x"
proof -
  have members: "set rs = insert x (set keep)" using mset_eq_setD [OF assms(1)] by auto
  then have "List.find (\<lambda>r. sec_xid r = sec_xid x) rs \<noteq> None" by (auto simp: find_None_iff)
  then obtain y where y: "List.find (\<lambda>r. sec_xid r = sec_xid x) rs = Some y" by auto
  then have "y \<in> set rs" "sec_xid y = sec_xid x" by (auto simp: find_Some_iff)
  with members assms(2) y show ?thesis by auto
qed

lemma distinct_positions_map: "inj f \<Longrightarrow> distinct (map (f \<circ> sec_position) (number_from k xs))"
  using positions_distinct [of k xs] by (metis distinct_map inj_on_subset map_map subset_UNIV)

text \<open>
  The mover is at one end of a span of sections numbered from \<open>j\<close>; it ends at the other, and the span
  moves by one towards the slot it left.
\<close>

lemma move_span:
  assumes rs: "mset rs = mset (K @ number_from j B @ [x\<lparr>sec_position := frm\<rparr>])"
    and B: "B \<noteq> []" and j: "1 \<le> j"
    and ends: "(frm, to, delta) = (j - 1, j + int (length B) - 1, -1) \<and> 1 < j \<or>
               (frm, to, delta) = (j + int (length B), j, 1)"
    and K: "\<And>r. r \<in> set K \<Longrightarrow> 1 \<le> sec_position r \<and>
              (sec_position r < min j frm \<or> max frm (j + int (length B) - 1) < sec_position r)"
    and ids: "\<And>r. r \<in> set K \<union> set B \<Longrightarrow> sec_xid r \<noteq> sec_xid x"
    and to: "1 \<le> to" "to \<le> int (length rs)"
  obtains rs' where "move_section (sec_xid x) to rs = Some rs'"
    "mset rs' = mset (K @ number_from (j + delta) B @ [x\<lparr>sec_position := to\<rparr>])"
proof -
  let ?n = "number_from j B" and ?high = "j + int (length B) - 1"
  let ?down = "map (put_position uminus) ?n" and ?x = "\<lambda>p. x\<lparr>sec_position := p\<rparr>"
  let ?span = "\<lambda>r. j \<le> sec_position r \<and> sec_position r \<le> ?high"
  have pos: "1 \<le> frm" "to \<noteq> frm" "frm < j \<or> ?high < frm" using ends j B by auto
  have inB: "j \<le> sec_position r \<and> sec_position r \<le> ?high \<and> sec_xid r \<noteq> sec_xid x" if "r \<in> set ?n" for r
  proof -
    from in_number_from [OF that] obtain b where "b \<in> set B" "sec_xid r = sec_xid b" by auto
    with in_number_from [OF that] ids show ?thesis by auto
  qed
  have idK: "sec_xid r \<noteq> sec_xid x" if "r \<in> set K" for r using ids that by blast
  have start: "mset rs = mset ((K @ ?n) @ [?x frm])" by (simp add: rs)
  obtain parked where parked: "update_positions (\<lambda>r. sec_xid r = sec_xid x) (\<lambda>_. - frm) rs = Some parked"
      "mset parked = mset ((K @ ?n) @ map (put_position (\<lambda>_. - frm)) [?x frm])"
  proof (rule update_positions_works [OF start, of "\<lambda>r. sec_xid r = sec_xid x" "\<lambda>_. - frm"])
    show "- frm \<noteq> sec_position r" if "r \<in> set ((K @ ?n) @ [?x frm])" for r
      using that K [of r] inB [of r] pos(1) j by auto
  qed (use idK inB in auto)
  then have "mset parked = mset ((K @ [?x (- frm)]) @ ?n)" by simp
  then obtain shifting where shifting: "update_positions ?span uminus parked = Some shifting"
      "mset shifting = mset ((K @ [?x (- frm)]) @ ?down)"
  proof (rule update_positions_works [of parked _ _ ?span uminus])
    show "\<not> ?span r" if "r \<in> set (K @ [?x (- frm)])" for r using that K [of r] pos j by auto
    show "- sec_position b \<noteq> sec_position r" if "b \<in> set ?n" "r \<in> set ((K @ [?x (- frm)]) @ ?n)" for b r
      using that K [of r] inB [of b] inB [of r] pos j by auto
  qed (use inB in \<open>auto simp: distinct_positions_map\<close>)
  have "set ?n \<subseteq> set parked" using mset_eq_setD [OF parked(2)] by auto
  moreover obtain b where "b \<in> set ?n" using B number_from_keys(2) [of j B] by (cases ?n) auto
  ultimately have moved: "filter ?span parked \<noteq> []" using inB by (auto simp: filter_empty_conv)
  let ?neg = "\<lambda>r. sec_position r < 0 \<and> sec_xid r \<noteq> sec_xid x"
  obtain shifted where shifted: "update_positions ?neg (\<lambda>p. - p + delta) shifting = Some shifted"
      "mset shifted = mset ((K @ [?x (- frm)]) @ map (put_position (\<lambda>p. - p + delta)) ?down)"
  proof (rule update_positions_works [OF shifting(2), of ?neg "\<lambda>p. - p + delta"])
    have down: "\<exists>b \<in> set ?n. r = put_position uminus b" if "r \<in> set ?down" for r using that by auto
    show "\<not> ?neg r" if "r \<in> set (K @ [?x (- frm)])" for r using that K [of r] by auto
    have below: "sec_position r < 0 \<and> j \<le> - sec_position r \<and> - sec_position r \<le> ?high \<and> sec_xid r \<noteq> sec_xid x"
      if "r \<in> set ?down" for r
    proof -
      from down [OF that] obtain b where b: "b \<in> set ?n" "r = put_position uminus b" by blast
      show ?thesis using inB [OF b(1)] j unfolding b(2) by simp
    qed
    show "?neg r" if "r \<in> set ?down" for r using below [OF that] by simp
    have same: "map ((\<lambda>p. - p + delta) \<circ> sec_position) ?down = map ((\<lambda>p. p + delta) \<circ> sec_position) ?n"
      unfolding map_map by (rule map_cong [OF refl]) simp
    have "inj (\<lambda>p :: int. p + delta)" by (rule injI) simp
    then show "distinct (map ((\<lambda>p. - p + delta) \<circ> sec_position) ?down)"
      unfolding same by (rule distinct_positions_map)
    show "- sec_position b + delta \<noteq> sec_position r"
      if b: "b \<in> set ?down" and r: "r \<in> set ((K @ [?x (- frm)]) @ ?down)" for b r
    proof -
      have target: "1 \<le> - sec_position b + delta" "min j frm \<le> - sec_position b + delta"
        "- sec_position b + delta \<le> max frm ?high"
        using below [OF b] ends pos(1) j by auto
      consider "r \<in> set K" | "r = ?x (- frm)" | "r \<in> set ?down"
        using r unfolding set_append list.set by blast
      then show ?thesis
      proof cases
        case 1
        with K [of r] target(2,3) show ?thesis by linarith
      next
        case 2
        then show ?thesis using target(1) pos(1) by simp
      next
        case 3
        with below [of r] target(1) show ?thesis by linarith
      qed
    qed
  qed
  have new: "r \<in> set (number_from (j + delta) B) \<Longrightarrow> sec_position r \<noteq> to \<and> 1 \<le> sec_position r \<and> sec_xid r \<noteq> sec_xid x" for r
  proof -
    assume r: "r \<in> set (number_from (j + delta) B)"
    from in_number_from [OF r] obtain b where "b \<in> set B" "sec_xid r = sec_xid b" by auto
    with in_number_from [OF r] ids [of b] ends j show ?thesis by auto
  qed
  have "mset shifted = mset ((K @ number_from (j + delta) B) @ [?x (- frm)])"
    using shifted(2) unfolding number_from_back by simp
  then obtain rs' where last: "update_positions (\<lambda>r. sec_xid r = sec_xid x) (\<lambda>_. to) shifted = Some rs'"
      "mset rs' = mset ((K @ number_from (j + delta) B) @ map (put_position (\<lambda>_. to)) [?x (- frm)])"
  proof (rule update_positions_works [of shifted _ _ "\<lambda>r. sec_xid r = sec_xid x" "\<lambda>_. to"])
    show "to \<noteq> sec_position r" if "r \<in> set ((K @ number_from (j + delta) B) @ [?x (- frm)])" for r
      using that K [of r] new [of r] pos(1) to(1) ends B by auto
  qed (use idK new in auto)
  have find: "List.find (\<lambda>r. sec_xid r = sec_xid x) rs = Some (?x frm)"
    using find_by_xid [OF start] idK inB by fastforce
  have at: "sec_position (?x frm) = frm" by simp
  have clamp: "max 1 (min to (int (length rs))) = to" using to by simp
  have bounds: "(if to > frm then (frm + 1, to, -1) else (to, frm - 1, 1)) = (j, ?high, delta)" using ends B by auto
  have "move_section (sec_xid x) to rs = Some rs'"
    unfolding move_section_def find
    by (simp only: option.case Let_def clamp at bounds prod.case pos(2) moved if_False
        parked(1) shifting(1) shifted(1) last(1) bind.simps)
  then show thesis using last(2) that by simp
qed

lemma place_split:
  assumes "distinct (P @ x # S)" and "j \<le> length (P @ S)"
  shows "place x j (P @ x # S) = take j (P @ S) @ x # drop j (P @ S)"
  using assms by (simp add: place_def remove1_append)

lemma mset_place:
  assumes "x \<in> set xs"
  shows "mset (place x i xs) = mset xs"
proof -
  have "mset (take i (remove1 x xs)) + mset (drop i (remove1 x xs)) = mset (remove1 x xs)"
    by (metis append_take_drop_id mset_append)
  with assms show ?thesis by (simp add: place_def Let_def)
qed

lemma window_outside:
  assumes "r \<in> set (number_from 1 A @ number_from high C)" and "int (length A) < low" and "1 \<le> low" and "low \<le> high"
  shows "1 \<le> sec_position r \<and> (sec_position r < low \<or> high - 1 < sec_position r)"
  using assms in_number_from [of r 1 A] in_number_from [of r high C] by auto

lemma other_xids:
  assumes "distinct (map sec_xid (P @ x # S))" and "sec_xid r \<in> sec_xid ` (set P \<union> set S)"
  shows "sec_xid r \<noteq> sec_xid x"
proof -
  have "sec_xid x \<notin> sec_xid ` (set P \<union> set S)" using assms(1) by auto
  with assms(2) show ?thesis by metis
qed

lemma number_from_xid: "r \<in> set (number_from k xs) \<Longrightarrow> sec_xid r \<in> sec_xid ` set xs"
  using in_number_from by blast

lemma move_down:
  assumes ids: "distinct (map sec_xid (A @ x # B @ C))" and rs: "mset rs = mset (number_from 1 (A @ x # B @ C))"
    and B: "B \<noteq> []" and to: "to = int (length A + length B) + 1"
  obtains rs' where "move_section (sec_xid x) to rs = Some rs'"
    "mset rs' = mset (number_from 1 (A @ B @ x # C))"
proof -
  let ?frm = "int (length A) + 1" and ?high = "int (length A + length B) + 2"
  let ?K = "number_from 1 A @ number_from ?high C"
  have "mset rs = mset (?K @ number_from (?frm + 1) B @ [x\<lparr>sec_position := ?frm\<rparr>])"
    by (simp add: rs number_from_append add_ac)
  moreover have "(?frm, to, -1) = (?frm + 1 - 1, ?frm + 1 + int (length B) - 1, -1 :: int) \<and> 1 < ?frm + 1 \<or> P" for P
    using to by simp
  moreover have "1 \<le> sec_position r \<and> (sec_position r < min (?frm + 1) ?frm \<or>
      max ?frm (?frm + 1 + int (length B) - 1) < sec_position r)" if "r \<in> set ?K" for r
    using window_outside [OF that, of ?frm] B by auto
  moreover have "sec_xid r \<noteq> sec_xid x" if "r \<in> set ?K \<union> set B" for r
    using that by (intro other_xids [OF ids]) (auto dest: number_from_xid)
  moreover have "1 \<le> to" "to \<le> int (length rs)"
    using to arg_cong [OF rs, of size] by simp_all
  ultimately obtain rs' where "move_section (sec_xid x) to rs = Some rs'"
      "mset rs' = mset (?K @ number_from (?frm + 1 + -1) B @ [x\<lparr>sec_position := to\<rparr>])"
    using move_span [where rs = rs and K = ?K and j = "?frm + 1" and B = B and x = x and frm = ?frm and to = to and delta = "-1"] B by auto
  then show thesis
    using that by (simp add: to number_from_append add_ac)
qed


lemma move_up:
  assumes ids: "distinct (map sec_xid ((A @ B) @ x # C))" and rs: "mset rs = mset (number_from 1 ((A @ B) @ x # C))"
    and B: "B \<noteq> []" and to: "to = int (length A) + 1"
  obtains rs' where "move_section (sec_xid x) to rs = Some rs'"
    "mset rs' = mset (number_from 1 (A @ x # B @ C))"
proof -
  let ?frm = "to + int (length B)"
  let ?K = "number_from 1 A @ number_from (?frm + 1) C"
  have "mset rs = mset (?K @ number_from to B @ [x\<lparr>sec_position := ?frm\<rparr>])"
    by (simp add: rs to number_from_append add_ac)
  moreover have "P \<or> (?frm, to, 1) = (to + int (length B), to, 1 :: int)" for P by simp
  moreover have "1 \<le> sec_position r \<and> (sec_position r < min to ?frm \<or>
      max ?frm (to + int (length B) - 1) < sec_position r)" if "r \<in> set ?K" for r
    using window_outside [OF that, of to] to B by auto
  moreover have "sec_xid r \<noteq> sec_xid x" if "r \<in> set ?K \<union> set B" for r
    using that by (intro other_xids [OF ids]) (auto dest: number_from_xid)
  moreover have "1 \<le> to" "to \<le> int (length rs)"
    using to arg_cong [OF rs, of size] by simp_all
  ultimately obtain rs' where "move_section (sec_xid x) to rs = Some rs'"
      "mset rs' = mset (?K @ number_from (to + 1) B @ [x\<lparr>sec_position := to\<rparr>])"
    using move_span [where rs = rs and K = ?K and j = to and B = B and x = x and frm = ?frm and to = to and delta = 1] B by auto
  then show thesis
    using that by (simp add: to number_from_append add_ac)
qed

lemma move_nowhere:
  assumes ids: "distinct (map sec_xid (A @ x # C))" and rs: "mset rs = mset (number_from 1 (A @ x # C))"
    and to: "to = int (length A) + 1"
  shows "move_section (sec_xid x) to rs = Some rs"
proof -
  let ?K = "number_from 1 A @ number_from (to + 1) C" and ?x = "x\<lparr>sec_position := to\<rparr>"
  have split: "mset rs = mset (?K @ [?x])" by (simp add: rs to number_from_append add_ac)
  have "List.find (\<lambda>r. sec_xid r = sec_xid ?x) rs = Some ?x"
  proof (rule find_by_xid [OF split])
    show "sec_xid r \<noteq> sec_xid ?x" if "r \<in> set ?K" for r
      using that other_xids [OF ids, of r] by (auto dest: number_from_xid)
  qed
  then show ?thesis using to arg_cong [OF rs, of size] by (simp add: move_section_def)
qed

text \<open>Moving one section gives the sequence with that section in its new place, and never a 500.\<close>

lemma move_section_places:
  assumes "numbering xs rs" and "x \<in> set xs" and "i < length xs"
  obtains rs' where "move_section (sec_xid x) (int i + 1) rs = Some rs'" "numbering (place x i xs) rs'"
proof -
  from assms(2) obtain P S where xs: "xs = P @ x # S" by (auto dest: split_list)
  have ids: "distinct (map sec_xid (P @ x # S))" and rs: "mset rs = mset (number_from 1 (P @ x # S))"
    using assms(1) by (simp_all add: numbering_def xs)
  have dist: "distinct (P @ x # S)" using ids by (metis distinct_map)
  have "mset (map sec_xid (place x i xs)) = mset (map sec_xid xs)"
    by (simp only: mset_map mset_place [OF assms(2)])
  from mset_eq_imp_distinct_iff [OF this] ids
  have result: "numbering (place x i xs) rs'" if "mset rs' = mset (number_from 1 (place x i xs))" for rs'
    using that by (simp add: numbering_def xs)
  have "i \<le> length (P @ S)" using assms(3) xs by simp
  note place = place_split [OF dist this, folded xs]
  consider "i = length P" | "length P < i" | "i < length P" by linarith
  then show thesis
  proof cases
    case 1
    then have "place x i xs = xs" unfolding place by (simp add: xs)
    with move_nowhere [OF ids rs, of "int i + 1"] 1 assms(1) that show thesis by simp
  next
    case 2
    let ?B = "take (i - length P) S" and ?C = "drop (i - length P) S"
    have B: "length ?B = i - length P" "?B \<noteq> []" using assms(3) xs 2 by auto
    have split: "P @ x # ?B @ ?C = P @ x # S" by simp
    obtain rs' where moved: "move_section (sec_xid x) (int i + 1) rs = Some rs'"
        "mset rs' = mset (number_from 1 (P @ ?B @ x # ?C))"
      by (rule move_down [of P x ?B ?C rs "int i + 1"]) (use ids rs 2 B in \<open>simp_all only: split\<close>, simp_all)
    moreover have "place x i xs = P @ ?B @ x # ?C" using 2 by (simp add: place)
    ultimately show thesis using that result by metis
  next
    case 3
    let ?A = "take i P" and ?B = "drop i P"
    obtain rs' where moved: "move_section (sec_xid x) (int i + 1) rs = Some rs'"
        "mset rs' = mset (number_from 1 (?A @ x # ?B @ S))"
      by (rule move_up [of ?A ?B x S rs "int i + 1"]) (use ids rs 3 in simp_all)
    moreover have "place x i xs = ?A @ x # ?B @ S" using 3 by (simp add: place)
    ultimately show thesis using that result by metis
  qed
qed

text \<open>Room for one more section, and the gap one leaves behind.\<close>

lemma make_room_opens:
  assumes "numbering (A @ B) rs"
  obtains rs' where "make_room (int (length A) + 1) rs = Some rs'"
    "mset rs' = mset (number_from 1 A @ number_from (int (length A) + 2) B)"
proof -
  let ?p = "int (length A) + 1" and ?K = "number_from 1 A" and ?n = "number_from (int (length A) + 1) B"
  let ?after = "\<lambda>r. ?p \<le> sec_position r" and ?down = "map (put_position uminus) (number_from (int (length A) + 1) B)"
  have rs: "mset rs = mset (?K @ ?n)"
    using assms by (simp add: numbering_def number_from_append add.commute)
  have K: "1 \<le> sec_position r \<and> sec_position r < ?p" if "r \<in> set ?K" for r using in_number_from [OF that] by simp
  have n: "?p \<le> sec_position r" if "r \<in> set ?n" for r using in_number_from [OF that] by simp
  have inj: "inj (\<lambda>p :: int. - p)" "inj (\<lambda>p :: int. p + 1)" by (simp_all add: inj_def)
  obtain shifting where shifting: "update_positions ?after uminus rs = Some shifting"
      "mset shifting = mset (?K @ ?down)"
  proof (rule update_positions_works [OF rs, of ?after uminus])
    show "- sec_position b \<noteq> sec_position r" if "b \<in> set ?n" "r \<in> set (?K @ ?n)" for b r
      using that K [of r] n [of b] n [of r] by auto
    show "\<not> ?after r" if "r \<in> set ?K" for r using K [OF that] by simp
  qed (simp_all add: n distinct_positions_map inj)
  show thesis
  proof (cases "filter ?after rs = []")
    case True
    have "set ?n \<subseteq> set rs" using mset_eq_setD [OF rs] by auto
    with True n have "?n = []" by (cases ?n) (auto simp: filter_empty_conv)
    then have "B = []" by (metis length_0_conv number_from_keys(2))
    with shifting True show thesis using that by (simp add: make_room_def Let_def)
  next
    case False
    let ?neg = "\<lambda>r. sec_position r < 0"
    have below: "sec_position r < 0 \<and> ?p \<le> - sec_position r" if "r \<in> set ?down" for r
    proof -
      from that obtain b where "b \<in> set ?n" "r = put_position uminus b" by auto
      then show ?thesis using n [of b] by simp
    qed
    have same: "map ((\<lambda>p. - p + 1) \<circ> sec_position) ?down = map ((\<lambda>p. p + 1) \<circ> sec_position) ?n"
      unfolding map_map by (rule map_cong [OF refl]) simp
    obtain rs' where last: "update_positions ?neg (\<lambda>p. - p + 1) shifting = Some rs'"
        "mset rs' = mset (?K @ map (put_position (\<lambda>p. - p + 1)) ?down)"
    proof (rule update_positions_works [OF shifting(2), of ?neg "\<lambda>p. - p + 1"])
      show "distinct (map ((\<lambda>p. - p + 1) \<circ> sec_position) ?down)"
        unfolding same by (rule distinct_positions_map [OF inj(2)])
      show "- sec_position b + 1 \<noteq> sec_position r" if b: "b \<in> set ?down" and r: "r \<in> set (?K @ ?down)" for b r
        using r below [OF b] below [of r] K [of r] unfolding set_append by auto
    qed (use K below in force)+
    have "make_room ?p rs = Some rs'"
      unfolding make_room_def Let_def shifting(1) bind.simps if_not_P [OF False] last(1) ..
    moreover have "mset rs' = mset (?K @ number_from (int (length A) + 2) B)"
      using last(2) unfolding number_from_back by (simp add: add.commute)
    ultimately show thesis by (rule that)
  qed
qed

lemma close_gap_works:
  assumes rs: "mset rs = mset (number_from 1 A @ number_from (int (length A) + 2) B)"
  obtains rs' where "close_position_gap (int (length A) + 1) rs = Some rs'" "mset rs' = mset (number_from 1 (A @ B))"
proof -
  let ?p = "int (length A) + 1" and ?K = "number_from 1 A" and ?n = "number_from (int (length A) + 2) B"
  let ?after = "\<lambda>r. ?p < sec_position r" and ?neg = "\<lambda>r. sec_position r < 0"
  let ?down = "map (put_position uminus) (number_from (int (length A) + 2) B)"
  have K: "1 \<le> sec_position r \<and> sec_position r < ?p" if "r \<in> set ?K" for r using in_number_from [OF that] by simp
  have n: "?p < sec_position r" if "r \<in> set ?n" for r using in_number_from [OF that] by simp
  have inj: "inj (\<lambda>p :: int. - p)" "inj (\<lambda>p :: int. p - 1)" by (simp_all add: inj_def)
  obtain shifting where shifting: "update_positions ?after uminus rs = Some shifting"
      "mset shifting = mset (?K @ ?down)"
  proof (rule update_positions_works [OF rs, of ?after uminus])
    show "- sec_position b \<noteq> sec_position r" if "b \<in> set ?n" "r \<in> set (?K @ ?n)" for b r
      using that K [of r] n [of b] n [of r] by auto
    show "\<not> ?after r" if "r \<in> set ?K" for r using K [OF that] by simp
  qed (simp_all add: n distinct_positions_map inj)
  have below: "sec_position r < 0 \<and> ?p < - sec_position r" if "r \<in> set ?down" for r
  proof -
    from that obtain b where "b \<in> set ?n" "r = put_position uminus b" by auto
    then show ?thesis using n [of b] by simp
  qed
  have same: "map ((\<lambda>p. - p - 1) \<circ> sec_position) ?down = map ((\<lambda>p. p - 1) \<circ> sec_position) ?n"
    unfolding map_map by (rule map_cong [OF refl]) simp
  obtain rs' where last: "update_positions ?neg (\<lambda>p. - p - 1) shifting = Some rs'"
      "mset rs' = mset (?K @ map (put_position (\<lambda>p. - p - 1)) ?down)"
  proof (rule update_positions_works [OF shifting(2), of ?neg "\<lambda>p. - p - 1"])
    show "distinct (map ((\<lambda>p. - p - 1) \<circ> sec_position) ?down)"
      unfolding same by (rule distinct_positions_map [OF inj(2)])
    show "- sec_position b - 1 \<noteq> sec_position r" if b: "b \<in> set ?down" and r: "r \<in> set (?K @ ?down)" for b r
      using r below [OF b] below [of r] K [of r] unfolding set_append by auto
  qed (use K below in force)+
  have "map (put_position (\<lambda>p. - p - 1)) ?down = number_from ?p B"
    using number_from_shift [of "-1" "int (length A) + 2" B] by (simp add: comp_def add.commute)
  then have "mset rs' = mset (number_from 1 (A @ B))" unfolding last(2) by (simp add: number_from_append add.commute)
  moreover have "close_position_gap ?p rs = Some rs'"
    unfolding close_position_gap_def shifting(1) bind.simps last(1) ..
  ultimately show thesis by (rule that [rotated])
qed

lemma length_numbering: "numbering xs rs \<Longrightarrow> length rs = length xs"
  unfolding numbering_def by (metis number_from_keys(2) size_mset)

lemma create_section_inserts:
  assumes "numbering xs rs" and "1 \<le> sec_position new" and "sec_xid new \<notin> sec_xid ` set xs"
  obtains rs' where "create_section new rs = Some rs'"
    "numbering (take (nat (sec_position new) - 1) xs @ new # drop (nat (sec_position new) - 1) xs) rs'"
proof -
  let ?k = "nat (sec_position new) - 1"
  define A B where "A = take ?k xs" and "B = drop ?k xs"
  have xs: "xs = A @ B" by (simp add: A_def B_def)
  have "length rs = length xs" using assms(1) by (rule length_numbering)
  then have position: "min (sec_position new) (int (length rs) + 1) = int (length A) + 1"
    using assms(2) by (simp add: A_def)
  from assms(1) xs have "numbering (A @ B) rs" by simp
  then obtain rs' where room: "make_room (int (length A) + 1) rs = Some rs'"
      "mset rs' = mset (number_from 1 A @ number_from (int (length A) + 2) B)"
    by (rule make_room_opens)
  have "int (length A) + 1 \<notin> set (map sec_position rs')"
    using in_number_from [of _ 1 A] in_number_from [of _ "int (length A) + 2" B]
    unfolding set_map mset_eq_setD [OF room(2)] by fastforce
  then have "create_section new rs = Some (rs' @ [new\<lparr>sec_position := int (length A) + 1\<rparr>])"
    unfolding create_section_def Let_def position room(1) bind.simps by (simp only: if_False)
  moreover have "numbering (A @ new # B) (rs' @ [new\<lparr>sec_position := int (length A) + 1\<rparr>])"
    using assms(1,3) room(2) by (simp add: numbering_def xs number_from_append add_ac image_Un)
  ultimately show thesis using that unfolding A_def B_def by blast
qed

lemma delete_section_removes:
  assumes "numbering xs rs" and "x \<in> set xs"
  obtains rs' where "delete_section (sec_xid x) rs = Some rs'" "numbering (remove1 x xs) rs'"
proof -
  from assms(2) obtain A B where xs: "xs = A @ x # B" and notin: "x \<notin> set A" by (metis split_list_first)
  have ids: "distinct (map sec_xid (A @ x # B))" and rs: "mset rs = mset (number_from 1 (A @ x # B))"
    using assms(1) by (simp_all add: numbering_def xs)
  let ?K = "number_from 1 A @ number_from (int (length A) + 2) B" and ?x = "x\<lparr>sec_position := int (length A) + 1\<rparr>"
  have split: "mset rs = mset (?K @ [?x])" by (simp add: rs number_from_append add_ac)
  have others: "sec_xid r \<noteq> sec_xid x" if "r \<in> set ?K" for r
    using that by (intro other_xids [OF ids]) (auto dest: number_from_xid)
  then have "List.find (\<lambda>r. sec_xid r = sec_xid ?x) rs = Some ?x"
    using find_by_xid [OF split] by simp
  then have delete: "delete_section (sec_xid x) rs =
      close_position_gap (int (length A) + 1) (filter (\<lambda>r. sec_xid r \<noteq> sec_xid x) rs)"
    by (simp add: delete_section_def)
  have "mset (filter (\<lambda>r. sec_xid r \<noteq> sec_xid x) rs) = mset (filter (\<lambda>r. sec_xid r \<noteq> sec_xid x) (?K @ [?x]))"
    using split by (metis mset_filter)
  also have "filter (\<lambda>r. sec_xid r \<noteq> sec_xid x) (?K @ [?x]) = ?K"
    using others by (auto simp: filter_id_conv)
  finally obtain rs' where gap: "delete_section (sec_xid x) rs = Some rs'" "mset rs' = mset (number_from 1 (A @ B))"
    unfolding delete by (rule close_gap_works)
  moreover have "numbering (remove1 x xs) rs'"
    using ids gap(2) notin by (simp add: numbering_def xs remove1_append)
  ultimately show thesis using that by blast
qed

subsection \<open>The sections of a test never have a hole\<close>

datatype section_op = CreateOp section_row | MoveOp string int | DeleteOp string

fun apply_op :: "section_op \<Rightarrow> section_row list \<Rightarrow> section_row list option" where
  "apply_op (CreateOp new) rs = create_section new rs"
| "apply_op (MoveOp xid goal) rs = move_section xid goal rs"
| "apply_op (DeleteOp xid) rs = delete_section xid rs"

text \<open>What the handlers check first: a position of at least one, a new identifier, a section that exists.\<close>

fun op_ok :: "section_op \<Rightarrow> section_row list \<Rightarrow> bool" where
  "op_ok (CreateOp new) rs \<longleftrightarrow> 1 \<le> sec_position new \<and> sec_xid new \<notin> set (map sec_xid rs)"
| "op_ok (MoveOp xid goal) rs \<longleftrightarrow> xid \<in> set (map sec_xid rs)"
| "op_ok (DeleteOp xid) rs \<longleftrightarrow> xid \<in> set (map sec_xid rs)"

fun run_ops :: "section_op list \<Rightarrow> section_row list \<Rightarrow> section_row list option" where
  "run_ops [] rs = Some rs"
| "run_ops (opn # ops) rs = (if op_ok opn rs then Option.bind (apply_op opn rs) (run_ops ops) else run_ops ops rs)"

definition numbered :: "section_row list \<Rightarrow> bool" where
  "numbered rs \<longleftrightarrow> distinct (map sec_xid rs) \<and> isContiguous (map (\<lambda>r. Some (sec_position r)) rs)"

lemma numbering_xids: "numbering xs rs \<Longrightarrow> set (map sec_xid rs) = set (map sec_xid xs)"
  unfolding numbering_def by (metis mset_map mset_eq_setD number_from_keys(1))

lemma number_from_id: "number_from k ys = ys \<longleftrightarrow> map sec_position ys = map (\<lambda>i. k + int i) [0..<length ys]"
proof (induction ys arbitrary: k)
  case (Cons y ys)
  have "y\<lparr>sec_position := k\<rparr> = y \<longleftrightarrow> sec_position y = k" by (cases y) auto
  moreover have "(\<lambda>i. k + int (Suc i)) = (\<lambda>i. k + 1 + int i)" by auto
  ultimately show ?case using Cons.IH [of "k + 1"] by (simp add: map_upt_Suc del: upt_Suc)
qed simp

lemma one_up: "map int [1..<Suc n] = map (\<lambda>i. 1 + int i) [0..<n]"
  by (rule nth_equalityI) (simp_all del: upt_Suc)

lemma positions_number_from: "map sec_position (number_from 1 xs) = map int [1..<Suc (length xs)]"
proof -
  have "number_from 1 (number_from 1 xs) = number_from 1 xs"
  proof -
    have "number_from k (number_from k xs) = number_from k xs" for k by (induction xs arbitrary: k) simp_all
    then show ?thesis .
  qed
  then show ?thesis unfolding number_from_id one_up by simp
qed

lemma contiguous_iff: "isContiguous (map (\<lambda>r. Some (sec_position r)) rs) \<longleftrightarrow>
    mset (map sec_position rs) = mset (map int [1..<Suc (length rs)])"
proof -
  have "map (\<lambda>r. Some (sec_position r)) rs = map Some (map sec_position rs)" by simp
  then show ?thesis
    unfolding isContiguous_iff length_map by (simp only: mset_map_Some flip: map_map)
qed

text \<open>The console's check accepts a listing exactly when some sequence stands behind it.\<close>

lemma numbered_iff: "numbered rs \<longleftrightarrow> (\<exists>xs. numbering xs rs)"
proof
  assume "numbered rs"
  then have dist: "distinct (map sec_xid rs)"
    and positions: "mset (map sec_position rs) = mset (map int [1..<Suc (length rs)])"
    unfolding numbered_def contiguous_iff by blast+
  let ?ys = "listing rs"
  have same: "mset ?ys = mset rs" "length ?ys = length rs" by (simp_all add: listing_def)
  have "sort (map sec_position rs) = map sec_position ?ys"
    by (rule properties_for_sort) (simp_all add: listing_def)
  with positions have "map sec_position ?ys = map int [1..<Suc (length ?ys)]"
    unfolding sort_upto [symmetric] same(2) by simp
  then have "number_from 1 ?ys = ?ys" unfolding number_from_id one_up .
  moreover have "distinct (map sec_xid ?ys)"
    using dist mset_eq_imp_distinct_iff [of "map sec_xid ?ys" "map sec_xid rs"] same(1) by (simp only: mset_map)
  ultimately have "numbering ?ys rs" using same(1) by (simp add: numbering_def)
  then show "\<exists>xs. numbering xs rs" ..
next
  assume "\<exists>xs. numbering xs rs"
  then obtain xs where xs: "distinct (map sec_xid xs)" "mset rs = mset (number_from 1 xs)" and len: "length rs = length xs"
    using length_numbering by (auto simp: numbering_def)
  have "mset (map sec_xid rs) = mset (map sec_xid xs)" using xs(2) by (metis mset_map number_from_keys(1))
  from mset_eq_imp_distinct_iff [OF this] xs(1) have "distinct (map sec_xid rs)" by simp
  moreover have "mset (map sec_position rs) = mset (map int [1..<Suc (length rs)])"
    unfolding len positions_number_from [symmetric] using xs(2) by (metis mset_map)
  ultimately show "numbered rs" unfolding numbered_def contiguous_iff ..
qed

lemma move_clamps: "move_section xid goal rs = move_section xid (max 1 (min goal (int (length rs)))) rs"
proof (cases "rs = []")
  case False
  then have "max 1 (min (max 1 (min goal (int (length rs)))) (int (length rs))) = max 1 (min goal (int (length rs)))"
    by (cases rs) auto
  then show ?thesis unfolding move_section_def by (simp only: Let_def)
qed (simp add: move_section_def)

lemma apply_op_numbered:
  assumes "numbered rs" and "op_ok opn rs"
  obtains rs' where "apply_op opn rs = Some rs'" "numbered rs'"
proof -
  from assms(1) obtain xs where xs: "numbering xs rs" unfolding numbered_iff ..
  have ids: "set (map sec_xid rs) = sec_xid ` set xs" using numbering_xids [OF xs] by simp
  have len: "length rs = length xs" by (rule length_numbering [OF xs])
  show thesis
  proof (cases opn)
    case (CreateOp new)
    then have new: "1 \<le> sec_position new" "sec_xid new \<notin> sec_xid ` set xs" using assms(2) ids by auto
    show thesis
      by (rule create_section_inserts [OF xs new]) (use that CreateOp numbered_iff in auto)
  next
    case (MoveOp xid goal)
    then obtain x where x: "x \<in> set xs" "sec_xid x = xid" using assms(2) ids by auto
    let ?to = "max 1 (min goal (int (length rs)))"
    have "nat (?to - 1) < length xs" "int (nat (?to - 1)) + 1 = ?to" using x(1) len by (cases xs; auto)+
    then show thesis
      using move_section_places [OF xs x(1), of "nat (?to - 1)"] that move_clamps [of xid goal rs] x(2) MoveOp
      unfolding numbered_iff by (metis apply_op.simps(2))
  next
    case (DeleteOp xid)
    then obtain x where x: "x \<in> set xs" "sec_xid x = xid" using assms(2) ids by auto
    then show thesis
      using delete_section_removes [OF xs x(1)] that DeleteOp unfolding numbered_iff by (metis apply_op.simps(3))
  qed
qed

text \<open>
  C16: the sections of a test never have a hole. From sections numbered 1 to n, no sequence of
  creations, moves and deletions ever meets the unique index, and after each of them the
  console's check finds the positions contiguous.
\<close>
theorem sections_never_have_holes:
  assumes "numbered rs"
  shows "\<exists>rs'. run_ops ops rs = Some rs' \<and> numbered rs'"
  using assms
proof (induction ops arbitrary: rs)
  case (Cons opn ops)
  show ?case
  proof (cases "op_ok opn rs")
    case True
    with Cons.prems obtain rs1 where "apply_op opn rs = Some rs1" "numbered rs1" by (rule apply_op_numbered)
    with Cons.IH True show ?thesis by simp
  qed (use Cons in simp)
qed simp

definition sample_section :: "string \<Rightarrow> int \<Rightarrow> section_row" where
  "sample_section xid p =
     \<lparr>sec_xid = xid, sec_position = p, sec_skill = ''reading'', sec_title = ''Passage'', sec_limit = None,
      sec_declared = Some 13, sec_play_once = True, sec_passage = None, sec_audio = None\<rparr>"

theorem sections_never_have_holes_witness:
  "\<exists>rs'. run_ops [MoveOp ''a'' 3, DeleteOp ''b'', CreateOp (sample_section ''d'' 1)]
      [sample_section ''a'' 1, sample_section ''b'' 2, sample_section ''c'' 3] = Some rs' \<and> numbered rs'"
  by (rule sections_never_have_holes) (simp add: numbered_def sample_section_def isContiguous_def)

subsection \<open>What the console relies on\<close>

text \<open>
  Sections patched one at a time: a patch puts one section at a position among the others, and may
  change that section (\<open>touch\<close>).
\<close>

fun apply_moves :: "(string \<Rightarrow> int \<Rightarrow> 's \<Rightarrow> 's option) \<Rightarrow> (string \<times> int) list \<Rightarrow> 's \<Rightarrow> 's option" where
  "apply_moves patch [] s = Some s"
| "apply_moves patch ((xid, p) # moves) s = Option.bind (patch xid p s) (apply_moves patch moves)"

fun moves_from :: "nat \<Rightarrow> (string \<times> int option) list \<Rightarrow> (string \<times> int) list" where
  "moves_from k [] = []"
| "moves_from k ((x, old) # rest) =
     (if old \<noteq> Some (int k + 1) then [(x, int k + 1)] else []) @ moves_from (Suc k) rest"

lemma sectionMoves_from: "sectionMoves desired = moves_from 0 desired"
proof -
  have "map fst (filter (\<lambda>(next, old). old \<noteq> Some (snd next))
      (map2 (\<lambda>s i. ((fst s, int i + 1), snd s)) desired [k..<k + length desired])) = moves_from k desired" for k
  proof (induction desired arbitrary: k)
    case (Cons d desired)
    have "[k..<k + length (d # desired)] = k # [Suc k..<Suc k + length desired]"
      using upt_conv_Cons [of k "k + length (d # desired)"] by simp
    with Cons.IH [of "Suc k"] show ?case by (cases d) simp
  qed simp
  from this [of 0] show ?thesis by (simp add: sectionMoves_def)
qed

text \<open>An order reached by placing the elements front to back, leaving one alone only when its turn finds it in place.\<close>

fun settled :: "nat \<Rightarrow> (nat \<times> 'a) list \<Rightarrow> (nat \<times> 'a) list \<Rightarrow> bool" where
  "settled k left [] \<longleftrightarrow> left = []"
| "settled k left (d # ds) \<longleftrightarrow>
     d \<in> set left \<and> (fst d = k \<longrightarrow> hd left = d) \<and> settled (Suc k) (filter (\<lambda>z. fst z \<noteq> fst d) left) ds"

fun finish :: "('r \<Rightarrow> 'r) \<Rightarrow> nat \<Rightarrow> (nat \<times> 'r) list \<Rightarrow> 'r list" where
  "finish touch k [] = []"
| "finish touch k ((i, x) # ds) = (if i = k then x else touch x) # finish touch (Suc k) ds"

lemma enumerate_fst: "z \<in> set (enumerate k xs) \<Longrightarrow> k \<le> fst z \<and> fst z < k + length xs"
  by (auto simp: in_set_enumerate_eq)

lemma filter_enumerate:
  "k < m \<or> m + length xs \<le> k \<Longrightarrow> filter (\<lambda>z. fst z \<noteq> k) (enumerate m xs) = enumerate m xs"
  by (rule filter_True) (use enumerate_fst in fastforce)

lemma settled_same: "settled k (enumerate k C) (enumerate k C)"
  by (induction C arbitrary: k) (simp_all add: filter_enumerate)

lemma settled_prefix:
  "settled (k + length A) R D \<Longrightarrow> (\<And>z. z \<in> set R \<Longrightarrow> k + length A \<le> fst z) \<Longrightarrow>
   settled k (enumerate k A @ R) (enumerate k A @ D)"
proof (induction A arbitrary: k)
  case (Cons a A)
  have "filter (\<lambda>z. fst z \<noteq> k) R = R" by (rule filter_True) (use Cons.prems(2) in fastforce)
  with Cons show ?case by (simp add: filter_enumerate)
qed simp

lemma settled_down:
  "i \<le> k \<Longrightarrow> settled k ((i, x) # enumerate (Suc k) B @ enumerate (Suc k + length B) C)
     (enumerate (Suc k) B @ (i, x) # enumerate (Suc k + length B) C)"
proof (induction B arbitrary: k)
  case (Cons b B)
  with Cons.IH [of "Suc k"] show ?case by (simp add: filter_enumerate)
qed (simp add: filter_enumerate settled_same)

lemma settled_shifted:
  "settled (Suc k) (enumerate k B @ enumerate (Suc k + length B) C) (enumerate k B @ enumerate (Suc k + length B) C)"
proof (induction B arbitrary: k)
  case (Cons b B)
  from Cons.IH [of "Suc k"] show ?case by (simp add: filter_enumerate)
qed (simp add: settled_same)

lemma settled_up:
  "B \<noteq> [] \<Longrightarrow> settled k (enumerate k B @ (k + length B, x) # enumerate (Suc k + length B) C)
     ((k + length B, x) # enumerate k B @ enumerate (Suc k + length B) C)"
  using settled_shifted [of k B C] by (simp add: filter_enumerate)


lemma enumerate_split: "enumerate k (A @ x # C) = enumerate k A @ (k + length A, x) # enumerate (Suc (k + length A)) C"
  by (simp add: enumerate_append_eq)

lemma reorder_split:
  assumes "xs = P @ x # S" and "start = int (length P)" and "goal = int i" and "i \<le> length (P @ S)"
  shows "reorder xs start goal = take i (P @ S) @ x # drop i (P @ S)"
  using assms by (simp add: reorder_def splice_index_def Let_def)

text \<open>One drag is such an order.\<close>

lemma drag_settled:
  assumes "start < length xs" and "goal < length xs"
  shows "settled 0 (enumerate 0 xs) (reorder (enumerate 0 xs) (int start) (int goal))"
proof -
  define P x S where "P = take start xs" and "x = xs ! start" and "S = drop (Suc start) xs"
  have xs: "xs = P @ x # S" "length P = start"
    using assms(1) by (simp_all add: P_def x_def S_def id_take_nth_drop)
  have zs: "enumerate 0 xs = enumerate 0 P @ (start, x) # enumerate (Suc start) S"
    unfolding xs(1) enumerate_split by (simp add: xs(2))
  have moved: "reorder (enumerate 0 xs) (int start) (int goal) =
      take goal (enumerate 0 P @ enumerate (Suc start) S) @ (start, x) #
      drop goal (enumerate 0 P @ enumerate (Suc start) S)"
    using assms(2) xs by (intro reorder_split [OF zs]) auto
  show ?thesis
  proof (cases "start \<le> goal")
    case True
    define B C where "B = take (goal - start) S" and "C = drop (goal - start) S"
    have S: "S = B @ C" "length B = goal - start" using assms(2) xs by (simp_all add: B_def C_def)
    have eB: "enumerate (Suc start) S = enumerate (Suc start) B @ enumerate (Suc start + length B) C"
      unfolding S(1) by (simp add: enumerate_append_eq)
    have D: "reorder (enumerate 0 xs) (int start) (int goal) =
        enumerate 0 P @ enumerate (Suc start) B @ (start, x) # enumerate (Suc start + length B) C"
      unfolding moved eB using True S(2) xs(2) by simp
    have R: "enumerate 0 xs = enumerate 0 P @ (start, x) # enumerate (Suc start) B @ enumerate (Suc start + length B) C"
      unfolding zs eB ..
    show ?thesis unfolding D unfolding R
    proof (rule settled_prefix)
      show "settled (0 + length P) ((start, x) # enumerate (Suc start) B @ enumerate (Suc start + length B) C)
          (enumerate (Suc start) B @ (start, x) # enumerate (Suc start + length B) C)"
        using settled_down [of start start x B C] xs(2) by simp
    qed (auto simp: xs(2) dest!: enumerate_fst)
  next
    case False
    define A B where "A = take goal P" and "B = drop goal P"
    have P: "P = A @ B" "length A = goal" "B \<noteq> []" "start = goal + length B"
      using False xs(2) by (simp_all add: A_def B_def)
    have eP: "enumerate 0 P = enumerate 0 A @ enumerate goal B"
      unfolding P(1) by (simp add: enumerate_append_eq P(2))
    have D: "reorder (enumerate 0 xs) (int start) (int goal) =
        enumerate 0 A @ (goal + length B, x) # enumerate goal B @ enumerate (Suc goal + length B) S"
      unfolding moved eP using P by simp
    have R: "enumerate 0 xs = enumerate 0 A @ enumerate goal B @ (goal + length B, x) # enumerate (Suc goal + length B) S"
      unfolding zs eP by (simp add: P(4))
    show ?thesis unfolding D unfolding R
    proof (rule settled_prefix)
      show "settled (0 + length A) (enumerate goal B @ (goal + length B, x) # enumerate (Suc goal + length B) S)
          ((goal + length B, x) # enumerate goal B @ enumerate (Suc goal + length B) S)"
        using settled_up [OF P(3), of goal x S] P(2) by simp
    qed (auto simp: P(2) dest!: enumerate_fst)
  qed
qed

locale section_sequence =
  fixes patch :: "string \<Rightarrow> int \<Rightarrow> 's \<Rightarrow> 's option"
    and stands_for :: "'r list \<Rightarrow> 's \<Rightarrow> bool"
    and key :: "'r \<Rightarrow> string"
    and touch :: "'r \<Rightarrow> 'r"
  assumes distinct_keys: "stands_for xs s \<Longrightarrow> distinct (map key xs)"
    and patch_places: "stands_for xs s \<Longrightarrow> x \<in> set xs \<Longrightarrow> i < length xs \<Longrightarrow>
      \<exists>s'. patch (key x) (int i + 1) s = Some s' \<and>
        stands_for (map (\<lambda>y. if key y = key x then touch y else y) (place x i xs)) s'"
begin

lemma patch_next:
  assumes "stands_for (front @ map snd left) s" and "(i, x) \<in> set left" and "distinct (map fst left)"
  obtains s' where "patch (key x) (int (length front) + 1) s = Some s'"
    "stands_for (front @ touch x # map snd (filter (\<lambda>z. fst z \<noteq> i) left)) s'"
proof -
  from assms(2) obtain P S where left: "left = P @ (i, x) # S" by (auto dest: split_list)
  let ?xs = "front @ map snd P @ x # map snd S"
  have keys: "distinct (map key ?xs)" using distinct_keys [OF assms(1)] left by simp
  have dist: "distinct ?xs" using keys by (metis distinct_map)
  have "filter (\<lambda>z. fst z \<noteq> i) P = P" "filter (\<lambda>z. fst z \<noteq> i) S = S"
    using assms(3) unfolding left by (auto simp: filter_id_conv)
  then have rest: "filter (\<lambda>z. fst z \<noteq> i) left = P @ S" unfolding left by simp
  have placed: "place x (length front) ?xs = front @ x # map snd P @ map snd S"
    using dist place_split [of "front @ map snd P" x "map snd S" "length front"] by simp
  have touched: "map (\<lambda>y. if key y = key x then touch y else y) (front @ x # map snd P @ map snd S) =
      front @ touch x # map snd P @ map snd S"
  proof -
    have others: "map (\<lambda>y. if key y = key x then touch y else y) ys = ys" if "key x \<notin> key ` set ys" for ys
      using that by (induction ys) auto
    show ?thesis
      using keys others [of front] others [of "map snd P"] others [of "map snd S"] by (simp add: image_image)
  qed
  have "stands_for ?xs s" using assms(1) left by simp
  then obtain s' where "patch (key x) (int (length front) + 1) s = Some s'"
      "stands_for (front @ touch x # map snd P @ map snd S) s'"
    using patch_places [of ?xs s x "length front"] unfolding placed touched by auto
  then show thesis using that unfolding rest by simp
qed

lemma moves_arrive:
  assumes "stands_for (front @ map snd left) s" and "length front = k" and "distinct (map fst left)"
    and "settled k left ds"
  shows "\<exists>s'. apply_moves patch (moves_from k (map (\<lambda>(i, x). (key x, Some (int i + 1))) ds)) s = Some s' \<and>
    stands_for (front @ finish touch k ds) s'"
  using assms
proof (induction ds arbitrary: front left s k)
  case (Cons d ds)
  obtain i x where d: "d = (i, x)" by fastforce
  let ?rest = "filter (\<lambda>z. fst z \<noteq> i) left"
  have later: "settled (Suc k) ?rest ds" "d \<in> set left" "distinct (map fst ?rest)"
    using Cons.prems(3,4) d by (simp_all add: distinct_map_filter)
  show ?case
  proof (cases "i = k")
    case True
    then obtain left' where left: "left = d # left'" using Cons.prems(4) later(2) d by (cases left) auto
    then have "?rest = left'" using Cons.prems(3) d by (auto simp: filter_id_conv image_iff)
    with Cons.IH [of "front @ [x]" ?rest s "Suc k"] Cons.prems(1,2) later(1,3) left d True
    show ?thesis by simp
  next
    case False
    obtain s1 where s1: "patch (key x) (int (length front) + 1) s = Some s1"
        "stands_for (front @ touch x # map snd ?rest) s1"
      using patch_next [OF Cons.prems(1) later(2) [unfolded d] Cons.prems(3)] by blast
    with Cons.IH [of "front @ [touch x]" ?rest s1 "Suc k"] Cons.prems(2) later(1,3) d False
    show ?thesis by simp
  qed
qed (simp add: settled.simps)

text \<open>The moves of one drag bring the sections into the order the author dropped them in.\<close>

lemma drag_arrives:
  assumes "stands_for xs s" and "start < length xs" and "goal < length xs"
    and "desired = reorder (enumerate 0 xs) (int start) (int goal)"
  shows "\<exists>s'. apply_moves patch (sectionMoves (map (\<lambda>(i, x). (key x, Some (int i + 1))) desired)) s = Some s' \<and>
    stands_for (finish touch 0 desired) s'"
  using moves_arrive [of "[]" "enumerate 0 xs" s 0 desired] drag_settled [OF assms(2,3)] assms(1,4)
  by (simp add: sectionMoves_from)

end

text \<open>The server's move keeps this promise, changing nothing but the order.\<close>

interpretation server_rows: section_sequence move_section numbering sec_xid "\<lambda>r. r"
proof
  show "distinct (map sec_xid xs)" if "numbering xs rs" for xs rs using that by (simp add: numbering_def)
  show "\<exists>rs'. move_section (sec_xid x) (int i + 1) rs = Some rs' \<and>
      numbering (map (\<lambda>y. if sec_xid y = sec_xid x then y else y) (place x i xs)) rs'"
    if "numbering xs rs" "x \<in> set xs" "i < length xs" for xs rs x i
    using move_section_places [OF that] by (simp add: if_cancel) blast
qed

text \<open>
  What the drag of a listing with a hole leaves: the console says "reorder to repair it", and after
  the two sections at 2 and 3 have changed places there is still none at 2.
\<close>

definition two_with_a_hole :: "section_row list" where
  "two_with_a_hole = [sample_section ''a'' 2, sample_section ''b'' 3]"

lemma hole_survives_drag:
  "apply_moves move_section (sectionMoves (map (\<lambda>r. (sec_xid r, Some (sec_position r))) (reorder two_with_a_hole 0 1)))
     two_with_a_hole = Some [sample_section ''a'' 3, sample_section ''b'' 1]"
  by code_simp

lemma four_do_not_converge:
  "sectionMoves [(''c'', Some 3), (''b'', Some 2), (''d'', Some 4), (''a'', Some 1)] = [(''c'', 1), (''d'', 3), (''a'', 4)] \<and>
   place ''a'' 3 (place ''d'' 2 (place ''c'' 0 [''a'', ''b'', ''c'', ''d''])) = [''c'', ''d'', ''b'', ''a'']"
  by (simp add: sectionMoves_def place_def upt_rec)

end
