(* ===== verification/Composition.thy ===== *)
theory Composition
  imports Ordering Problems
begin

text \<open>
  Composing a draft version, \<open>web/src/features/compose/Composition.tsx\<close>: what the screen derives from
  the version it read, its mutations over an opaque API whose calls may fail, the two drags, and the
  controls it shows. The two endpoints a drag uses, \<open>PATCH /sections/{xid}\<close> and
  \<open>POST /sections/{xid}/reorder\<close> of \<open>app/api/routers/tests_authoring.py\<close>, are modelled here too, and
  the screen is run against them.
\<close>

subsection \<open>What the screen reads\<close>

record placement =
  pl_xid :: string
  pl_number_start :: "int option"
  pl_instructions :: "(string \<times> string option) list option"

text \<open>Instructions by locale, in key order; \<^const>\<open>None\<close> is a value that is not a string.\<close>

definition instructionText :: "placement \<Rightarrow> string" where
  "instructionText p =
     (case List.find (\<lambda>v. v \<noteq> None) (map snd (nullish (pl_instructions p) [])) of
        Some (Some first) \<Rightarrow> first
      | _ \<Rightarrow> ''Untitled group'')"

record review =
  rv_state :: "string option"
  rv_required :: bool
  rv_stale :: bool
  rv_can_decide :: bool
  rv_review_notes :: "string option"

record version_data =
  vd_status :: string
  vd_sections :: "section_row list"
  vd_review :: "review option"

definition draft :: "version_data \<Rightarrow> bool" where
  "draft v \<longleftrightarrow> vd_status v = ''draft''"

definition approved :: "version_data \<Rightarrow> bool" where
  "approved v \<longleftrightarrow>
     (case vd_review v of None \<Rightarrow> False | Some r \<Rightarrow> rv_state r = Some ''approved'' \<and> \<not> rv_stale r)"

definition publishable :: "version_data \<Rightarrow> bool" where
  "publishable v \<longleftrightarrow> draft v \<or> vd_status v = ''in_review'' \<and> approved v"

definition holes :: "version_data \<Rightarrow> bool" where
  "holes v \<longleftrightarrow> \<not> isContiguous (map (\<lambda>s. Some (sec_position s)) (vd_sections v))"

subsection \<open>The calls\<close>

text \<open>The body of \<open>PATCH /sections/{xid}\<close> as the screen builds it; \<^const>\<open>None\<close> is a field left out.\<close>

record section_body =
  sb_skill :: string
  sb_title :: string
  sb_position :: int
  sb_limit :: "int option"
  sb_play_once :: "bool option"

record report =
  rp_passed :: bool
  rp_errors :: nat
  rp_warnings :: nat

record 'w compose_api =
  api_patch_version :: "string \<Rightarrow> string \<Rightarrow> 'w \<Rightarrow> failure option \<times> 'w"
  api_delete_section :: "string \<Rightarrow> 'w \<Rightarrow> failure option \<times> 'w"
  api_reorder_groups :: "string \<Rightarrow> string list \<Rightarrow> 'w \<Rightarrow> failure option \<times> 'w"
  api_patch_section :: "string \<Rightarrow> section_body \<Rightarrow> 'w \<Rightarrow> failure option \<times> 'w"
  api_validate :: "'w \<Rightarrow> (failure + report) \<times> 'w"
  api_publish :: "'w \<Rightarrow> failure option \<times> 'w"
  api_submit_review :: "string option \<Rightarrow> 'w \<Rightarrow> failure option \<times> 'w"
  api_review :: "string \<Rightarrow> string option \<Rightarrow> 'w \<Rightarrow> failure option \<times> 'w"

text \<open>
  The page: the error line, the notes, the tag of the last read, the data of the gate's mutation,
  and how often the version has been invalidated.
\<close>

record 'w compose_page =
  cp_error :: "string option"
  cp_notes :: string
  cp_etag :: "string option"
  cp_report :: "report option"
  cp_refreshes :: nat
  cp_world :: 'w

definition refresh :: "'w compose_page \<Rightarrow> 'w compose_page" where
  "refresh p = p\<lparr>cp_refreshes := Suc (cp_refreshes p)\<rparr>"

definition failed_with :: "failure \<Rightarrow> 'w compose_page \<Rightarrow> 'w compose_page" where
  "failed_with f p = p\<lparr>cp_error := Some (problemText (as_problem f))\<rparr>"

text \<open>A mutation whose success only refreshes, and whose failure is the error line.\<close>

definition mutate :: "('w \<Rightarrow> failure option \<times> 'w) \<Rightarrow> 'w compose_page \<Rightarrow> 'w compose_page" where
  "mutate call p =
     (case call (cp_world p) of
        (None, w) \<Rightarrow> refresh (p\<lparr>cp_world := w\<rparr>)
      | (Some f, w) \<Rightarrow> failed_with f (p\<lparr>cp_world := w\<rparr>))"

definition setBandMap :: "'w compose_api \<Rightarrow> string \<Rightarrow> 'w compose_page \<Rightarrow> 'w compose_page" where
  "setBandMap A bandMapVersionXid p =
     (if \<not> truthy_str (cp_etag p) then failed_with (JsError ''Reload the page and try again.'') p
      else mutate (api_patch_version A (nullish (cp_etag p) []) bandMapVersionXid) p)"

definition removeSection :: "'w compose_api \<Rightarrow> string \<Rightarrow> 'w compose_page \<Rightarrow> 'w compose_page" where
  "removeSection A sectionXid = mutate (api_delete_section A sectionXid)"

definition moveGroups :: "'w compose_api \<Rightarrow> string \<Rightarrow> string list \<Rightarrow> 'w compose_page \<Rightarrow> 'w compose_page" where
  "moveGroups A sectionXid placementXids = mutate (api_reorder_groups A sectionXid placementXids)"

definition body_for :: "section_row \<Rightarrow> int \<Rightarrow> section_body" where
  "body_for s position =
     \<lparr>sb_skill = sec_skill s, sb_title = sec_title s, sb_position = position,
      sb_limit = sec_limit s, sb_play_once = Some (sec_play_once s)\<rparr>"

fun patch_each ::
  "(string \<Rightarrow> section_body \<Rightarrow> 'w \<Rightarrow> failure option \<times> 'w) \<Rightarrow> section_row list \<Rightarrow> (string \<times> int) list \<Rightarrow>
   'w \<Rightarrow> failure option \<times> 'w" where
  "patch_each call desired [] w = (None, w)"
| "patch_each call desired ((xid, position) # moves) w =
     (case List.find (\<lambda>s. sec_xid s = xid) desired of
        None \<Rightarrow> (Some (JsError ''section is undefined''), w)
      | Some s \<Rightarrow>
          (case call xid (body_for s position) w of
             (Some f, w') \<Rightarrow> (Some f, w')
           | (None, w') \<Rightarrow> patch_each call desired moves w'))"

definition moves_of :: "section_row list \<Rightarrow> (string \<times> int) list" where
  "moves_of desired = sectionMoves (map (\<lambda>s. (sec_xid s, Some (sec_position s))) desired)"

definition moveSections :: "'w compose_api \<Rightarrow> section_row list \<Rightarrow> 'w compose_page \<Rightarrow> 'w compose_page" where
  "moveSections A desired = mutate (patch_each (api_patch_section A) desired (moves_of desired))"

text \<open>The data of a mutation is dropped when it runs again.\<close>

definition validate_version :: "'w compose_api \<Rightarrow> 'w compose_page \<Rightarrow> 'w compose_page" where
  "validate_version A p =
     (case api_validate A (cp_world p) of
        (Inl f, w) \<Rightarrow> failed_with f (p\<lparr>cp_world := w, cp_report := None\<rparr>)
      | (Inr rep, w) \<Rightarrow> p\<lparr>cp_world := w, cp_report := Some rep\<rparr>)"

definition publish :: "'w compose_api \<Rightarrow> 'w compose_page \<Rightarrow> 'w compose_page" where
  "publish A p = mutate (api_publish A) (p\<lparr>cp_error := None\<rparr>)"

definition notes_of :: "'w compose_page \<Rightarrow> string option" where
  "notes_of p = (let t = js_trim (cp_notes p) in if t = [] then None else Some t)"

definition submitReview :: "'w compose_api \<Rightarrow> 'w compose_page \<Rightarrow> 'w compose_page" where
  "submitReview A p0 =
     (let p = p0\<lparr>cp_error := None\<rparr> in
      case api_submit_review A (notes_of p) (cp_world p) of
        (None, w) \<Rightarrow> refresh (p\<lparr>cp_world := w, cp_notes := []\<rparr>)
      | (Some f, w) \<Rightarrow> failed_with f (p\<lparr>cp_world := w\<rparr>))"

text \<open>\<open>problemText(failure) || String(failure)\<close>.\<close>

definition decide_error :: "failure \<Rightarrow> string" where
  "decide_error f =
     (let t = problemText (as_problem f) in
      if t \<noteq> [] then t else case f of JsError m \<Rightarrow> ''Error: '' @ m | ApiProblem _ \<Rightarrow> ''[object Object]'')"

definition decide :: "'w compose_api \<Rightarrow> string \<Rightarrow> 'w compose_page \<Rightarrow> 'w compose_page" where
  "decide A decision p0 =
     (let p = p0\<lparr>cp_error := None\<rparr> in
      if decision = ''changes_requested'' \<and> notes_of p = None then
        p\<lparr>cp_error := Some (decide_error (JsError (''Say what needs changing - a rejection with no reason '' @
            ''sends the author back to guess.'')))\<rparr>
      else case api_review A decision (notes_of p) (cp_world p) of
        (None, w) \<Rightarrow> refresh (p\<lparr>cp_world := w, cp_error := None, cp_notes := []\<rparr>)
      | (Some f, w) \<Rightarrow> p\<lparr>cp_world := w, cp_error := Some (decide_error f)\<rparr>)"

subsection \<open>The drags\<close>

text \<open>\<open>findIndex\<close> of the dragged row and of the row it was dropped on.\<close>

definition onSectionDragEnd ::
  "'w compose_api \<Rightarrow> section_row list \<Rightarrow> string \<Rightarrow> string option \<Rightarrow> 'w compose_page \<Rightarrow> 'w compose_page" where
  "onSectionDragEnd A sections active over p =
     (case over of
        None \<Rightarrow> p
      | Some target \<Rightarrow>
          if active = target then p
          else (case (find_index (\<lambda>s. sec_xid s = active) sections, find_index (\<lambda>s. sec_xid s = target) sections) of
              (Some start, Some goal) \<Rightarrow>
                moveSections A (reorder sections (int start) (int goal)) (p\<lparr>cp_error := None\<rparr>)
            | _ \<Rightarrow> p))"

definition onGroupDragEnd ::
  "'w compose_api \<Rightarrow> string \<Rightarrow> placement list \<Rightarrow> string \<Rightarrow> string option \<Rightarrow> 'w compose_page \<Rightarrow> 'w compose_page" where
  "onGroupDragEnd A sectionXid groups active over p =
     (case over of
        None \<Rightarrow> p
      | Some target \<Rightarrow>
          if active = target then p
          else (case (find_index (\<lambda>g. pl_xid g = active) groups, find_index (\<lambda>g. pl_xid g = target) groups) of
              (Some start, Some goal) \<Rightarrow>
                moveGroups A sectionXid (map pl_xid (reorder groups (int start) (int goal))) (p\<lparr>cp_error := None\<rparr>)
            | _ \<Rightarrow> p))"

subsection \<open>The two endpoints\<close>

record test_version =
  tv_status :: string
  tv_sections :: "section_row list"

definition refuse_with :: "string \<Rightarrow> string \<Rightarrow> failure" where
  "refuse_with title code = ApiProblem \<lparr>problem_title = Some title, problem_code = Some code, findings = None\<rparr>"

definition frozen :: "test_version \<Rightarrow> bool" where
  "frozen tv \<longleftrightarrow> tv_status tv = ''published'' \<or> tv_status tv = ''archived''"

text \<open>\<open>SectionCreate\<close>: what the console leaves out has the model's default.\<close>

definition body_valid :: "section_body \<Rightarrow> bool" where
  "body_valid b \<longleftrightarrow> 1 \<le> sb_position b \<and> (sb_skill b = ''reading'' \<or> sb_skill b = ''listening'')"

definition set_fields :: "section_body \<Rightarrow> section_row \<Rightarrow> section_row" where
  "set_fields b r =
     r\<lparr>sec_skill := sb_skill b, sec_title := sb_title b, sec_limit := sb_limit b,
       sec_declared := None, sec_play_once := nullish (sb_play_once b) True\<rparr>"

definition update_section :: "string \<Rightarrow> section_body \<Rightarrow> test_version \<Rightarrow> failure option \<times> test_version" where
  "update_section xid b tv =
     (if \<not> body_valid b then (Some (refuse_with ''Request validation failed.'' ''validation_failed''), tv)
      else case List.find (\<lambda>r. sec_xid r = xid) (tv_sections tv) of
        None \<Rightarrow> (Some (refuse_with ''Section not found.'' ''not_found''), tv)
      | Some section \<Rightarrow>
          if frozen tv then
            (Some (refuse_with (''This version is '' @ tv_status tv @ '' and cannot be edited. Start a new version.'')
              ''version_immutable''), tv)
          else (case (if sb_position b \<noteq> sec_position section then move_section xid (sb_position b) (tv_sections tv)
                      else Some (tv_sections tv)) of
              None \<Rightarrow> (Some (refuse_with ''Internal error.'' ''internal_error''), tv)
            | Some rs \<Rightarrow>
                (None, tv\<lparr>tv_sections := map (\<lambda>r. if sec_xid r = xid then set_fields b r else r) rs\<rparr>)))"

text \<open>The groups of one section, as \<open>(xid, position)\<close>.\<close>

definition reorder_groups ::
  "string list \<Rightarrow> (string \<times> int) list \<Rightarrow> failure option \<times> (string \<times> int) list" where
  "reorder_groups ids placements =
     (if set ids \<noteq> fst ` set placements then
        (Some (refuse_with ''The reorder must list every group in this section exactly once.'' ''reorder_incomplete''),
         placements)
      else
        (None, fold (\<lambda>(x, i) ps. map (\<lambda>(y, p). (y, if y = x then i else p)) ps)
                 (zip ids (map int [1..<Suc (length ids)]))
                 (map (\<lambda>(y, p). (y, - p)) placements)))"

subsection \<open>A drag, from the pointer to the rows\<close>

definition editable :: "section_row list \<Rightarrow> test_version \<Rightarrow> bool" where
  "editable shown tv \<longleftrightarrow> \<not> frozen tv \<and> (\<forall>s \<in> set shown. sec_skill s = ''reading'' \<or> sec_skill s = ''listening'')"

definition stands :: "section_row list \<Rightarrow> section_row list \<Rightarrow> test_version \<Rightarrow> bool" where
  "stands shown xs tv \<longleftrightarrow> editable shown tv \<and> numbering xs (tv_sections tv) \<and> sec_xid ` set xs \<subseteq> sec_xid ` set shown"

definition patch_from :: "section_row list \<Rightarrow> string \<Rightarrow> int \<Rightarrow> test_version \<Rightarrow> test_version option" where
  "patch_from shown xid position tv =
     (case List.find (\<lambda>s. sec_xid s = xid) shown of
        None \<Rightarrow> None
      | Some s \<Rightarrow> (case update_section xid (body_for s position) tv of (None, tv') \<Rightarrow> Some tv' | (Some _, _) \<Rightarrow> None))"

definition touched :: "section_row list \<Rightarrow> section_row \<Rightarrow> section_row" where
  "touched shown r =
     (case List.find (\<lambda>s. sec_xid s = sec_xid r) shown of None \<Rightarrow> r | Some s \<Rightarrow> set_fields (body_for s 1) r)"

lemma set_fields_simps [simp]:
  "sec_xid (set_fields b r) = sec_xid r" "sec_position (set_fields b r) = sec_position r"
  "set_fields b (r\<lparr>sec_position := p\<rparr>) = (set_fields b r)\<lparr>sec_position := p\<rparr>"
  by (simp_all add: set_fields_def body_for_def)

lemma body_position: "set_fields (body_for s p) r = set_fields (body_for s q) r"
  by (simp add: set_fields_def body_for_def)

lemma number_from_map:
  assumes "\<And>r p. f (r\<lparr>sec_position := p\<rparr>) = (f r)\<lparr>sec_position := p\<rparr>"
  shows "map f (number_from k xs) = number_from k (map f xs)"
  using assms by (induction xs arbitrary: k) simp_all

lemma numbering_map:
  assumes "numbering xs rs" and "\<And>r p. f (r\<lparr>sec_position := p\<rparr>) = (f r)\<lparr>sec_position := p\<rparr>" and "\<And>r. sec_xid (f r) = sec_xid r"
  shows "numbering (map f xs) (map f rs)"
proof -
  have "mset (map f rs) = mset (number_from 1 (map f xs))"
    using assms(1) by (simp add: numbering_def number_from_map [OF assms(2), symmetric])
  moreover have "map sec_xid (map f xs) = map sec_xid xs" using assms(3) by simp
  ultimately show ?thesis using assms(1) by (simp only: numbering_def)
qed

lemma find_member:
  assumes "xid \<in> sec_xid ` set shown"
  obtains s where "List.find (\<lambda>s. sec_xid s = xid) shown = Some s" "s \<in> set shown" "sec_xid s = xid"
proof (cases "List.find (\<lambda>s. sec_xid s = xid) shown")
  case None
  with assms show thesis by (auto simp: find_None_iff)
next
  case (Some s)
  then have "s \<in> set shown" "sec_xid s = xid" by (auto simp: find_Some_iff)
  with Some show thesis by (rule that)
qed

text \<open>The patch of one section keeps the promise of \<open>section_sequence\<close>, rewriting that section's fields.\<close>

lemma patch_from_places:
  assumes "stands shown xs tv" and "x \<in> set xs" and "i < length xs"
  shows "\<exists>tv'. patch_from shown (sec_xid x) (int i + 1) tv = Some tv' \<and>
    stands shown (map (\<lambda>y. if sec_xid y = sec_xid x then touched shown y else y) (place x i xs)) tv'"
proof -
  have ok: "editable shown tv" "numbering xs (tv_sections tv)" "sec_xid ` set xs \<subseteq> sec_xid ` set shown"
    using assms(1) by (simp_all add: stands_def)
  obtain s where s: "List.find (\<lambda>s. sec_xid s = sec_xid x) shown = Some s" "s \<in> set shown"
  proof -
    have "sec_xid x \<in> sec_xid ` set shown" using ok(3) assms(2) by blast
    then show thesis using that by (rule find_member)
  qed
  let ?b = "body_for s (int i + 1)"
  have valid: "body_valid ?b" using ok(1) s(2) by (auto simp: body_valid_def body_for_def editable_def)
  have "sec_xid x \<in> sec_xid ` set (tv_sections tv)" using numbering_xids [OF ok(2)] assms(2) by auto
  then obtain row where row: "List.find (\<lambda>r. sec_xid r = sec_xid x) (tv_sections tv) = Some row" "row \<in> set (tv_sections tv)"
    by (rule find_member)
  obtain rs where rs: "move_section (sec_xid x) (int i + 1) (tv_sections tv) = Some rs" "numbering (place x i xs) rs"
    using move_section_places [OF ok(2) assms(2,3)] by blast
  have clamp: "max 1 (min (int i + 1) (int (length (tv_sections tv)))) = int i + 1"
    using assms(3) length_numbering [OF ok(2)] by simp
  have skip: "int i + 1 = sec_position row \<Longrightarrow> tv_sections tv = rs"
    using rs(1) row(1) clamp by (simp add: move_section_def Let_def)
  let ?f = "\<lambda>r. if sec_xid r = sec_xid x then set_fields ?b r else r"
  have moved: "(if sb_position ?b \<noteq> sec_position row then move_section (sec_xid x) (sb_position ?b) (tv_sections tv)
      else Some (tv_sections tv)) = Some rs"
    using rs(1) skip by (simp add: body_for_def)
  have "update_section (sec_xid x) ?b tv = (None, tv\<lparr>tv_sections := map ?f rs\<rparr>)"
    using valid row(1) ok(1) moved by (simp add: update_section_def editable_def)
  then have "patch_from shown (sec_xid x) (int i + 1) tv = Some (tv\<lparr>tv_sections := map ?f rs\<rparr>)"
    by (simp add: patch_from_def s(1))
  moreover have touch: "map (\<lambda>y. if sec_xid y = sec_xid x then touched shown y else y) (place x i xs) = map ?f (place x i xs)"
    by (rule map_cong [OF refl]) (simp add: touched_def s(1) body_position [of s "int i + 1" _ 1])
  moreover have "stands shown (map ?f (place x i xs)) (tv\<lparr>tv_sections := map ?f rs\<rparr>)"
    unfolding stands_def
  proof (intro conjI)
    show "editable shown (tv\<lparr>tv_sections := map ?f rs\<rparr>)" using ok(1) by (simp add: editable_def frozen_def)
    have "numbering (map ?f (place x i xs)) (map ?f rs)" by (rule numbering_map [OF rs(2)]) simp_all
    then show "numbering (map ?f (place x i xs)) (tv_sections (tv\<lparr>tv_sections := map ?f rs\<rparr>))" by simp
    have "map sec_xid (map ?f ys) = map sec_xid ys" for ys by (induction ys) simp_all
    then have "set (map sec_xid (map ?f (place x i xs))) = set (map sec_xid (place x i xs))" by (simp only:)
    also have "\<dots> = sec_xid ` set xs" unfolding set_map mset_eq_setD [OF mset_place [OF assms(2), of i]] ..
    finally show "sec_xid ` set (map ?f (place x i xs)) \<subseteq> sec_xid ` set shown" using ok(3) by (simp only: set_map)
  qed
  ultimately show ?thesis unfolding touch by blast
qed

interpretation served: section_sequence "patch_from shown" "stands shown" sec_xid "touched shown" for shown
  using patch_from_places by unfold_locales (auto simp: stands_def numbering_def)

lemma patch_each_served:
  "apply_moves (patch_from shown) moves tv = Some tv' \<Longrightarrow> patch_each update_section shown moves tv = (None, tv')"
proof (induction moves arbitrary: tv)
  case (Cons m moves)
  then show ?case
    by (cases m) (auto simp: patch_from_def bind_eq_Some_conv split: option.splits prod.splits)
qed simp

lemma listing_facts:
  assumes "numbered rs"
  shows "numbering (listing rs) rs" and "length (listing rs) = length rs" and "distinct (map sec_xid (listing rs))"
    and "number_from 1 (listing rs) = listing rs"
    and "enumerate 0 (listing rs) = map (\<lambda>s. (nat (sec_position s - 1), s)) (listing rs)"
proof -
  from assms obtain xs where xs: "numbering xs rs" unfolding numbered_iff ..
  have self: "number_from k (number_from k ys) = number_from k ys" for k ys by (induction ys arbitrary: k) simp_all
  have listed: "listing rs = number_from 1 xs" by (rule listing_numbering [OF xs])
  then show num: "numbering (listing rs) rs" using xs by (simp add: numbering_def self)
  show "number_from 1 (listing rs) = listing rs" unfolding listed self ..
  show "length (listing rs) = length rs" by (simp add: listing_def)
  show "distinct (map sec_xid (listing rs))" using num by (simp add: numbering_def)
  have "enumerate k (number_from (int k + 1) ys) = map (\<lambda>s. (nat (sec_position s - 1), s)) (number_from (int k + 1) ys)" for k ys
  proof (induction ys arbitrary: k)
    case (Cons y ys)
    from Cons.IH [of "Suc k"] show ?case by (simp add: add.commute)
  qed simp
  from this [of 0 xs] show "enumerate 0 (listing rs) = map (\<lambda>s. (nat (sec_position s - 1), s)) (listing rs)"
    unfolding listed by simp
qed

lemma splice_index_length: "length xs = length ys \<Longrightarrow> splice_index i xs = splice_index i ys"
  by (simp add: splice_index_def)

lemma reorder_cases:
  obtains "drop (splice_index a xs) xs = []" "reorder xs a b = xs"
  | k m rest where "xs = take k xs @ m # rest" "k = splice_index a xs"
      "reorder xs a b = (let ys = take k xs @ rest; j = splice_index b ys in take j ys @ m # drop j ys)"
proof (cases "drop (splice_index a xs) xs")
  case Nil
  then show thesis using that(1) by (simp add: reorder_def)
next
  case (Cons m rest)
  then have "xs = take (splice_index a xs) xs @ m # rest" by (metis append_take_drop_id)
  with Cons show thesis using that(2) by (simp add: reorder_def Let_def)
qed

lemma reorder_map: "reorder (map f xs) a b = map f (reorder xs a b)"
proof (cases "drop (splice_index a xs) xs")
  case Nil
  then show ?thesis using splice_index_length [of "map f xs" xs a] by (simp add: reorder_def flip: drop_map)
next
  case (Cons m rest)
  let ?k = "splice_index a xs"
  have k: "splice_index a (map f xs) = ?k" by (rule splice_index_length) simp
  have "drop ?k (map f xs) = f m # map f rest" using Cons by (simp add: drop_map)
  moreover have "take ?k (map f xs) @ map f rest = map f (take ?k xs @ rest)" by (simp add: take_map)
  moreover have "splice_index b (map f ys) = splice_index b ys" for ys
    by (rule splice_index_length) simp
  ultimately have "reorder (map f xs) a b =
      (let ys = take ?k xs @ rest; j = splice_index b ys in take j (map f ys) @ f m # drop j (map f ys))"
    unfolding reorder_def Let_def k by (simp only: list.case)
  also have "\<dots> = map f (let ys = take ?k xs @ rest; j = splice_index b ys in take j ys @ m # drop j ys)"
  proof -
    have "take j (map f ys) @ f m # drop j (map f ys) = map f (take j ys @ m # drop j ys)" for j ys
      by (simp add: take_map drop_map)
    then show ?thesis by (simp only: Let_def)
  qed
  also have "\<dots> = map f (reorder xs a b)" unfolding reorder_def Let_def Cons by (simp only: list.case)
  finally show ?thesis .
qed

lemma mset_reorder: "mset (reorder xs a b) = mset xs"
proof (cases rule: reorder_cases [of a xs b])
  case (2 k m rest)
  let ?ys = "take k xs @ rest"
  have "mset (take j ?ys @ m # drop j ?ys) = add_mset m (mset (take j ?ys @ drop j ?ys))" for j
    by (simp only: mset_append mset.simps union_mset_add_mset_right)
  then have "mset (reorder xs a b) = add_mset m (mset ?ys)"
    unfolding 2(3) Let_def append_take_drop_id by blast
  also have "\<dots> = mset (take k xs @ m # rest)" by simp
  finally show ?thesis using 2(1) by simp
qed simp

definition forget_place :: "section_row \<Rightarrow> section_row" where
  "forget_place s = s\<lparr>sec_position := 0, sec_declared := None\<rparr>"

lemma find_index_key:
  assumes "distinct (map f xs)" and "i < length xs"
  shows "find_index (\<lambda>x. f x = f (xs ! i)) xs = Some i"
proof -
  have "f (xs ! j) \<noteq> f (xs ! i)" if "j < i" for j
    using assms that by (metis distinct_conv_nth length_map less_imp_neq nth_map order.strict_trans)
  with assms(2) show ?thesis by (simp add: find_index_Some_iff)
qed

lemma find_xid: "distinct (map sec_xid shown) \<Longrightarrow> s \<in> set shown \<Longrightarrow> List.find (\<lambda>r. sec_xid r = sec_xid s) shown = Some s"
  by (induction shown) auto

lemma touched_shown:
  assumes "distinct (map sec_xid shown)" and "s \<in> set shown"
  shows "touched shown s = s\<lparr>sec_declared := None\<rparr>"
  by (simp add: touched_def find_xid [OF assms] set_fields_def body_for_def)

lemma finish_fields:
  assumes "\<And>x. x \<in> snd ` set ds \<Longrightarrow> f (touch x) = f x"
  shows "map f (finish touch k ds) = map f (map snd ds)"
  using assms by (induction touch k ds rule: finish.induct) auto

lemma moves_of_shown:
  assumes "desired = map snd D" and "\<And>i s. (i, s) \<in> set D \<Longrightarrow> sec_position s = int i + 1"
  shows "moves_of desired = sectionMoves (map (\<lambda>(i, s). (sec_xid s, Some (int i + 1))) D)"
  unfolding moves_of_def assms(1) map_map
  by (rule arg_cong [where f = sectionMoves], rule map_cong [OF refl]) (use assms(2) in auto)


definition served_api :: "test_version compose_api" where
  "served_api =
     \<lparr>api_patch_version = (\<lambda>_ _ w. (None, w)), api_delete_section = (\<lambda>_ w. (None, w)),
      api_reorder_groups = (\<lambda>_ _ w. (None, w)), api_patch_section = update_section,
      api_validate = (\<lambda>w. (Inr \<lparr>rp_passed = True, rp_errors = 0, rp_warnings = 0\<rparr>, w)),
      api_publish = (\<lambda>w. (None, w)), api_submit_review = (\<lambda>_ w. (None, w)), api_review = (\<lambda>_ _ w. (None, w))\<rparr>"

definition sample_page :: "test_version compose_page" where
  "sample_page =
     \<lparr>cp_error = None, cp_notes = [], cp_etag = None, cp_report = None, cp_refreshes = 0,
      cp_world = \<lparr>tv_status = ''draft'',
        tv_sections = [sample_section ''c'' 3, sample_section ''a'' 1, sample_section ''b'' 2]\<rparr>\<rparr>"

abbreviation sample_shown :: "section_row list" where
  "sample_shown \<equiv> [sample_section ''a'' 1, sample_section ''b'' 2, sample_section ''c'' 3]"

lemma sample_page_ok:
  "numbered (tv_sections (cp_world sample_page))" "sample_shown = listing (tv_sections (cp_world sample_page))"
  "editable sample_shown (cp_world sample_page)"
  by code_simp+


text \<open>
  A dragged section loses the question count it declares: the patch leaves the field out, and the
  endpoint writes the default over it.
\<close>

lemma finish_touches:
  "j < length ds \<Longrightarrow> fst (ds ! j) \<noteq> k + j \<Longrightarrow> touch (snd (ds ! j)) \<in> set (finish touch k ds)"
proof (induction touch k ds arbitrary: j rule: finish.induct)
  case (2 touch k i x ds)
  then show ?case by (cases j) auto
qed simp

lemma dragged_loses_declared:
  "\<exists>r \<in> set (tv_sections (cp_world (onSectionDragEnd served_api sample_shown ''a'' (Some ''c'') sample_page))).
     sec_xid r = ''a'' \<and> sec_declared r = None"
  by code_simp

subsection \<open>Groups\<close>

lemma assign_all:
  "fold (\<lambda>(x, i) ps. map (\<lambda>(y, p). (y, if y = x then i else p)) ps) zs ps =
     map (\<lambda>(y, p). (y, nullish (map_of (rev zs) y) p)) ps"
proof (induction zs arbitrary: ps)
  case (Cons z zs)
  obtain x i where z: "z = (x, i)" by fastforce
  show ?case
    unfolding z fold.simps comp_def prod.case Cons.IH
    by (auto simp: map_add_def map_of_append split: option.split)
qed (simp add: case_prod_unfold)

text \<open>
  Reordering the groups of a section by a drag is never refused as incomplete, and leaves them
  at positions 1 to n in the order they were dropped in.
\<close>
theorem group_drag_accepted:
  assumes "distinct (map pl_xid groups)" and "mset (map fst placements) = mset (map pl_xid groups)"
    and "ids = map pl_xid (reorder groups start goal)"
  shows "fst (reorder_groups ids placements) = None \<and>
    sort_key snd (snd (reorder_groups ids placements)) = zip ids (map int [1..<Suc (length ids)])"
proof -
  let ?ns = "map int [1..<Suc (length ids)]"
  let ?zs = "zip ids ?ns"
  have ids: "mset ids = mset (map fst placements)"
    unfolding assms(2,3) by (simp add: mset_reorder)
  then have dist: "distinct ids" using assms(1,2) by (metis mset_eq_imp_distinct_iff)
  have set_ids: "set ids = fst ` set placements" using mset_eq_setD [OF ids] by simp
  have len: "length ids = length ?ns" by (simp del: upt_Suc)
  have keys: "map fst ?zs = ids" "map snd ?zs = ?ns"
    by (rule map_fst_zip [OF len], rule map_snd_zip [OF len])
  have distinct_keys: "distinct (map fst ?zs)" "distinct (map snd ?zs)" "sorted (map snd ?zs)"
    unfolding keys using dist by (simp_all add: sorted_wrt_map distinct_map del: upt_Suc)
  have of_zs: "map_of (rev ?zs) = map_of ?zs"
    using distinct_keys(1) by (intro map_of_inject_set [THEN iffD2]) (simp_all flip: rev_map)
  let ?assigned = "map (\<lambda>(y, p). (y, nullish (map_of ?zs y) p)) (map (\<lambda>(y, p). (y, - p)) placements)"
  have result: "reorder_groups ids placements = (None, ?assigned)"
    unfolding reorder_groups_def using set_ids by (simp only: assign_all of_zs if_False simp_thms)
  have "?assigned = map (\<lambda>y. (y, the (map_of ?zs y))) (map fst placements)"
  proof -
    have "map_of ?zs y \<noteq> None" if "y \<in> fst ` set placements" for y
      using that set_ids keys(1) unfolding map_of_eq_None_iff by (metis set_map)
    then show ?thesis by (force split: prod.splits)
  qed
  then have "mset ?assigned = mset (map (\<lambda>y. (y, the (map_of ?zs y))) ids)"
    using ids by (metis mset_map)
  also have "map (\<lambda>y. (y, the (map_of ?zs y))) ids = ?zs"
  proof (rule nth_equalityI)
    show "length (map (\<lambda>y. (y, the (map_of ?zs y))) ids) = length ?zs" using len by simp
    show "map (\<lambda>y. (y, the (map_of ?zs y))) ids ! i = ?zs ! i"
      if "i < length (map (\<lambda>y. (y, the (map_of ?zs y))) ids)" for i
      using that map_of_zip_nth [OF len dist, of i] len by (simp del: upt_Suc)
  qed
  finally have "sort_key snd ?assigned = ?zs"
    by (rule sort_key_unique) (rule distinct_keys)+
  then show ?thesis unfolding result by simp
qed

theorem group_drag_accepted_witness:
  "fst (reorder_groups [''g2'', ''g1''] [(''g1'', 1), (''g2'', 2)]) = None"
  using group_drag_accepted
    [of "map (\<lambda>x. \<lparr>pl_xid = x, pl_number_start = None, pl_instructions = None\<rparr>) [''g1'', ''g2'']"
        "[(''g1'', 1), (''g2'', 2)]" "[''g2'', ''g1'']" 0 1]
  by (simp add: reorder_def splice_index_def Let_def)

subsection \<open>Review and the gate\<close>

datatype review_line =
    SubmittedForReview
  | ApprovedLine
  | ChangesRequested "string option"
  | StaleApproval
  | SecondPairOfEyes
  | DecisionForm
  | WaitingForSomebodyElse

definition review_panel :: "version_data \<Rightarrow> review_line list" where
  "review_panel v =
     (case vd_review v of
        None \<Rightarrow> []
      | Some r \<Rightarrow>
          if \<not> (truthy_str (rv_state r) \<or> rv_required r) then []
          else
            (if rv_state r = Some ''requested'' then [SubmittedForReview] else []) @
            (if rv_state r = Some ''approved'' then [ApprovedLine] else []) @
            (if rv_state r = Some ''changes_requested''
             then [ChangesRequested (if truthy_str (rv_review_notes r) then rv_review_notes r else None)] else []) @
            (if rv_stale r then [StaleApproval] else []) @
            (if rv_state r = None \<and> rv_required r then [SecondPairOfEyes] else []) @
            (if rv_can_decide r then [DecisionForm]
             else if rv_state r = Some ''requested'' then [WaitingForSomebodyElse] else []))"

text \<open>The row of buttons while no call is under way; \<open>PublishButton\<close> carries whether it is enabled.\<close>

datatype compose_button = RunTheGate | PublishButton bool | PreviewLink | SubmitForReview

definition button_row :: "version_data \<Rightarrow> 'w compose_page \<Rightarrow> compose_button list" where
  "button_row v p =
     [RunTheGate] @
     (if publishable v then [PublishButton (case cp_report p of None \<Rightarrow> False | Some rep \<Rightarrow> rp_passed rep)] else []) @
     (if draft v then [PreviewLink] else []) @
     (if draft v \<or> (case vd_review v of None \<Rightarrow> False | Some r \<Rightarrow> rv_stale r) then [SubmitForReview] else [])"

text \<open>A version that lost its approval to an edit cannot be published from here, only submitted again.\<close>

lemma stale_review_not_publishable:
  assumes "vd_review v = Some r" and "rv_stale r" and "vd_status v = ''in_review''"
  shows "PublishButton b \<notin> set (button_row v p)" and "SubmitForReview \<in> set (button_row v p)"
  using assms by (auto simp: button_row_def publishable_def approved_def draft_def)

text \<open>
  A rejection with no reason never reaches the server. Nothing is sent and the notes stay; the
  sentence that asks for a reason is not shown either: the line reads "Something went wrong.".
\<close>
theorem empty_rejection_not_sent:
  assumes "js_trim (cp_notes p) = []"
  shows "decide A ''changes_requested'' p = p\<lparr>cp_error := Some ''Something went wrong.''\<rparr>"
proof -
  have "decide_error (JsError m) = ''Something went wrong.''" for m
    by (simp add: decide_error_def as_problem_def problemText_def coalesce_def)
  then show ?thesis using assms by (simp add: decide_def notes_of_def Let_def)
qed

theorem empty_rejection_not_sent_witness:
  "cp_error (decide served_api ''changes_requested'' sample_page) = Some ''Something went wrong.''"
  using empty_rejection_not_sent [of sample_page served_api]
  by (simp add: sample_page_def js_trim_def trim_start_def)

text \<open>The tag of the last read goes out with the new band map, and without one nothing is sent.\<close>

lemma setBandMap_guarded:
  "\<not> truthy_str (cp_etag p) \<Longrightarrow> cp_world (setBandMap A m p) = cp_world p"
  "truthy_str (cp_etag p) \<Longrightarrow> setBandMap A m p = mutate (api_patch_version A (the (cp_etag p)) m) p"
  by (cases "cp_etag p"; simp add: setBandMap_def failed_with_def)+

end
