(* ===== verification/Account.thy ===== *)
theory Account
  imports JsNum ApiClient Problems
begin

text \<open>
  A person's account in the console: the consents of \<open>web/src/features/account/consents.ts\<close> and the form
  of \<open>Account.tsx\<close> that records them, against the ledger of \<open>app/api/routers/identity.py\<close> and the
  question \<open>book_slot\<close> asks it; the profile form; signing out (\<open>signOut.ts\<close>) and the principal it
  forgets (\<open>api/principal.ts\<close>).
\<close>

subsection \<open>Consents\<close>

datatype consent_kind = Terms | Privacy | Parental | StrangerMatching | Marketing

datatype granted_by = BySelf | ByParent | ByCentreAdmin

definition CONSENT_KINDS :: "consent_kind list" where
  "CONSENT_KINDS = [Terms, Privacy, Parental, StrangerMatching, Marketing]"

record consent_row =
  co_kind :: consent_kind
  co_doc :: string
  co_by :: granted_by
  co_channel :: "string option"
  co_granted_at :: string
  co_revoked_at :: "string option"

record consent_state =
  cs_kind :: consent_kind
  held :: bool
  latest :: "consent_row option"
  superseded :: nat

definition of_kind :: "consent_kind \<Rightarrow> consent_row list \<Rightarrow> consent_row list" where
  "of_kind k crs =
     js_sort (\<lambda>a b. date_parse (co_granted_at a) < date_parse (co_granted_at b)) (filter (\<lambda>r. co_kind r = k) crs)"

definition state_of :: "consent_row list \<Rightarrow> consent_kind \<Rightarrow> consent_state" where
  "state_of crs k =
     (let ofKind = of_kind k crs;
          newest = (case ofKind of [] \<Rightarrow> None | r # _ \<Rightarrow> Some r)
      in \<lparr>cs_kind = k,
          held = (case newest of None \<Rightarrow> False | Some r \<Rightarrow> \<not> truthy_str (co_revoked_at r)),
          latest = newest, superseded = length ofKind - 1\<rparr>)"

definition currentConsents :: "consent_row list \<Rightarrow> consent_state list" where
  "currentConsents crs = map (state_of crs) CONSENT_KINDS"

text \<open>The complaints of \<open>consentProblem\<close>, one constructor for each sentence.\<close>

datatype consent_complaint = GiveDocVersion | OnlyAParent | GiveParentName | GiveParentPhone | NeedsContact

record consent_draft =
  cd_kind :: consent_kind
  docVersion :: string
  grantedByKind :: granted_by
  parentName :: string
  parentPhone :: string
  cd_isMinor :: bool

definition consentProblem :: "consent_draft \<Rightarrow> consent_complaint option" where
  "consentProblem d =
     (if js_trim (docVersion d) = [] then Some GiveDocVersion
      else if cd_kind d = StrangerMatching \<and> cd_isMinor d \<and> grantedByKind d \<noteq> ByParent then Some OnlyAParent
      else if cd_kind d = StrangerMatching \<and> cd_isMinor d \<and> js_trim (parentName d) = [] then Some GiveParentName
      else if cd_kind d = StrangerMatching \<and> cd_isMinor d \<and> \<not> uz_phone (js_trim (parentPhone d)) then Some GiveParentPhone
      else if grantedByKind d = ByParent \<and> js_trim (parentPhone d) = [] then Some NeedsContact
      else None)"

text \<open>The request of \<open>RecordConsent\<close>; the form submits only when nothing is wrong.\<close>

record consent_request =
  rc_kind :: consent_kind
  rc_doc :: string
  rc_by :: granted_by
  rc_channel :: string
  rc_parent_name :: "string option"
  rc_parent_phone :: "string option"

definition consent_body :: "consent_draft \<Rightarrow> string \<Rightarrow> consent_request" where
  "consent_body d channel =
     (let wantsParent = grantedByKind d = ByParent in
      \<lparr>rc_kind = cd_kind d, rc_doc = js_trim (docVersion d), rc_by = grantedByKind d, rc_channel = channel,
       rc_parent_name = (if wantsParent then Some (js_trim (parentName d)) else None),
       rc_parent_phone = (if wantsParent then Some (js_trim (parentPhone d)) else None)\<rparr>)"

definition submit_consent :: "consent_draft \<Rightarrow> string \<Rightarrow> consent_request option" where
  "submit_consent d channel = (if consentProblem d = None then Some (consent_body d channel) else None)"

subsection \<open>The ledger\<close>

text \<open>Rows are only ever added, so the number of rows is a fresh identifier.\<close>

record ledger_row =
  lr_id :: nat
  lr_kind :: consent_kind
  lr_doc :: string
  lr_by :: granted_by
  lr_granted :: int
  lr_revoked :: "int option"

definition record_consent :: "bool \<Rightarrow> int \<Rightarrow> consent_request \<Rightarrow> ledger_row list \<Rightarrow> (string + ledger_row list)" where
  "record_consent is_minor now rq ledger =
     (if rc_kind rq = StrangerMatching \<and> is_minor \<and> (rc_by rq \<noteq> ByParent \<or> \<not> truthy_str (rc_parent_phone rq))
      then Inl ''parental_consent_required''
      else Inr (ledger @ [\<lparr>lr_id = length ledger, lr_kind = rc_kind rq, lr_doc = rc_doc rq, lr_by = rc_by rq, lr_granted = now, lr_revoked = None\<rparr>]))"

text \<open>The newest first, as both queries ask.\<close>

definition newest_first :: "ledger_row list \<Rightarrow> ledger_row list" where
  "newest_first ledger = sort_key (\<lambda>r. - lr_granted r) ledger"

definition revoke_consent :: "int \<Rightarrow> consent_kind \<Rightarrow> ledger_row list \<Rightarrow> (string + ledger_row list)" where
  "revoke_consent now k ledger =
     (case filter (\<lambda>r. lr_kind r = k \<and> lr_revoked r = None) (newest_first ledger) of
        [] \<Rightarrow> Inl ''not_found''
      | gone # _ \<Rightarrow> Inr (map (\<lambda>r. if lr_id r = lr_id gone then r\<lparr>lr_revoked := Some now\<rparr> else r) ledger))"

definition list_consents :: "(int \<Rightarrow> string) \<Rightarrow> ledger_row list \<Rightarrow> consent_row list" where
  "list_consents iso_text ledger =
     map (\<lambda>r. \<lparr>co_kind = lr_kind r, co_doc = lr_doc r, co_by = lr_by r, co_channel = None,
                co_granted_at = iso_text (lr_granted r), co_revoked_at = map_option iso_text (lr_revoked r)\<rparr>)
         (newest_first ledger)"

text \<open>The query of \<open>book_slot\<close>: may this minor join a public slot?\<close>

definition parent_agreed :: "ledger_row list \<Rightarrow> bool" where
  "parent_agreed ledger \<longleftrightarrow>
     filter (\<lambda>r. lr_kind r = StrangerMatching \<and> lr_by r = ByParent \<and> lr_revoked r = None) ledger \<noteq> []"

subsection \<open>The profile form\<close>

record profile_draft =
  givenName :: string
  familyName :: string
  locale_code :: string
  targetBand :: string

record profile_body =
  pb_given :: string
  pb_family :: string
  pb_locale :: string
  pb_band :: "real option"

definition save_profile :: "profile_draft \<Rightarrow> (failure + profile_body)" where
  "save_profile d =
     (let body = (\<lambda>b. \<lparr>pb_given = js_trim (givenName d), pb_family = js_trim (familyName d),
                        pb_locale = locale_code d, pb_band = b\<rparr>) in
      if js_trim (targetBand d) = [] then Inr (body None)
      else (case number_of (targetBand d) of
          None \<Rightarrow> Inl (JsError ''A target band is between 1 and 9.'')
        | Some b \<Rightarrow>
            if b < 1 \<or> b > 9 then Inl (JsError ''A target band is between 1 and 9.'') else Inr (body (Some b))))"

text \<open>\<open>problemText(failure) || String(failure)\<close>.\<close>

definition profile_error :: "failure \<Rightarrow> string" where
  "profile_error f =
     (let t = problemText (as_problem f) in
      if t \<noteq> [] then t else case f of JsError m \<Rightarrow> ''Error: '' @ m | ApiProblem _ \<Rightarrow> ''[object Object]'')"

subsection \<open>Signing out\<close>

text \<open>What the steps of \<open>signOut\<close> do to the page, in the order they happen.\<close>

datatype sign_out_step =
    LogoutSent "string option"
  | SessionCleared
  | PrincipalForgotten
  | QueriesCleared
  | SignedOutFired

record principal =
  given_name :: string
  platform_roles :: "string list"

text \<open>The module variable of \<open>principal.ts\<close> and the reads of \<open>GET /auth/session\<close> still under way.\<close>

record console =
  co_session :: session
  co_cached :: "principal option"
  co_loading :: nat
  co_log :: "sign_out_step list"

text \<open>The answer to \<open>POST /auth/logout\<close>: \<open>Inl\<close> is a call that threw.\<close>

definition signOut :: "bool \<Rightarrow> (unit + problem option) \<Rightarrow> console \<Rightarrow> string option \<times> console" where
  "signOut has_queries reply c =
     (let failed = (case reply of
            Inl _ \<Rightarrow> Some (''Could not reach the server, so this session may still be open '' @
                           ''elsewhere. It will be closed when you next sign in.'')
          | Inr None \<Rightarrow> None
          | Inr (Some p) \<Rightarrow> Some (problemText (Some p)))
      in (failed,
          c\<lparr>co_log := co_log c @ [LogoutSent (getAccessToken (co_session c)), SessionCleared, PrincipalForgotten] @
                        (if has_queries then [QueriesCleared] else []) @ [SignedOutFired],
            co_session := clearSession (co_session c), co_cached := None\<rparr>))"

definition loadPrincipal :: "console \<Rightarrow> principal option \<times> console" where
  "loadPrincipal c =
     (case co_cached c of Some p \<Rightarrow> (Some p, c) | None \<Rightarrow> (None, c\<lparr>co_loading := Suc (co_loading c)\<rparr>))"

text \<open>A read is answered; \<^const>\<open>None\<close> is a refusal.\<close>

definition principal_read :: "principal option \<Rightarrow> console \<Rightarrow> console" where
  "principal_read answer c =
     (if co_loading c = 0 then c
      else let c1 = c\<lparr>co_loading := co_loading c - 1\<rparr> in
        case answer of None \<Rightarrow> c1 | Some p \<Rightarrow> c1\<lparr>co_cached := Some p\<rparr>)"

definition forgetPrincipal :: "console \<Rightarrow> console" where
  "forgetPrincipal c = c\<lparr>co_cached := None\<rparr>"

definition isPlatformAdmin :: "principal option \<Rightarrow> bool" where
  "isPlatformAdmin p = (case p of None \<Rightarrow> False | Some q \<Rightarrow> ''platform_admin'' \<in> set (platform_roles q))"

subsection \<open>What is proved of consents\<close>

lemma of_kind_sorted:
  assumes "\<And>r. r \<in> set crs \<Longrightarrow> date_parse (co_granted_at r) \<noteq> NaN"
  shows "sorted_wrt (\<lambda>a b. date_parse (co_granted_at b) \<le> date_parse (co_granted_at a)) (of_kind k crs)"
proof -
  have "\<exists>t. date_parse (co_granted_at r) = Num t" if "r \<in> set crs" for r
    using assms [OF that] by (cases "date_parse (co_granted_at r)") simp_all
  then obtain t where dated: "\<And>r. r \<in> set crs \<Longrightarrow> date_parse (co_granted_at r) = Num (t r)" by metis
  have "of_kind k crs = sort_key (\<lambda>r. - t r) (filter (\<lambda>r. co_kind r = k) crs)"
    unfolding of_kind_def by (rule js_sort_sort_key) (simp add: dated)
  then have "sorted_wrt (\<lambda>a b. t b \<le> t a) (of_kind k crs)"
    using sorted_sort_key [of "\<lambda>r. - t r" "filter (\<lambda>r. co_kind r = k) crs"] by (simp add: sorted_wrt_map)
  then show ?thesis
    by (rule sorted_wrt_mono_rel [rotated]) (simp add: dated of_kind_def)
qed

text \<open>
  The newest grant of a kind decides. The list has one state for each of the five kinds, in
  their fixed order; a kind's latest grant is one that no grant of that kind is newer than, none
  exactly when the kind was never granted; it is held exactly when that grant is not revoked, and
  every other grant is counted as superseded.
\<close>
theorem consents_newest_decides:
  assumes "\<forall>r \<in> set crs. date_parse (co_granted_at r) \<noteq> NaN"
  shows "map cs_kind (currentConsents crs) = CONSENT_KINDS \<and>
    (\<forall>st \<in> set (currentConsents crs).
      (case latest st of
         None \<Rightarrow> \<not> held st \<and> superseded st = 0 \<and> (\<forall>r \<in> set crs. co_kind r \<noteq> cs_kind st)
       | Some r \<Rightarrow> r \<in> set crs \<and> co_kind r = cs_kind st \<and> held st = (\<not> truthy_str (co_revoked_at r)) \<and>
           superseded st + 1 = length (filter (\<lambda>x. co_kind x = cs_kind st) crs) \<and>
           (\<forall>x \<in> set crs. co_kind x = cs_kind st \<longrightarrow> date_parse (co_granted_at x) \<le> date_parse (co_granted_at r))))"
proof (intro conjI ballI)
  show "map cs_kind (currentConsents crs) = CONSENT_KINDS"
    by (simp add: currentConsents_def state_of_def Let_def comp_def)
next
  fix st assume "st \<in> set (currentConsents crs)"
  then obtain k where st: "st = state_of crs k" by (auto simp: currentConsents_def)
  have members: "set (of_kind k crs) = {r \<in> set crs. co_kind r = k}" by (auto simp: of_kind_def)
  have count: "length (of_kind k crs) = length (filter (\<lambda>x. co_kind x = k) crs)" by (simp add: of_kind_def)
  show "case latest st of
         None \<Rightarrow> \<not> held st \<and> superseded st = 0 \<and> (\<forall>r \<in> set crs. co_kind r \<noteq> cs_kind st)
       | Some r \<Rightarrow> r \<in> set crs \<and> co_kind r = cs_kind st \<and> held st = (\<not> truthy_str (co_revoked_at r)) \<and>
           superseded st + 1 = length (filter (\<lambda>x. co_kind x = cs_kind st) crs) \<and>
           (\<forall>x \<in> set crs. co_kind x = cs_kind st \<longrightarrow> date_parse (co_granted_at x) \<le> date_parse (co_granted_at r))"
  proof (cases "of_kind k crs")
    case Nil
    then show ?thesis using members by (auto simp: st state_of_def)
  next
    case (Cons r rest)
    have "date_parse (co_granted_at x) \<le> date_parse (co_granted_at r)" if "x \<in> set crs" "co_kind x = k" for x
    proof -
      have "x \<in> set (r # rest)" using that members Cons by simp
      moreover have "date_parse (co_granted_at r) \<le> date_parse (co_granted_at r)"
        using assms members Cons by (cases "date_parse (co_granted_at r)") auto
      ultimately show ?thesis using of_kind_sorted [of crs k] assms Cons by auto
    qed
    with Cons members count show ?thesis by (auto simp: st state_of_def)
  qed
qed

text \<open>
  A consent the form sends is never refused. Whatever the draft, a request goes out only when
  the ledger takes it; it is then appended, and nothing in the ledger is overwritten.
\<close>
theorem sent_consent_accepted:
  assumes "submit_consent d channel = Some rq"
  shows "\<exists>row. record_consent (cd_isMinor d) now rq ledger = Inr (ledger @ [row]) \<and>
    lr_kind row = cd_kind d \<and> lr_revoked row = None \<and> lr_doc row \<noteq> [] \<and>
    (cd_kind d = StrangerMatching \<and> cd_isMinor d \<longrightarrow> lr_by row = ByParent)"
proof -
  have ok: "consentProblem d = None" "rq = consent_body d channel"
    using assms by (auto simp: submit_consent_def split: if_splits)
  have minor: "grantedByKind d = ByParent \<and> js_trim (parentPhone d) \<noteq> []"
    if "cd_kind d = StrangerMatching" "cd_isMinor d"
  proof -
    from ok(1) that have "grantedByKind d = ByParent" "uz_phone (js_trim (parentPhone d))"
      by (auto simp: consentProblem_def split: if_splits)
    then show ?thesis by (auto simp: uz_phone_def)
  qed
  have "js_trim (docVersion d) \<noteq> []" using ok(1) by (auto simp: consentProblem_def split: if_splits)
  with minor show ?thesis unfolding ok(2) by (auto simp: record_consent_def consent_body_def Let_def)
qed

definition sample_draft :: consent_draft where
  "sample_draft = \<lparr>cd_kind = StrangerMatching, docVersion = ''v1'', grantedByKind = ByParent, parentName = ''A'',
     parentPhone = ''+998901234567'', cd_isMinor = True\<rparr>"

theorem sent_consent_accepted_witness:
  "\<exists>rq row. submit_consent sample_draft ''web'' = Some rq \<and> record_consent True 0 rq [] = Inr [row]"
proof -
  have "submit_consent sample_draft ''web'' \<noteq> None" by code_simp
  then obtain rq where rq: "submit_consent sample_draft ''web'' = Some rq" by blast
  from sent_consent_accepted [OF this, of 0 "[]"] rq show ?thesis by (auto simp: sample_draft_def)
qed

lemma newest_active:
  assumes "b \<in> set ledger" and "lr_kind b = k" and "lr_revoked b = None"
    and "\<forall>r \<in> set ledger. lr_kind r = k \<and> r \<noteq> b \<longrightarrow> lr_granted r < lr_granted b"
    and "\<And>r. P r \<Longrightarrow> lr_kind r = k" and "P b"
  obtains rest where "filter P (newest_first ledger) = b # rest"
proof -
  have "filter P (newest_first ledger) = sort_key (\<lambda>r. - lr_granted r) (filter P ledger)"
    by (simp add: newest_first_def filter_sort)
  moreover have "b \<in> set (filter P ledger)" using assms(1,6) by simp
  ultimately obtain h rest where h: "filter P (newest_first ledger) = h # rest"
      "sort_key (\<lambda>r. - lr_granted r) (filter P ledger) = h # rest"
    by (metis list.exhaust list.set_cases set_sort)
  have "sorted (map (\<lambda>r. - lr_granted r) (h # rest))" using sorted_sort_key h(2) by metis
  moreover have "b \<in> set (h # rest)" using \<open>b \<in> set (filter P ledger)\<close> h(2) by (metis set_sort)
  ultimately have "lr_granted b \<le> lr_granted h" by auto
  moreover have "h \<in> set (filter P ledger)" using h(2) by (metis list.set_intros(1) set_sort)
  ultimately have "h = b" using assms(4,5) by fastforce
  with h(1) that show thesis by blast
qed

text \<open>
  C18: withdrawing a consent that was given twice does not withdraw it. After the newest grant of
  stranger matching is withdrawn the console shows it as not held; a minor may still join a public
  slot exactly when an older grant by a parent had not been withdrawn.
\<close>
theorem withdrawal_and_booking:
  assumes "distinct (map lr_id ledger)"
    and "b \<in> set ledger" and "lr_kind b = StrangerMatching" and "lr_revoked b = None"
    and "\<forall>r \<in> set ledger. lr_kind r = StrangerMatching \<and> r \<noteq> b \<longrightarrow> lr_granted r < lr_granted b"
    and "\<forall>t \<in> lr_granted ` set ledger. date_parse (iso_text t) = Num (real_of_int t)" and "iso_text now \<noteq> []"
  shows "\<exists>ledger'. revoke_consent now StrangerMatching ledger = Inr ledger' \<and>
    \<not> held (state_of (list_consents iso_text ledger') StrangerMatching) \<and>
    (parent_agreed ledger' \<longleftrightarrow>
      (\<exists>a \<in> set ledger. a \<noteq> b \<and> lr_kind a = StrangerMatching \<and> lr_by a = ByParent \<and> lr_revoked a = None))"
proof -
  define gone where "gone r = (if lr_id r = lr_id b then r\<lparr>lr_revoked := Some now\<rparr> else r)" for r :: ledger_row
  define dto where "dto r = \<lparr>co_kind = lr_kind r, co_doc = lr_doc r, co_by = lr_by r, co_channel = None,
      co_granted_at = iso_text (lr_granted r), co_revoked_at = map_option iso_text (lr_revoked r)\<rparr>" for r :: ledger_row
  define crs where "crs = list_consents iso_text (map gone ledger)"
  have fields: "lr_kind (gone r) = lr_kind r" "lr_by (gone r) = lr_by r" "lr_granted (gone r) = lr_granted r" for r
    by (simp_all add: gone_def)
  have kinds: "co_kind (dto r) = lr_kind r" for r by (simp add: dto_def)
  have same: "lr_id r = lr_id b \<longleftrightarrow> r = b" if "r \<in> set ledger" for r
    using assms(1,2) that by (metis distinct_map inj_onD)
  obtain rest where "filter (\<lambda>r. lr_kind r = StrangerMatching \<and> lr_revoked r = None) (newest_first ledger) = b # rest"
    using newest_active [OF assms(2-5), of "\<lambda>r. lr_kind r = StrangerMatching \<and> lr_revoked r = None"] assms(3,4) by blast
  then have revoked: "revoke_consent now StrangerMatching ledger = Inr (map gone ledger)"
    by (simp add: revoke_consent_def gone_def)
  have booking: "parent_agreed (map gone ledger) \<longleftrightarrow>
      (\<exists>a \<in> set ledger. a \<noteq> b \<and> lr_kind a = StrangerMatching \<and> lr_by a = ByParent \<and> lr_revoked a = None)"
    using same by (auto simp: parent_agreed_def filter_empty_conv gone_def)
  have crs: "set crs = (dto \<circ> gone) ` set ledger"
    unfolding crs_def list_consents_def newest_first_def dto_def by auto
  have dated: "date_parse (co_granted_at (dto (gone r))) = Num (real_of_int (lr_granted r))" if "r \<in> set ledger" for r
    using assms(6) that by (simp add: dto_def fields)
  let ?L = "of_kind StrangerMatching crs"
  have L: "set ?L = {q \<in> set crs. co_kind q = StrangerMatching}" by (auto simp: of_kind_def)
  have "dto (gone b) \<in> set ?L" unfolding L crs using assms(2,3) by (simp add: kinds fields)
  then obtain q qs where cons: "?L = q # qs" by (cases ?L) auto
  then have "q \<in> set ?L" by simp
  then obtain x where x: "x \<in> set ledger" "q = dto (gone x)" "lr_kind x = StrangerMatching"
    unfolding L crs by (auto simp: kinds fields)
  have "sorted_wrt (\<lambda>a b. date_parse (co_granted_at b) \<le> date_parse (co_granted_at a)) ?L"
    by (rule of_kind_sorted) (use dated crs in auto)
  then have "dto (gone b) = q \<or> date_parse (co_granted_at (dto (gone b))) \<le> date_parse (co_granted_at q)"
    using \<open>dto (gone b) \<in> set ?L\<close> unfolding cons by auto
  then have "lr_granted b \<le> lr_granted x"
  proof
    assume "dto (gone b) = q"
    then show ?thesis using dated [OF assms(2)] dated [OF x(1)] x(2) by simp
  qed (simp add: x(2) dated [OF assms(2)] dated [OF x(1)])
  then have "x = b" using assms(5) x(1,3) by fastforce
  then have "\<not> held (state_of crs StrangerMatching)"
    using cons x(2) assms(7) by (simp add: state_of_def dto_def gone_def)
  then show ?thesis using revoked booking unfolding crs_def by blast
qed

definition sample_ledger :: "ledger_row list" where
  "sample_ledger =
     [\<lparr>lr_id = 0, lr_kind = StrangerMatching, lr_doc = ''v1'', lr_by = ByParent, lr_granted = 0, lr_revoked = None\<rparr>,
      \<lparr>lr_id = 1, lr_kind = StrangerMatching, lr_doc = ''v2'', lr_by = ByParent, lr_granted = 1000, lr_revoked = None\<rparr>]"

definition sample_iso :: "int \<Rightarrow> string" where
  "sample_iso t = (if t = 0 then ''1970-01-01T00:00:00.000Z'' else ''1970-01-01T00:00:01.000Z'')"

theorem withdrawal_and_booking_witness:
  "\<exists>ledger'. revoke_consent 2000 StrangerMatching sample_ledger = Inr ledger' \<and>
    \<not> held (state_of (list_consents sample_iso ledger') StrangerMatching) \<and> parent_agreed ledger'"
proof -
  have date: "date_parse ''1970-01-01T00:00:01.000Z'' = Num 1000" by (simp add: date_parse_eval)
  from withdrawal_and_booking [of sample_ledger "sample_ledger ! 1" sample_iso 2000] show ?thesis
    by (auto simp: sample_ledger_def sample_iso_def date date_parse_epoch)
qed

subsection \<open>What is proved of signing out\<close>

text \<open>
  Whatever becomes of the call, the browser is signed out; and the call goes out first, with the
  token it revokes.
\<close>

lemma signOut_clears:
  "isSignedIn (co_session (snd (signOut q reply c))) = False"
  "getAccessToken (co_session (snd (signOut q reply c))) = None"
  "co_cached (snd (signOut q reply c)) = None"
  "\<exists>rest. co_log (snd (signOut q reply c)) = co_log c @ LogoutSent (getAccessToken (co_session c)) # rest"
  by (simp_all add: signOut_def clearSession_def isSignedIn_def getAccessToken_def)

text \<open>
  A principal read that is under way outlives signing out. Its answer is cached after the cache
  was forgotten, so whoever signs in next on the page is shown the roles of the one who left.
\<close>
theorem late_principal_survives:
  assumes "co_loading c > 0"
  shows "let c' = principal_read (Some p) (snd (signOut q reply c)) in fst (loadPrincipal c') = Some p \<and>
    isPlatformAdmin (fst (loadPrincipal c')) = (''platform_admin'' \<in> set (platform_roles p))"
  using assms by (simp add: signOut_def principal_read_def loadPrincipal_def isPlatformAdmin_def Let_def)

theorem late_principal_survives_witness:
  "let c = \<lparr>co_session = \<lparr>accessToken = Some ''t'', storage = Map.empty, refreshing = False\<rparr>, co_cached = None,
      co_loading = 1, co_log = []\<rparr>;
       c' = principal_read (Some \<lparr>given_name = ''A'', platform_roles = [''platform_admin'']\<rparr>) (snd (signOut True (Inr None) c))
   in isPlatformAdmin (fst (loadPrincipal c'))"
  using late_principal_survives
    [of "\<lparr>co_session = \<lparr>accessToken = Some ''t'', storage = Map.empty, refreshing = False\<rparr>, co_cached = None,
      co_loading = 1, co_log = []\<rparr>" "\<lparr>given_name = ''A'', platform_roles = [''platform_admin'']\<rparr>" True "Inr None"]
  by (simp add: Let_def isPlatformAdmin_def)

text \<open>The bounds of the profile form are those of the server, and its reason is never shown.\<close>

lemma profile_bounds:
  "save_profile d = Inr b \<Longrightarrow> pb_band b = Some x \<Longrightarrow> 1 \<le> x \<and> x \<le> 9"
  "save_profile d = Inl f \<Longrightarrow> profile_error f = ''Something went wrong.''"
  by (auto simp: save_profile_def Let_def profile_error_def as_problem_def problemText_def coalesce_def
      split: if_splits option.splits)

end
