(* ===== verification/Paging.thy ===== *)
theory Paging
  imports Prelude
begin

text \<open>
  Reading a listing longer than one page: \<open>web/src/app/paging.tsx\<close>, against the keyset paging of the
  server, \<open>app/api/paging.py\<close>, and the roster's listing, \<open>list_members\<close> of
  \<open>app/api/routers/identity.py\<close>, which is what \<open>walkAll\<close> walks. The table may change between two requests.
\<close>

subsection \<open>The console's side\<close>

record 'a page =
  pg_items :: "'a list option"
  next_cursor :: "string option"

definition PAGED :: string where
  "PAGED = ''__paged''"

definition ALL_PAGES :: string where
  "ALL_PAGES = ''__all''"

definition paged_key :: "string list \<Rightarrow> string list" where
  "paged_key queryKey = queryKey @ [PAGED]"

definition all_key :: "string list \<Rightarrow> string list" where
  "all_key queryKey = queryKey @ [ALL_PAGES]"

definition getNextPageParam :: "'a page \<Rightarrow> string option" where
  "getNextPageParam last_page = next_cursor last_page"

definition loaded_items :: "'a page list \<Rightarrow> 'a list" where
  "loaded_items pages = concat (map (\<lambda>p. nullish (pg_items p) []) pages)"

definition MAX_PAGES :: nat where
  "MAX_PAGES = 50"

fun walk ::
  "nat \<Rightarrow> (string option \<Rightarrow> 'w \<Rightarrow> ('e + 'a page) \<times> 'w) \<Rightarrow> string option \<Rightarrow> 'a list \<Rightarrow> 'w \<Rightarrow> ('e + 'a list) \<times> 'w" where
  "walk 0 fetchPage cursor got w = (Inr got, w)"
| "walk (Suc n) fetchPage cursor got w =
     (case fetchPage cursor w of
        (Inl e, w') \<Rightarrow> (Inl e, w')
      | (Inr p, w') \<Rightarrow>
          let got' = got @ nullish (pg_items p) [] in
          if next_cursor p = None then (Inr got', w') else walk n fetchPage (next_cursor p) got' w')"

definition walkAll :: "(string option \<Rightarrow> 'w \<Rightarrow> ('e + 'a page) \<times> 'w) \<Rightarrow> 'w \<Rightarrow> ('e + 'a list) \<times> 'w" where
  "walkAll fetchPage w = walk MAX_PAGES fetchPage None [] w"

text \<open>The line under a listing; the button is there only when there is more.\<close>

definition pager :: "nat \<Rightarrow> bool \<Rightarrow> bool \<Rightarrow> string \<Rightarrow> (string \<times> string option) option" where
  "pager shown hasMore loading noun =
     (if shown = 0 then None
      else Some (if hasMore then show_nat shown @ '' '' @ noun @ '' so far. '' else ''All '' @ show_nat shown @ '' '' @ noun @ ''. '',
                 if hasMore then Some (if loading then ''Loading...'' else ''Show more'') else None))"

subsection \<open>Cursors\<close>

text \<open>
  URL-safe base64 without its padding. The decoder is modelled on the tokens the encoder mints;
  anything else is a token the server did not mint.
\<close>

definition sextet_char :: "nat \<Rightarrow> char" where
  "sextet_char n = ''ABCDEFGHIJKLMNOPQRSTUVWXYZabcdefghijklmnopqrstuvwxyz0123456789-_'' ! n"

definition char_sextet :: "char \<Rightarrow> nat option" where
  "char_sextet c = find_index (\<lambda>d. d = c) ''ABCDEFGHIJKLMNOPQRSTUVWXYZabcdefghijklmnopqrstuvwxyz0123456789-_''"

fun sextets_of :: "nat list \<Rightarrow> nat list" where
  "sextets_of [] = []"
| "sextets_of [a] = [a div 4, (a mod 4) * 16]"
| "sextets_of [a, b] = [a div 4, (a mod 4) * 16 + b div 16, (b mod 16) * 4]"
| "sextets_of (a # b # c # rest) =
     a div 4 # ((a mod 4) * 16 + b div 16) # ((b mod 16) * 4 + c div 64) # (c mod 64) # sextets_of rest"

fun bytes_of :: "nat list \<Rightarrow> nat list option" where
  "bytes_of [] = Some []"
| "bytes_of [s] = None"
| "bytes_of [s, t] = Some [s * 4 + t div 16]"
| "bytes_of [s, t, u] = Some [s * 4 + t div 16, (t mod 16) * 16 + u div 4]"
| "bytes_of (s # t # u # v # rest) =
     map_option (\<lambda>bs. (s * 4 + t div 16) # ((t mod 16) * 16 + u div 4) # ((u mod 4) * 64 + v) # bs) (bytes_of rest)"

definition encode_cursor :: "nat \<Rightarrow> string" where
  "encode_cursor key = map sextet_char (sextets_of (map of_char (show_nat key)))"

definition decode_cursor :: "string option \<Rightarrow> string option" where
  "decode_cursor cursor =
     (if \<not> truthy_str cursor then None
      else let codes = map char_sextet (nullish cursor []) in
        if None \<in> set codes then None else map_option (map char_of) (bytes_of (map the codes)))"

definition decode_id :: "string option \<Rightarrow> nat option" where
  "decode_id cursor =
     (case decode_cursor cursor of
        None \<Rightarrow> None
      | Some raw \<Rightarrow> if raw \<noteq> [] \<and> list_all is_digit raw then Some (read_nat raw) else None)"

subsection \<open>The roster\<close>

record roster_row =
  m_id :: nat
  m_user :: string
  m_role :: string
  m_active :: bool

definition split_page :: "nat \<Rightarrow> roster_row list \<Rightarrow> roster_row list \<times> string option" where
  "split_page limit rs =
     (if length rs \<le> limit then (rs, None)
      else let kept = take limit rs in (kept, Some (encode_cursor (m_id (last kept)))))"

definition past :: "nat option \<Rightarrow> nat \<Rightarrow> bool" where
  "past after k \<longleftrightarrow> (case after of None \<Rightarrow> True | Some a \<Rightarrow> a < k)"

definition in_listing :: "string \<Rightarrow> roster_row \<Rightarrow> bool" where
  "in_listing role m \<longleftrightarrow> m_active m \<and> (role \<noteq> [] \<longrightarrow> m_role m = role)"

definition list_members :: "string \<Rightarrow> nat \<Rightarrow> string option \<Rightarrow> roster_row list \<Rightarrow> roster_row page" where
  "list_members role limit cursor table =
     (let rs = take (limit + 1) (sort_key m_id
                 (filter (\<lambda>m. in_listing role m \<and> past (decode_id cursor) (m_id m)) table));
          (kept, next) = split_page limit rs
      in \<lparr>pg_items = Some kept, next_cursor = next\<rparr>)"

text \<open>One request; the table of the next one may be any other.\<close>

definition fetch_members :: "string \<Rightarrow> nat \<Rightarrow> string option \<Rightarrow> (nat \<Rightarrow> roster_row list) \<Rightarrow> (string + roster_row page) \<times> (nat \<Rightarrow> roster_row list)" where
  "fetch_members role limit cursor w = (Inr (list_members role limit cursor (w 0)), \<lambda>i. w (Suc i))"

subsection \<open>A cursor comes back as the key it was made of\<close>

lemma alphabet_facts:
  "length ''ABCDEFGHIJKLMNOPQRSTUVWXYZabcdefghijklmnopqrstuvwxyz0123456789-_'' = 64"
  "distinct ''ABCDEFGHIJKLMNOPQRSTUVWXYZabcdefghijklmnopqrstuvwxyz0123456789-_''"
  by code_simp+

lemma find_index_nth:
  assumes "distinct xs" and "i < length xs"
  shows "find_index (\<lambda>d. d = xs ! i) xs = Some i"
  unfolding find_index_Some_iff using assms by (auto simp: nth_eq_iff_index_eq)

lemma char_sextet_char: "n < 64 \<Longrightarrow> char_sextet (sextet_char n) = Some n"
  unfolding char_sextet_def sextet_char_def by (rule find_index_nth [OF alphabet_facts(2)]) (simp only: alphabet_facts(1))

lemma sextets_small: "\<forall>b \<in> set bs. b < 256 \<Longrightarrow> \<forall>s \<in> set (sextets_of bs). s < 64"
proof (induction bs rule: sextets_of.induct)
  case (2 a)
  then show ?case by (auto simp: less_mult_imp_div_less)
next
  case (3 a b)
  then have "a div 4 < 64" "b div 16 < 16" by (auto intro: less_mult_imp_div_less)
  moreover have "a mod 4 < 4" "b mod 16 < 16" by simp_all
  ultimately show ?case by auto
next
  case (4 a b c rest)
  then have "a div 4 < 64" "b div 16 < 16" "c div 64 < 4" by (auto intro: less_mult_imp_div_less)
  moreover have "a mod 4 < 4" "b mod 16 < 16" "c mod 64 < 64" by simp_all
  moreover have "\<forall>s \<in> set (sextets_of rest). s < 64" using 4 by simp
  ultimately show ?case by auto
qed simp

lemma bytes_sextets: "\<forall>b \<in> set bs. b < 256 \<Longrightarrow> bytes_of (sextets_of bs) = Some bs"
proof (induction bs rule: sextets_of.induct)
  case (3 a b)
  then have "b div 16 < 16" by (auto intro: less_mult_imp_div_less)
  then show ?case by simp
next
  case (4 a b c rest)
  then have "b div 16 < 16" "c div 64 < 4" by (auto intro: less_mult_imp_div_less)
  with 4 show ?case by simp
qed simp_all

lemma sextets_nonempty: "bs \<noteq> [] \<Longrightarrow> sextets_of bs \<noteq> []"
  by (cases bs rule: sextets_of.cases) simp_all

lemma decode_encode: "decode_id (Some (encode_cursor key)) = Some key"
proof -
  let ?bs = "map of_char (show_nat key) :: nat list" and ?s = "sextets_of (map of_char (show_nat key))"
  have bytes: "\<forall>b \<in> set ?bs. b < 256" by auto
  have codes: "map char_sextet (map sextet_char ?s) = map Some ?s"
    using sextets_small [OF bytes] by (simp add: char_sextet_char)
  have "?s \<noteq> []" by (rule sextets_nonempty) simp
  moreover have "map the (map Some ?s) = ?s" by (simp add: comp_def)
  moreover have "map char_of ?bs = show_nat key" by (simp add: comp_def)
  ultimately have "decode_cursor (Some (encode_cursor key)) = Some (show_nat key)"
    unfolding decode_cursor_def encode_cursor_def Let_def nullish_simps codes
    by (auto simp: bytes_sextets [OF bytes])
  then show ?thesis by (simp add: decode_id_def show_nat_all_digits)
qed

subsection \<open>Walking a listing that changes\<close>

text \<open>
  What \<open>walkAll\<close> relies on: a page is in the order of its keys and past its cursor, a cursor stands
  for the last key of a full page, and a row that is there throughout is on the page or after it.
\<close>

locale cursor_listing =
  fixes fetch :: "string option \<Rightarrow> 'w \<Rightarrow> ('e + 'a page) \<times> 'w"
    and key :: "'a \<Rightarrow> nat"
    and after :: "string option \<Rightarrow> nat option"
    and standing :: "'a \<Rightarrow> 'w \<Rightarrow> bool"
    and sound :: "nat set \<Rightarrow> 'w \<Rightarrow> bool"
    and limit :: nat
  assumes limit: "0 < limit"
    and start: "after None = None"
    and in_order: "sound U w \<Longrightarrow> fetch c w = (Inr p, w') \<Longrightarrow>
      sorted_wrt (\<lambda>x y. key x < key y) (nullish (pg_items p) []) \<and>
      (\<forall>x \<in> set (nullish (pg_items p) []). past (after c) (key x) \<and> key x \<in> U)"
    and cursor_stands: "sound U w \<Longrightarrow> fetch c w = (Inr p, w') \<Longrightarrow> next_cursor p = Some c' \<Longrightarrow>
      length (nullish (pg_items p) []) = limit \<and> after (Some c') = Some (key (last (nullish (pg_items p) [])))"
    and not_lost: "sound U w \<Longrightarrow> fetch c w = (Inr p, w') \<Longrightarrow> standing r w \<Longrightarrow> past (after c) (key r) \<Longrightarrow>
      r \<in> set (nullish (pg_items p) []) \<or> (\<exists>c'. next_cursor p = Some c' \<and> past (after (Some c')) (key r))"
    and in_universe: "sound U w \<Longrightarrow> standing r w \<Longrightarrow> key r \<in> U"
    and goes_on: "sound U w \<Longrightarrow> fetch c w = (res, w') \<Longrightarrow> sound U w' \<and> (standing r w \<longrightarrow> standing r w')"
begin

definition behind :: "string option \<Rightarrow> 'a list \<Rightarrow> bool" where
  "behind c got \<longleftrightarrow> sorted_wrt (\<lambda>x y. key x < key y) got \<and> (\<forall>x \<in> set got. \<not> past (after c) (key x))"

lemma past_trans: "past a k \<Longrightarrow> \<not> past a l \<Longrightarrow> l < k"
  by (auto simp: past_def split: option.splits)

lemma sorted_last: "sorted_wrt (\<lambda>x y. key x < key y) xs \<Longrightarrow> x \<in> set xs \<Longrightarrow> key x \<le> key (last xs)"
  by (induction xs rule: rev_induct) (auto simp: sorted_wrt_append)

lemma behind_next:
  assumes "sound U w" "fetch c w = (Inr p, w')" "behind c got"
  shows "sorted_wrt (\<lambda>x y. key x < key y) (got @ nullish (pg_items p) [])"
    and "next_cursor p = Some c' \<Longrightarrow> behind (Some c') (got @ nullish (pg_items p) [])"
proof -
  let ?items = "nullish (pg_items p) []"
  note items = in_order [OF assms(1,2)]
  show sorted: "sorted_wrt (\<lambda>x y. key x < key y) (got @ ?items)"
    using items assms(3) past_trans by (auto simp: sorted_wrt_append behind_def)
  assume "next_cursor p = Some c'"
  from cursor_stands [OF assms(1,2) this] limit have full: "after (Some c') = Some (key (last ?items))" "?items \<noteq> []"
    by auto
  then have "key x \<le> key (last ?items)" if "x \<in> set (got @ ?items)" for x
    using sorted_last [OF sorted that] by simp
  with sorted full(1) show "behind (Some c') (got @ ?items)" by (fastforce simp: behind_def past_def)
qed

lemma walk_in_order:
  "sound U w \<Longrightarrow> behind c got \<Longrightarrow> walk n fetch c got w = (Inr xs, w') \<Longrightarrow> sorted_wrt (\<lambda>x y. key x < key y) xs"
proof (induction n arbitrary: c got w)
  case 0
  then show ?case by (simp add: behind_def)
next
  case (Suc n)
  from Suc.prems(3) obtain p w1 where p: "fetch c w = (Inr p, w1)"
    by (auto split: prod.splits sum.splits)
  note next_page = behind_next [OF Suc.prems(1) p Suc.prems(2)]
  show ?case
  proof (cases "next_cursor p")
    case None
    with Suc.prems(3) p next_page(1) show ?thesis by (simp add: Let_def)
  next
    case (Some c')
    have "sound U w1" using goes_on [OF Suc.prems(1) p] by blast
    with Suc.IH [OF _ next_page(2) [OF Some]] Suc.prems(3) p Some show ?thesis by (simp add: Let_def)
  qed
qed

text \<open>Rows left to walk: the keys of \<open>U\<close> past the cursor.\<close>

lemma walk_complete:
  assumes "finite U"
  shows "sound U w \<Longrightarrow> card {k \<in> U. past (after c) k} \<le> n * limit \<Longrightarrow> walk n fetch c got w = (Inr xs, w') \<Longrightarrow>
    set got \<subseteq> set xs \<and> (\<forall>r. standing r w \<and> past (after c) (key r) \<longrightarrow> r \<in> set xs)"
proof (induction n arbitrary: c got w)
  case 0
  then have "{k \<in> U. past (after c) k} = {}" using assms by simp
  with 0 in_universe show ?case by auto
next
  case (Suc n)
  from Suc.prems(3) obtain p w1 where p: "fetch c w = (Inr p, w1)"
    by (auto split: prod.splits sum.splits)
  let ?items = "nullish (pg_items p) []" and ?left = "\<lambda>c. {k \<in> U. past (after c) k}"
  note items = in_order [OF Suc.prems(1) p] and lost = not_lost [OF Suc.prems(1) p]
  show ?case
  proof (cases "next_cursor p")
    case None
    with Suc.prems(3) p lost show ?thesis by (auto simp: Let_def)
  next
    case (Some c')
    note full = cursor_stands [OF Suc.prems(1) p Some]
    have rest: "walk n fetch (Some c') (got @ ?items) w1 = (Inr xs, w')"
      using Suc.prems(3) p Some by (simp add: Let_def)
    have "sorted_wrt (<) (map key ?items)" using items by (simp add: sorted_wrt_map)
    then have "distinct (map key ?items)" by (simp add: strict_sorted_iff)
    then have size: "card (key ` set ?items) = limit"
      using full distinct_card [of "map key ?items"] by simp
    have gone: "key ` set ?items \<subseteq> ?left c - ?left (Some c')"
      using items full sorted_last [of ?items] by (fastforce simp: past_def)
    have "?items \<noteq> []" using full limit by auto
    then have "past (after c) (key (last ?items))" using items by auto
    then have within: "?left (Some c') \<subseteq> ?left c"
      using full by (auto simp: past_def split: option.splits)
    have "card (key ` set ?items) \<le> card (?left c - ?left (Some c'))"
      by (rule card_mono [OF _ gone]) (simp add: assms)
    also have "\<dots> = card (?left c) - card (?left (Some c'))"
      by (rule card_Diff_subset [OF _ within]) (simp add: assms)
    finally have "card (?left (Some c')) \<le> n * limit"
      using size limit Suc.prems(2) card_mono [OF _ within] assms by simp
    moreover have "sound U w1" using goes_on [OF Suc.prems(1) p] by blast
    ultimately have IH: "set (got @ ?items) \<subseteq> set xs"
        "\<And>r. standing r w1 \<Longrightarrow> past (after (Some c')) (key r) \<Longrightarrow> r \<in> set xs"
      using Suc.IH [OF _ _ rest] by auto
    have "r \<in> set xs" if r: "standing r w" "past (after c) (key r)" for r
    proof -
      have "standing r w1" using goes_on [OF Suc.prems(1) p] r(1) by blast
      with lost [OF r] IH Some show ?thesis by auto
    qed
    with IH(1) show ?thesis by auto
  qed
qed

end

subsection \<open>The roster keeps the promise\<close>

definition sound_roster :: "nat set \<Rightarrow> (nat \<Rightarrow> roster_row list) \<Rightarrow> bool" where
  "sound_roster U tables \<longleftrightarrow> (\<forall>i. distinct (map m_id (tables i)) \<and> m_id ` set (tables i) \<subseteq> U)"

definition standing_member :: "string \<Rightarrow> roster_row \<Rightarrow> (nat \<Rightarrow> roster_row list) \<Rightarrow> bool" where
  "standing_member role r tables \<longleftrightarrow> in_listing role r \<and> (\<forall>i. r \<in> set (tables i))"

lemma sorted_members:
  assumes "distinct (map m_id table)"
  shows "sorted_wrt (\<lambda>x y. m_id x < m_id y) (sort_key m_id (filter P table))"
proof -
  have "distinct (map m_id (filter P table))" using assms by (rule distinct_map_filter)
  moreover have "mset (map m_id (sort_key m_id (filter P table))) = mset (map m_id (filter P table))" by simp
  ultimately have "distinct (map m_id (sort_key m_id (filter P table)))" by (metis mset_eq_imp_distinct_iff)
  moreover have "sorted (map m_id (sort_key m_id (filter P table)))" by simp
  ultimately have "sorted_wrt (<) (map m_id (sort_key m_id (filter P table)))" by (simp add: strict_sorted_iff)
  then show ?thesis by (simp add: sorted_wrt_map)
qed

abbreviation matching :: "string \<Rightarrow> string option \<Rightarrow> roster_row list \<Rightarrow> roster_row list" where
  "matching role c table \<equiv> sort_key m_id (filter (\<lambda>m. in_listing role m \<and> past (decode_id c) (m_id m)) table)"

lemma list_members_page:
  "list_members role (Suc n) c table =
     (if length (matching role c table) \<le> Suc n then \<lparr>pg_items = Some (matching role c table), next_cursor = None\<rparr>
      else let kept = take (Suc n) (matching role c table) in
        \<lparr>pg_items = Some kept, next_cursor = Some (encode_cursor (m_id (last kept)))\<rparr>)"
  by (simp add: list_members_def split_page_def Let_def min_def)

lemma sorted_take_drop:
  assumes "sorted_wrt R xs" and "x \<in> set (drop n xs)" and "y \<in> set (take n xs)"
  shows "R y x"
  using assms by (metis append_take_drop_id sorted_wrt_append)

interpretation roster: cursor_listing "fetch_members role (Suc n)" m_id decode_id "standing_member role" sound_roster "Suc n"
  for role n
proof
  show "0 < Suc n" by simp
  show "decode_id None = None" by (simp add: decode_id_def decode_cursor_def)
next
  fix U w c p w'
  assume w: "sound_roster U w" and "fetch_members role (Suc n) c w = (Inr p, w')"
  then have p: "p = list_members role (Suc n) c (w 0)" by (simp add: fetch_members_def)
  let ?L = "matching role c (w 0)"
  have items: "nullish (pg_items p) [] = take (Suc n) ?L" unfolding p list_members_page by (simp add: Let_def)
  have sorted: "sorted_wrt (\<lambda>x y. m_id x < m_id y) ?L"
    by (rule sorted_members) (use w in \<open>simp add: sound_roster_def\<close>)
  show "sorted_wrt (\<lambda>x y. m_id x < m_id y) (nullish (pg_items p) []) \<and>
      (\<forall>x \<in> set (nullish (pg_items p) []). past (decode_id c) (m_id x) \<and> m_id x \<in> U)"
  proof -
    have "m_id x \<in> U" if "x \<in> set (w 0)" for x using that w by (auto simp: sound_roster_def)
    then show ?thesis using sorted unfolding items by (auto simp: sorted_wrt_take dest: in_set_takeD)
  qed
  show "length (nullish (pg_items p) []) = Suc n \<and> decode_id (Some c') = Some (m_id (last (nullish (pg_items p) [])))"
    if "next_cursor p = Some c'" for c'
    using that unfolding p list_members_page by (auto simp: Let_def decode_encode split: if_splits)
  show "r \<in> set (nullish (pg_items p) []) \<or> (\<exists>c'. next_cursor p = Some c' \<and> past (decode_id (Some c')) (m_id r))"
    if "standing_member role r w" "past (decode_id c) (m_id r)" for r
  proof (cases "r \<in> set (take (Suc n) ?L)")
    case True
    then show ?thesis unfolding items by blast
  next
    case False
    have "r \<in> set ?L" using that by (simp add: standing_member_def)
    then have "r \<in> set (take (Suc n) ?L @ drop (Suc n) ?L)" by simp
    with False have later: "r \<in> set (drop (Suc n) ?L)" unfolding set_append by blast
    then have long: "\<not> length ?L \<le> Suc n" by auto
    then have "last (take (Suc n) ?L) \<in> set (take (Suc n) ?L)" by (intro last_in_set) (use later in auto)
    from sorted_take_drop [OF sorted later this] show ?thesis
      unfolding p list_members_page using long by (simp add: Let_def decode_encode past_def)
  qed
next
  fix U w c res w' r
  assume w: "sound_roster U w" and "fetch_members role (Suc n) c w = (res, w')"
  then have "w' = (\<lambda>i. w (Suc i))" by (simp add: fetch_members_def)
  then show "sound_roster U w' \<and> (standing_member role r w \<longrightarrow> standing_member role r w')"
    using w by (simp add: sound_roster_def standing_member_def)
next
  show "m_id r \<in> U" if "sound_roster U w" "standing_member role r w" for U w r
    using that by (fastforce simp: sound_roster_def standing_member_def)
qed

text \<open>
  C17: a walk of the roster misses nobody and repeats nobody, whatever changes under it. The table
  may be another one at every request; somebody who is in all of them is in the walk, nobody is in
  it twice, and it is in the order of the memberships, as long as at most fifty pages of members
  come and go meanwhile.
\<close>
theorem walk_misses_nobody:
  assumes "\<forall>i. distinct (map m_id (tables i)) \<and> m_id ` set (tables i) \<subseteq> U"
    and "finite U" and "card U \<le> MAX_PAGES * limit" and "0 < limit"
  shows "\<exists>xs tables'. walkAll (fetch_members role limit) tables = (Inr xs, tables') \<and>
    sorted (map m_id xs) \<and> distinct (map m_id xs) \<and>
    (\<forall>r. in_listing role r \<and> (\<forall>i. r \<in> set (tables i)) \<longrightarrow> r \<in> set xs)"
proof -
  from assms(4) obtain n where n: "limit = Suc n" by (cases limit) auto
  have sound: "sound_roster U tables" using assms(1) by (simp add: sound_roster_def)
  have always: "\<exists>xs w'. walk k (fetch_members role limit) c got w = (Inr xs, w')" for k c got w
    by (induction k arbitrary: c got w) (simp_all add: fetch_members_def Let_def)
  then obtain xs tables' where walk: "walk MAX_PAGES (fetch_members role (Suc n)) None [] tables = (Inr xs, tables')"
    unfolding n by blast
  have all: "{k \<in> U. past (decode_id None) k} = U" by (simp add: roster.start past_def)
  have "sorted_wrt (\<lambda>x y. m_id x < m_id y) xs"
    by (rule roster.walk_in_order [OF sound _ walk]) (simp add: roster.behind_def)
  then have "sorted_wrt (<) (map m_id xs)" by (simp add: sorted_wrt_map)
  then have "sorted (map m_id xs)" "distinct (map m_id xs)" by (simp_all add: strict_sorted_iff)
  moreover have "\<forall>r. standing_member role r tables \<and> past (decode_id None) (m_id r) \<longrightarrow> r \<in> set xs"
    using roster.walk_complete [OF assms(2) sound _ walk] assms(3) n by (simp add: all)
  ultimately show ?thesis
    using walk by (auto simp: n walkAll_def standing_member_def roster.start past_def)
qed

theorem walk_misses_nobody_witness:
  "\<exists>xs tables'. walkAll (fetch_members ''student'' 2)
      (\<lambda>i. map (\<lambda>k. \<lparr>m_id = k, m_user = ''u'', m_role = ''student'', m_active = True\<rparr>) [4, 2, 7]) = (Inr xs, tables') \<and>
    7 \<in> m_id ` set xs"
proof -
  let ?table = "map (\<lambda>k. \<lparr>m_id = k, m_user = ''u'', m_role = ''student'', m_active = True\<rparr>) [4, 2, 7 :: nat]"
  from walk_misses_nobody [of "\<lambda>i. ?table" "{2, 4, 7}" 2 "''student''"]
  show ?thesis by (force simp: MAX_PAGES_def in_listing_def)
qed

text \<open>A walk always ends, after at most fifty requests.\<close>

lemma paged_and_all_apart: "paged_key q \<noteq> all_key r" "prefix q (paged_key q)" "prefix q (all_key q)"
  by (simp_all add: paged_key_def all_key_def PAGED_def ALL_PAGES_def)

lemma pager_counts_all: "pager (length xs) False loading noun = (if xs = [] then None else Some (''All '' @ show_nat (length xs) @ '' '' @ noun @ ''. '', None))"
  by (simp add: pager_def)

end
