(* ===== verification/Shell.thy ===== *)
theory Shell
  imports Prelude
begin

text \<open>
  The console's shell: the navigation of \<open>web/src/app/nav.ts\<close>, the accordion of \<open>Sidebar.tsx\<close>, the
  confirmations of \<open>Toast.tsx\<close> and the dialog of \<open>Confirm.tsx\<close>.
\<close>

subsection \<open>Navigation\<close>

record nav_item =
  ni_to :: string
  ni_label :: string
  ni_hint :: "string option"

record nav_group =
  ng_key :: string
  ng_label :: string
  ng_items :: "nav_item list"
  platformOnly :: bool

definition item :: "string \<Rightarrow> string \<Rightarrow> nav_item" where
  "item to label = \<lparr>ni_to = to, ni_label = label, ni_hint = None\<rparr>"

definition hinted :: "string \<Rightarrow> string \<Rightarrow> string \<Rightarrow> nav_item" where
  "hinted to label hint = \<lparr>ni_to = to, ni_label = label, ni_hint = Some hint\<rparr>"

definition NAV :: "nav_group list" where
  "NAV =
     [\<lparr>ng_key = ''library'', ng_label = ''Library'', ng_items =
         [hinted ''/passages'' ''Reading'' ''passages'', hinted ''/audio'' ''Listening'' ''audio'',
          hinted ''/cue-cards'' ''Speaking'' ''cue cards'', hinted ''/tests'' ''Tests'' ''papers'',
          item ''/questions'' ''Questions'', item ''/groups'' ''Question groups'', item ''/import'' ''Import''],
       platformOnly = False\<rparr>,
      \<lparr>ng_key = ''teaching'', ng_label = ''Teaching'', ng_items =
         [item ''/assignments'' ''Assignments'', item ''/results'' ''Results'',
          item ''/competitions'' ''Contests'', item ''/speaking'' ''Speaking slots''],
       platformOnly = False\<rparr>,
      \<lparr>ng_key = ''reports'', ng_label = ''Reports'', ng_items =
         [item ''/progress'' ''Student progress'', item ''/item-analysis'' ''Item analysis'',
          item ''/flagged-items'' ''Flagged items'', item ''/attendance'' ''Attendance'',
          hinted ''/regrades'' ''Answer keys'' ''regrades'', item ''/exposure'' ''Content exposure''],
       platformOnly = False\<rparr>,
      \<lparr>ng_key = ''centre'', ng_label = ''My centre'', ng_items =
         [item ''/centre'' ''People'', item ''/billing'' ''Billing'', item ''/sharing'' ''Sharing''],
       platformOnly = False\<rparr>,
      \<lparr>ng_key = ''platform'', ng_label = ''Platform'', ng_items =
         [item ''/question-types'' ''Question types'', item ''/lexicon'' ''Lexicon'',
          item ''/band-maps'' ''Band maps'', item ''/safety'' ''Safety queue'',
          item ''/takedowns'' ''Takedowns'', item ''/organizations'' ''Organizations''],
       platformOnly = True\<rparr>]"

definition ACCOUNT :: nav_item where
  "ACCOUNT = item ''/account'' ''Account''"

definition NESTED :: "(string \<times> string) list" where
  "NESTED = [(''/versions'', ''/tests''), (''/invites'', ''/account'')]"

text \<open>\<open>pathname === p || pathname.startsWith(`${p}/`)\<close>.\<close>

definition under :: "string \<Rightarrow> string \<Rightarrow> bool" where
  "under p pathname \<longleftrightarrow> pathname = p \<or> prefix (p @ ''/'') pathname"

definition all_items :: "nav_item list" where
  "all_items = concat (map ng_items NAV) @ [ACCOUNT]"

definition activeFor :: "string \<Rightarrow> string option" where
  "activeFor pathname =
     (case List.find (\<lambda>i. under (ni_to i) pathname)
             (js_sort (\<lambda>a b. length (ni_to b) > length (ni_to a)) all_items) of
        Some direct \<Rightarrow> Some (ni_to direct)
      | None \<Rightarrow> map_option snd (List.find (\<lambda>(p, _). under p pathname) NESTED))"

definition groupsFor :: "bool \<Rightarrow> nav_group list" where
  "groupsFor isPlatformAdmin = filter (\<lambda>g. \<not> platformOnly g \<or> isPlatformAdmin) NAV"

definition groupKeyFor :: "string \<Rightarrow> string option" where
  "groupKeyFor pathname =
     (case activeFor pathname of
        None \<Rightarrow> None
      | Some active \<Rightarrow> map_option ng_key (List.find (\<lambda>g. active \<in> ni_to ` set (ng_items g)) NAV))"

subsection \<open>The accordion\<close>

text \<open>The path on screen, the group that is open, and the drawer of the narrow screen.\<close>

record sidebar =
  sb_path :: string
  openKey :: "string option"
  drawer :: bool

definition mount_sidebar :: "string \<Rightarrow> sidebar" where
  "mount_sidebar pathname = \<lparr>sb_path = pathname, openKey = groupKeyFor pathname, drawer = False\<rparr>"

text \<open>The two effects of a navigation: the drawer closes, and a group that changed opens.\<close>

definition navigate :: "string \<Rightarrow> sidebar \<Rightarrow> sidebar" where
  "navigate pathname sb =
     (let active = groupKeyFor pathname;
          opened = (if active \<noteq> groupKeyFor (sb_path sb) \<and> truthy_str active then active else openKey sb)
      in \<lparr>sb_path = pathname, openKey = opened,
          drawer = (if pathname = sb_path sb then drawer sb else False)\<rparr>)"

definition disclose :: "string \<Rightarrow> sidebar \<Rightarrow> sidebar" where
  "disclose key sb = sb\<lparr>openKey := if openKey sb = Some key then None else Some key\<rparr>"

definition toggle_drawer :: "sidebar \<Rightarrow> sidebar" where
  "toggle_drawer sb = sb\<lparr>drawer := \<not> drawer sb\<rparr>"

text \<open>For each group shown: is it open, and does it carry the mark that the page is inside it?\<close>

definition group_marks :: "bool \<Rightarrow> sidebar \<Rightarrow> (string \<times> bool \<times> bool) list" where
  "group_marks admin sb =
     map (\<lambda>g. let isOpen = openKey sb = Some (ng_key g);
                   holdsCurrent = (\<exists>i \<in> set (ng_items g). Some (ni_to i) = activeFor (sb_path sb))
               in (ng_key g, isOpen, holdsCurrent \<and> \<not> isOpen)) (groupsFor admin)"

subsection \<open>Confirmations\<close>

definition TOAST_MS :: nat where
  "TOAST_MS = 6000"

text \<open>A note with the time at which its timer runs out; an effect starts the timer once per identifier.\<close>

record toast_note =
  note_id :: nat
  note_text :: string
  note_due :: nat

definition say :: "nat \<Rightarrow> string \<Rightarrow> toast_note list \<Rightarrow> toast_note list" where
  "say now t ns =
     ns @ [\<lparr>note_id = (if ns = [] then 0 else note_id (last ns)) + 1, note_text = t, note_due = now + TOAST_MS\<rparr>]"

definition dismiss :: "nat \<Rightarrow> toast_note list \<Rightarrow> toast_note list" where
  "dismiss i ns = filter (\<lambda>n. note_id n \<noteq> i) ns"

definition timers_fire :: "nat \<Rightarrow> toast_note list \<Rightarrow> toast_note list" where
  "timers_fire now ns = fold dismiss (map note_id (filter (\<lambda>n. note_due n \<le> now) ns)) ns"

subsection \<open>The dialog\<close>

text \<open>Whether the element is shown, and what has been called back.\<close>

record dialog =
  dg_shown :: bool
  dg_calls :: "string list"

text \<open>
  The effect on \<open>open\<close>: closing the element fires its close event, which calls \<open>onCancel\<close>; so does
  Escape, which closes it behind React's back.
\<close>

definition set_open :: "bool \<Rightarrow> dialog \<Rightarrow> dialog" where
  "set_open opn d =
     (if opn \<and> \<not> dg_shown d then d\<lparr>dg_shown := True\<rparr>
      else if \<not> opn \<and> dg_shown d then d\<lparr>dg_shown := False, dg_calls := dg_calls d @ [''onCancel'']\<rparr>
      else d)"

definition press_escape :: "dialog \<Rightarrow> dialog" where
  "press_escape d =
     (if dg_shown d then d\<lparr>dg_shown := False, dg_calls := dg_calls d @ [''onCancel'']\<rparr> else d)"

definition press_button :: "bool \<Rightarrow> string \<Rightarrow> dialog \<Rightarrow> dialog" where
  "press_button busy which d =
     (if dg_shown d \<and> \<not> busy then d\<lparr>dg_calls := dg_calls d @ [which]\<rparr> else d)"

subsection \<open>What is proved of the navigation\<close>

definition flat :: "string \<Rightarrow> bool" where
  "flat to \<longleftrightarrow> to \<noteq> [] \<and> hd to = CHR ''/'' \<and> CHR ''/'' \<notin> set (tl to)"

lemma all_items_flat: "\<forall>i \<in> set all_items. flat (ni_to i)"
  by code_simp

lemma nested_flat: "\<forall>p \<in> set NESTED. flat (fst p) \<and> fst p \<notin> ni_to ` set all_items"
  by code_simp

lemma takeWhile_segment:
  assumes "CHR ''/'' \<notin> set v" and "rest = [] \<or> hd rest = CHR ''/''"
  shows "takeWhile (\<lambda>c. c \<noteq> CHR ''/'') (v @ rest) = v"
proof -
  have "takeWhile (\<lambda>c. c \<noteq> CHR ''/'') (v @ rest) = v @ takeWhile (\<lambda>c. c \<noteq> CHR ''/'') rest"
    using assms(1) by (intro takeWhile_append2) auto
  with assms(2) show ?thesis by (cases rest) auto
qed

lemma under_flat:
  assumes "flat p" and "flat q" and "under p (q @ rest)" and "rest = [] \<or> hd rest = CHR ''/''"
  shows "p = q"
proof -
  obtain u v where p: "p = CHR ''/'' # u" and q: "q = CHR ''/'' # v" and u: "CHR ''/'' \<notin> set u" and v: "CHR ''/'' \<notin> set v"
    using assms(1,2) by (cases p; cases q) (auto simp: flat_def)
  from assms(3) have "\<exists>w. v @ rest = u @ w \<and> (w = [] \<or> hd w = CHR ''/'')"
    by (auto simp: under_def p q prefix_def)
  then obtain w where "v @ rest = u @ w" "w = [] \<or> hd w = CHR ''/''" by blast
  with takeWhile_segment [OF u, of w] takeWhile_segment [OF v assms(4)] have "u = v" by simp
  then show ?thesis by (simp add: p q)
qed

lemma find_unique:
  assumes "x \<in> set xs" and "P x" and "\<And>y. y \<in> set xs \<Longrightarrow> P y \<Longrightarrow> f y = f x"
  shows "map_option f (List.find P xs) = Some (f x)"
proof -
  obtain y where "List.find P xs = Some y"
    using assms(1,2) by (cases "List.find P xs") (auto simp: find_None_iff)
  moreover from this have "y \<in> set xs" "P y" by (auto simp: find_Some_iff)
  ultimately show ?thesis using assms(3) by simp
qed

lemma under_refl: "rest = [] \<or> hd rest = CHR ''/'' \<Longrightarrow> under p (p @ rest)"
  by (cases rest) (auto simp: under_def prefix_def)

lemma activeFor_own:
  assumes i: "i \<in> set all_items" and r: "rest = [] \<or> hd rest = CHR ''/''"
  shows "activeFor (ni_to i @ rest) = Some (ni_to i)"
proof -
  let ?all = "js_sort (\<lambda>a b. length (ni_to b) > length (ni_to a)) all_items"
  have "map_option ni_to (List.find (\<lambda>j. under (ni_to j) (ni_to i @ rest)) ?all) = Some (ni_to i)"
  proof (rule find_unique)
    show "i \<in> set ?all" using i by simp
    show "under (ni_to i) (ni_to i @ rest)" by (rule under_refl [OF r])
    show "ni_to j = ni_to i" if "j \<in> set ?all" "under (ni_to j) (ni_to i @ rest)" for j
      using that all_items_flat i by (intro under_flat [OF _ _ _ r]) auto
  qed
  then show ?thesis by (auto simp: activeFor_def split: option.splits)
qed

lemma activeFor_nested:
  assumes n: "(p, q) \<in> set NESTED" and r: "rest = [] \<or> hd rest = CHR ''/''"
  shows "activeFor (p @ rest) = Some q"
proof -
  let ?all = "js_sort (\<lambda>a b. length (ni_to b) > length (ni_to a)) all_items"
  have p: "flat p" and out: "p \<notin> ni_to ` set all_items" using nested_flat n by fastforce+
  have none: "List.find (\<lambda>j. under (ni_to j) (p @ rest)) ?all = None"
    unfolding find_None_iff using under_flat [OF _ p _ r] all_items_flat out by auto
  have "map_option snd (List.find (\<lambda>(a, _). under a (p @ rest)) NESTED) = Some (snd (p, q))"
  proof (rule find_unique)
    show "(p, q) \<in> set NESTED" by (rule n)
    show "case (p, q) of (a, _) \<Rightarrow> under a (p @ rest)" using under_refl [OF r] by simp
    show "snd j = snd (p, q)" if j: "j \<in> set NESTED" "case j of (a, _) \<Rightarrow> under a (p @ rest)" for j
    proof -
      obtain a b where ab: "j = (a, b)" by (cases j)
      with j nested_flat have "flat a" by auto
      with j ab p r have "a = p" by (auto intro: under_flat)
      with ab j n show ?thesis by (auto simp: NESTED_def)
    qed
  qed
  with none show ?thesis by (simp add: activeFor_def)
qed

lemma group_of_item:
  "\<forall>g \<in> set NAV. \<forall>i \<in> set (ng_items g). i \<in> set all_items \<and>
     map_option ng_key (List.find (\<lambda>g'. ni_to i \<in> ni_to ` set (ng_items g')) NAV) = Some (ng_key g)"
  by code_simp

lemma NAV_keys: "distinct (map ng_key NAV)" "\<forall>g \<in> set NAV. ng_key g \<noteq> []"
  by code_simp+

lemma filter_key_le_1: "distinct (map f xs) \<Longrightarrow> length (filter (\<lambda>x. k = Some (f x)) xs) \<le> 1"
proof (induction xs)
  case (Cons x xs)
  have "filter (\<lambda>y. k = Some (f y)) xs = []" if "k = Some (f x)"
    using Cons.prems that by (auto simp: filter_empty_conv)
  then show ?case using Cons by auto
qed simp

lemma one_group_open: "length (filter (\<lambda>(_, opn, _). opn) (group_marks admin sb)) \<le> 1"
proof -
  have "length (filter (\<lambda>(_, opn, _). opn) (group_marks admin sb)) = length (filter (\<lambda>g. openKey sb = Some (ng_key g)) (groupsFor admin))"
    by (simp add: group_marks_def filter_map o_def Let_def)
  moreover have "distinct (map ng_key (groupsFor admin))"
    using NAV_keys(1) unfolding groupsFor_def by (rule distinct_map_filter)
  ultimately show ?thesis by (simp only: filter_key_le_1)
qed

text \<open>
  Opening any page of the navigation, or anything below it, lights that page's own entry; its
  group opens when the previous page was in another one, at most one group is open, and the group of the
  page is always either open or marked as holding it - a closed accordion never hides where one is.\<close>

theorem page_never_lost:
  assumes "g \<in> set (groupsFor admin)" and "i \<in> set (ng_items g)" and "rest = [] \<or> hd rest = CHR ''/''"
  shows "(let sb' = navigate (ni_to i @ rest) sb in
           activeFor (sb_path sb') = Some (ni_to i) \<and>
           (groupKeyFor (sb_path sb) \<noteq> Some (ng_key g) \<longrightarrow> openKey sb' = Some (ng_key g)) \<and>
           ((ng_key g, True, False) \<in> set (group_marks admin sb') \<or> (ng_key g, False, True) \<in> set (group_marks admin sb')) \<and>
           length (filter (\<lambda>(_, opn, _). opn) (group_marks admin sb')) \<le> 1)"
proof -
  have g: "g \<in> set NAV" using assms(1) by (simp add: groupsFor_def)
  then have i: "i \<in> set all_items" using group_of_item assms(2) by blast
  define sb' where "sb' = navigate (ni_to i @ rest) sb"
  have lit: "activeFor (ni_to i @ rest) = Some (ni_to i)" by (rule activeFor_own [OF i assms(3)])
  then have key: "groupKeyFor (ni_to i @ rest) = Some (ng_key g)"
    using group_of_item g assms(2) by (simp add: groupKeyFor_def)
  have path: "sb_path sb' = ni_to i @ rest" by (simp add: sb'_def navigate_def Let_def)
  have opened: "groupKeyFor (sb_path sb) \<noteq> Some (ng_key g) \<longrightarrow> openKey sb' = Some (ng_key g)"
    using key NAV_keys(2) g by (auto simp: sb'_def navigate_def Let_def)
  have "(ng_key g, openKey sb' = Some (ng_key g), openKey sb' \<noteq> Some (ng_key g)) \<in> set (group_marks admin sb')"
    unfolding group_marks_def set_map Let_def path lit using assms(1,2) by (intro image_eqI [of _ _ g]) auto
  then have "(ng_key g, True, False) \<in> set (group_marks admin sb') \<or> (ng_key g, False, True) \<in> set (group_marks admin sb')"
    by (cases "openKey sb' = Some (ng_key g)") auto
  then show ?thesis
    using lit opened one_group_open [of admin sb'] by (simp only: Let_def sb'_def [symmetric] path simp_thms)
qed

theorem page_never_lost_witness:
  "(let sb' = navigate ''/tests/abc'' (mount_sidebar ''/billing'') in
      activeFor (sb_path sb') = Some ''/tests'' \<and> openKey sb' = Some ''library'')"
  using page_never_lost [of "NAV ! 0" False "hinted ''/tests'' ''Tests'' ''papers''" "''/abc''" "mount_sidebar ''/billing''"]
  by code_simp

subsection \<open>What is proved of the confirmations and the dialog\<close>

text \<open>The identifiers rise along the list, so no two notes on screen share one.\<close>

definition notes_ok :: "toast_note list \<Rightarrow> bool" where
  "notes_ok ns \<longleftrightarrow> sorted_wrt (<) (map note_id ns)"

lemma notes_ok_say: "notes_ok ns \<Longrightarrow> notes_ok (say now t ns)"
  by (cases ns rule: rev_cases) (auto simp: notes_ok_def say_def sorted_wrt_append)

lemma notes_ok_dismiss: "notes_ok ns \<Longrightarrow> notes_ok (dismiss i ns)"
  unfolding notes_ok_def dismiss_def sorted_wrt_map by (rule sorted_wrt_filter)

lemma fold_dismiss: "fold dismiss ids ns = filter (\<lambda>n. note_id n \<notin> set ids) ns"
  by (induction ids arbitrary: ns) (auto simp: dismiss_def intro: filter_cong)

text \<open>The timers take away the notes whose time is over and no other.\<close>

lemma timers_fire_due:
  assumes "notes_ok ns"
  shows "timers_fire now ns = filter (\<lambda>n. now < note_due n) ns"
proof -
  have d: "distinct (map note_id ns)"
    using assms unfolding notes_ok_def by (simp add: strict_sorted_iff)
  have "note_id n \<in> note_id ` {m \<in> set ns. note_due m \<le> now} \<longleftrightarrow> note_due n \<le> now" if "n \<in> set ns" for n
    using that d by (auto simp: distinct_map dest: inj_onD)
  then have "note_id n \<notin> note_id ` {m \<in> set ns. note_due m \<le> now} \<longleftrightarrow> now < note_due n" if "n \<in> set ns" for n
    using that by (simp add: not_le)
  then show ?thesis
    unfolding timers_fire_def fold_dismiss set_map set_filter by (intro filter_cong) auto
qed

text \<open>
  What the close event means for the callers: a confirmed dialog is cancelled as well once its screen
  closes it, and Escape cancels while the work is under way, where the Cancel button is switched off.
\<close>

lemma confirm_is_followed_by_cancel:
  "dg_calls (set_open False (press_button False ''onConfirm'' (set_open True \<lparr>dg_shown = False, dg_calls = []\<rparr>))) =
     [''onConfirm'', ''onCancel'']"
  by code_simp

lemma escape_while_busy:
  "dg_calls (press_escape (press_button True ''onCancel'' (set_open True \<lparr>dg_shown = False, dg_calls = []\<rparr>))) = [''onCancel'']"
  by code_simp

lemma closed_cancels_once:
  "dg_shown d \<Longrightarrow> dg_calls (set_open False (press_escape d)) = dg_calls d @ [''onCancel'']"
  by (simp add: set_open_def press_escape_def)

end
