(* ===== verification/VersionEdit.thy ===== *)
theory VersionEdit
  imports Problems
begin

text \<open>
  Editing a versioned draft: \<open>web/src/features/edit/useVersionEdit.ts\<close>, against the optimistic lock of
  \<open>app/api/routers/assets.py\<close> (\<open>version_etag\<close>, \<open>check_if_match\<close> and the handlers that patch passage, question
  and group versions, which differ in the fields they write).
\<close>

subsection \<open>The server's side\<close>

record 'c draft_version =
  dv_status :: string
  dv_no :: nat
  dv_checksum :: string
  dv_content :: 'c

definition version_etag :: "'c draft_version \<Rightarrow> string" where
  "version_etag v = ''\"'' @ show_nat (dv_no v) @ ''-'' @ dv_checksum v @ ''\"''"

text \<open>Python's \<open>strip\<close> of quotation marks and \<open>removeprefix\<close>.\<close>

definition strip_quotes :: "string \<Rightarrow> string" where
  "strip_quotes s = rev (dropWhile (\<lambda>c. c = CHR ''\"'') (rev (dropWhile (\<lambda>c. c = CHR ''\"'') s)))"

definition remove_prefix :: "string \<Rightarrow> string \<Rightarrow> string" where
  "remove_prefix p s = (if prefix p s then drop (length p) s else s)"

definition seen_tags :: "string \<Rightarrow> string list" where
  "seen_tags if_match = map (\<lambda>token. strip_quotes (remove_prefix ''W/'' (js_trim token))) (js_split (CHR '','') if_match)"

definition check_if_match :: "string \<Rightarrow> string option \<Rightarrow> bool" where
  "check_if_match current if_match =
     (case if_match of
        None \<Rightarrow> True
      | Some h \<Rightarrow> ''*'' \<in> set (seen_tags h) \<or> strip_quotes current \<in> set (seen_tags h))"

definition refusal_of :: "string \<Rightarrow> string \<Rightarrow> failure" where
  "refusal_of title code = ApiProblem \<lparr>problem_title = Some title, problem_code = Some code, findings = None\<rparr>"

definition stale_refusal :: failure where
  "stale_refusal = refusal_of (''This changed since you loaded it. Reload before saving, or your edit '' @
     ''would overwrite someone else's.'') ''stale_version''"

definition immutable_refusal :: failure where
  "immutable_refusal = refusal_of ''A published passage version is immutable; create a new one.'' ''version_immutable''"

text \<open>A handler: \<open>put\<close> puts the fields of the body on the row.\<close>

definition patch_version ::
  "('b \<Rightarrow> 'c \<Rightarrow> 'c) \<Rightarrow> string option \<Rightarrow> 'b \<Rightarrow> 'c draft_version \<Rightarrow> failure option \<times> 'c draft_version" where
  "patch_version put if_match edit v =
     (if dv_status v = ''published'' then (Some immutable_refusal, v)
      else if \<not> check_if_match (version_etag v) if_match then (Some stale_refusal, v)
      else (None, v\<lparr>dv_content := put edit (dv_content v)\<rparr>))"

subsection \<open>The console's side\<close>

text \<open>The read answers with its \<open>ETag\<close> header, which an error response does not carry.\<close>

record ('b, 'w) version_api =
  api_read :: "'w \<Rightarrow> string option \<times> 'w"
  api_patch :: "string \<Rightarrow> 'b \<Rightarrow> 'w \<Rightarrow> failure option \<times> 'w"

definition version_edit :: "('b, 'w) version_api \<Rightarrow> 'b \<Rightarrow> 'w \<Rightarrow> failure option \<times> 'w" where
  "version_edit A edit w =
     (case api_read A w of
        (tag, w1) \<Rightarrow>
          if \<not> truthy_str tag then (Some (JsError ''Could not read this version. Reload and try again.''), w1)
          else api_patch A (nullish tag []) edit w1)"

text \<open>\<open>problemText(error) || String(error)\<close>, reworded for a lock that fired.\<close>

definition editError :: "failure \<Rightarrow> string" where
  "editError f =
     (let t = problemText (as_problem f);
          said = (if t \<noteq> [] then t else case f of JsError m \<Rightarrow> ''Error: '' @ m | ApiProblem _ \<Rightarrow> ''[object Object]'')
      in if js_includes ''stale_version'' said \<or> js_includes ''changed since'' said
         then ''Somebody else changed this while you were editing. Reload to see their '' @
              ''version, then make your change again.''
         else said)"

text \<open>
  One version in a world in which other clients may act between the read and the write; \<open>others\<close> is
  what they do in that time.
\<close>

definition served_version ::
  "('b \<Rightarrow> 'c \<Rightarrow> 'c) \<Rightarrow> ('c draft_version \<Rightarrow> 'c draft_version) \<Rightarrow> ('b, 'c draft_version) version_api" where
  "served_version put others =
     \<lparr>api_read = (\<lambda>v. (Some (version_etag v), others v)),
      api_patch = (\<lambda>tag edit v. patch_version put (Some tag) edit v)\<rparr>"

text \<open>A series of edits by anyone, each with whatever tag it holds.\<close>

fun edits_by_others ::
  "('b \<Rightarrow> 'c \<Rightarrow> 'c) \<Rightarrow> (string option \<times> 'b) list \<Rightarrow> 'c draft_version \<Rightarrow> 'c draft_version" where
  "edits_by_others put [] v = v"
| "edits_by_others put ((tag, edit) # es) v = edits_by_others put es (snd (patch_version put tag edit v))"

subsection \<open>The lock\<close>

lemma show_nat_plain: "CHR '','' \<notin> set (show_nat n)" "CHR ''\"'' \<notin> set (show_nat n)"
  using show_nat_digits [of "CHR '',''" n] show_nat_digits [of "CHR ''\"''" n] by (auto simp: is_digit_def)

lemma tag_seen:
  assumes "CHR '','' \<notin> set (dv_checksum v)"
  shows "seen_tags (version_etag v) = [strip_quotes (version_etag v)]"
proof -
  have "js_trim (version_etag v) = version_etag v"
    by (rule js_trim_id) (auto simp: version_etag_def is_space_def)
  moreover have "remove_prefix ''W/'' (version_etag v) = version_etag v"
    by (simp add: remove_prefix_def version_etag_def)
  moreover have "js_split (CHR '','') (version_etag v) = [version_etag v]"
    using assms by (intro js_split_no_sep) (auto simp: version_etag_def show_nat_plain)
  ultimately show ?thesis by (simp add: seen_tags_def)
qed

lemma own_tag_passes:
  "CHR '','' \<notin> set (dv_checksum v) \<Longrightarrow> check_if_match (version_etag v) (Some (version_etag v))"
  by (simp add: check_if_match_def tag_seen)

lemma patch_keeps:
  "dv_status (snd (patch_version put tag edit v)) = dv_status v"
  "dv_no (snd (patch_version put tag edit v)) = dv_no v"
  "dv_checksum (snd (patch_version put tag edit v)) = dv_checksum v"
  by (simp_all add: patch_version_def)

lemma edits_keep:
  "dv_status (edits_by_others put es v) = dv_status v \<and> dv_no (edits_by_others put es v) = dv_no v \<and>
   dv_checksum (edits_by_others put es v) = dv_checksum v"
  by (induction put es v rule: edits_by_others.induct) (simp_all add: patch_keeps)

lemma edits_keep_tag: "version_etag (edits_by_others put es v) = version_etag v"
  by (simp add: version_etag_def edits_keep)

lemma accepted_patch:
  assumes "dv_status v \<noteq> ''published''" and "CHR '','' \<notin> set (dv_checksum v)"
  shows "patch_version put (Some (version_etag v)) edit v = (None, v\<lparr>dv_content := put edit (dv_content v)\<rparr>)"
  using assms by (simp add: patch_version_def own_tag_passes)

text \<open>
  C40: The lock on drafts never fires. The tag of a draft is made of its version number and a checksum
  that no edit changes, so after any series of edits by others it is still the one every author holds:
  a save that presents the tag of the very first read is accepted and writes over what they saved, and
  so is the save of the console, which reads a fresh tag first, whatever else is written between its
  read and its write. The header of the hook says that of two teachers editing one draft the second
  loses loudly.\<close>

theorem draft_lock_never_fires:
  assumes "dv_status v \<noteq> ''published''" and "CHR '','' \<notin> set (dv_checksum v)"
  shows "let now = edits_by_others put before v;
             at_write = edits_by_others put between now
         in patch_version put (Some (version_etag v)) edit now =
              (None, now\<lparr>dv_content := put edit (dv_content now)\<rparr>) \<and>
            version_edit (served_version put (edits_by_others put between)) edit now =
              (None, at_write\<lparr>dv_content := put edit (dv_content at_write)\<rparr>)"
proof -
  define now where "now = edits_by_others put before v"
  define at_write where "at_write = edits_by_others put between now"
  have tags: "version_etag now = version_etag v" "version_etag at_write = version_etag now"
    by (simp_all add: now_def at_write_def edits_keep_tag)
  have draft: "dv_status now \<noteq> ''published''" "CHR '','' \<notin> set (dv_checksum now)"
    "dv_status at_write \<noteq> ''published''" "CHR '','' \<notin> set (dv_checksum at_write)"
    using assms by (simp_all add: now_def at_write_def edits_keep)
  have "truthy_str (Some (version_etag now))" by (simp add: version_etag_def)
  then have "version_edit (served_version put (edits_by_others put between)) edit now =
      patch_version put (Some (version_etag at_write)) edit at_write"
    by (simp add: version_edit_def served_version_def at_write_def [symmetric] tags(2))
  with accepted_patch [OF draft(1,2), of put edit] accepted_patch [OF draft(3,4), of put edit]
  show ?thesis unfolding Let_def now_def [symmetric] at_write_def [symmetric] by (simp add: tags(1))
qed

theorem draft_lock_never_fires_witness:
  "patch_version (\<lambda>new _. new) (Some ''\"1-\"'') ''mine''
      (edits_by_others (\<lambda>new _. new) [(Some ''\"1-\"'', ''theirs'')]
         \<lparr>dv_status = ''draft'', dv_no = 1, dv_checksum = [], dv_content = ''text''\<rparr>) =
     (None, \<lparr>dv_status = ''draft'', dv_no = 1, dv_checksum = [], dv_content = ''mine''\<rparr>)"
  using draft_lock_never_fires
    [of "\<lparr>dv_status = ''draft'', dv_no = 1, dv_checksum = [], dv_content = ''text''\<rparr>" "\<lambda>new _. new"
      "[(Some ''\"1-\"'', ''theirs'')]" "[]" "''mine''"]
  by code_simp

text \<open>The words for a lock that fired are kept for its refusal; the reason a read failed is lost.\<close>

lemma stale_words: "editError stale_refusal =
  ''Somebody else changed this while you were editing. Reload to see their version, then make your change again.''"
  by code_simp

lemma unreadable_reason_lost:
  "truthy_str (fst (api_read A w)) \<or>
   (\<exists>f w'. version_edit A edit w = (Some f, w') \<and> editError f = ''Something went wrong.'')"
proof (cases "truthy_str (fst (api_read A w))")
  case False
  have "editError (JsError ''Could not read this version. Reload and try again.'') = ''Something went wrong.''"
    by code_simp
  with False show ?thesis by (auto simp: version_edit_def split: prod.splits)
qed simp

end
