(* ===== verification/Passages.thy ===== *)
theory Passages
  imports VersionEdit
begin

text \<open>
  The reading passages of the console, \<open>web/src/features/passages/PassageLibrary.tsx\<close>: blocks and the text
  an author edits, the screen's mutations, and the handlers of \<open>app/api/routers/assets.py\<close> that store them.
\<close>

subsection \<open>Blocks and text\<close>

record text_run =
  tr_type :: string
  tr_v :: "string option"
  tr_ref :: "string option"

record block =
  bk_type :: string
  bk_runs :: "text_run list option"

abbreviation newline :: char where
  "newline \<equiv> char_of (10 :: nat)"

text \<open>
  The separator \<open>/\n\s*\n/\<close> at a newline: what is left after the longest match, which ends at the last
  newline of the white space that follows.
\<close>

definition blank_line :: "string \<Rightarrow> string option" where
  "blank_line s =
     (let ws = takeWhile is_space s in
      if newline \<in> set ws
      then Some (rev (takeWhile (\<lambda>c. c \<noteq> newline) (rev ws)) @ dropWhile is_space s) else None)"

lemma blank_line_shorter: "blank_line s = Some r \<Longrightarrow> length r \<le> length s"
proof -
  assume "blank_line s = Some r"
  then have r: "r = rev (takeWhile (\<lambda>c. c \<noteq> newline) (rev (takeWhile is_space s))) @ dropWhile is_space s"
    by (simp add: blank_line_def Let_def split: if_splits)
  have "length (takeWhile (\<lambda>c. c \<noteq> newline) (rev (takeWhile is_space s))) \<le> length (takeWhile is_space s)"
    using length_takeWhile_le [of _ "rev (takeWhile is_space s)"] by simp
  moreover have "length (takeWhile is_space s) + length (dropWhile is_space s) = length s"
    by (metis length_append takeWhile_dropWhile_id)
  ultimately show ?thesis by (simp add: r)
qed

function paragraphs :: "string \<Rightarrow> string list" where
  "paragraphs [] = [[]]"
| "paragraphs (c # s) =
     (case (if c = newline then blank_line s else None) of
        Some r \<Rightarrow> [] # paragraphs r
      | None \<Rightarrow> (case paragraphs s of [] \<Rightarrow> [[c]] | p # ps \<Rightarrow> (c # p) # ps))"
  by pat_completeness auto
termination
  by (relation "measure length") (auto dest: blank_line_shorter split: if_splits)

definition paragraph_block :: "string \<Rightarrow> block" where
  "paragraph_block chunk =
     \<lparr>bk_type = ''paragraph'', bk_runs = Some [\<lparr>tr_type = ''text'', tr_v = Some chunk, tr_ref = None\<rparr>]\<rparr>"

definition toBlocks :: "string \<Rightarrow> block list" where
  "toBlocks t = map paragraph_block (filter (\<lambda>c. c \<noteq> []) (map js_trim (paragraphs t)))"

text \<open>\<open>join\<close> renders an absent value as nothing.\<close>

definition toText :: "block list \<Rightarrow> string" where
  "toText blocks =
     js_join [newline, newline]
       (map (\<lambda>b. concat (map (\<lambda>r. nullish (tr_v r) []) (nullish (bk_runs b) []))) blocks)"

subsection \<open>The server's side\<close>

record passage_content =
  pc_title :: string
  pc_blocks :: "block list"
  pc_labels :: "string list"
  pc_words :: nat

definition letters :: "nat \<Rightarrow> string list" where
  "letters n = map (\<lambda>i. [char_of (65 + i)]) [0..<n]"

text \<open>Python's \<open>split()\<close> counts the runs of characters that are not white space.\<close>

fun word_count :: "bool \<Rightarrow> string \<Rightarrow> nat" where
  "word_count inside [] = 0"
| "word_count inside (c # s) = (if is_space c then word_count False s else (if inside then 0 else 1) + word_count True s)"

definition count_words :: "block list \<Rightarrow> nat" where
  "count_words blocks =
     sum_list (map (\<lambda>b. sum_list (map (\<lambda>r. word_count False (nullish (tr_v r) [])) (nullish (bk_runs b) []))) blocks)"

definition label_count :: "block list \<Rightarrow> nat" where
  "label_count blocks =
     (let n = length (filter (\<lambda>b. bk_type b = ''paragraph'') blocks) in if n = 0 then length blocks else n)"

text \<open>The body of \<open>PassageVersionUpdate\<close>; an absent field is left as it is.\<close>

definition update_passage :: "string option \<times> block list option \<Rightarrow> passage_content \<Rightarrow> passage_content" where
  "update_passage b pc =
     (case b of (t, bs) \<Rightarrow>
        let pc1 = (case t of None \<Rightarrow> pc | Some x \<Rightarrow> pc\<lparr>pc_title := x\<rparr>)
        in (case bs of None \<Rightarrow> pc1
            | Some blocks \<Rightarrow>
                pc1\<lparr>pc_blocks := blocks, pc_labels := letters (label_count blocks), pc_words := count_words blocks\<rparr>))"

definition create_passage :: "string \<Rightarrow> block list \<Rightarrow> passage_content draft_version" where
  "create_passage title blocks =
     \<lparr>dv_status = ''draft'', dv_no = 1, dv_checksum = [],
      dv_content = \<lparr>pc_title = title, pc_blocks = blocks, pc_labels = letters (length blocks), pc_words = count_words blocks\<rparr>\<rparr>"

text \<open>\<open>new_passage_version\<close>: the versions of a passage, newest last, and the index of the current one.\<close>

definition new_passage_version ::
  "string \<Rightarrow> nat option \<Rightarrow> passage_content draft_version list \<Rightarrow> nat option \<times> passage_content draft_version list" where
  "new_passage_version title current vs =
     (let source = (case current of Some i \<Rightarrow> Some (vs ! i) | None \<Rightarrow> if vs = [] then None else Some (last vs));
          blocks = (case source of None \<Rightarrow> [] | Some v \<Rightarrow> pc_blocks (dv_content v));
          labels = (case source of None \<Rightarrow> [] | Some v \<Rightarrow> pc_labels (dv_content v));
          made = \<lparr>dv_status = ''draft'', dv_no = foldr max (map dv_no vs) 0 + 1, dv_checksum = [],
                  dv_content = \<lparr>pc_title = title, pc_blocks = blocks, pc_labels = labels, pc_words = count_words blocks\<rparr>\<rparr>
      in (Some (length vs), vs @ [made]))"

subsection \<open>The screen\<close>

datatype claim = Original | Licensed | PublicDomain | PermittedExcerpt

record passage_page =
  pp_title :: string
  pp_body :: string
  pp_claim :: "claim option"
  pp_open :: "(string \<times> string) option"
  pp_editing :: bool
  pp_editTitle :: string
  pp_editBody :: string
  pp_error :: "string option"

definition shown_failure :: "failure \<Rightarrow> string" where
  "shown_failure f =
     (let t = problemText (as_problem f) in
      if t \<noteq> [] then t else case f of JsError m \<Rightarrow> ''Error: '' @ m | ApiProblem _ \<Rightarrow> ''[object Object]'')"

text \<open>The request of \<open>create\<close>, or what it throws before sending; and what its answer does to the form.\<close>

definition create_body :: "passage_page \<Rightarrow> failure + (string \<times> block list \<times> claim)" where
  "create_body p =
     (case pp_claim p of
        None \<Rightarrow> Inl (JsError ''Say where this passage came from.'')
      | Some c \<Rightarrow> Inr (js_trim (pp_title p), toBlocks (pp_body p), c))"

definition created :: "failure option \<Rightarrow> passage_page \<Rightarrow> passage_page" where
  "created answer p =
     (case answer of
        None \<Rightarrow> p\<lparr>pp_title := [], pp_body := [], pp_claim := None, pp_error := None\<rparr>
      | Some f \<Rightarrow> p\<lparr>pp_error := Some (shown_failure f)\<rparr>)"

definition submit_create ::
  "(string \<times> block list \<times> claim \<Rightarrow> failure option) \<Rightarrow> passage_page \<Rightarrow> passage_page" where
  "submit_create send p =
     (let p1 = p\<lparr>pp_error := None\<rparr> in
      case create_body p1 of Inl f \<Rightarrow> created (Some f) p1 | Inr b \<Rightarrow> created (send b) p1)"

definition toggle_open :: "string \<Rightarrow> string \<Rightarrow> passage_page \<Rightarrow> passage_page" where
  "toggle_open passage version p =
     p\<lparr>pp_editing := False,
       pp_open := (if map_option snd (pp_open p) = Some version then None else Some (passage, version))\<rparr>"

text \<open>\<open>newVersion\<close> answers with the version made, if the answer had a body.\<close>

definition version_started ::
  "string \<Rightarrow> (string option \<times> block list) option \<Rightarrow> passage_page \<Rightarrow> passage_page" where
  "version_started passage version p =
     (let p1 = p\<lparr>pp_error := (case version of
             Some (_, []) \<Rightarrow> Some (''The new version came back with no text. Paste the text in before '' @ ''publishing.'')
           | _ \<Rightarrow> None),
           pp_editing := False\<rparr>
      in (case version of
            Some (xid, _) \<Rightarrow> if truthy_str xid then p1\<lparr>pp_open := Some (passage, nullish xid [])\<rparr> else p1
          | None \<Rightarrow> p1))"

definition published :: "failure option \<Rightarrow> passage_page \<Rightarrow> passage_page" where
  "published answer p =
     (case answer of None \<Rightarrow> p\<lparr>pp_error := None, pp_editing := False\<rparr> | Some f \<Rightarrow> p\<lparr>pp_error := Some (shown_failure f)\<rparr>)"

definition start_edit :: "string option \<Rightarrow> block list option \<Rightarrow> passage_page \<Rightarrow> passage_page" where
  "start_edit title blocks p =
     p\<lparr>pp_error := None, pp_editTitle := nullish title [], pp_editBody := toText (nullish blocks []), pp_editing := True\<rparr>"

definition edit_body :: "passage_page \<Rightarrow> string option \<times> block list option" where
  "edit_body p = (Some (js_trim (pp_editTitle p)), Some (toBlocks (pp_editBody p)))"

definition save_passage ::
  "(string option \<times> block list option, 'w) version_api \<Rightarrow> passage_page \<Rightarrow> 'w \<Rightarrow> passage_page \<times> 'w" where
  "save_passage A p w =
     (case version_edit A (edit_body p) w of
        (None, w') \<Rightarrow> (p\<lparr>pp_editing := False\<rparr>, w')
      | (Some f, w') \<Rightarrow> (p\<lparr>pp_error := Some (editError f)\<rparr>, w'))"

text \<open>The paragraphs of an open version, each with its letter.\<close>

definition shown_blocks :: "passage_content \<Rightarrow> (string option \<times> string) list" where
  "shown_blocks pc =
     map (\<lambda>(i, b). (if i < length (pc_labels pc) then Some (pc_labels pc ! i) else None,
                     concat (map (\<lambda>r. nullish (tr_v r) []) (nullish (bk_runs b) []))))
       (enumerate 0 (pc_blocks pc))"

definition no_blank_line :: "string \<Rightarrow> bool" where
  "no_blank_line s \<longleftrightarrow> (\<forall>a ws b. s = a @ newline # ws @ newline # b \<longrightarrow> \<not> list_all is_space ws)"

lemma newline_space: "is_space newline"
  by (simp add: is_space_def)

lemma no_blank_line_sub:
  assumes "no_blank_line (x @ s @ y)"
  shows "no_blank_line s"
  unfolding no_blank_line_def
proof (intro allI impI)
  fix a ws b assume "s = a @ newline # ws @ newline # b"
  then have "x @ s @ y = (x @ a) @ newline # ws @ newline # (b @ y)" by simp
  with assms show "\<not> list_all is_space ws" unfolding no_blank_line_def by blast
qed

lemma js_trim_sub: "\<exists>x y. s = x @ js_trim s @ y"
proof -
  let ?t = "dropWhile is_space s"
  have "s = takeWhile is_space s @ ?t" by simp
  moreover have "rev ?t = takeWhile is_space (rev ?t) @ dropWhile is_space (rev ?t)" by simp
  then have "?t = rev (dropWhile is_space (rev ?t)) @ rev (takeWhile is_space (rev ?t))" by (metis rev_append rev_rev_ident)
  ultimately show ?thesis unfolding js_trim_def trim_start_def by metis
qed

lemma blank_line_iff:
  "blank_line s \<noteq> None \<longleftrightarrow> (\<exists>ws b. s = ws @ newline # b \<and> list_all is_space ws)"
proof
  assume "blank_line s \<noteq> None"
  then have "newline \<in> set (takeWhile is_space s)" by (simp add: blank_line_def Let_def split: if_splits)
  then obtain u v where uv: "takeWhile is_space s = u @ newline # v" by (auto simp: in_set_conv_decomp)
  then have "list_all is_space u" by (metis list_all_append list_all_iff set_takeWhileD)
  moreover have "s = u @ newline # (v @ dropWhile is_space s)"
    using takeWhile_dropWhile_id [of is_space s] uv by simp
  ultimately show "\<exists>ws b. s = ws @ newline # b \<and> list_all is_space ws" by blast
next
  assume "\<exists>ws b. s = ws @ newline # b \<and> list_all is_space ws"
  then obtain ws b where s: "s = ws @ newline # b" "list_all is_space ws" by blast
  then have "takeWhile is_space s = ws @ newline # takeWhile is_space b"
    using newline_space by (simp add: takeWhile_append2 list_all_iff)
  then show "blank_line s \<noteq> None" by (simp add: blank_line_def)
qed

lemma paragraphs_nonempty [simp]: "paragraphs s \<noteq> []"
  by (induction s rule: paragraphs.induct) (auto split: option.splits list.splits)

lemma hd_paragraphs_prefix: "prefix (hd (paragraphs s)) s"
proof (induction s rule: paragraphs.induct)
  case (2 c s)
  show ?case
  proof (cases "if c = newline then blank_line s else None")
    case None
    with 2(1) [OF None] show ?thesis by (cases "paragraphs s") auto
  qed auto
qed simp

lemma paragraphs_no_blank: "p \<in> set (paragraphs s) \<Longrightarrow> no_blank_line p"
proof (induction s arbitrary: p rule: paragraphs.induct)
  case 1
  then show ?case by (simp add: no_blank_line_def)
next
  case (2 c s)
  show ?case
  proof (cases "if c = newline then blank_line s else None")
    case None
    obtain q qs where qs: "paragraphs s = q # qs" by (cases "paragraphs s") auto
    have q: "no_blank_line q" using 2(1) [OF None] qs by auto
    have "no_blank_line (c # q)"
      unfolding no_blank_line_def
    proof (intro allI impI)
      fix a ws b assume e: "c # q = a @ newline # ws @ newline # b"
      show "\<not> list_all is_space ws"
      proof (cases a)
        case Nil
        with e have c: "c = newline" "q = ws @ newline # b" by auto
        with None have "blank_line s = None" by simp
        moreover have "\<exists>b'. s = ws @ newline # b'"
          using hd_paragraphs_prefix [of s] qs c(2) by (auto simp: prefix_def)
        ultimately show ?thesis using blank_line_iff [of s] by auto
      next
        case (Cons d a')
        with e have "q = a' @ newline # ws @ newline # b" by simp
        with q show ?thesis unfolding no_blank_line_def by blast
      qed
    qed
    with 2(1) [OF None] 2(3) None qs show ?thesis by auto
  next
    case (Some r)
    with 2(2) [OF Some] 2(3) show ?thesis by (auto simp: no_blank_line_def)
  qed
qed

text \<open>A chunk as \<open>toBlocks\<close> leaves it.\<close>

definition chunk_ok :: "string \<Rightarrow> bool" where
  "chunk_ok s \<longleftrightarrow> s \<noteq> [] \<and> js_trim s = s \<and> no_blank_line s"

lemma trim_ends: "js_trim s = s \<Longrightarrow> s \<noteq> [] \<Longrightarrow> \<not> is_space (hd s) \<and> \<not> is_space (last s)"
  using js_trim_ends [of s] by simp

lemma blank_line_inside:
  assumes "\<not> is_space (last u)" and "u \<noteq> []"
  shows "blank_line (u @ x) \<noteq> None \<longleftrightarrow> blank_line u \<noteq> None"
proof -
  have "last u \<in> set u" using assms(2) by simp
  then have "takeWhile is_space (u @ x) = takeWhile is_space u"
    using assms(1) by (simp add: takeWhile_append1)
  then show ?thesis by (simp add: blank_line_def Let_def)
qed

lemma no_gap_within:
  assumes "no_blank_line (c # u)" and "u \<noteq> []" and "\<not> is_space (last u)"
  shows "(if c = newline then blank_line (u @ x) else None) = None"
proof -
  have "blank_line u = None" if "c = newline"
  proof (rule ccontr)
    assume "blank_line u \<noteq> None"
    then obtain ws b where "u = ws @ newline # b" "list_all is_space ws" using blank_line_iff by blast
    with that have "c # u = [] @ newline # ws @ newline # b" by simp
    with assms(1) \<open>list_all is_space ws\<close> show False unfolding no_blank_line_def by blast
  qed
  with blank_line_inside [OF assms(3,2), of x] show ?thesis by auto
qed

lemma paragraphs_chunk:
  assumes "no_blank_line u" and "u \<noteq> []" and "\<not> is_space (last u)"
  shows "paragraphs u = [u]"
  using assms
proof (induction u)
  case (Cons c u)
  show ?case
  proof (cases "u = []")
    case True
    with Cons.prems newline_space show ?thesis by (auto simp: blank_line_def)
  next
    case False
    with Cons have "paragraphs u = [u]" using no_blank_line_sub [of "[c]" u "[]"] by auto
    moreover have "\<not> is_space (last u)" using False Cons.prems(3) by simp
    then have "(if c = newline then blank_line u else None) = None"
      using no_gap_within [OF Cons.prems(1) False, of "[]", unfolded append_Nil2] by blast
    ultimately show ?thesis by (simp only: paragraphs.simps option.case list.case)
  qed
qed simp

lemma blank_line_before:
  assumes "rest \<noteq> []" and "\<not> is_space (hd rest)"
  shows "blank_line (newline # rest) = Some rest"
  using assms newline_space by (cases rest) (auto simp: blank_line_def)

lemma paragraphs_join:
  assumes "no_blank_line u" and "u \<noteq> []" and "\<not> is_space (last u)" and "rest \<noteq> []" and "\<not> is_space (hd rest)"
  shows "paragraphs (u @ newline # newline # rest) = u # paragraphs rest"
  using assms(1-3)
proof (induction u)
  case (Cons c u)
  show ?case
  proof (cases "u = []")
    case True
    with Cons.prems newline_space have "c \<noteq> newline" by auto
    with True assms(4,5) show ?thesis by (simp add: blank_line_before)
  next
    case False
    with Cons have "paragraphs (u @ newline # newline # rest) = u # paragraphs rest"
      using no_blank_line_sub [of "[c]" u "[]"] by auto
    moreover have "\<not> is_space (last u)" using False Cons.prems(3) by simp
    then have "(if c = newline then blank_line (u @ newline # newline # rest) else None) = None"
      by (rule no_gap_within [OF Cons.prems(1) False])
    ultimately show ?thesis by simp
  qed
qed simp

lemma paragraphs_joined:
  "cs \<noteq> [] \<Longrightarrow> \<forall>c \<in> set cs. chunk_ok c \<Longrightarrow> paragraphs (js_join [newline, newline] cs) = cs"
proof (induction cs rule: induct_list012)
  case (2 c)
  then show ?case using paragraphs_chunk [of c] trim_ends [of c] by (auto simp: chunk_ok_def)
next
  case (3 c d cs)
  have rest: "js_join [newline, newline] (d # cs) \<noteq> []" "hd (js_join [newline, newline] (d # cs)) = hd d"
    using 3(4) by (cases cs; auto simp: chunk_ok_def)+
  have "paragraphs (c @ newline # newline # js_join [newline, newline] (d # cs)) = c # paragraphs (js_join [newline, newline] (d # cs))"
    using 3(4) trim_ends [of c] trim_ends [of d] rest by (intro paragraphs_join) (auto simp: chunk_ok_def)
  with 3 show ?case by simp
qed simp

lemma toText_paragraphs: "toText (map paragraph_block cs) = js_join [newline, newline] cs"
  by (simp add: toText_def paragraph_block_def o_def)

lemma blocks_of_chunks: "\<forall>c \<in> set cs. chunk_ok c \<Longrightarrow> toBlocks (toText (map paragraph_block cs)) = map paragraph_block cs"
proof (cases "cs = []")
  case True
  then show ?thesis by (simp add: toText_def toBlocks_def js_trim_def trim_start_def)
next
  case False
  assume ok: "\<forall>c \<in> set cs. chunk_ok c"
  then have "map js_trim cs = cs" "filter (\<lambda>c. c \<noteq> []) cs = cs" by (auto simp: chunk_ok_def intro!: map_idI)
  with paragraphs_joined [OF False ok] show ?thesis by (simp add: toText_paragraphs toBlocks_def)
qed

lemma js_trim_twice: "js_trim (js_trim s) = js_trim s"
proof (cases "js_trim s = []")
  case False
  with js_trim_ends [of s] show ?thesis by (intro js_trim_id) auto
next
  case True
  then show ?thesis by (simp only: True) (simp add: js_trim_def trim_start_def)
qed

lemma toBlocks_chunks:
  obtains cs where "toBlocks t = map paragraph_block cs" "\<forall>c \<in> set cs. chunk_ok c"
proof
  let ?cs = "filter (\<lambda>c. c \<noteq> []) (map js_trim (paragraphs t))"
  show "toBlocks t = map paragraph_block ?cs" by (simp add: toBlocks_def)
  show "\<forall>c \<in> set ?cs. chunk_ok c"
  proof
    fix c assume "c \<in> set ?cs"
    then obtain p where p: "p \<in> set (paragraphs t)" "c = js_trim p" "c \<noteq> []" by auto
    moreover obtain x y where "p = x @ js_trim p @ y" using js_trim_sub by blast
    with paragraphs_no_blank [OF p(1)] have "no_blank_line (js_trim p)" by (metis no_blank_line_sub)
    ultimately show "chunk_ok c" by (simp add: chunk_ok_def js_trim_twice)
  qed
qed

text \<open>What an author wrote comes back as written: opening a passage made in this editor and saving it
  untouched stores the same blocks again, and the paragraphs of the text are exactly the blocks.\<close>

theorem passage_text_roundtrip:
  "toBlocks (toText (toBlocks t)) = toBlocks t \<and>
   paragraphs (toText (toBlocks t)) = (if toBlocks t = [] then [[]] else map (\<lambda>b. toText [b]) (toBlocks t))"
proof -
  obtain cs where cs: "toBlocks t = map paragraph_block cs" "\<forall>c \<in> set cs. chunk_ok c" by (rule toBlocks_chunks)
  have "paragraphs (toText (map paragraph_block cs)) = (if cs = [] then [[]] else cs)"
    using paragraphs_joined [OF _ cs(2)] unfolding toText_paragraphs by (cases "cs = []") simp_all
  moreover have "map (\<lambda>c. toText [paragraph_block c]) cs = cs" by (simp add: toText_def paragraph_block_def)
  ultimately show ?thesis by (simp only: cs(1) blocks_of_chunks [OF cs(2)] map_map o_def map_is_Nil_conv)
qed

text \<open>
  A block made elsewhere does not survive the editor: every run comes back as text without its
  reference, so a gap anchored in the passage is gone after a save.
\<close>

lemma gaps_lost: "b \<in> set (toBlocks (toText blocks)) \<Longrightarrow> r \<in> set (nullish (bk_runs b) []) \<Longrightarrow> tr_ref r = None \<and> tr_type r = ''text''"
  by (auto simp: toBlocks_def paragraph_block_def)

lemma gap_is_dropped:
  "toBlocks (toText [\<lparr>bk_type = ''paragraph'', bk_runs = Some
       [\<lparr>tr_type = ''text'', tr_v = Some ''made of '', tr_ref = None\<rparr>,
        \<lparr>tr_type = ''blank'', tr_v = None, tr_ref = Some ''q1:s1''\<rparr>]\<rparr>]) =
     [paragraph_block ''made of'']"
  by code_simp

text \<open>
  Two authors. What a save leaves is the saver's text alone, whatever the others saved since the form
  was filled; and the labels and the count are those of the new blocks.
\<close>

lemma update_passage_both:
  "update_passage (Some t, Some bs) pc =
     pc\<lparr>pc_title := t, pc_blocks := bs, pc_labels := letters (label_count bs), pc_words := count_words bs\<rparr>"
  by (simp add: update_passage_def)

lemma edits_by_snoc:
  "edits_by_others put (es @ [(tag, b)]) v = snd (patch_version put tag b (edits_by_others put es v))"
  by (induction put es v rule: edits_by_others.induct) simp_all

lemma save_accepted:
  assumes "dv_status v \<noteq> ''published''" and "CHR '','' \<notin> set (dv_checksum v)"
  shows "version_edit (served_version put id) b v = (None, v\<lparr>dv_content := put b (dv_content v)\<rparr>)"
proof -
  have "truthy_str (Some (version_etag v))" by (simp add: version_etag_def)
  with accepted_patch [OF assms, of put b] show ?thesis by (simp add: version_edit_def served_version_def)
qed

text \<open>
  An author fills the edit form from a draft; others then save that draft any number of times; the
  author saves. The screen closes the form without an error, and the stored passage has the title and
  the blocks of the form alone: nothing of what the others saved is left, and nobody is told.\<close>

theorem second_author_erases_first:
  assumes draft: "dv_status v = ''draft''" "dv_checksum v = []"
  shows "let p1 = p\<lparr>pp_editTitle := t, pp_editBody := body\<rparr>;
             saved = edits_by_others update_passage others v
         in case save_passage (served_version update_passage id) p1 saved of (p2, stored) \<Rightarrow>
              pp_editing p2 = False \<and> pp_error p2 = pp_error p \<and>
              dv_content stored =
                \<lparr>pc_title = js_trim t, pc_blocks = toBlocks body, pc_labels = letters (length (toBlocks body)),
                 pc_words = count_words (toBlocks body)\<rparr>"
proof -
  define saved where "saved = edits_by_others update_passage others v"
  have ok: "dv_status saved \<noteq> ''published''" "CHR '','' \<notin> set (dv_checksum saved)"
    using draft by (simp_all add: saved_def edits_keep)
  have "label_count (toBlocks body) = length (toBlocks body)"
    by (simp add: label_count_def toBlocks_def paragraph_block_def filter_map o_def)
  then show ?thesis
    unfolding saved_def [symmetric] Let_def
    by (simp add: save_passage_def save_accepted [OF ok] edit_body_def update_passage_both)
qed

theorem second_author_erases_first_witness:
  "(case save_passage (served_version update_passage id)
        (start_edit (Some ''Glass'') (Some (toBlocks ''Old text.''))
           \<lparr>pp_title = [], pp_body = [], pp_claim = None, pp_open = Some (''p1'', ''v1''), pp_editing = False,
            pp_editTitle = [], pp_editBody = [], pp_error = None\<rparr>)
        (edits_by_others update_passage [(Some ''\"1-\"'', (Some ''Glass'', Some (toBlocks ''An afternoon of work.'')))]
           (create_passage ''Glass'' (toBlocks ''Old text.''))) of
      (p2, stored) \<Rightarrow> pp_error p2 = None \<and> toText (pc_blocks (dv_content stored)) = ''Old text.'')"
  using second_author_erases_first
    [where v = "create_passage ''Glass'' (toBlocks ''Old text.'')"
      and p = "start_edit (Some ''Glass'') (Some (toBlocks ''Old text.''))
         \<lparr>pp_title = [], pp_body = [], pp_claim = None, pp_open = Some (''p1'', ''v1''), pp_editing = False,
          pp_editTitle = [], pp_editBody = [], pp_error = None\<rparr>" and t = "''Glass''" and body = "''Old text.''"
      and others = "[(Some ''\"1-\"'', (Some ''Glass'', Some (toBlocks ''An afternoon of work.'')))]"]
  by code_simp

lemma claim_message_lost:
  "pp_claim p = None \<Longrightarrow> pp_error (submit_create send p) = Some ''Something went wrong.''"
proof -
  have "shown_failure (JsError m) = ''Something went wrong.''" for m
    by (simp add: shown_failure_def problemText_def as_problem_def coalesce_def)
  then show "pp_claim p = None \<Longrightarrow> pp_error (submit_create send p) = Some ''Something went wrong.''"
    by (simp add: submit_create_def create_body_def created_def)
qed

end
