(* ===== verification/Registry.thy ===== *)
theory Registry
  imports Json Problems "HOL-Library.List_Lexorder" "HOL-Library.Char_ord"
begin

text \<open>
  The question-type registry of the console: \<open>web/src/features/registry/definition.ts\<close> and the gate of
  \<open>QuestionTypes.tsx\<close> between checking a definition and registering it, over the two endpoints of
  \<open>app/api/routers/platform_ops.py\<close>.

  The language's number printing is the function \<open>numText\<close>, which prints different numbers differently
  and with no character but those of a number (the locale \<open>number_text\<close>); \<open>JSON.parse\<close> is \<open>parse\<close>, whose
  message differs between engines.
\<close>

subsection \<open>Printing JSON\<close>

definition hex_digit :: "nat \<Rightarrow> char" where
  "hex_digit n = ''0123456789abcdef'' ! (n mod 16)"

text \<open>The characters with an escape of their own, by code; the other control characters are numbered.\<close>

definition ESCAPES :: "(nat \<times> char) list" where
  "ESCAPES = [(34, CHR ''\"''), (92, CHR 0x5C), (8, CHR ''b''), (9, CHR ''t''), (10, CHR ''n''), (12, CHR ''f''), (13, CHR ''r'')]"

definition escaped :: "char \<Rightarrow> string" where
  "escaped c =
     (let n = (of_char c :: nat) in
      case map_of ESCAPES n of
        Some x \<Rightarrow> [CHR 0x5C, x]
      | None \<Rightarrow> if n < 32 then [CHR 0x5C, CHR ''u'', CHR ''0'', CHR ''0'', hex_digit (n div 16), hex_digit n] else [c])"

definition quoted :: "string \<Rightarrow> string" where
  "quoted s = CHR ''\"'' # concat (map escaped s) @ ''\"''"

text \<open>\<open>JSON.stringify\<close> without spacing.\<close>

fun stringify :: "(real \<Rightarrow> string) \<Rightarrow> json \<Rightarrow> string" where
  "stringify numText JNull = ''null''"
| "stringify numText (JBool b) = (if b then ''true'' else ''false'')"
| "stringify numText (JNum r) = numText r"
| "stringify numText (JStr s) = quoted s"
| "stringify numText (JArr xs) = ''['' @ js_join '','' (map (stringify numText) xs) @ '']''"
| "stringify numText (JObj fs) =
     ''{'' @ js_join '','' (map (\<lambda>(k, v). quoted k @ '':'' @ stringify numText v) fs) @ ''}''"

subsection \<open>The canonical form\<close>

text \<open>
  An own property is put last unless the key is there; assigning \<open>__proto__\<close> sets the prototype, which
  is no own property. Reading back, keys that are array indices come first, in numeric order.
\<close>

definition PROTO :: string where
  "PROTO = ''__proto__''"

definition set_own :: "string \<times> json \<Rightarrow> (string \<times> json) list \<Rightarrow> (string \<times> json) list" where
  "set_own p out = (if fst p = PROTO then out else jsmap_set (fst p) (snd p) out)"

definition is_index :: "string \<Rightarrow> bool" where
  "is_index k \<longleftrightarrow> k = show_nat (read_nat k) \<and> read_nat k < 2 ^ 32 - 1"

definition own_order :: "(string \<times> json) list \<Rightarrow> (string \<times> json) list" where
  "own_order fs = sort_key (\<lambda>p. read_nat (fst p)) (filter (\<lambda>p. is_index (fst p)) fs) @ filter (\<lambda>p. \<not> is_index (fst p)) fs"

text \<open>\<open>sorted\<close>; \<open>Object.keys(source).sort()\<close> orders by code units.\<close>

fun sorted_json :: "json \<Rightarrow> json" where
  "sorted_json (JArr xs) = JArr (map sorted_json xs)"
| "sorted_json (JObj fs) =
     JObj (own_order (fold set_own (sort_key fst (map (\<lambda>(k, v). (k, sorted_json v)) fs)) []))"
| "sorted_json v = v"

definition canonical :: "(real \<Rightarrow> string) \<Rightarrow> json \<Rightarrow> string" where
  "canonical numText v = stringify numText (sorted_json v)"

datatype parsed =
    ParsedOk json string
  | ParseFailed string

definition parseDefinition :: "(string \<Rightarrow> string + json) \<Rightarrow> (real \<Rightarrow> string) \<Rightarrow> string \<Rightarrow> parsed" where
  "parseDefinition parse numText t =
     (if js_trim t = [] then ParseFailed ''Paste a definition first.''
      else case parse t of
        Inl m \<Rightarrow> ParseFailed (''Not valid JSON. '' @ m)
      | Inr v \<Rightarrow>
          (case v of
             JObj _ \<Rightarrow> ParsedOk v (canonical numText v)
           | _ \<Rightarrow> ParseFailed ''A definition is a JSON object, not a list or a bare value.''))"

subsection \<open>What the definition asks for\<close>

definition PRIMITIVES :: "string list" where
  "PRIMITIVES = [''choice_per_slot'', ''text_per_slot'', ''set_selection'']"

definition unknownPrimitive :: "json \<Rightarrow> string option" where
  "unknownPrimitive value =
     (case field ''scoring'' value of
        Some (JObj scoring) \<Rightarrow>
          (case field ''primitive'' (JObj scoring) of
             Some (JStr primitive) \<Rightarrow>
               if primitive = [] \<or> primitive \<in> set PRIMITIVES then None else Some primitive
           | _ \<Rightarrow> None)
      | _ \<Rightarrow> None)"

definition version_number :: "json option \<Rightarrow> int option" where
  "version_number version =
     (case version of
        Some (JNum r) \<Rightarrow> if of_int \<lfloor>r\<rfloor> = r then Some \<lfloor>r\<rfloor> else None
      | Some (JStr s) \<Rightarrow> if js_trim s \<noteq> [] \<and> list_all is_digit (js_trim s) then Some (int (read_nat (js_trim s))) else None
      | _ \<Rightarrow> None)"

definition definitionRef :: "json \<Rightarrow> string option" where
  "definitionRef value =
     (case field ''key'' value of
        Some (JStr key) \<Rightarrow>
          if js_trim key = [] then None
          else map_option (\<lambda>n. key @ ''@v'' @ show_int n) (version_number (field ''version'' value))
      | _ \<Rightarrow> None)"

subsection \<open>The screen\<close>

text \<open>
  The report of a check; the endpoint's answers are what the server makes of the document sent. \<open>sent\<close>
  are the checks under way, each with the canonical form of the text it was started on, and the
  registrations under way.
\<close>

record check_report =
  cr_passed :: bool
  cr_findings :: "string list"

record types_page =
  tp_opened :: "(string \<times> int) option"
  tp_text :: string
  tp_cleared :: "string option"
  tp_understood :: bool
  tp_registered :: "string option"
  tp_error :: "string option"
  tp_report :: "check_report option"
  tp_checking :: "(json \<times> string) option"
  tp_registering :: "json option"

definition shown_error :: "failure \<Rightarrow> string" where
  "shown_error f =
     (let t = problemText (as_problem f) in
      if t \<noteq> [] then t else case f of JsError m \<Rightarrow> ''Error: '' @ m | ApiProblem _ \<Rightarrow> ''[object Object]'')"

text \<open>The definition on screen is the one that was checked.\<close>

definition current :: "(string \<Rightarrow> string + json) \<Rightarrow> (real \<Rightarrow> string) \<Rightarrow> types_page \<Rightarrow> bool" where
  "current parse numText p =
     (case parseDefinition parse numText (tp_text p) of
        ParsedOk _ c \<Rightarrow> tp_cleared p = Some c
      | ParseFailed _ \<Rightarrow> False)"

definition edit_text :: "string \<Rightarrow> types_page \<Rightarrow> types_page" where
  "edit_text t p = p\<lparr>tp_text := t, tp_registered := None\<rparr>"

definition copy_into_editor :: "string \<Rightarrow> types_page \<Rightarrow> types_page" where
  "copy_into_editor t p =
     p\<lparr>tp_text := t, tp_cleared := None, tp_understood := False, tp_registered := None, tp_error := None\<rparr>"

definition toggle_type :: "string \<times> int \<Rightarrow> types_page \<Rightarrow> types_page" where
  "toggle_type t p = p\<lparr>tp_opened := (if tp_opened p = Some t then None else Some t)\<rparr>"

definition set_understood :: "(string \<Rightarrow> string + json) \<Rightarrow> (real \<Rightarrow> string) \<Rightarrow> bool \<Rightarrow> types_page \<Rightarrow> types_page" where
  "set_understood parse numText b p = (if current parse numText p then p\<lparr>tp_understood := b\<rparr> else p)"

text \<open>The button is off while a check is under way and for a text that does not parse.\<close>

definition press_check :: "(string \<Rightarrow> string + json) \<Rightarrow> (real \<Rightarrow> string) \<Rightarrow> types_page \<Rightarrow> types_page" where
  "press_check parse numText p =
     (if tp_checking p \<noteq> None then p
      else case parseDefinition parse numText (tp_text p) of
        ParsedOk v c \<Rightarrow> p\<lparr>tp_error := None, tp_report := None, tp_checking := Some (v, c)\<rparr>
      | ParseFailed _ \<Rightarrow> p)"

definition check_answered :: "(json \<Rightarrow> failure + check_report) \<Rightarrow> types_page \<Rightarrow> types_page" where
  "check_answered validate p =
     (case tp_checking p of
        None \<Rightarrow> p
      | Some (v, c) \<Rightarrow>
          (case validate v of
             Inr report \<Rightarrow>
               p\<lparr>tp_checking := None, tp_error := None, tp_report := Some report,
                 tp_cleared := (if cr_passed report then Some c else None), tp_understood := False\<rparr>
           | Inl f \<Rightarrow> p\<lparr>tp_checking := None, tp_cleared := None, tp_error := Some (shown_error f)\<rparr>))"

definition press_register :: "(string \<Rightarrow> string + json) \<Rightarrow> (real \<Rightarrow> string) \<Rightarrow> types_page \<Rightarrow> types_page" where
  "press_register parse numText p =
     (if tp_registering p \<noteq> None \<or> \<not> current parse numText p \<or> \<not> tp_understood p then p
      else case parseDefinition parse numText (tp_text p) of
        ParsedOk v _ \<Rightarrow> p\<lparr>tp_error := None, tp_registering := Some v\<rparr>
      | ParseFailed _ \<Rightarrow> p)"

definition register_answered :: "(json \<Rightarrow> failure + string) \<Rightarrow> types_page \<Rightarrow> types_page" where
  "register_answered register p =
     (case tp_registering p of
        None \<Rightarrow> p
      | Some v \<Rightarrow>
          (case register v of
             Inr ref \<Rightarrow> p\<lparr>tp_registering := None, tp_error := None, tp_registered := Some ref, tp_cleared := None, tp_understood := False\<rparr>
           | Inl f \<Rightarrow> p\<lparr>tp_registering := None, tp_error := Some (shown_error f)\<rparr>))"

subsection \<open>The canonical form tells definitions apart\<close>

definition number_char :: "char \<Rightarrow> bool" where
  "number_char c \<longleftrightarrow> is_digit c \<or> c \<in> set ''+-.e''"

text \<open>What the printing of numbers has to promise, on the numbers that occur.\<close>

locale number_text =
  fixes numbers :: "real set" and numText :: "real \<Rightarrow> string"
  assumes number_inj: "inj_on numText numbers"
    and number_some: "r \<in> numbers \<Longrightarrow> numText r \<noteq> []"
    and number_chars: "r \<in> numbers \<Longrightarrow> list_all number_char (numText r)"

fun numbers_of :: "json \<Rightarrow> real set" where
  "numbers_of (JNum r) = {r}"
| "numbers_of (JArr xs) = (\<Union>x \<in> set xs. numbers_of x)"
| "numbers_of (JObj fs) = (\<Union>p \<in> set fs. numbers_of (snd p))"
| "numbers_of v = {}"

text \<open>Text that cannot go on with a number.\<close>

definition stops :: "string \<Rightarrow> bool" where
  "stops r \<longleftrightarrow> r = [] \<or> \<not> number_char (hd r)"

lemma escapes_facts:
  assumes "map_of ESCAPES n = Some x"
  shows "(n, x) \<in> set ESCAPES" and "x \<noteq> CHR ''u''" and "n < 256"
proof -
  show m: "(n, x) \<in> set ESCAPES" using assms by (rule map_of_SomeD)
  show "x \<noteq> CHR ''u''" "n < 256" using m by (auto simp: ESCAPES_def)
qed

lemma escapes_inj: "(m, x) \<in> set ESCAPES \<Longrightarrow> (n, x) \<in> set ESCAPES \<Longrightarrow> m = n"
  by (auto simp: ESCAPES_def)

lemma escaped_cases:
  obtains (Table) x where "map_of ESCAPES (of_char c) = Some x" "escaped c = [CHR 0x5C, x]"
    | (Control) "(of_char c :: nat) < 32"
        "escaped c = [CHR 0x5C, CHR ''u'', CHR ''0'', CHR ''0'', hex_digit (of_char c div 16), hex_digit (of_char c)]"
    | (Plain) "escaped c = [c]" "c \<noteq> CHR 0x5C" "c \<noteq> CHR ''\"''"
proof (cases "map_of ESCAPES (of_char c :: nat)")
  case None
  then have "c \<noteq> CHR 0x5C" "c \<noteq> CHR ''\"''" by (auto simp: ESCAPES_def)
  with None Control Plain show ?thesis by (cases "(of_char c :: nat) < 32") (simp_all add: escaped_def Let_def)
qed (use Table in \<open>simp add: escaped_def\<close>)

lemma escaped_nonempty: "escaped c \<noteq> []" "hd (escaped c) \<noteq> CHR ''\"''"
  by (cases c rule: escaped_cases; simp)+

lemma hex_digit_inj: "m < 16 \<Longrightarrow> n < 16 \<Longrightarrow> hex_digit m = hex_digit n \<Longrightarrow> m = n"
proof -
  have "distinct ''0123456789abcdef''" by simp
  then show "m < 16 \<Longrightarrow> n < 16 \<Longrightarrow> hex_digit m = hex_digit n \<Longrightarrow> m = n"
    unfolding hex_digit_def by (simp only: mod_less) (simp add: nth_eq_iff_index_eq del: distinct.simps)
qed

lemma control_inj:
  assumes "(m :: nat) < 32" "n < 32" "hex_digit (m div 16) = hex_digit (n div 16)" "hex_digit m = hex_digit n"
  shows "m = n"
proof -
  have "m div 16 = n div 16" using assms(1-3) by (intro hex_digit_inj) auto
  moreover have "hex_digit (m mod 16) = hex_digit (n mod 16)" using assms(4) by (simp only: hex_digit_def mod_mod_trivial)
  then have "m mod 16 = n mod 16" by (intro hex_digit_inj) auto
  ultimately show ?thesis by (metis div_mult_mod_eq)
qed

lemma escaped_prefix:
  assumes eq: "escaped c @ r = escaped d @ s"
  shows "c = d \<and> r = s"
proof (cases c rule: escaped_cases)
  case (Table x)
  note c = Table
  show ?thesis
  proof (cases d rule: escaped_cases)
    case (Table y)
    with c eq have "x = y" "r = s" by auto
    with escapes_inj [OF escapes_facts(1) [OF c(1)]] escapes_facts(1) [OF Table(1)]
    have "(of_char c :: nat) = of_char d" by blast
    with \<open>r = s\<close> show ?thesis by simp
  qed (use c eq escapes_facts(2) [OF c(1)] in auto)
next
  case Control
  note c = Control
  show ?thesis
  proof (cases d rule: escaped_cases)
    case (Table y)
    with c eq escapes_facts(2) [OF Table(1)] show ?thesis by auto
  next
    case Control
    with c eq have "(of_char c :: nat) = of_char d" by (intro control_inj) auto
    with Control c eq show ?thesis by simp
  qed (use c eq in auto)
next
  case Plain
  note c = Plain
  show ?thesis by (cases d rule: escaped_cases) (use c eq in auto)
qed

lemma quoted_prefix: "concat (map escaped k) @ CHR ''\"'' # r = concat (map escaped l) @ CHR ''\"'' # s \<Longrightarrow> k = l \<and> r = s"
proof (induction k arbitrary: l)
  case Nil
  then show ?case
  proof (cases l)
    case (Cons d l')
    with Nil escaped_nonempty [of d] show ?thesis by (cases "escaped d") auto
  qed simp
next
  case (Cons c k)
  show ?case
  proof (cases l)
    case Nil
    with Cons.prems escaped_nonempty [of c] show ?thesis by (cases "escaped c") auto
  next
    case (Cons d l')
    with Cons.prems have "c = d" "concat (map escaped k) @ CHR ''\"'' # r = concat (map escaped l') @ CHR ''\"'' # s"
      using escaped_prefix [of c "concat (map escaped k) @ CHR ''\"'' # r" d "concat (map escaped l') @ CHR ''\"'' # s"] by auto
    with Cons.IH [of l'] Cons show ?thesis by simp
  qed
qed

lemma join_prefix:
  assumes step: "\<And>x y r s. x \<in> set xs \<Longrightarrow> y \<in> set ys \<Longrightarrow> f x @ r = f y @ s \<Longrightarrow> stops r \<Longrightarrow> stops s \<Longrightarrow> x = y \<and> r = s"
    and opens: "\<And>x. x \<in> set xs \<union> set ys \<Longrightarrow> f x \<noteq> [] \<and> hd (f x) \<noteq> c"
    and c: "\<not> number_char c" "c \<noteq> CHR '',''"
    and eq: "js_join '','' (map f xs) @ c # r = js_join '','' (map f ys) @ c # s"
  shows "xs = ys \<and> r = s"
  using step opens eq
proof (induction xs arbitrary: ys)
  case Nil
  show ?case
  proof (cases ys)
    case (Cons y ys')
    with Nil.prems(2) [of y] have y: "f y \<noteq> []" "hd (f y) \<noteq> c" by auto
    have "hd (js_join '','' (map f ys) @ c # s) = hd (f y)" using y(1) Cons by (cases ys') auto
    with Nil.prems(3) y(2) show ?thesis by (metis append_Nil js_join.simps(1) list.sel(1) list.simps(8))
  qed (use Nil in simp)
next
  case (Cons x xs)
  show ?case
  proof (cases ys)
    case Nil
    with Cons.prems(2) [of x] have x: "f x \<noteq> []" "hd (f x) \<noteq> c" by auto
    have "hd (js_join '','' (map f (x # xs)) @ c # r) = hd (f x)" using x(1) by (cases xs) auto
    with Cons.prems(3) x(2) Nil show ?thesis by (metis append_Nil js_join.simps(1) list.sel(1) list.simps(8))
  next
    case (Cons y ys')
    define tail where "tail zs q = (if zs = [] then c # q else CHR '','' # js_join '','' (map f zs) @ c # q)" for zs q
    have split: "js_join '','' (map f (z # zs)) @ c # q = f z @ tail zs q" for z zs q
      by (cases zs) (simp_all add: tail_def)
    have stop: "stops (tail zs q)" for zs q
      using c(1) by (simp add: tail_def stops_def number_char_def is_digit_def)
    have "f x @ tail xs r = f y @ tail ys' s" using Cons.prems(3) unfolding Cons split .
    then have xy: "x = y" "tail xs r = tail ys' s"
      using Cons.prems(1) [of x y "tail xs r" "tail ys' s"] stop Cons by auto
    have "js_join '','' (map f xs) @ c # r = js_join '','' (map f ys') @ c # s"
      using xy(2) c(2) by (auto simp: tail_def split: if_splits)
    then have "xs = ys' \<and> r = s"
      using Cons.prems(1,2) Cons by (intro Cons.IH) auto
    with xy(1) Cons show ?thesis by simp
  qed
qed

text \<open>The character a value starts with tells its kind.\<close>

definition opener :: "(real \<Rightarrow> string) \<Rightarrow> json \<Rightarrow> char" where
  "opener numText v =
     (case v of JNull \<Rightarrow> CHR ''n'' | JBool b \<Rightarrow> if b then CHR ''t'' else CHR ''f'' | JNum r \<Rightarrow> hd (numText r)
      | JStr _ \<Rightarrow> CHR ''\"'' | JArr _ \<Rightarrow> CHR ''['' | JObj _ \<Rightarrow> CHR ''{'')"

lemma no_number_char:
  "\<not> number_char (CHR ''n'')" "\<not> number_char (CHR ''t'')" "\<not> number_char (CHR ''f'')" "\<not> number_char (CHR ''\"'')"
  "\<not> number_char (CHR ''['')" "\<not> number_char (CHR ''{'')" "\<not> number_char (CHR '']'')" "\<not> number_char (CHR ''}'')"
  by (simp_all add: number_char_def is_digit_def)

context number_text
begin

lemma number_starts: "r \<in> numbers \<Longrightarrow> number_char (hd (numText r))"
  using number_some [of r] number_chars [of r] by (cases "numText r") auto

lemma stringify_starts:
  assumes "numbers_of v \<subseteq> numbers"
  shows "stringify numText v \<noteq> []" and "hd (stringify numText v) = opener numText v"
  using assms number_some by (cases v; simp add: quoted_def opener_def)+

lemma opener_not_closer:
  assumes "numbers_of v \<subseteq> numbers"
  shows "opener numText v \<noteq> CHR '']''" and "opener numText v \<noteq> CHR ''}''"
proof -
  have "number_char (hd (numText r))" if "v = JNum r" for r using number_starts assms that by simp
  then show "opener numText v \<noteq> CHR '']''" "opener numText v \<noteq> CHR ''}''"
    using no_number_char(7,8) by (cases v; auto simp: opener_def)+
qed

lemma same_kind:
  assumes "opener numText v = opener numText w" and "numbers_of v \<subseteq> numbers" and "numbers_of w \<subseteq> numbers"
  shows "case v of JNull \<Rightarrow> w = JNull | JBool b \<Rightarrow> w = JBool b | JNum _ \<Rightarrow> \<exists>q. w = JNum q
    | JStr _ \<Rightarrow> \<exists>s. w = JStr s | JArr _ \<Rightarrow> \<exists>ys. w = JArr ys | JObj _ \<Rightarrow> \<exists>gs. w = JObj gs"
proof -
  have num: "number_char (opener numText z) \<longleftrightarrow> (\<exists>q. z = JNum q)" if "numbers_of z \<subseteq> numbers" for z
    using that number_starts no_number_char by (cases z) (simp_all add: opener_def)
  show ?thesis
  proof (cases "\<exists>q. v = JNum q")
    case True
    with num [OF assms(2)] num [OF assms(3)] assms(1) show ?thesis by auto
  next
    case False
    then have "\<not> (\<exists>q. w = JNum q)" using num [OF assms(2)] num [OF assms(3)] assms(1) by simp
    with False assms(1) show ?thesis
      by (cases v; cases w; simp add: opener_def split: if_splits)
  qed
qed

lemma same_opener:
  assumes "stringify numText v @ u = stringify numText w @ u'" and "numbers_of v \<subseteq> numbers" and "numbers_of w \<subseteq> numbers"
  shows "opener numText v = opener numText w"
  using arg_cong [OF assms(1), of hd] stringify_starts [OF assms(2)] stringify_starts [OF assms(3)] by simp

lemma number_prefix:
  assumes "numText r @ u = numText r' @ u'" "r \<in> numbers" "r' \<in> numbers" "stops u" "stops u'"
  shows "r = r' \<and> u = u'"
proof -
  have whole: "takeWhile number_char (numText q @ w) = numText q" if "q \<in> numbers" "stops w" for q w
    using number_chars [OF that(1)] that(2) by (cases w) (auto simp: stops_def list_all_iff takeWhile_append)
  from whole [OF assms(2,4)] whole [OF assms(3,5)] assms(1) have "numText r = numText r'" by simp
  with assms number_inj show ?thesis by (auto dest: inj_onD)
qed

lemma stringify_prefix:
  "stringify numText v @ u = stringify numText w @ u' \<Longrightarrow> stops u \<Longrightarrow> stops u' \<Longrightarrow>
     numbers_of v \<subseteq> numbers \<Longrightarrow> numbers_of w \<subseteq> numbers \<Longrightarrow> v = w \<and> u = u'"
proof (induction v arbitrary: w u u')
  case (JNum r)
  then obtain q where "w = JNum q" using same_kind [OF same_opener, of "JNum r" u w u'] by auto
  with JNum number_prefix [of r u q u'] show ?case by auto
next
  case (JStr s)
  then obtain q where "w = JStr q" using same_kind [OF same_opener, of "JStr s" u w u'] by auto
  with JStr quoted_prefix [of s u q u'] show ?case by (auto simp: quoted_def)
next
  case (JArr xs)
  then obtain ys where w: "w = JArr ys" using same_kind [OF same_opener, of "JArr xs" u w u'] by auto
  have "xs = ys \<and> u = u'"
  proof (rule join_prefix [where f = "stringify numText" and c = "CHR '']''"])
    show "js_join '','' (map (stringify numText) xs) @ CHR '']'' # u = js_join '','' (map (stringify numText) ys) @ CHR '']'' # u'"
      using JArr.prems(1) w by simp
    show "stringify numText x \<noteq> [] \<and> hd (stringify numText x) \<noteq> CHR '']''" if "x \<in> set xs \<union> set ys" for x
    proof -
      have "numbers_of x \<subseteq> numbers" using that JArr.prems(4,5) w by auto
      then show ?thesis using stringify_starts [of x] opener_not_closer [of x] by simp
    qed
    show "x = y \<and> r = s" if "x \<in> set xs" "y \<in> set ys" "stringify numText x @ r = stringify numText y @ s" "stops r" "stops s" for x y r s
      using that(2) JArr.prems(4,5) w that(1) by (intro JArr.IH [OF that(1,3,4,5)]) auto
  qed (simp_all add: no_number_char)
  with w show ?case by simp
next
  case (JObj fs)
  let ?f = "\<lambda>(k, v). quoted k @ '':'' @ stringify numText v"
  obtain gs where w: "w = JObj gs" using same_kind [OF same_opener, of "JObj fs" u w u'] JObj.prems by auto
  have "fs = gs \<and> u = u'"
  proof (rule join_prefix [where f = ?f and c = "CHR ''}''"])
    show "js_join '','' (map ?f fs) @ CHR ''}'' # u = js_join '','' (map ?f gs) @ CHR ''}'' # u'"
      using JObj.prems(1) w by simp
    show "?f p \<noteq> [] \<and> hd (?f p) \<noteq> CHR ''}''" for p
      by (cases p) (simp add: quoted_def)
    show "p = q \<and> r = s" if pq: "p \<in> set fs" "q \<in> set gs" "?f p @ r = ?f q @ s" "stops r" "stops s" for p q r s
    proof -
      obtain k v l z where k: "p = (k, v)" "q = (l, z)" by (cases p; cases q)
      with pq(3) have kl: "k = l \<and> CHR '':'' # stringify numText v @ r = CHR '':'' # stringify numText z @ s"
        by (intro quoted_prefix) (simp add: quoted_def)
      have "numbers_of (snd p) \<subseteq> numbers"
        using JObj.prems(4) pq(1) by (simp only: numbers_of.simps UN_subset_iff)
      moreover have "numbers_of (snd q) \<subseteq> numbers"
        using JObj.prems(5) w pq(2) by (simp only: numbers_of.simps UN_subset_iff)
      ultimately have num: "numbers_of v \<subseteq> numbers" "numbers_of z \<subseteq> numbers" using k by simp_all
      have "v \<in> Basic_BNFs.snds p" using k by (simp add: snds.simps)
      from JObj.IH [OF pq(1) this, of r z s] kl num pq(4,5) k show ?thesis by auto
    qed
  qed (simp_all add: no_number_char)
  with w show ?case by simp
next
  case JNull
  then have "w = JNull" using same_kind [OF same_opener, of JNull u w u'] by auto
  with JNull show ?case by simp
next
  case (JBool b)
  then have "w = JBool b" using same_kind [OF same_opener, of "JBool b" u w u'] by auto
  with JBool show ?case by simp
qed

end

text \<open>
  What two documents have in common when only the order of keys tells them apart; \<open>__proto__\<close> members
  are outside the comparison.
\<close>

inductive same_value :: "json \<Rightarrow> json \<Rightarrow> bool" where
  "same_value JNull JNull"
| "same_value (JBool b) (JBool b)"
| "same_value (JNum r) (JNum r)"
| "same_value (JStr s) (JStr s)"
| "length xs = length ys \<Longrightarrow> \<forall>i < length xs. same_value (xs ! i) (ys ! i) \<Longrightarrow> same_value (JArr xs) (JArr ys)"
| "\<forall>k. k \<noteq> PROTO \<longrightarrow> (jsmap_get fs k = None \<longleftrightarrow> jsmap_get gs k = None) \<Longrightarrow>
   \<forall>k v w. k \<noteq> PROTO \<and> jsmap_get fs k = Some v \<and> jsmap_get gs k = Some w \<longrightarrow> same_value v w \<Longrightarrow>
   same_value (JObj fs) (JObj gs)"

inductive_cases same_arr: "same_value (JArr xs) w"
inductive_cases same_obj: "same_value (JObj fs) w"
inductive_simps same_value_simps:
  "same_value JNull w" "same_value (JBool b) w" "same_value (JNum r) w" "same_value (JStr s) w"
  "same_value (JArr xs) (JArr ys)" "same_value (JObj fs) (JObj gs)"

text \<open>Objects as they come from \<open>JSON.parse\<close>: a key occurs once.\<close>

fun keys_once :: "json \<Rightarrow> bool" where
  "keys_once (JArr xs) = list_all keys_once xs"
| "keys_once (JObj fs) = (distinct (map fst fs) \<and> list_all (\<lambda>p. keys_once (snd p)) fs)"
| "keys_once v = True"

definition sorted_fields :: "(string \<times> json) list \<Rightarrow> (string \<times> json) list" where
  "sorted_fields fs = own_order (fold set_own (sort_key fst fs) [])"

lemma fold_set_own:
  "distinct (map fst (out @ fs)) \<Longrightarrow> fold set_own fs out = out @ filter (\<lambda>p. fst p \<noteq> PROTO) fs"
proof (induction fs arbitrary: out)
  case (Cons p fs)
  then have "fst p \<notin> fst ` set out" "distinct (map fst ((out @ [p]) @ fs))" by auto
  moreover from this have "jsmap_set (fst p) (snd p) out = out @ [p]"
    by (induction out) auto
  ultimately show ?case using Cons.IH [of out] Cons.IH [of "out @ [p]"] Cons.prems by (auto simp: set_own_def)
qed simp

lemma sorted_fields_eq:
  "distinct (map fst fs) \<Longrightarrow> sorted_fields fs = own_order (sort_key fst (filter (\<lambda>p. fst p \<noteq> PROTO) fs))"
proof -
  assume "distinct (map fst fs)"
  then have "distinct (map fst (sort_key fst fs))"
    by (metis distinct_map distinct_sort mset_eq_setD mset_sort set_sort)
  then show ?thesis by (simp add: sorted_fields_def fold_set_own filter_sort)
qed

lemma mset_own_order [simp]: "mset (own_order fs) = mset fs"
  by (simp add: own_order_def)

lemma set_own_order [simp]: "set (own_order fs) = set fs"
  using mset_own_order by (rule mset_eq_setD)

lemma distinct_fst_mset: "mset xs = mset ys \<Longrightarrow> distinct (map fst xs) \<Longrightarrow> distinct (map fst ys)"
  by (metis distinct_map mset_eq_imp_distinct_iff mset_map)

lemma map_of_mset:
  assumes "mset xs = mset ys" and "distinct (map fst xs)"
  shows "map_of xs = map_of ys"
  using assms distinct_fst_mset [OF assms] mset_eq_setD [OF assms(1)]
  by (intro map_of_inject_set [THEN iffD2]) auto

lemma map_of_filter_key: "map_of (filter (\<lambda>p. Q (fst p)) fs) k = (if Q k then map_of fs k else None)"
  by (induction fs) auto

lemma get_sorted_fields:
  assumes "distinct (map fst fs)"
  shows "map_of (sorted_fields fs) k = (if k = PROTO then None else map_of fs k)"
proof -
  have "mset (sorted_fields fs) = mset (filter (\<lambda>p. fst p \<noteq> PROTO) fs)"
    using assms by (simp add: sorted_fields_eq)
  moreover have "distinct (map fst (filter (\<lambda>p. fst p \<noteq> PROTO) fs))" using assms by (rule distinct_map_filter)
  ultimately have "map_of (filter (\<lambda>p. fst p \<noteq> PROTO) fs) = map_of (sorted_fields fs)"
    by (intro map_of_mset) simp_all
  then show ?thesis using map_of_filter_key [of "\<lambda>k. k \<noteq> PROTO" fs k] by simp
qed

lemma sorted_fields_iff:
  assumes "distinct (map fst fs)" and "distinct (map fst gs)"
  shows "sorted_fields fs = sorted_fields gs \<longleftrightarrow> (\<forall>k. k \<noteq> PROTO \<longrightarrow> map_of fs k = map_of gs k)"
proof
  assume "sorted_fields fs = sorted_fields gs"
  then show "\<forall>k. k \<noteq> PROTO \<longrightarrow> map_of fs k = map_of gs k"
    using get_sorted_fields [OF assms(1)] get_sorted_fields [OF assms(2)] by metis
next
  assume same: "\<forall>k. k \<noteq> PROTO \<longrightarrow> map_of fs k = map_of gs k"
  let ?f = "filter (\<lambda>p. fst p \<noteq> PROTO) fs" and ?g = "filter (\<lambda>p. fst p \<noteq> PROTO) gs"
  have df: "distinct (map fst ?f)" and dg: "distinct (map fst ?g)" using assms by (simp_all add: distinct_map_filter)
  have "map_of ?f = map_of ?g" using same map_of_filter_key [of "\<lambda>k. k \<noteq> PROTO" fs] map_of_filter_key [of "\<lambda>k. k \<noteq> PROTO" gs]
    by (intro ext) simp
  then have "set ?f = set ?g" using map_of_inject_set [OF df dg] by simp
  then have "mset ?f = mset ?g" using df dg by (metis distinct_map set_eq_iff_mset_eq_distinct)
  moreover have "inj_on fst (set ?f)" using df by (simp add: distinct_map)
  ultimately have "sort_key fst ?f = sort_key fst ?g"
    by (metis mset_sort sort_key_inj_key_eq sorted_sort_key)
  then show "sorted_fields fs = sorted_fields gs" using assms by (simp add: sorted_fields_eq)
qed

lemma sorted_json_obj: "sorted_json (JObj fs) = JObj (sorted_fields (map (\<lambda>(k, v). (k, sorted_json v)) fs))"
  by (simp add: sorted_fields_def)

lemma map_of_sorted: "map_of (map (\<lambda>(k, v). (k, sorted_json v)) fs) k = map_option sorted_json (map_of fs k)"
  by (induction fs) auto

lemma sorted_json_iff: "keys_once v \<Longrightarrow> keys_once w \<Longrightarrow> sorted_json v = sorted_json w \<longleftrightarrow> same_value v w"
proof (induction v arbitrary: w)
  case (JArr xs)
  show ?case
  proof (cases w)
    case (JArr ys)
    have "sorted_json (xs ! i) = sorted_json (ys ! i) \<longleftrightarrow> same_value (xs ! i) (ys ! i)"
      if "i < length xs" "length xs = length ys" for i
      using that JArr.IH [of "xs ! i" "ys ! i"] JArr.prems JArr by (auto simp: list_all_length)
    then show ?thesis
      using JArr by (auto simp: same_value_simps list_eq_iff_nth_eq)
  qed (auto elim: same_arr)
next
  case (JObj fs)
  show ?case
  proof (cases w)
    case (JObj gs)
    have d: "distinct (map fst (map (\<lambda>(k, v). (k, sorted_json v)) fs))" "distinct (map fst (map (\<lambda>(k, v). (k, sorted_json v)) gs))"
      using JObj.prems JObj by (simp_all add: o_def split_def)
    have each: "sorted_json u = sorted_json z \<longleftrightarrow> same_value u z"
      if "map_of fs k = Some u" "map_of gs k = Some z" for k u z
    proof (rule JObj.IH)
      show "(k, u) \<in> set fs" using that(1) by (rule map_of_SomeD)
      show "u \<in> Basic_BNFs.snds (k, u)" by (simp add: snds.simps)
      show "keys_once u" "keys_once z"
        using JObj.prems JObj that by (auto simp: list_all_iff dest!: map_of_SomeD)
    qed
    have "sorted_json (JObj fs) = sorted_json (JObj gs) \<longleftrightarrow>
        (\<forall>k. k \<noteq> PROTO \<longrightarrow> map_option sorted_json (map_of fs k) = map_option sorted_json (map_of gs k))"
      unfolding sorted_json_obj json.inject sorted_fields_iff [OF d] map_of_sorted ..
    also have "\<dots> \<longleftrightarrow> same_value (JObj fs) (JObj gs)"
    proof -
      have "map_option sorted_json (map_of fs k) = map_option sorted_json (map_of gs k) \<longleftrightarrow>
          (map_of fs k = None \<longleftrightarrow> map_of gs k = None) \<and> (\<forall>u z. map_of fs k = Some u \<and> map_of gs k = Some z \<longrightarrow> same_value u z)" for k
        using each [of k] by (cases "map_of fs k"; cases "map_of gs k") auto
      then show ?thesis unfolding same_value_simps by blast
    qed
    finally show ?thesis by (simp only: JObj)
  qed (auto elim: same_obj)
next
  case JNull
  show ?case by (cases w) (auto simp: same_value_simps)
next
  case (JBool b)
  show ?case by (cases w) (auto simp: same_value_simps)
next
  case (JNum r)
  show ?case by (cases w) (auto simp: same_value_simps)
next
  case (JStr s)
  show ?case by (cases w) (auto simp: same_value_simps)
qed

lemma numbers_of_fields: "(\<Union>p \<in> set (sorted_fields fs). numbers_of (snd p)) \<subseteq> (\<Union>p \<in> set fs. numbers_of (snd p))"
proof -
  have sub: "set (fold set_own gs out) \<subseteq> set out \<union> set gs" for gs out
  proof (induction gs arbitrary: out)
    case (Cons p gs)
    have "set (set_own p out) \<subseteq> insert p (set out)"
      using in_jsmap_set [of _ _ "fst p" "snd p" out] by (auto simp: set_own_def split: if_splits) 
    with Cons [of "set_own p out"] show ?case by auto
  qed simp
  have "set (sorted_fields fs) \<subseteq> set fs" using sub [of "sort_key fst fs" "[]"] by (simp add: sorted_fields_def)
  then show ?thesis by blast
qed

lemma numbers_of_sorted: "numbers_of (sorted_json v) \<subseteq> numbers_of v"
proof (induction v)
  case (JObj fs)
  have "numbers_of (sorted_json (JObj fs)) \<subseteq> (\<Union>p \<in> set (map (\<lambda>(k, v). (k, sorted_json v)) fs). numbers_of (snd p))"
    unfolding sorted_json_obj numbers_of.simps(3) by (rule numbers_of_fields)
  also have "\<dots> \<subseteq> (\<Union>p \<in> set fs. numbers_of (snd p))"
  proof (rule UN_least)
    fix q assume "q \<in> set (map (\<lambda>(k, v). (k, sorted_json v)) fs)"
    then obtain p where p: "p \<in> set fs" "snd q = sorted_json (snd p)" by auto
    then have "numbers_of (snd q) \<subseteq> numbers_of (snd p)" using JObj [OF p(1), of "snd p"] by (simp add: snds.simps)
    then show "numbers_of (snd q) \<subseteq> (\<Union>p \<in> set fs. numbers_of (snd p))" using p(1) by blast
  qed
  finally show ?case by simp
next
  case (JArr xs)
  then show ?case by fastforce
qed simp_all

context number_text
begin

lemma canonical_iff:
  assumes "keys_once v" "keys_once w" "numbers_of v \<subseteq> numbers" "numbers_of w \<subseteq> numbers"
  shows "canonical numText v = canonical numText w \<longleftrightarrow> same_value v w"
proof -
  have "canonical numText v = canonical numText w \<longleftrightarrow> sorted_json v = sorted_json w"
  proof
    assume "canonical numText v = canonical numText w"
    then have "stringify numText (sorted_json v) @ [] = stringify numText (sorted_json w) @ []" by (simp add: canonical_def)
    then show "sorted_json v = sorted_json w"
      using stringify_prefix numbers_of_sorted assms(3,4) by (metis stops_def subset_trans)
  qed (simp add: canonical_def)
  then show ?thesis using sorted_json_iff [OF assms(1,2)] by simp
qed

end

text \<open>The whole numbers JavaScript prints in full, which are all that a definition holds.\<close>

definition whole_numbers :: "real set" where
  "whole_numbers = {of_int i |i. \<bar>i\<bar> < 10 ^ 21}"

definition whole_text :: "real \<Rightarrow> string" where
  "whole_text r = show_int \<lfloor>r\<rfloor>"

lemma show_int_inj: "show_int i = show_int j \<longleftrightarrow> i = j"
proof -
  have "hd (show_nat n) \<noteq> CHR ''-''" for n
    using show_nat_all_digits [of n] by (cases "show_nat n") (auto simp: is_digit_def)
  then have no: "show_nat n \<noteq> CHR ''-'' # s" for n s by (metis list.sel(1))
  show ?thesis by (auto simp: show_int_def no no [symmetric] split: if_splits)
qed

lemma show_int_chars: "list_all number_char (show_int i)" "show_int i \<noteq> []"
proof -
  have "list_all number_char (show_nat n)" for n
    using show_nat_all_digits [of n] by (auto simp: list_all_iff number_char_def)
  then show "list_all number_char (show_int i)" "show_int i \<noteq> []"
    by (auto simp: show_int_def number_char_def)
qed

interpretation whole: number_text whole_numbers whole_text
proof unfold_locales
  show "inj_on whole_text whole_numbers"
    by (rule inj_onI) (auto simp: whole_text_def whole_numbers_def show_int_inj)
qed (simp_all add: whole_text_def show_int_chars)

text \<open>
  C36: Two definitions have the same canonical form exactly when they differ in nothing but the order of
  keys, at every depth: layout and key order never tell two apart, and a changed value, a key more or
  a list in another order always does. The one exception is a member called \<open>__proto__\<close>, which the
  canonical form leaves out.\<close>

theorem canonical_decides:
  assumes "number_text numbers numText"
    and "keys_once v" and "keys_once w" and "numbers_of v \<subseteq> numbers" and "numbers_of w \<subseteq> numbers"
  shows "canonical numText v = canonical numText w \<longleftrightarrow> same_value v w"
  using assms(2-5) by (rule number_text.canonical_iff [OF assms(1)])

theorem canonical_decides_witness:
  "canonical whole_text (JObj [(''b'', JNum 2), (''a'', JArr [JStr ''x''])]) =
   canonical whole_text (JObj [(''a'', JArr [JStr ''x'']), (''b'', JNum 2)])"
proof -
  have two: "(2 :: real) \<in> whole_numbers" unfolding whole_numbers_def by (rule CollectI, rule exI [of _ 2]) simp
  have same: "same_value (JObj [(''b'', JNum 2), (''a'', JArr [JStr ''x''])]) (JObj [(''a'', JArr [JStr ''x'']), (''b'', JNum 2)])"
    by (auto simp: same_value_simps split: if_splits)
  show ?thesis
    using same two by (subst canonical_decides [OF whole.number_text_axioms]) auto
qed

lemma proto_left_out:
  "canonical numText (JObj [(''key'', JStr ''k''), (PROTO, v)]) = canonical numText (JObj [(''key'', JStr ''k'')])"
proof -
  have "set_own (PROTO, x) out = out" for x out by (simp add: set_own_def)
  moreover have "''key'' < PROTO \<or> \<not> ''key'' < PROTO" by blast
  ultimately show ?thesis
    by (auto simp: canonical_def set_own_def PROTO_def sort_key_def)
qed

subsection \<open>What is registered has been checked\<close>

text \<open>
  The moves of the author and the answers that arrive. \<open>check\<close> is what the server makes of a document;
  an answer may also be a failure of any kind.
\<close>

inductive types_step ::
  "(string \<Rightarrow> string + json) \<Rightarrow> (real \<Rightarrow> string) \<Rightarrow> (json \<Rightarrow> check_report) \<Rightarrow> types_page \<Rightarrow> types_page \<Rightarrow> bool"
  for parse :: "string \<Rightarrow> string + json" and numText :: "real \<Rightarrow> string" and check :: "json \<Rightarrow> check_report" where
  Typed: "types_step parse numText check p (edit_text t p)"
| Copied: "types_step parse numText check p (copy_into_editor t p)"
| Toggled: "types_step parse numText check p (toggle_type q p)"
| Ticked: "types_step parse numText check p (set_understood parse numText b p)"
| Checked: "types_step parse numText check p (press_check parse numText p)"
| Answered: "\<forall>v r. validate v = Inr r \<longrightarrow> r = check v \<Longrightarrow> types_step parse numText check p (check_answered validate p)"
| Pressed: "types_step parse numText check p (press_register parse numText p)"
| Registered: "types_step parse numText check p (register_answered register p)"

inductive types_run ::
  "(string \<Rightarrow> string + json) \<Rightarrow> (real \<Rightarrow> string) \<Rightarrow> (json \<Rightarrow> check_report) \<Rightarrow> types_page \<Rightarrow> bool"
  for parse :: "string \<Rightarrow> string + json" and numText :: "real \<Rightarrow> string" and check :: "json \<Rightarrow> check_report" where
  Opened: "types_run parse numText check
     \<lparr>tp_opened = None, tp_text = [], tp_cleared = None, tp_understood = False, tp_registered = None, tp_error = None,
      tp_report = None, tp_checking = None, tp_registering = None\<rparr>"
| Moved: "types_run parse numText check p \<Longrightarrow> types_step parse numText check p p' \<Longrightarrow> types_run parse numText check p'"

definition read_from :: "(string \<Rightarrow> string + json) \<Rightarrow> json \<Rightarrow> bool" where
  "read_from parse v \<longleftrightarrow> (\<exists>t. parse t = Inr v)"

definition cleared_by :: "(string \<Rightarrow> string + json) \<Rightarrow> (real \<Rightarrow> string) \<Rightarrow> (json \<Rightarrow> check_report) \<Rightarrow> string \<Rightarrow> bool" where
  "cleared_by parse numText check c \<longleftrightarrow> (\<exists>v. read_from parse v \<and> cr_passed (check v) \<and> c = canonical numText v)"

definition types_inv :: "(string \<Rightarrow> string + json) \<Rightarrow> (real \<Rightarrow> string) \<Rightarrow> (json \<Rightarrow> check_report) \<Rightarrow> types_page \<Rightarrow> bool" where
  "types_inv parse numText check p \<longleftrightarrow>
     (\<forall>c. tp_cleared p = Some c \<longrightarrow> cleared_by parse numText check c) \<and>
     (\<forall>v c. tp_checking p = Some (v, c) \<longrightarrow> read_from parse v \<and> c = canonical numText v) \<and>
     (\<forall>v. tp_registering p = Some v \<longrightarrow> read_from parse v \<and> cleared_by parse numText check (canonical numText v))"

lemma parsed_ok:
  "parseDefinition parse numText t = ParsedOk v c \<Longrightarrow> read_from parse v \<and> c = canonical numText v"
  by (auto simp: parseDefinition_def read_from_def split: if_splits sum.splits json.splits)

lemma types_inv_step:
  assumes "types_step parse numText check p p'" and "types_inv parse numText check p"
  shows "types_inv parse numText check p'"
  using assms
proof (cases rule: types_step.cases)
  case Checked
  with assms(2) show ?thesis
    by (auto simp: types_inv_def press_check_def dest: parsed_ok split: parsed.splits)
next
  case (Answered validate)
  with assms(2) show ?thesis
    by (auto simp: types_inv_def check_answered_def cleared_by_def split: option.splits sum.splits)
next
  case Pressed
  with assms(2) show ?thesis
    by (auto simp: types_inv_def press_register_def current_def dest: parsed_ok split: parsed.splits)
next
  case (Registered register)
  with assms(2) show ?thesis
    by (auto simp: types_inv_def register_answered_def split: option.splits sum.splits)
qed (simp_all add: types_inv_def edit_text_def copy_into_editor_def toggle_type_def set_understood_def)

lemma types_inv_run: "types_run parse numText check p \<Longrightarrow> types_inv parse numText check p"
  by (induction rule: types_run.induct) (simp add: types_inv_def, blast intro: types_inv_step)

text \<open>
  Nothing is sent to be registered that has not passed a check: whatever is typed, copied, ticked,
  checked and answered in whatever order, the document of a registration under way differs from one that
  the server passed in the order of keys at most (and in \<open>__proto__\<close> members), even when the text was
  edited while its check was under way.\<close>

theorem registered_was_checked:
  assumes "number_text numbers numText"
    and "\<forall>t v. parse t = Inr v \<longrightarrow> keys_once v \<and> numbers_of v \<subseteq> numbers"
    and "types_run parse numText check p" and "tp_registering p = Some v"
  shows "\<exists>v'. read_from parse v' \<and> cr_passed (check v') \<and> same_value v v'"
proof -
  from types_inv_run [OF assms(3)] assms(4)
  have "read_from parse v" "cleared_by parse numText check (canonical numText v)" by (simp_all add: types_inv_def)
  then obtain v' where v': "read_from parse v'" "cr_passed (check v')" "canonical numText v = canonical numText v'"
    by (auto simp: cleared_by_def)
  moreover from this(1,3) \<open>read_from parse v\<close> assms(2) have "same_value v v'"
    using number_text.canonical_iff [OF assms(1)] by (metis read_from_def)
  ultimately show ?thesis by blast
qed

definition sample_parse :: "string \<Rightarrow> string + json" where
  "sample_parse t = (if t = ''{\"a\":1,\"b\":2}'' then Inr (JObj [(''a'', JNum 1), (''b'', JNum 2)])
     else if t = ''{\"b\":2,\"a\":1}'' then Inr (JObj [(''b'', JNum 2), (''a'', JNum 1)]) else Inl ''Unexpected token'')"

definition sample_check :: "json \<Rightarrow> check_report" where
  "sample_check v = \<lparr>cr_passed = (field ''a'' v \<noteq> None), cr_findings = []\<rparr>"

definition sample_session :: types_page where
  "sample_session =
     press_register sample_parse whole_text (set_understood sample_parse whole_text True
       (edit_text ''{\"b\":2,\"a\":1}'' (check_answered (\<lambda>v. Inr (sample_check v)) (press_check sample_parse whole_text
          (edit_text ''{\"a\":1,\"b\":2}''
             \<lparr>tp_opened = None, tp_text = [], tp_cleared = None, tp_understood = False, tp_registered = None, tp_error = None,
              tp_report = None, tp_checking = None, tp_registering = None\<rparr>)))))"

lemma sample_session_run: "types_run sample_parse whole_text sample_check sample_session"
  unfolding sample_session_def
  by (rule Moved [OF Moved [OF Moved [OF Moved [OF Moved [OF Moved [OF Opened Typed] Checked] Answered] Typed] Ticked] Pressed]) simp

lemma sample_small: "1 \<in> whole_numbers" "2 \<in> whole_numbers"
  unfolding whole_numbers_def by (rule CollectI, rule exI [of _ 1], simp) (rule CollectI, rule exI [of _ 2], simp)

lemma sample_registering: "tp_registering sample_session = Some (JObj [(''b'', JNum 2), (''a'', JNum 1)])"
proof -
  have same: "canonical whole_text (JObj [(''b'', JNum 2), (''a'', JNum 1)]) = canonical whole_text (JObj [(''a'', JNum 1), (''b'', JNum 2)])"
    using sample_small by (subst whole.canonical_iff) (auto simp: same_value_simps split: if_splits)
  show ?thesis
    by (simp add: sample_session_def edit_text_def press_check_def check_answered_def sample_check_def field_def
        set_understood_def press_register_def current_def parseDefinition_def sample_parse_def same
        js_trim_def trim_start_def is_space_def)
qed

theorem registered_was_checked_witness:
  "\<exists>v'. cr_passed (sample_check v') \<and> same_value (JObj [(''b'', JNum 2), (''a'', JNum 1)]) v'"
proof -
  have "\<forall>t v. sample_parse t = Inr v \<longrightarrow> keys_once v \<and> numbers_of v \<subseteq> whole_numbers"
    using sample_small by (auto simp: sample_parse_def split: if_splits)
  from registered_was_checked [OF whole.number_text_axioms this sample_session_run sample_registering] show ?thesis by blast
qed

text \<open>What the screen says of a definition it cannot check is lost, as for every \<open>Error\<close> thrown in the console.\<close>

lemma unknown_primitive_iff:
  "unknownPrimitive (JObj [(''scoring'', JObj [(''primitive'', JStr s)])]) =
     (if s = [] \<or> s \<in> set PRIMITIVES then None else Some s)"
  by (simp add: unknownPrimitive_def field_def)

lemma definition_ref_text_version:
  "definitionRef (JObj [(''key'', JStr ''tfng''), (''version'', JStr '' 2 '')]) = Some ''tfng@v2''"
  by (simp add: definitionRef_def field_def version_number_def js_trim_def trim_start_def is_space_def is_digit_def
      read_nat_def digit_val_def show_int_def show_nat_eval digit_char_def)

end
