(* ===== verification/Transcripts.thy ===== *)
theory Transcripts
  imports JsNum
begin

text \<open>
  Transcripts and the authoring player of the console: \<open>web/src/features/audio/transcript.ts\<close> and
  \<open>web/src/features/audio/player.ts\<close>. Milliseconds are natural numbers in a transcript; a regular expression
  is the function that finds its match, with the backtracking that can matter written out.
\<close>

subsection \<open>Time stamps\<close>

definition digits_between :: "nat \<Rightarrow> nat \<Rightarrow> string \<Rightarrow> bool" where
  "digits_between lo hi s \<longleftrightarrow> list_all is_digit s \<and> lo \<le> length s \<and> length s \<le> hi"

definition pad_end :: "nat \<Rightarrow> char \<Rightarrow> string \<Rightarrow> string" where
  "pad_end w c s = s @ replicate (w - length s) c"

text \<open>The seconds with their fraction, after a point or a comma.\<close>

definition seconds_part :: "string \<Rightarrow> (nat \<times> nat) option" where
  "seconds_part s =
     (let sec = takeWhile is_digit s; rest = dropWhile is_digit s in
      case rest of
        [] \<Rightarrow> None
      | c # f \<Rightarrow>
          if (c = CHR ''.'' \<or> c = CHR '','') \<and> digits_between 1 2 sec \<and> digits_between 1 3 f
          then Some (read_nat sec, read_nat (pad_end 3 (CHR ''0'') f)) else None)"

definition parseTimestamp :: "string \<Rightarrow> nat option" where
  "parseTimestamp raw =
     (case js_split (CHR '':'') (js_trim raw) of
        [m, s] \<Rightarrow>
          if digits_between 1 2 m then map_option (\<lambda>(sec, ms). read_nat m * 60000 + sec * 1000 + ms) (seconds_part s) else None
      | [h, m, s] \<Rightarrow>
          if h \<noteq> [] \<and> list_all is_digit h \<and> digits_between 1 2 m
          then map_option (\<lambda>(sec, ms). read_nat h * 3600000 + read_nat m * 60000 + sec * 1000 + ms) (seconds_part s)
          else None
      | _ \<Rightarrow> None)"

subsection \<open>Cues\<close>

text \<open>
  \<open>CUE\<close>: a shortest first part of at least one character, white space, an arrow, white space and a
  shortest second part that ends at white space or at the end. When only white space follows the arrow
  the second part is its last character.
\<close>

definition after_arrow :: "string \<Rightarrow> string option" where
  "after_arrow s =
     (let r = dropWhile is_space s in
      if prefix ''-->'' r \<and> drop 3 r \<noteq> []
      then Some (let t = drop 3 r; u = dropWhile is_space t in if u = [] then [last t] else takeWhile (\<lambda>c. \<not> is_space c) u)
      else None)"

fun cue_from :: "string \<Rightarrow> string \<Rightarrow> (string \<times> string) option" where
  "cue_from pre [] = None"
| "cue_from pre (c # s) =
     (case after_arrow s of
        Some e \<Rightarrow> Some (pre @ [c], e)
      | None \<Rightarrow> cue_from (pre @ [c]) s)"

definition CUE :: "string \<Rightarrow> (string \<times> string) option" where
  "CUE line = cue_from [] line"

text \<open>\<open>raw.replace(/\r\n?/g, "\n").split("\n")\<close>.\<close>

fun unix_newlines :: "string \<Rightarrow> string" where
  "unix_newlines [] = []"
| "unix_newlines (c # s) =
     (if c = CHR 0x0D
      then CHR 0x0A #
        (case s of [] \<Rightarrow> [] | d # s' \<Rightarrow> if d = CHR 0x0A then unix_newlines s' else unix_newlines s)
      else c # unix_newlines s)"

definition text_lines :: "string \<Rightarrow> string list" where
  "text_lines raw = js_split (CHR 0x0A) (unix_newlines raw)"

record segment =
  start_ms :: nat
  end_ms :: nat
  seg_text :: string
  seg_speaker :: "string option"

datatype cue_problem = UnreadableTimes nat | EndNotAfterStart nat | NoText nat | NoCues

definition upper :: "char \<Rightarrow> bool" where
  "upper c \<longleftrightarrow> 65 \<le> (of_char c :: nat) \<and> (of_char c :: nat) \<le> 90"

definition lower :: "char \<Rightarrow> bool" where
  "lower c \<longleftrightarrow> 97 \<le> (of_char c :: nat) \<and> (of_char c :: nat) \<le> 122"

text \<open>A label of the class, a colon, white space, and the words.\<close>

definition label_of :: "(char \<Rightarrow> bool) \<Rightarrow> nat \<Rightarrow> string \<Rightarrow> (string \<times> string) option" where
  "label_of cls most t =
     (case t of
        [] \<Rightarrow> None
      | c # s \<Rightarrow>
          let run = takeWhile cls s; rest = dropWhile cls s in
          if upper c \<and> length run \<le> most \<and> rest \<noteq> [] \<and> hd rest = CHR '':'' \<and> tl rest \<noteq> [] \<and> is_space (hd (tl rest))
          then Some (c # run, dropWhile is_space (tl rest)) else None)"

definition speaker_of :: "string \<Rightarrow> (string \<times> string) option" where
  "speaker_of t =
     (case label_of (\<lambda>c. upper c \<or> is_digit c \<or> c = CHR '' '') 20 t of
        Some r \<Rightarrow> Some r
      | None \<Rightarrow> label_of lower 19 t)"

definition segment_of :: "nat \<Rightarrow> nat \<Rightarrow> string \<Rightarrow> segment" where
  "segment_of s e t =
     (case speaker_of t of
        Some (who, words) \<Rightarrow> \<lparr>start_ms = s, end_ms = e, seg_text = js_trim words, seg_speaker = Some (js_trim who)\<rparr>
      | None \<Rightarrow> \<lparr>start_ms = s, end_ms = e, seg_text = t, seg_speaker = None\<rparr>)"

definition cue_body :: "string list \<Rightarrow> string" where
  "cue_body ls = js_trim (js_join '' '' (map js_trim (takeWhile (\<lambda>l. js_trim l \<noteq> []) ls)))"

definition read_cue :: "nat \<Rightarrow> string \<times> string \<Rightarrow> string list \<Rightarrow> cue_problem + segment" where
  "read_cue lineNo cue ls =
     (case (parseTimestamp (fst cue), parseTimestamp (snd cue)) of
        (Some s, Some e) \<Rightarrow>
          if e \<le> s then Inl (EndNotAfterStart lineNo)
          else if cue_body ls = [] then Inl (NoText lineNo)
          else Inr (segment_of s e (cue_body ls))
      | _ \<Rightarrow> Inl (UnreadableTimes lineNo))"

function cues :: "nat \<Rightarrow> string list \<Rightarrow> (cue_problem + segment) list" where
  "cues i [] = []"
| "cues i (line # ls) =
     (case CUE line of
        None \<Rightarrow> cues (Suc i) ls
      | Some cue \<Rightarrow>
          read_cue (Suc i) cue ls #
          cues (Suc i + length (takeWhile (\<lambda>l. js_trim l \<noteq> []) ls)) (dropWhile (\<lambda>l. js_trim l \<noteq> []) ls))"
  by pat_completeness auto
termination
  by (relation "measure (\<lambda>(_, ls). length ls)") (auto simp: less_Suc_eq_le length_dropWhile_le)

definition problems_of :: "(cue_problem + segment) list \<Rightarrow> cue_problem list" where
  "problems_of rs = concat (map (\<lambda>r. case r of Inl p \<Rightarrow> [p] | Inr _ \<Rightarrow> []) rs)"

definition segments_of :: "(cue_problem + segment) list \<Rightarrow> segment list" where
  "segments_of rs = concat (map (\<lambda>r. case r of Inl _ \<Rightarrow> [] | Inr s \<Rightarrow> [s]) rs)"

definition parseSubtitles :: "string \<Rightarrow> segment list \<times> cue_problem list" where
  "parseSubtitles raw =
     (let rs = cues 0 (text_lines raw); segs = segments_of rs; probs = problems_of rs
      in (segs, if segs = [] \<and> probs = [] then [NoCues] else probs))"

definition formatMs :: "nat \<Rightarrow> string" where
  "formatMs ms = (let t = ms div 1000 in show_nat (t div 60) @ '':'' @ pad_start 2 (CHR ''0'') (show_nat (t mod 60)))"

text \<open>Neighbours in the order of their starts.\<close>

fun neighbour_overlaps :: "segment list \<Rightarrow> nat" where
  "neighbour_overlaps (a # b # ss) = (if start_ms b < end_ms a then 1 else 0) + neighbour_overlaps (b # ss)"
| "neighbour_overlaps _ = 0"

definition overlaps :: "segment list \<Rightarrow> nat" where
  "overlaps segs = neighbour_overlaps (js_sort (\<lambda>a b. start_ms b < start_ms a) segs)"

subsection \<open>The player\<close>

record issued =
  grant :: string
  media_xid :: string
  expires_at :: string

definition MARGIN_MS :: real where
  "MARGIN_MS = 10000"

definition unreserved :: "char \<Rightarrow> bool" where
  "unreserved c \<longleftrightarrow> upper c \<or> lower c \<or> is_digit c \<or> c \<in> set ''-_.!~*()'' \<or> c = CHR 0x27"

definition percent_byte :: "nat \<Rightarrow> string" where
  "percent_byte n = [CHR ''%'', ''0123456789ABCDEF'' ! (n div 16 mod 16), ''0123456789ABCDEF'' ! (n mod 16)]"

text \<open>\<open>encodeURIComponent\<close>: the bytes of UTF-8, of which these characters have one or two.\<close>

definition encode_char :: "char \<Rightarrow> string" where
  "encode_char c =
     (let n = (of_char c :: nat) in
      if unreserved c then [c]
      else if n < 128 then percent_byte n
      else percent_byte (192 + n div 64) @ percent_byte (128 + n mod 64))"

definition encodeURIComponent :: "string \<Rightarrow> string" where
  "encodeURIComponent s = concat (map encode_char s)"

definition mediaUrl :: "string \<Rightarrow> issued \<Rightarrow> string" where
  "mediaUrl API_PREFIX g =
     API_PREFIX @ ''/media/'' @ media_xid g @ ''/content'' @ ''?grant='' @ encodeURIComponent (grant g)"

definition remainingMs :: "issued \<Rightarrow> real \<Rightarrow> real \<Rightarrow> real" where
  "remainingMs g receivedAt now =
     (case date_parse (expires_at g) - Num receivedAt of
        NaN \<Rightarrow> 0
      | Num lifetime \<Rightarrow> max 0 (lifetime - (now - receivedAt)))"

definition isStale :: "issued \<Rightarrow> real \<Rightarrow> real \<Rightarrow> bool" where
  "isStale g receivedAt now \<longleftrightarrow> remainingMs g receivedAt now \<le> MARGIN_MS"

definition playbackFailure :: "nat option \<Rightarrow> bool \<Rightarrow> string" where
  "playbackFailure code stale =
     (if stale then ''The playback link expired. Ask for a new one and try again.''
      else if code = Some 1 then ''Playback was stopped.''
      else if code = Some 2 then ''The connection dropped while loading the audio. Try again.''
      else if code = Some 3 then ''This file could not be decoded. It may not have finished processing.''
      else if code = Some 4 then ''The audio could not be loaded. The playback link may have expired - '' @ ''ask for a new one.''
      else ''The audio could not be played. Ask for a new playback link and try again.'')"

subsection \<open>What is proved of a transcript\<close>

lemma last_kept: "\<not> is_space (last s) \<Longrightarrow> s \<noteq> [] \<Longrightarrow> js_trim s \<noteq> []"
proof
  assume h: "\<not> is_space (last s)" "s \<noteq> []" "js_trim s = []"
  have "last s \<in> set (trim_start s)"
  proof -
    have "s = takeWhile is_space s @ trim_start s" by (simp add: trim_start_def)
    moreover have "last s \<notin> set (takeWhile is_space s)" using h(1) by (auto dest: set_takeWhileD)
    ultimately show ?thesis using h(2) by (metis Un_iff last_in_set set_append)
  qed
  moreover have "trim_start (rev (trim_start s)) = []" using h(3) by (simp add: js_trim_def)
  then have "\<forall>c \<in> set (trim_start s). is_space c" by (simp add: trim_start_def dropWhile_eq_Nil_conv)
  ultimately show False using h(1) by blast
qed

lemma label_words:
  assumes "label_of cls most t = Some (who, words)" and "\<not> is_space (last t)"
  shows "js_trim words \<noteq> []"
proof -
  obtain c s where t: "t = c # s" using assms(1) by (cases t) (auto simp: label_of_def)
  let ?rest = "dropWhile cls s"
  have r: "?rest \<noteq> []" "tl ?rest \<noteq> []" "words = dropWhile is_space (tl ?rest)"
    using assms(1) t by (auto simp: label_of_def Let_def split: if_splits)
  have "t = (c # takeWhile cls s) @ [hd ?rest] @ tl ?rest" using t r(1) by simp
  then have last: "last t = last (tl ?rest)" using r(2) by (metis append.assoc last_appendR)
  have "tl ?rest = takeWhile is_space (tl ?rest) @ words" using r(3) by simp
  moreover have "words \<noteq> []"
    using last assms(2) r(2,3) last_in_set [OF r(2)] by (auto simp: dropWhile_eq_Nil_conv)
  ultimately have "last words = last t" using last by (metis last_appendR)
  with \<open>words \<noteq> []\<close> assms(2) show ?thesis by (intro last_kept) simp_all
qed

lemma segment_of_text:
  assumes "t \<noteq> []" and "\<not> is_space (last t)"
  shows "seg_text (segment_of s e t) \<noteq> [] \<and> start_ms (segment_of s e t) = s \<and> end_ms (segment_of s e t) = e"
proof (cases "speaker_of t")
  case (Some p)
  then obtain who words where p: "speaker_of t = Some (who, words)" by (cases p) auto
  then have "js_trim words \<noteq> []"
    using label_words [OF _ assms(2)] by (auto simp: speaker_of_def split: option.splits)
  with p show ?thesis by (simp add: segment_of_def)
qed (use assms in \<open>simp add: segment_of_def\<close>)

lemma read_cue_sound:
  "read_cue n cue ls = Inr seg \<Longrightarrow> start_ms seg < end_ms seg \<and> seg_text seg \<noteq> []"
  using segment_of_text [of "cue_body ls"] js_trim_ends [of "js_join '' '' (map js_trim (takeWhile (\<lambda>l. js_trim l \<noteq> []) ls))"]
  by (auto simp: read_cue_def cue_body_def split: option.splits if_splits)

lemma cues_sound: "Inr seg \<in> set (cues i ls) \<Longrightarrow> start_ms seg < end_ms seg \<and> seg_text seg \<noteq> []"
proof (induction i ls rule: cues.induct)
  case (2 i line ls)
  show ?case
  proof (cases "CUE line")
    case None
    with 2 show ?thesis by simp
  next
    case (Some cue)
    with 2(2) [OF Some] 2(3) read_cue_sound [of "Suc i" cue ls seg] show ?thesis by auto
  qed
qed simp

text \<open>The line numbers a problem names are those of lines that are cues.\<close>

fun problem_line :: "cue_problem \<Rightarrow> nat option" where
  "problem_line (UnreadableTimes n) = Some n"
| "problem_line (EndNotAfterStart n) = Some n"
| "problem_line (NoText n) = Some n"
| "problem_line NoCues = None"

lemma read_cue_line: "read_cue n cue ls = Inl p \<Longrightarrow> problem_line p = Some n"
  by (auto simp: read_cue_def split: option.splits if_splits)

lemma cues_lines:
  "Inl p \<in> set (cues i ls) \<Longrightarrow> \<exists>n. problem_line p = Some (Suc (i + n)) \<and> n < length ls \<and> CUE (ls ! n) \<noteq> None"
proof (induction i ls rule: cues.induct)
  case (2 i line ls)
  show ?case
  proof (cases "CUE line")
    case None
    with 2 obtain n where "problem_line p = Some (Suc (Suc i + n))" "n < length ls" "CUE (ls ! n) \<noteq> None" by auto
    then show ?thesis by (intro exI [of _ "Suc n"]) simp
  next
    case (Some cue)
    let ?b = "takeWhile (\<lambda>l. js_trim l \<noteq> []) ls" and ?r = "dropWhile (\<lambda>l. js_trim l \<noteq> []) ls"
    note later = 2(2) [OF Some]
    from 2(3) Some consider "read_cue (Suc i) cue ls = Inl p" | "Inl p \<in> set (cues (Suc i + length ?b) ?r)" by fastforce
    then show ?thesis
    proof (cases)
      case 1
      with Some read_cue_line show ?thesis by (intro exI [of _ 0]) auto
    next
      case 2
      with later obtain n where n: "problem_line p = Some (Suc (Suc i + length ?b + n))" "n < length ?r" "CUE (?r ! n) \<noteq> None"
        by auto
      have "ls ! (length ?b + n) = ?r ! n" by (metis nth_append_length_plus takeWhile_dropWhile_id)
      moreover have "length ?b + length ?r = length ls" by (metis length_append takeWhile_dropWhile_id)
      ultimately show ?thesis using n by (intro exI [of _ "Suc (length ?b + n)"]) (simp add: add.assoc)
    qed
  qed
qed simp

text \<open>
  C26: A pasted transcript never silently yields nothing and never yields a bad segment: each segment
  ends after it starts and has words, also when a speaker's label is cut off its text; each problem
  names a line of the document that is a cue; and there is always a segment or a problem.\<close>

theorem transcript_sound:
  assumes "parseSubtitles raw = (segs, probs)"
  shows "(\<forall>s \<in> set segs. start_ms s < end_ms s \<and> seg_text s \<noteq> []) \<and>
    (\<forall>p \<in> set probs. p = NoCues \<and> segs = [] \<or>
       (\<exists>n. problem_line p = Some (Suc n) \<and> n < length (text_lines raw) \<and> CUE (text_lines raw ! n) \<noteq> None)) \<and>
    (segs \<noteq> [] \<or> probs \<noteq> [])"
proof -
  let ?rs = "cues 0 (text_lines raw)"
  have s: "segs = segments_of ?rs" and p: "probs = (if segs = [] \<and> problems_of ?rs = [] then [NoCues] else problems_of ?rs)"
    using assms by (auto simp: parseSubtitles_def Let_def)
  have "Inr seg \<in> set ?rs" if "seg \<in> set segs" for seg
    using that by (auto simp: s segments_of_def split: sum.splits)
  then have 1: "\<forall>s \<in> set segs. start_ms s < end_ms s \<and> seg_text s \<noteq> []" using cues_sound by blast
  have "Inl q \<in> set ?rs" if "q \<in> set (problems_of ?rs)" for q
    using that by (auto simp: problems_of_def split: sum.splits)
  then have 2: "\<exists>n. problem_line q = Some (Suc n) \<and> n < length (text_lines raw) \<and> CUE (text_lines raw ! n) \<noteq> None"
    if "q \<in> set (problems_of ?rs)" for q using cues_lines [of q 0 "text_lines raw"] that by auto
  have 3: "segs \<noteq> [] \<or> probs \<noteq> []" by (auto simp: p)
  show ?thesis using 1 2 3 p by (auto split: if_splits)
qed

definition sample_vtt :: string where
  "sample_vtt = ''0:1.5 --> 0:3.0 x'' @ [CHR 0x0A] @ ''Man: Hi''"

definition sample_segment :: segment where
  "sample_segment = \<lparr>start_ms = 1500, end_ms = 3000, seg_text = ''Hi'', seg_speaker = Some ''Man''\<rparr>"

lemmas transcript_eval = CUE_def after_arrow_def is_space_def js_trim_def trim_start_def parseTimestamp_def digits_between_def
  is_digit_def digit_val_def read_nat_def seconds_part_def pad_end_def upper_def lower_def label_of_def speaker_of_def numeral_2_eq_2

lemma cue_example:
  "CUE ''0:1.5 --> 0:3.0 x'' = Some (''0:1.5'', ''0:3.0'')" "parseTimestamp ''0:1.5'' = Some 1500" "parseTimestamp ''0:3.0'' = Some 3000"
  "speaker_of ''Man: Hi'' = Some (''Man'', ''Hi'')" "speaker_of ''There were three: a bike'' = None"
  "speaker_of ''WOMAN 2: You'' = Some (''WOMAN 2'', ''You'')"
  by (simp_all add: transcript_eval)

lemma sample_vtt_parsed: "parseSubtitles sample_vtt = ([sample_segment], [])"
proof -
  have ls: "text_lines sample_vtt = [''0:1.5 --> 0:3.0 x'', ''Man: Hi'']" by (simp add: text_lines_def sample_vtt_def)
  have "js_trim ''Man: Hi'' = ''Man: Hi''" "js_trim ''Man'' = ''Man''" "js_trim ''Hi'' = ''Hi''" by (simp_all add: transcript_eval)
  then show ?thesis
    by (simp add: parseSubtitles_def ls cue_example read_cue_def cue_body_def segment_of_def sample_segment_def
        problems_of_def segments_of_def)
qed

theorem transcript_sound_witness:
  "start_ms sample_segment < end_ms sample_segment \<and> seg_text sample_segment \<noteq> []"
  using transcript_sound [OF sample_vtt_parsed] by simp

subsection \<open>Overlaps\<close>

definition apart :: "segment \<Rightarrow> segment \<Rightarrow> bool" where
  "apart a b \<longleftrightarrow> end_ms a \<le> start_ms b \<or> end_ms b \<le> start_ms a"

lemma apart_sym: "apart a b \<longleftrightarrow> apart b a"
  by (auto simp: apart_def)

lemma apart_insert: "sorted_wrt apart (js_insert after x ys) \<longleftrightarrow> (\<forall>y \<in> set ys. apart x y) \<and> sorted_wrt apart ys"
proof (induction ys)
  case (Cons y ys)
  have "set (js_insert after x ys) = insert x (set ys)" by (metis mset_js_insert set_mset_add_mset_insert set_mset_mset)
  with Cons apart_sym show ?case by auto
qed simp

lemma apart_sort: "sorted_wrt apart (js_sort after xs) \<longleftrightarrow> sorted_wrt apart xs"
  by (induction xs) (auto simp: apart_insert)

lemma neighbours_zero:
  assumes "sorted_wrt (\<lambda>a b. start_ms a \<le> start_ms b) ss" and "\<forall>s \<in> set ss. start_ms s < end_ms s"
  shows "neighbour_overlaps ss = 0 \<longleftrightarrow> sorted_wrt apart ss"
  using assms
proof (induction ss rule: neighbour_overlaps.induct)
  case (1 a b ss)
  have "neighbour_overlaps (b # ss) = 0 \<longleftrightarrow> sorted_wrt apart (b # ss)" using 1 by simp
  moreover have "end_ms a \<le> start_ms b \<longleftrightarrow> (\<forall>c \<in> set (b # ss). apart a c)"
    using 1(2,3) by (fastforce simp: apart_def)
  ultimately show ?case by auto
qed simp_all

text \<open>The screen reports no overlap exactly when no two segments share a moment, though it compares
  neighbours only, in the order of their starts. (The number it shows counts neighbours, not pairs.)\<close>

theorem overlaps_zero_iff:
  assumes "\<forall>s \<in> set segs. start_ms s < end_ms s"
  shows "overlaps segs = 0 \<longleftrightarrow> sorted_wrt apart segs"
proof -
  let ?ss = "js_sort (\<lambda>a b. start_ms b < start_ms a) segs"
  have "?ss = sort_key start_ms segs" by (rule js_sort_sort_key) simp
  then have "sorted_wrt (\<lambda>a b. start_ms a \<le> start_ms b) ?ss"
    using sorted_sort_key [of start_ms segs] by (simp add: sorted_map)
  then show ?thesis using neighbours_zero assms by (simp add: overlaps_def apart_sort)
qed

theorem overlaps_zero_iff_witness:
  "overlaps [\<lparr>start_ms = 5, end_ms = 9, seg_text = ''b'', seg_speaker = None\<rparr>,
             \<lparr>start_ms = 0, end_ms = 5, seg_text = ''a'', seg_speaker = None\<rparr>] = 0"
  by (subst overlaps_zero_iff) (simp_all add: apart_def)

lemma overlap_of_three_counts_one:
  "overlaps [\<lparr>start_ms = 0, end_ms = 100, seg_text = ''a'', seg_speaker = None\<rparr>,
             \<lparr>start_ms = 10, end_ms = 20, seg_text = ''b'', seg_speaker = None\<rparr>,
             \<lparr>start_ms = 30, end_ms = 40, seg_text = ''c'', seg_speaker = None\<rparr>] = 1"
  by code_simp

subsection \<open>The expiry of a grant\<close>

text \<open>The moment a grant arrived makes no difference to what is left of it: the lifetime read at receipt
  less the time since then is the time on the device's clock until the server's expiry. So a device ten
  minutes slow holds a dead grant alive, which is the case the header says that measuring from the
  receipt gets right.\<close>

theorem receipt_does_not_count:
  "remainingMs g receivedAt now = (case date_parse (expires_at g) of NaN \<Rightarrow> 0 | Num e \<Rightarrow> max 0 (e - now)) \<and>
   isStale g receivedAt now = isStale g receivedAt' now"
proof -
  have "remainingMs g r now = (case date_parse (expires_at g) of NaN \<Rightarrow> 0 | Num e \<Rightarrow> max 0 (e - now))" for r
    by (simp add: remainingMs_def split: jsnum.splits)
  then show ?thesis by (simp add: isStale_def)
qed

lemma slow_clock_plays_on:
  "\<not> isStale \<lparr>grant = ''g'', media_xid = ''m'', expires_at = ''1970-01-01T00:10:00.000Z''\<rparr> 0 60000"
proof -
  have "date_parse ''1970-01-01T00:10:00.000Z'' = Num 600000" by (simp add: date_parse_eval)
  then show ?thesis by (simp add: isStale_def MARGIN_MS_def receipt_does_not_count [of _ 0])
qed

lemma encoded_safe: "c \<in> set (encodeURIComponent s) \<Longrightarrow> unreserved c \<or> c = CHR ''%''"
proof -
  have hex: "unreserved (''0123456789ABCDEF'' ! (n mod 16))" for n :: nat
  proof -
    have "''0123456789ABCDEF'' ! (n mod 16) \<in> set ''0123456789ABCDEF''" by (rule nth_mem) simp
    moreover have "\<forall>c \<in> set ''0123456789ABCDEF''. unreserved c" by (simp add: unreserved_def upper_def is_digit_def)
    ultimately show ?thesis by blast
  qed
  have "unreserved c \<or> c = CHR ''%''" if "c \<in> set (percent_byte n)" for n
    using that hex [of "n div 16"] hex [of n] by (auto simp: percent_byte_def)
  then show "c \<in> set (encodeURIComponent s) \<Longrightarrow> unreserved c \<or> c = CHR ''%''"
    by (fastforce simp: encodeURIComponent_def encode_char_def Let_def split: if_splits)
qed

end
