(* ===== verification/Governance.thy ===== *)
theory Governance
  imports JsNum
begin

text \<open>
  The small rule modules behind the platform's and a centre's own screens: takedown decisions
  (\<open>features/governance/decisions.ts\<close>), exposure (\<open>burn.ts\<close>) and subjects (\<open>subjects.ts\<close>), usage
  (\<open>features/usage/usage.ts\<close>), seat licences and the slug of an organization (\<open>features/platform\<close>), cue
  cards (\<open>features/cuecards/prompts.ts\<close>) and the spread of a class (\<open>features/results/distribution.ts\<close>).
\<close>

subsection \<open>Takedowns\<close>

datatype decision = Reviewing | Upheld | Rejected | CounterNoticed | Withdrawn

definition DECISION_LIST :: "(decision \<times> string) list" where
  "DECISION_LIST =
     [(Reviewing, ''Reviewing''), (Upheld, ''Upheld''), (Rejected, ''Rejected''),
      (CounterNoticed, ''Counter-noticed''), (Withdrawn, ''Withdrawn'')]"

definition status_of :: "decision \<Rightarrow> string" where
  "status_of d = (case d of Reviewing \<Rightarrow> ''reviewing'' | Upheld \<Rightarrow> ''upheld'' | Rejected \<Rightarrow> ''rejected''
     | CounterNoticed \<Rightarrow> ''counter_noticed'' | Withdrawn \<Rightarrow> ''withdrawn'')"

definition isOpen :: "string option \<Rightarrow> bool" where
  "isOpen status \<longleftrightarrow> status = Some ''received'' \<or> status = Some ''reviewing''"

definition waitingDays :: "string option \<Rightarrow> real \<Rightarrow> int option" where
  "waitingDays receivedAt now =
     (if \<not> truthy_str receivedAt then None
      else case date_parse (nullish receivedAt []) of
        NaN \<Rightarrow> None
      | Num filed \<Rightarrow> Some (max 0 \<lfloor>(now - filed) / 86400000\<rfloor>))"

subsection \<open>Exposure\<close>

record exposure =
  burn_score :: "real option"
  times_sat :: "real option"

text \<open>\<open>Math.round\<close> rounds a half up.\<close>

definition burnPercent :: "real option \<Rightarrow> int" where
  "burnPercent burn = (case burn of None \<Rightarrow> 0 | Some b \<Rightarrow> \<lfloor>min 1 (max 0 b) * 100 + 1 / 2\<rfloor>)"

text \<open>The comparator; a row is what \<open>exposure_of\<close> finds an exposure in.\<close>

definition burn_order :: "exposure option \<Rightarrow> exposure option \<Rightarrow> real" where
  "burn_order a b =
     (case (a, b) of
        (Some x, Some y) \<Rightarrow>
          let byBurn = nullish (burn_score y) 0 - nullish (burn_score x) 0
          in if byBurn \<noteq> 0 then byBurn else nullish (times_sat y) 0 - nullish (times_sat x) 0
      | _ \<Rightarrow> (if a \<noteq> None then 0 else 1) - (if b \<noteq> None then 0 else 1))"

definition rankByBurn :: "('r \<Rightarrow> exposure option) \<Rightarrow> 'r list \<Rightarrow> 'r list" where
  "rankByBurn exposure_of rs = js_sort (\<lambda>a b. burn_order (exposure_of a) (exposure_of b) > 0) rs"

subsection \<open>Subjects\<close>

definition LABELS :: "(string \<times> string) list" where
  "LABELS = [(''test'', ''Test''), (''passage'', ''Passage''), (''audio_track'', ''Audio track''),
     (''question_group'', ''Question group''), (''question'', ''Question''), (''cue_card_set'', ''Cue card set''), (''band_map'', ''Band map'')]"

definition SUBJECT_TYPES :: "string list" where
  "SUBJECT_TYPES = map fst LABELS"

definition subjectLabel :: "string option \<Rightarrow> string" where
  "subjectLabel t =
     (if \<not> truthy_str t then ''Unknown'' else nullish (map_of LABELS (nullish t [])) (nullish t []))"

subsection \<open>Usage\<close>

record usage_reference =
  ur_status :: "string option"
  ur_title :: "string option"

record usage_report =
  published_count :: "nat option"
  draft_count :: "nat option"
  references :: "usage_reference list option"

record tally =
  t_published :: nat
  t_draft :: nat
  t_archived :: nat
  t_other :: nat
  t_total :: nat

definition EMPTY_TALLY :: tally where
  "EMPTY_TALLY = \<lparr>t_published = 0, t_draft = 0, t_archived = 0, t_other = 0, t_total = 0\<rparr>"

definition count_reference :: "usage_reference \<Rightarrow> tally \<Rightarrow> tally" where
  "count_reference row t =
     (if ur_status row = Some ''published'' then t\<lparr>t_published := Suc (t_published t)\<rparr>
      else if ur_status row = Some ''archived'' then t\<lparr>t_archived := Suc (t_archived t)\<rparr>
      else if ur_status row = Some ''draft'' then t\<lparr>t_draft := Suc (t_draft t)\<rparr>
      else t\<lparr>t_other := Suc (t_other t)\<rparr>)"

definition usage_tally :: "usage_report option \<Rightarrow> tally" where
  "usage_tally report =
     (case report of
        None \<Rightarrow> EMPTY_TALLY
      | Some rep \<Rightarrow>
          (case nullish (references rep) [] of
             [] \<Rightarrow> EMPTY_TALLY\<lparr>t_published := nullish (published_count rep) 0, t_draft := nullish (draft_count rep) 0,
                     t_total := nullish (published_count rep) 0 + nullish (draft_count rep) 0\<rparr>
           | rs \<Rightarrow> fold count_reference rs (EMPTY_TALLY\<lparr>t_total := length rs\<rparr>)))"

definition RISK :: "string option \<Rightarrow> nat" where
  "RISK s = nullish (map_of [(''published'', 0), (''in_review'', 1), (''draft'', 2), (''archived'', 3)] (nullish s [])) 9"

text \<open>\<open>localeCompare\<close> is \<open>collate\<close>.\<close>

definition byRisk :: "(string \<Rightarrow> string \<Rightarrow> int) \<Rightarrow> usage_reference list option \<Rightarrow> usage_reference list" where
  "byRisk collate refs =
     js_sort (\<lambda>a b. if RISK (ur_status a) \<noteq> RISK (ur_status b) then RISK (ur_status a) > RISK (ur_status b)
                else collate (nullish (ur_title a) []) (nullish (ur_title b) []) > 0) (nullish refs [])"

subsection \<open>Seat licences\<close>

record seat_row =
  feature :: string
  source_kind :: "string option"
  revoked_at :: "string option"

definition live_seat :: "seat_row \<Rightarrow> bool" where
  "live_seat row \<longleftrightarrow> source_kind row = Some ''seat'' \<and> \<not> truthy_str (revoked_at row)"

definition feature_counts :: "seat_row list \<Rightarrow> (string, nat) jsmap" where
  "feature_counts rs =
     fold (\<lambda>row counts. jsmap_set (feature row) (nullish (jsmap_get counts (feature row)) 0 + 1) counts) (filter live_seat rs) []"

definition shadowedFeatures :: "seat_row list \<Rightarrow> string list" where
  "shadowedFeatures rs = map fst (filter (\<lambda>(_, n). n > 1) (feature_counts rs))"

definition hasLiveSeatLicence :: "seat_row list \<Rightarrow> bool" where
  "hasLiveSeatLicence rs \<longleftrightarrow> (\<exists>row \<in> set rs. live_seat row)"

definition quantityLabel :: "string option \<Rightarrow> int option \<Rightarrow> int option \<Rightarrow> string" where
  "quantityLabel kind quantity remaining =
     (if kind = Some ''seat'' then
        let seats = nullish quantity 0 in show_int seats @ '' seat'' @ (if seats = 1 then [] else ''s'')
      else case quantity of None \<Rightarrow> ''unlimited'' | Some q \<Rightarrow> show_int (nullish remaining 0) @ '' of '' @ show_int q)"

subsection \<open>The slug of an organization\<close>

text \<open>
  Names are written in several alphabets, so here a string is the list of its code units. The
  decomposition of Unicode and its lower case are \<open>nfd\<close> and \<open>lower_case\<close>.
\<close>

type_synonym units = "nat list"

definition HYPHEN :: nat where
  "HYPHEN = 45"

definition slug_unit :: "nat \<Rightarrow> bool" where
  "slug_unit c \<longleftrightarrow> 97 \<le> c \<and> c \<le> 122 \<or> 48 \<le> c \<and> c \<le> 57"

definition MAX_SLUG :: nat where
  "MAX_SLUG = 40"

text \<open>The okina and the four other marks typed for it.\<close>

definition okina :: "nat \<Rightarrow> bool" where
  "okina c \<longleftrightarrow> c \<in> {699, 700, 8216, 8217, 39}"

text \<open>\<open>replace(/[^a-z0-9]+/g, "-")\<close>: one hyphen for each run.\<close>

fun hyphenate :: "bool \<Rightarrow> units \<Rightarrow> units" where
  "hyphenate inside [] = []"
| "hyphenate inside (c # s) =
     (if slug_unit c then c # hyphenate False s else if inside then hyphenate True s else HYPHEN # hyphenate True s)"

definition strip_end :: "units \<Rightarrow> units" where
  "strip_end s = rev (dropWhile (\<lambda>c. c = HYPHEN) (rev s))"

definition suggestSlug :: "(units \<Rightarrow> units) \<Rightarrow> (units \<Rightarrow> units) \<Rightarrow> units \<Rightarrow> units" where
  "suggestSlug nfd lower_case name =
     (let marks = filter (\<lambda>c. \<not> (768 \<le> c \<and> c \<le> 879)) (nfd name);
          plain = lower_case (filter (\<lambda>c. \<not> okina c) marks);
          stripped = strip_end (dropWhile (\<lambda>c. c = HYPHEN) (hyphenate False plain))
      in if length stripped < 3 then [] else strip_end (take MAX_SLUG stripped))"

datatype slug_complaint = GiveAName | AtLeastThree | AtMostForty | NotTheseCharacters

definition slugProblem :: "units \<Rightarrow> slug_complaint option" where
  "slugProblem slug =
     (if slug = [] then Some GiveAName
      else if length slug < 3 then Some AtLeastThree
      else if length slug > MAX_SLUG then Some AtMostForty
      else if \<not> list_all (\<lambda>c. slug_unit c \<or> c = HYPHEN) slug then Some NotTheseCharacters
      else None)"

subsection \<open>Cue cards\<close>

record cue_card_body =
  part1 :: "string list"
  part2 :: "(string \<times> string list) option"
  part3 :: "string list"

definition prompt_lines :: "string \<Rightarrow> string list" where
  "prompt_lines t = filter (\<lambda>l. l \<noteq> []) (map js_trim (js_split (CHR 0x0A) t))"

definition toBody :: "string \<Rightarrow> string \<Rightarrow> string \<Rightarrow> string \<Rightarrow> cue_card_body" where
  "toBody p1 topic bullets p3 =
     \<lparr>part1 = prompt_lines p1,
      part2 = (if js_trim topic \<noteq> [] then Some (js_trim topic, prompt_lines bullets) else None),
      part3 = prompt_lines p3\<rparr>"

definition promptCount :: "cue_card_body \<Rightarrow> nat" where
  "promptCount b = length (part1 b) + (if part2 b \<noteq> None then 1 else 0) + length (part3 b)"

datatype prompt_problem = GiveTitle | NoPrompts | BulletsWithoutTopic

definition promptProblems :: "string \<Rightarrow> cue_card_body \<Rightarrow> string \<Rightarrow> prompt_problem list" where
  "promptProblems title b bulletsText =
     (if js_trim title = [] then [GiveTitle] else []) @
     (if promptCount b = 0 then [NoPrompts] else []) @
     (if part2 b = None \<and> prompt_lines bulletsText \<noteq> [] then [BulletsWithoutTopic] else [])"

subsection \<open>The spread of a class\<close>

definition BANDS :: "real list" where
  "BANDS = [4, 9/2, 5, 11/2, 6, 13/2, 7, 15/2, 8, 17/2, 9]"

definition reported :: "real \<Rightarrow> real" where
  "reported band = of_int \<lfloor>band * 2\<rfloor> / 2"

definition distribution :: "real list \<Rightarrow> (real \<times> nat) list" where
  "distribution bands =
     map (\<lambda>band. (band, length (filter (\<lambda>v. min 9 (max 4 (reported v)) = band) bands))) BANDS"

definition mean_band :: "real list \<Rightarrow> real option" where
  "mean_band bands =
     (if bands = [] then None else Some (of_int \<lfloor>foldl (+) 0 bands / of_nat (length bands) * 10 + 1 / 2\<rfloor> / 10))"

subsection \<open>What is proved\<close>

text \<open>The queue: a decision leaves a request open exactly when it is \<open>Reviewing\<close>, and the one it cannot set is \<open>received\<close>.\<close>

lemma decision_open: "isOpen (Some (status_of d)) \<longleftrightarrow> d = Reviewing" "status_of d \<noteq> ''received''"
  by (cases d; simp add: isOpen_def status_of_def)+

lemma decision_list_complete: "\<exists>label. (d, label) \<in> set DECISION_LIST"
  by (cases d) (auto simp: DECISION_LIST_def)

lemma waitingDays_future: "date_parse s = Num filed \<Longrightarrow> s \<noteq> [] \<Longrightarrow> now \<le> filed \<Longrightarrow> waitingDays (Some s) now = Some 0"
  by (simp add: waitingDays_def max_def floor_le_zero)

lemma burnPercent_bounds: "0 \<le> burnPercent b \<and> burnPercent b \<le> 100"
proof (cases b)
  case (Some x)
  have "0 \<le> min 1 (max 0 x) * 100" "min 1 (max 0 x) * 100 \<le> 100" by simp_all
  then have "0 \<le> \<lfloor>min 1 (max 0 x) * 100 + 1 / 2\<rfloor>" "\<lfloor>min 1 (max 0 x) * 100 + 1 / 2\<rfloor> < 101"
    by linarith+
  then show ?thesis by (simp add: Some burnPercent_def)
qed (simp add: burnPercent_def)

definition burn_before :: "exposure option \<Rightarrow> exposure option \<Rightarrow> bool" where
  "burn_before a b \<longleftrightarrow>
     (case (a, b) of
        (Some x, Some y) \<Rightarrow> nullish (burn_score x) 0 > nullish (burn_score y) 0 \<or>
           nullish (burn_score x) 0 = nullish (burn_score y) 0 \<and> nullish (times_sat x) 0 \<ge> nullish (times_sat y) 0
      | (None, Some _) \<Rightarrow> False
      | _ \<Rightarrow> True)"

interpretation burn: list_order "\<lambda>a b. burn_order (exposure_of a) (exposure_of b) > 0" "\<lambda>a b. burn_before (exposure_of a) (exposure_of b)"
proof
  fix x y z
  show "if burn_order (exposure_of x) (exposure_of y) > 0 then burn_before (exposure_of y) (exposure_of x)
      else burn_before (exposure_of x) (exposure_of y)"
    by (cases "exposure_of x"; cases "exposure_of y") (auto simp: burn_order_def burn_before_def Let_def)
  show "burn_before (exposure_of x) (exposure_of y) \<Longrightarrow> burn_before (exposure_of y) (exposure_of z) \<Longrightarrow>
      burn_before (exposure_of x) (exposure_of z)"
    by (cases "exposure_of x"; cases "exposure_of y"; cases "exposure_of z") (auto simp: burn_before_def)
qed

text \<open>The worst item is on top, ties by sittings, and an item that could not be read is never above one that was.\<close>

lemma rankByBurn_sorts: "sorted_wrt (\<lambda>a b. burn_before (exposure_of a) (exposure_of b)) (rankByBurn exposure_of rs)"
  unfolding rankByBurn_def by (rule burn.sorts)

lemma subject_never_blank: "subjectLabel t \<noteq> []"
proof (cases "truthy_str t")
  case True
  then obtain s where s: "t = Some s" "s \<noteq> []" by (cases t) auto
  have "\<forall>p \<in> set LABELS. snd p \<noteq> []" by (simp add: LABELS_def)
  then have "map_of LABELS s = Some l \<Longrightarrow> l \<noteq> []" for l by (auto dest!: map_of_SomeD)
  with s show ?thesis by (cases "map_of LABELS s") (auto simp: subjectLabel_def)
qed (simp add: subjectLabel_def)

lemma count_reference_total:
  "t_total (count_reference r t) = t_total t"
  "t_published (count_reference r t) + t_draft (count_reference r t) + t_archived (count_reference r t) + t_other (count_reference r t) =
     Suc (t_published t + t_draft t + t_archived t + t_other t)"
  by (simp_all add: count_reference_def)

lemma usage_fold:
  "t_total (fold count_reference rs t) = t_total t \<and>
   t_published (fold count_reference rs t) + t_draft (fold count_reference rs t) + t_archived (fold count_reference rs t) +
     t_other (fold count_reference rs t) = t_published t + t_draft t + t_archived t + t_other t + length rs"
  by (induction rs arbitrary: t) (simp_all add: count_reference_total)

lemma usage_adds_up:
  "t_published (usage_tally r) + t_draft (usage_tally r) + t_archived (usage_tally r) + t_other (usage_tally r) = t_total (usage_tally r)"
proof (cases r)
  case (Some rep)
  show ?thesis
    using usage_fold [of "nullish (references rep) []" "EMPTY_TALLY\<lparr>t_total := length (nullish (references rep) [])\<rparr>"]
    by (auto simp: Some usage_tally_def EMPTY_TALLY_def split: list.splits)
qed (simp add: usage_tally_def EMPTY_TALLY_def)

text \<open>Seats: the features named are those with more than one live licence, each once.\<close>

lemma feature_counts_fold:
  "nullish (jsmap_get (fold (\<lambda>row counts. jsmap_set (feature row) (nullish (jsmap_get counts (feature row)) 0 + 1) counts) rs m) f) 0 =
     nullish (jsmap_get m f) 0 + length (filter (\<lambda>r. feature r = f) rs)"
  by (induction rs arbitrary: m) auto

lemma distinct_jsmap_set: "distinct (map fst m) \<Longrightarrow> distinct (map fst (jsmap_set k v m))"
  by (simp add: AList.distinct_update)

lemma feature_counts_distinct: "distinct (map fst (feature_counts rs))"
proof -
  have "distinct (map fst (fold (\<lambda>row counts. jsmap_set (feature row) (nullish (jsmap_get counts (feature row)) 0 + 1) counts) xs m))"
    if "distinct (map fst m)" for xs m
    using that by (induction xs arbitrary: m) (simp_all add: distinct_jsmap_set)
  note each = this
  show ?thesis unfolding feature_counts_def by (rule each) simp
qed

lemma shadowed_features_iff:
  "f \<in> set (shadowedFeatures rs) \<longleftrightarrow> 1 < length (filter (\<lambda>r. live_seat r \<and> feature r = f) rs)"
proof -
  have "nullish (map_of (feature_counts rs) f) 0 = length (filter (\<lambda>r. live_seat r \<and> feature r = f) rs)"
    using feature_counts_fold [of "filter live_seat rs" "[]" f] by (simp add: feature_counts_def conj_commute)
  moreover have "f \<in> set (shadowedFeatures rs) \<longleftrightarrow> (\<exists>n. (f, n) \<in> set (feature_counts rs) \<and> 1 < n)"
    unfolding shadowedFeatures_def by (auto simp: image_iff intro: rev_bexI)
  then have "f \<in> set (shadowedFeatures rs) \<longleftrightarrow> (\<exists>n. map_of (feature_counts rs) f = Some n \<and> 1 < n)"
    by (simp only: map_of_eq_Some_iff [OF feature_counts_distinct])
  ultimately show ?thesis by (cases "map_of (feature_counts rs) f") auto
qed

lemma shadowed_features_once: "distinct (shadowedFeatures rs)"
  unfolding shadowedFeatures_def using feature_counts_distinct by (rule distinct_map_filter)

subsection \<open>A slug that is suggested is accepted\<close>

text \<open>No two hyphens meet.\<close>

fun single_hyphens :: "units \<Rightarrow> bool" where
  "single_hyphens (a # b # s) = (\<not> (a = HYPHEN \<and> b = HYPHEN) \<and> single_hyphens (b # s))"
| "single_hyphens _ = True"

definition slug_text :: "units \<Rightarrow> bool" where
  "slug_text s \<longleftrightarrow> list_all (\<lambda>c. slug_unit c \<or> c = HYPHEN) s \<and> single_hyphens s"

lemma single_hyphens_sub: "single_hyphens (a @ s @ b) \<Longrightarrow> single_hyphens s"
proof -
  have "single_hyphens (x # s) \<Longrightarrow> single_hyphens s" for x s by (cases s) auto
  then have pre: "single_hyphens (a @ s) \<Longrightarrow> single_hyphens s" for a s by (induction a) auto
  have suf: "single_hyphens (s @ b) \<Longrightarrow> single_hyphens s" for s
    by (induction s rule: single_hyphens.induct) auto
  show "single_hyphens (a @ s @ b) \<Longrightarrow> single_hyphens s" using pre suf by blast
qed

lemma slug_text_sub: "slug_text (a @ s @ b) \<Longrightarrow> slug_text s"
  using single_hyphens_sub [of a s b] by (simp add: slug_text_def)

lemma hyphen_not_unit: "\<not> slug_unit HYPHEN"
  by (simp add: slug_unit_def HYPHEN_def)

lemma hyphenate_text: "slug_text (hyphenate inside s) \<and> (inside \<longrightarrow> hyphenate inside s = [] \<or> hd (hyphenate inside s) \<noteq> HYPHEN)"
proof (induction inside s rule: hyphenate.induct)
  case (2 inside c s)
  have cons: "slug_text (x # xs) \<longleftrightarrow> (slug_unit x \<or> x = HYPHEN) \<and> (xs = [] \<or> \<not> (x = HYPHEN \<and> hd xs = HYPHEN)) \<and> slug_text xs" for x xs
    by (cases xs) (auto simp: slug_text_def)
  show ?case using 2 hyphen_not_unit by (auto simp: cons)
qed (simp add: slug_text_def)

lemma strip_end_split: "\<exists>b. s = strip_end s @ b \<and> list_all (\<lambda>c. c = HYPHEN) b"
proof -
  have "rev s = takeWhile (\<lambda>c. c = HYPHEN) (rev s) @ dropWhile (\<lambda>c. c = HYPHEN) (rev s)" by simp
  then have "s = strip_end s @ rev (takeWhile (\<lambda>c. c = HYPHEN) (rev s))"
    unfolding strip_end_def by (metis rev_append rev_rev_ident)
  moreover have "list_all (\<lambda>c. c = HYPHEN) (rev (takeWhile (\<lambda>c. c = HYPHEN) (rev s)))"
    by (auto simp: list_all_iff dest: set_takeWhileD)
  ultimately show ?thesis by blast
qed

lemma strip_end_last: "strip_end s \<noteq> [] \<Longrightarrow> last (strip_end s) \<noteq> HYPHEN"
  unfolding strip_end_def using hd_dropWhile [of "\<lambda>c. c = HYPHEN" "rev s"] by (simp add: last_rev)

lemma strip_end_short: "single_hyphens s \<Longrightarrow> length s \<le> length (strip_end s) + 1"
proof -
  assume h: "single_hyphens s"
  obtain b where b: "s = strip_end s @ b" "list_all (\<lambda>c. c = HYPHEN) b" using strip_end_split by blast
  have "single_hyphens b" using h b(1) single_hyphens_sub [of "strip_end s" b "[]"] by simp
  then have "length b \<le> 1" using b(2) by (cases b rule: single_hyphens.cases) auto
  then show ?thesis using b(1) by (metis length_append add_left_mono)
qed

lemma strip_end_id: "s \<noteq> [] \<Longrightarrow> last s \<noteq> HYPHEN \<Longrightarrow> strip_end s = s"
  by (cases s rule: rev_cases) (simp_all add: strip_end_def)

text \<open>A slug that is suggested is one the form and the server accept, whatever the name and whatever
  Unicode does to it: between three and forty characters, all of them allowed, and no hyphen at either
  end. Otherwise nothing is suggested at all.\<close>

theorem suggestion_acceptable:
  "suggestSlug nfd lower_case name = [] \<or>
   slugProblem (suggestSlug nfd lower_case name) = None \<and>
     hd (suggestSlug nfd lower_case name) \<noteq> HYPHEN \<and> last (suggestSlug nfd lower_case name) \<noteq> HYPHEN"
proof -
  define plain where "plain = lower_case (filter (\<lambda>c. \<not> okina c) (filter (\<lambda>c. \<not> (768 \<le> c \<and> c \<le> 879)) (nfd name)))"
  define front where "front = dropWhile (\<lambda>c. c = HYPHEN) (hyphenate False plain)"
  define stripped where "stripped = strip_end front"
  define out where "out = strip_end (take MAX_SLUG stripped)"
  have sugg: "suggestSlug nfd lower_case name = (if length stripped < 3 then [] else out)"
    by (simp add: suggestSlug_def Let_def out_def stripped_def front_def plain_def)
  show ?thesis
  proof (cases "length stripped < 3")
    case False
    have "slug_text (hyphenate False plain)" using hyphenate_text by blast
    then have "slug_text front"
      using slug_text_sub [of "takeWhile (\<lambda>c. c = HYPHEN) (hyphenate False plain)" front "[]"] by (simp add: front_def)
    moreover obtain b where b: "front = stripped @ b" using strip_end_split [of front] by (auto simp: stripped_def)
    ultimately have st: "slug_text stripped" using slug_text_sub [of "[]" stripped b] by simp
    then have tk: "slug_text (take MAX_SLUG stripped)"
      using slug_text_sub [of "[]" "take MAX_SLUG stripped" "drop MAX_SLUG stripped"] by simp
    obtain d where d: "take MAX_SLUG stripped = out @ d" using strip_end_split [of "take MAX_SLUG stripped"] by (auto simp: out_def)
    with tk have ok: "slug_text out" using slug_text_sub [of "[]" out d] by simp
    have ne: "stripped \<noteq> []" using False by auto
    have "last stripped \<noteq> HYPHEN" using strip_end_last [of front] ne by (simp add: stripped_def)
    have len: "3 \<le> length out"
    proof (cases "length stripped \<le> MAX_SLUG")
      case True
      then have "out = stripped" using ne \<open>last stripped \<noteq> HYPHEN\<close> by (simp add: out_def strip_end_id)
      then show ?thesis using False by simp
    next
      case long: False
      then have "length (take MAX_SLUG stripped) = 40" by (simp add: MAX_SLUG_def)
      moreover have "length (take MAX_SLUG stripped) \<le> length out + 1"
        unfolding out_def using tk by (intro strip_end_short) (simp add: slug_text_def)
      ultimately show ?thesis by linarith
    qed
    have "length out \<le> length (take MAX_SLUG stripped)" by (subst d) simp
    then have "length out \<le> MAX_SLUG" by simp
    then have "slugProblem out = None" using len ok by (auto simp: slugProblem_def slug_text_def)
    moreover have "out \<noteq> []" using len by auto
    moreover from this have "last out \<noteq> HYPHEN" unfolding out_def by (rule strip_end_last)
    moreover have "hd out \<noteq> HYPHEN"
    proof -
      have "front \<noteq> []" using b ne by simp
      then have "hd front \<noteq> HYPHEN" unfolding front_def by (rule hd_dropWhile)
      moreover have "hd front = hd out"
        using b ne d \<open>out \<noteq> []\<close> by (metis append_take_drop_id append_is_Nil_conv hd_append2)
      ultimately show ?thesis by simp
    qed
    ultimately show ?thesis using False by (simp add: sugg)
  qed (simp add: sugg)
qed

subsection \<open>Cue cards and bands\<close>

lemma set_with_prompts: "promptProblems title (toBody p1 topic bullets p3) bullets = [] \<Longrightarrow>
   0 < promptCount (toBody p1 topic bullets p3) \<and> js_trim title \<noteq> [] \<and>
   (prompt_lines bullets = [] \<or> part2 (toBody p1 topic bullets p3) = Some (js_trim topic, prompt_lines bullets))"
  by (auto simp: promptProblems_def toBody_def split: if_splits)

lemma half_step:
  assumes "4 \<le> r" "r \<le> 9" "r = of_int k / 2"
  shows "r \<in> set BANDS"
proof -
  have "8 \<le> k" "k \<le> 18" using assms by simp_all
  then have "k = 8 \<or> k = 9 \<or> k = 10 \<or> k = 11 \<or> k = 12 \<or> k = 13 \<or> k = 14 \<or> k = 15 \<or> k = 16 \<or> k = 17 \<or> k = 18"
    by presburger
  then show ?thesis using assms(3) by (auto simp: BANDS_def)
qed

lemma in_one_bucket: "min 9 (max 4 (reported v)) \<in> set BANDS"
proof -
  define r where "r = min 9 (max 4 (reported v))"
  have "r = of_int 18 / 2 \<or> r = of_int 8 / 2 \<or> r = of_int \<lfloor>v * 2\<rfloor> / 2"
    by (auto simp: r_def reported_def min_def max_def)
  moreover have "4 \<le> r" "r \<le> 9" by (simp_all add: r_def)
  ultimately have "r \<in> set BANDS" using half_step by metis
  then show ?thesis by (simp add: r_def)
qed

lemma sum_none: "x \<notin> set xs \<Longrightarrow> sum_list (map (\<lambda>b. if x = b then 1 else 0 :: nat) xs) = 0"
  by (induction xs) auto

lemma sum_one: "distinct xs \<Longrightarrow> x \<in> set xs \<Longrightarrow> sum_list (map (\<lambda>b. if x = b then 1 else 0 :: nat) xs) = 1"
  by (induction xs) (auto simp: sum_none)

lemma distinct_BANDS: "distinct BANDS"
  by (simp add: BANDS_def)

lemma filter_length_add:
  "length (filter P (v # vs)) = (if P v then 1 else 0) + length (filter P vs)"
  by simp

text \<open>Every student is in exactly one bar: the counts of the distribution add up to the number of bands,
  those below the scale and above it included.\<close>

theorem distribution_counts_everyone:
  "sum_list (map snd (distribution bands)) = length bands \<and> map fst (distribution bands) = BANDS"
proof
  let ?at = "\<lambda>v. min 9 (max 4 (reported v))"
  have "sum_list (map (\<lambda>band. length (filter (\<lambda>v. ?at v = band) bands)) BANDS) = length bands"
  proof (induction bands)
    case Nil
    show ?case by (simp add: sum_list_0)
  next
    case (Cons v vs)
    have "sum_list (map (\<lambda>band. length (filter (\<lambda>v. ?at v = band) (v # vs))) BANDS) =
        sum_list (map (\<lambda>band. if ?at v = band then 1 else 0) BANDS) + sum_list (map (\<lambda>band. length (filter (\<lambda>v. ?at v = band) vs)) BANDS)"
      by (simp only: filter_length_add sum_list_addf)
    with Cons sum_one [OF distinct_BANDS in_one_bucket [of v]] show ?case by (simp only: list.size)
  qed
  then show "sum_list (map snd (distribution bands)) = length bands" by (simp add: distribution_def o_def)
  show "map fst (distribution bands) = BANDS" by (simp add: distribution_def o_def)
qed

end
