(* ===== verification/Regrade.thy ===== *)
theory Regrade
  imports AnswerKey Problems
begin

text \<open>
  Keys and regrades: \<open>web/src/features/regrade/Regrades.tsx\<close>, against the job that
  \<open>app/api/routers/teaching.py\<close> serves and applies, the contests of \<open>competitions.py\<close> and the planner's result.
\<close>

subsection \<open>The job on the server\<close>

record contest =
  ct_xid :: "string option"
  ct_title :: "string option"
  ct_required :: bool

record job =
  jb_xid :: string
  jb_status :: string
  jb_dry_run :: bool
  jb_attempts :: nat
  jb_scores :: nat
  jb_bands :: nat
  jb_contests :: "contest list"

text \<open>One job with the contests decided for it.\<close>

record regrade_server =
  rs_job :: job
  rs_decided :: "string list"

definition regrade_refusal :: "string \<Rightarrow> string \<Rightarrow> failure" where
  "regrade_refusal title code = ApiProblem \<lparr>problem_title = Some title, problem_code = Some code, findings = None\<rparr>"

definition undecided_competitions :: "regrade_server \<Rightarrow> string list" where
  "undecided_competitions w =
     filter (\<lambda>x. x \<noteq> [] \<and> x \<notin> set (rs_decided w))
       (map (\<lambda>c. nullish (ct_xid c) []) (filter ct_required (jb_contests (rs_job w))))"

definition apply_regrade :: "regrade_server \<Rightarrow> failure option \<times> regrade_server" where
  "apply_regrade w =
     (if jb_status (rs_job w) \<noteq> ''ready'' then
        (Some (regrade_refusal (''This job is '' @ [CHR 0x27] @ jb_status (rs_job w) @ [CHR 0x27] @ ''. Only a planned job can be applied.'')
           ''regrade_not_ready''), w)
      else if undecided_competitions w \<noteq> [] then
        (Some (regrade_refusal (''This regrade would change finished competition rankings; a platform '' @ ''admin must decide first.'')
           ''competition_decision_required''), w)
      else (None, w\<lparr>rs_job := (rs_job w)\<lparr>jb_dry_run := False, jb_status := ''running''\<rparr>\<rparr>))"

definition decide_regrade :: "bool \<Rightarrow> string \<Rightarrow> string \<Rightarrow> string option \<Rightarrow> regrade_server \<Rightarrow> failure option \<times> regrade_server" where
  "decide_regrade is_admin competition decision notice w =
     (if \<not> is_admin then
        (Some (regrade_refusal ''Deciding a competition regrade is a platform-admin action.'' ''admin_only''), w)
      else if decision = ''regrade_and_republish'' \<and> \<not> truthy_str notice then
        (Some (regrade_refusal ''Republishing a changed ranking requires a public notice.'' ''public_notice_required''), w)
      else (None, w\<lparr>rs_decided := competition # rs_decided w\<rparr>))"

text \<open>The job as it is read: the contests are those the planner stored.\<close>

definition regrade_dto :: "regrade_server \<Rightarrow> job" where
  "regrade_dto w = rs_job w"

subsection \<open>The impact panel\<close>

definition SETTLED :: "string list" where
  "SETTLED = [''ready'', ''running'', ''completed'', ''failed'', ''cancelled'']"

definition IN_FLIGHT :: "string list" where
  "IN_FLIGHT = [''planning'', ''running'']"

text \<open>The poll of the list and of the open job, in milliseconds.\<close>

definition jobs_interval :: "job list option \<Rightarrow> nat option" where
  "jobs_interval js = (if \<exists>j \<in> set (nullish js []). jb_status j \<in> set IN_FLIGHT then Some 5000 else None)"

definition impact_interval :: "job option \<Rightarrow> nat option" where
  "impact_interval j = (if (case j of None \<Rightarrow> [] | Some x \<Rightarrow> jb_status x) \<in> set IN_FLIGHT then Some 5000 else None)"

datatype impact_line =
    WorkingOut
  | Numbers nat nat nat nat
  | BlockedBy "string list"
  | DecisionForm string
  | SendReference string
  | ApplyButton
  | ApplyingNow
  | Applied
  | ApplyFailed

definition contest_name :: "contest \<Rightarrow> string" where
  "contest_name c = (case ct_title c of Some t \<Rightarrow> t | None \<Rightarrow> nullish (ct_xid c) [])"

definition blocked :: "job \<Rightarrow> bool" where
  "blocked j \<longleftrightarrow> list_ex ct_required (jb_contests j)"

definition settled :: "job \<Rightarrow> bool" where
  "settled j \<longleftrightarrow> jb_status j \<in> set SETTLED"

definition impact_panel :: "bool \<Rightarrow> job \<Rightarrow> impact_line list" where
  "impact_panel is_admin j =
     (if \<not> settled j then [WorkingOut]
      else [Numbers (jb_attempts j) (jb_scores j) (jb_bands j) (jb_bands j)] @
        (if blocked j then
           BlockedBy (map contest_name (jb_contests j)) #
           (if is_admin
            then map (\<lambda>c. DecisionForm (nullish (ct_xid c) [])) (filter (\<lambda>c. ct_required c \<and> truthy_str (ct_xid c)) (jb_contests j))
            else [SendReference (jb_xid j)])
         else []) @
        (if jb_dry_run j \<and> \<not> blocked j \<and> jb_status j = ''ready'' then [ApplyButton] else []) @
        (if jb_status j = ''running'' then [ApplyingNow] else []) @
        (if jb_status j = ''completed'' then [Applied] else []) @
        (if jb_status j = ''failed'' then [ApplyFailed] else []))"

subsection \<open>The page\<close>

record key_version =
  kx_xid :: string
  kx_no :: nat
  kx_current :: bool
  kx_key :: json

record regrade_page =
  rg_question :: string
  rg_keyText :: string
  rg_keyValue :: key_value
  rg_slotCount :: nat
  rg_note :: string
  rg_opened :: "string option"
  rg_seededFrom :: "string option"
  rg_asking :: "string option"
  rg_error :: "string option"
  rg_trigger :: string
  rg_subjectType :: string
  rg_subjectXid :: string
  rg_why :: string

definition page_failure :: "failure \<Rightarrow> string" where
  "page_failure f =
     (let t = problemText (as_problem f) in
      if t \<noteq> [] then t else case f of JsError m \<Rightarrow> ''Error: '' @ m | ApiProblem _ \<Rightarrow> ''[object Object]'')"

definition choose_question :: "string \<Rightarrow> regrade_page \<Rightarrow> regrade_page" where
  "choose_question xid p = p\<lparr>rg_question := xid\<rparr>"

text \<open>What a render does with the history of the chosen question, if it has arrived.\<close>

definition currentKey :: "key_version list option \<Rightarrow> key_version option" where
  "currentKey history =
     (case history of
        None \<Rightarrow> None
      | Some vs \<Rightarrow>
          (case List.find kx_current vs of
             Some v \<Rightarrow> Some v
           | None \<Rightarrow> (case vs of [] \<Rightarrow> None | v # _ \<Rightarrow> Some v)))"

definition seed_editor :: "key_version list option \<Rightarrow> regrade_page \<Rightarrow> regrade_page" where
  "seed_editor history p =
     (case currentKey history of
        None \<Rightarrow> p
      | Some v \<Rightarrow>
          if rg_seededFrom p \<noteq> Some (kx_xid v)
          then p\<lparr>rg_seededFrom := Some (kx_xid v), rg_keyValue := fromKey (kx_key v), rg_slotCount := slotCountOf (kx_key v), rg_keyText := []\<rparr>
          else p)"

text \<open>What \<open>fixKey\<close> sends, and to which question; \<open>parse\<close> is \<open>JSON.parse\<close>.\<close>

record key_fix =
  kf_question :: string
  kf_key :: json
  kf_note :: "string option"

definition fix_body :: "(string \<Rightarrow> json option) \<Rightarrow> definition_of option \<Rightarrow> regrade_page \<Rightarrow> failure + key_fix" where
  "fix_body parse chosenType p =
     (let note = (if js_trim (rg_note p) \<noteq> [] then Some (js_trim (rg_note p)) else None);
          send = (\<lambda>k. Inr \<lparr>kf_question = rg_question p, kf_key = k, kf_note = note\<rparr>)
      in if js_trim (rg_keyText p) \<noteq> [] then
           (case parse (rg_keyText p) of
              None \<Rightarrow> Inl (JsError ''The corrected key is not valid JSON.'')
            | Some k \<Rightarrow> send k)
         else
           (case toKey (controlFor chosenType (slotIds (int (rg_slotCount p))) []) (rg_keyValue p) of
              None \<Rightarrow> Inl (JsError ''Fill in at least one answer before saving.'')
            | Some k \<Rightarrow> send k))"

definition key_fixed :: "failure + string option \<Rightarrow> regrade_page \<Rightarrow> regrade_page" where
  "key_fixed answer p =
     (case answer of
        Inl f \<Rightarrow> p\<lparr>rg_error := Some (page_failure f)\<rparr>
      | Inr job_xid \<Rightarrow>
          p\<lparr>rg_error := None, rg_keyText := [], rg_note := [],
            rg_opened := (if truthy_str job_xid then job_xid else rg_opened p)\<rparr>)"

record stage_body =
  sg_trigger :: string
  sg_type :: string
  sg_xid :: string
  sg_reason :: string

definition TRIGGERS :: "string list" where
  "TRIGGERS = [''band_map_change'', ''engine_fix'', ''manual'']"

definition SUBJECTS :: "string list" where
  "SUBJECTS = [''band_map_version'', ''test_version'', ''question_version'', ''attempt'']"

definition choose_subject_type :: "string \<Rightarrow> regrade_page \<Rightarrow> regrade_page" where
  "choose_subject_type t p = p\<lparr>rg_subjectType := t, rg_subjectXid := []\<rparr>"

text \<open>The button is off while no subject is chosen.\<close>

definition stage_request :: "regrade_page \<Rightarrow> failure + stage_body" where
  "stage_request p =
     (if js_trim (rg_why p) = [] then Inl (JsError ''Say why this regrade is being staged.'')
      else Inr \<lparr>sg_trigger = rg_trigger p, sg_type = rg_subjectType p, sg_xid = rg_subjectXid p, sg_reason = js_trim (rg_why p)\<rparr>)"

definition staged :: "failure + string option \<Rightarrow> regrade_page \<Rightarrow> regrade_page" where
  "staged answer p =
     (case answer of
        Inl f \<Rightarrow> p\<lparr>rg_error := Some (page_failure f)\<rparr>
      | Inr xid \<Rightarrow>
          p\<lparr>rg_error := None, rg_subjectXid := [], rg_why := [],
            rg_opened := (if truthy_str xid then xid else rg_opened p)\<rparr>)"

definition toggle_job :: "string \<Rightarrow> regrade_page \<Rightarrow> regrade_page" where
  "toggle_job xid p = p\<lparr>rg_opened := (if rg_opened p = Some xid then None else Some xid)\<rparr>"

text \<open>The dialog over the button: open while it asks about the job shown.\<close>

definition ask_apply :: "job \<Rightarrow> regrade_page \<Rightarrow> regrade_page" where
  "ask_apply j p = (if ApplyButton \<in> set (impact_panel False j) then p\<lparr>rg_asking := Some (jb_xid j)\<rparr> else p)"

definition dialog_open :: "job \<Rightarrow> regrade_page \<Rightarrow> bool" where
  "dialog_open j p \<longleftrightarrow> ApplyButton \<in> set (impact_panel False j) \<and> rg_asking p = Some (jb_xid j)"

text \<open>Confirming, with the job on screen as it was last read.\<close>

definition confirm_apply :: "job \<Rightarrow> regrade_page \<Rightarrow> regrade_server \<Rightarrow> regrade_page \<times> regrade_server" where
  "confirm_apply j p w =
     (if \<not> dialog_open j p then (p, w)
      else case apply_regrade w of
        (None, w') \<Rightarrow> (p\<lparr>rg_error := None, rg_asking := None\<rparr>, w')
      | (Some f, w') \<Rightarrow> (p\<lparr>rg_asking := None, rg_error := Some (problemText (as_problem f))\<rparr>, w'))"

subsection \<open>The decision about a contest\<close>

record decision_form =
  df_decision :: string
  df_rationale :: string
  df_notice :: string
  df_failed :: "string option"
  df_done :: bool

definition decision_body :: "decision_form \<Rightarrow> failure + (string \<times> string \<times> string option)" where
  "decision_body d =
     (if js_trim (df_rationale d) = []
      then Inl (JsError (''Say why. This row is the record of who decided and on '' @ ''what grounds.''))
      else Inr (df_decision d, js_trim (df_rationale d),
                if df_decision d = ''regrade_and_republish'' then Some (js_trim (df_notice d)) else None))"

definition record_decision :: "bool \<Rightarrow> string \<Rightarrow> decision_form \<Rightarrow> regrade_server \<Rightarrow> decision_form \<times> regrade_server" where
  "record_decision is_admin competition d w =
     (case decision_body d of
        Inl f \<Rightarrow> (d\<lparr>df_failed := Some (page_failure f)\<rparr>, w)
      | Inr (decision, _, notice) \<Rightarrow>
          (case decide_regrade is_admin competition decision notice w of
             (None, w') \<Rightarrow> (d\<lparr>df_failed := None, df_done := True\<rparr>, w')
           | (Some f, w') \<Rightarrow> (d\<lparr>df_failed := Some (page_failure f)\<rparr>, w')))"

fun record_decisions :: "bool \<Rightarrow> (string \<times> decision_form) list \<Rightarrow> regrade_server \<Rightarrow> regrade_server" where
  "record_decisions is_admin [] w = w"
| "record_decisions is_admin ((c, d) # ds) w = record_decisions is_admin ds (snd (record_decision is_admin c d w))"

subsection \<open>What is proved\<close>

lemma apply_button_iff:
  "ApplyButton \<in> set (impact_panel is_admin j) \<longleftrightarrow> jb_dry_run j \<and> \<not> blocked j \<and> jb_status j = ''ready''"
  by (auto simp: impact_panel_def settled_def SETTLED_def)

lemma unblocked_decided: "\<not> blocked (rs_job w) \<Longrightarrow> undecided_competitions w = []"
  by (auto simp: blocked_def undecided_competitions_def list_ex_iff filter_empty_conv)

text \<open>
  An apply is sent only from the open dialog. While the job is as it was read it is accepted; a job that
  has moved on is left alone and the reason shown.
\<close>

lemma confirmed_apply:
  assumes "dialog_open j p" and "regrade_dto w = j"
  shows "confirm_apply j p w = (p\<lparr>rg_error := None, rg_asking := None\<rparr>, w\<lparr>rs_job := j\<lparr>jb_dry_run := False, jb_status := ''running''\<rparr>\<rparr>)"
proof -
  have "\<not> blocked (rs_job w)" "jb_status (rs_job w) = ''ready''"
    using assms by (simp_all add: dialog_open_def apply_button_iff regrade_dto_def)
  with unblocked_decided [of w] assms show ?thesis by (simp add: confirm_apply_def apply_regrade_def regrade_dto_def)
qed

lemma late_confirm:
  "jb_status (rs_job w) \<noteq> ''ready'' \<Longrightarrow> snd (confirm_apply j p w) = w"
  "\<not> dialog_open j p \<Longrightarrow> confirm_apply j p w = (p, w)"
  by (simp_all add: confirm_apply_def apply_regrade_def)

lemma decision_keeps_job: "rs_job (snd (record_decision is_admin c d w)) = rs_job w"
  by (auto simp: record_decision_def decide_regrade_def split: sum.splits)

lemma decisions_keep_job: "rs_job (record_decisions is_admin ds w) = rs_job w"
  by (induction is_admin ds w rule: record_decisions.induct) (simp_all add: decision_keeps_job)

text \<open>
  C39: A regrade that touches a finished contest can never be applied from the console. The button is
  hidden while any contest of the impact requires a decision; recording decisions, however many and by
  whom, changes no such mark, so what is shown afterwards is what was shown before. On the server the
  apply is accepted as soon as each contest is decided - the screen says "Apply again to run the
  regrade" and has nothing to press.\<close>

theorem decided_job_has_no_apply:
  assumes "jb_status (rs_job w) = ''ready''" and "blocked (rs_job w)"
    and "\<forall>c \<in> set (jb_contests (rs_job w)). ct_required c \<longrightarrow> nullish (ct_xid c) [] \<in> set (rs_decided (record_decisions is_admin ds w))"
  shows "ApplyButton \<notin> set (impact_panel admin' (regrade_dto (record_decisions is_admin ds w))) \<and>
    impact_panel admin' (regrade_dto (record_decisions is_admin ds w)) = impact_panel admin' (regrade_dto w) \<and>
    fst (apply_regrade (record_decisions is_admin ds w)) = None"
proof -
  have "undecided_competitions (record_decisions is_admin ds w) = []"
    using assms(3) by (auto simp: undecided_competitions_def filter_empty_conv decisions_keep_job)
  then show ?thesis
    using assms(1,2) by (simp add: regrade_dto_def decisions_keep_job apply_button_iff apply_regrade_def)
qed

definition contested :: regrade_server where
  "contested = \<lparr>rs_job = \<lparr>jb_xid = ''j'', jb_status = ''ready'', jb_dry_run = True, jb_attempts = 34, jb_scores = 20, jb_bands = 12,
     jb_contests = [\<lparr>ct_xid = Some ''c'', ct_title = Some ''Spring'', ct_required = True\<rparr>]\<rparr>, rs_decided = []\<rparr>"

definition keep_board :: decision_form where
  "keep_board = \<lparr>df_decision = ''leave_as_is'', df_rationale = ''Below the podium.'', df_notice = [], df_failed = None, df_done = False\<rparr>"

theorem decided_job_has_no_apply_witness:
  "ApplyButton \<notin> set (impact_panel True (regrade_dto (record_decisions True [(''c'', keep_board)] contested))) \<and>
   fst (apply_regrade (record_decisions True [(''c'', keep_board)] contested)) = None"
proof -
  have trim: "js_trim ''Below the podium.'' \<noteq> []" by (simp add: js_trim_def trim_start_def is_space_def)
  then have "rs_decided (record_decisions True [(''c'', keep_board)] contested) = [''c'']"
    by (simp add: record_decision_def decision_body_def decide_regrade_def keep_board_def contested_def)
  then have all: "\<forall>c \<in> set (jb_contests (rs_job contested)). ct_required c \<longrightarrow>
      nullish (ct_xid c) [] \<in> set (rs_decided (record_decisions True [(''c'', keep_board)] contested))"
    by (simp add: contested_def)
  have "jb_status (rs_job contested) = ''ready''" "blocked (rs_job contested)" by (simp_all add: contested_def blocked_def)
  from decided_job_has_no_apply [OF this all, of True] show ?thesis by blast
qed


definition blank_page :: regrade_page where
  "blank_page = \<lparr>rg_question = ''qA'', rg_keyText = [], rg_keyValue = emptyValue, rg_slotCount = 1, rg_note = [], rg_opened = None,
     rg_seededFrom = None, rg_asking = None, rg_error = None, rg_trigger = ''manual'', rg_subjectType = ''attempt'',
     rg_subjectXid = [], rg_why = []\<rparr>"

definition choice_type :: definition_of where
  "choice_type = \<lparr>key_widget = Some ''multi_option_picker'', scoring_primitive = None, scoring_opts = None\<rparr>"

definition key_of_A :: key_version where
  "key_of_A = \<lparr>kx_xid = ''k1'', kx_no = 1, kx_current = True, kx_key = JObj [(''correct'', JArr [JStr ''B''])]\<rparr>"


lemma reseeded_on_arrival:
  "kx_current v \<Longrightarrow> rg_seededFrom p \<noteq> Some (kx_xid v) \<Longrightarrow>
     rg_keyValue (seed_editor (Some [v]) p) = fromKey (kx_key v) \<and> seed_editor (Some [v]) (seed_editor (Some [v]) p) = seed_editor (Some [v]) p"
  by (simp add: seed_editor_def currentKey_def)

lemma stage_needs_reason: "stage_request p = Inr b \<Longrightarrow> sg_reason b \<noteq> [] \<and> sg_xid b = rg_subjectXid p"
  by (auto simp: stage_request_def split: if_splits)

end
