(* ===== verification/SignIn.thy ===== *)
theory SignIn
  imports ApiClient Problems "HOL-Library.Multiset"
begin

text \<open>
  Signing in by a one-time code (\<open>student/src/auth/SignIn.tsx\<close>) and joining a centre from an invitation
  (\<open>auth/Join.tsx\<close>), with the handlers of \<open>app/api/routers/auth.py\<close> they rest on: asking for a code,
  charging and spending a challenge, verifying, previewing and redeeming an invitation. The handlers
  run concurrently, in the transactions the code cuts them into; SHA-256, fresh identifiers and codes
  are parameters.
\<close>

subsection \<open>What the server keeps\<close>

definition OTP_MAX_ATTEMPTS :: nat where "OTP_MAX_ATTEMPTS = 5"
definition OTP_PER_PHONE_PER_HOUR :: nat where "OTP_PER_PHONE_PER_HOUR = 5"
definition OTP_PER_IP_PER_HOUR :: nat where "OTP_PER_IP_PER_HOUR = 100"
definition OTP_TTL :: int where "OTP_TTL = 5 * 60 * 1000"
definition HOUR :: int where "HOUR = 60 * 60 * 1000"

text \<open>A row of \<open>otp_challenges\<close>; times are milliseconds.\<close>

record challenge =
  ch_xid :: string
  ch_phone :: string
  ch_hash :: string
  ch_ip :: "string option"
  ch_created :: int
  ch_expires :: int
  ch_attempts :: nat
  ch_max :: nat
  ch_consumed :: bool

text \<open>Users are numbered by their place in the table.\<close>

record user =
  us_phone :: string
  us_name :: string
  us_birth :: "string option"
  us_verified :: bool
  us_deleted :: bool
  us_active :: bool

record invitation =
  iv_id :: nat
  iv_hash :: string
  iv_org :: nat
  iv_cohort :: "nat option"
  iv_role :: string
  iv_phone :: string
  iv_expires :: int
  iv_accepted :: "nat option"
  iv_revoked :: bool

record membership =
  mb_org :: nat
  mb_user :: nat
  mb_role :: string

record auth_db =
  challenges :: "challenge list"
  users :: "user list"
  invitations :: "invitation list"
  memberships :: "membership list"
  cohort_org :: "nat \<rightharpoonup> nat"
  cohort_members :: "(nat \<times> nat) list"
  auth_sessions :: "nat list"
  queued :: "(nat \<times> string) list"

text \<open>A \<open>DomainError\<close>: its status, its sentence and its code.\<close>

datatype refusal = Refusal nat string string

definition NotFound :: "string \<Rightarrow> refusal" where "NotFound t = Refusal 404 t ''not_found''"
definition Unauthenticated :: "string \<Rightarrow> string \<Rightarrow> refusal" where "Unauthenticated t c = Refusal 401 t c"
definition Forbidden :: "string \<Rightarrow> string \<Rightarrow> refusal" where "Forbidden t c = Refusal 403 t c"
definition Gone :: "string \<Rightarrow> string \<Rightarrow> refusal" where "Gone t c = Refusal 410 t c"

definition user_of :: "string \<Rightarrow> user list \<Rightarrow> nat option" where
  "user_of phone us = find (\<lambda>i. us_phone (us ! i) = phone \<and> \<not> us_deleted (us ! i)) [0..<length us]"

subsection \<open>Asking for a code\<close>

definition recent :: "(challenge \<Rightarrow> bool) \<Rightarrow> int \<Rightarrow> challenge list \<Rightarrow> challenge list" where
  "recent of_it now cs = filter (\<lambda>c. of_it c \<and> now - HOUR < ch_created c) cs"

definition oldest :: "challenge list \<Rightarrow> int" where
  "oldest cs = Min (set (map ch_created cs))"

definition rate_limited :: "string \<Rightarrow> int \<Rightarrow> challenge list \<Rightarrow> refusal \<times> int" where
  "rate_limited said now cs = (Refusal 429 said ''rate_limited'', max 1 ((oldest cs + HOUR - now) div 1000))"

record code_answer =
  challenge_xid :: string
  pilot_code :: "string option"

text \<open>\<open>notify.queue\<close> finds no recipient for a number without a live, active account, and sends nothing.\<close>

definition queue_code :: "string \<Rightarrow> string \<Rightarrow> auth_db \<Rightarrow> auth_db" where
  "queue_code phone code db = (case user_of phone (users db) of
      None \<Rightarrow> db
    | Some u \<Rightarrow> if us_active (users db ! u) then db\<lparr>queued := queued db @ [(u, code)]\<rparr> else db)"

definition otp_request ::
  "(string \<Rightarrow> string) \<Rightarrow> bool \<Rightarrow> int \<Rightarrow> string option \<Rightarrow> string \<Rightarrow> string \<Rightarrow> string \<Rightarrow> auth_db \<Rightarrow>
     (refusal \<times> int) + (code_answer \<times> auth_db)"
where
  "otp_request hash pilot now ip xid code phone db =
     (let of_phone = recent (\<lambda>c. ch_phone c = phone) now (challenges db);
          of_ip = recent (\<lambda>c. ch_ip c = ip) now (challenges db)
      in if OTP_PER_PHONE_PER_HOUR \<le> length of_phone then Inl (rate_limited ''Too many codes requested for this number.'' now of_phone)
         else if ip \<noteq> None \<and> OTP_PER_IP_PER_HOUR \<le> length of_ip then Inl (rate_limited ''Too many codes requested from this address.'' now of_ip)
         else Inr (\<lparr>challenge_xid = xid, pilot_code = (if pilot then Some code else None)\<rparr>,
           queue_code phone code (db\<lparr>challenges := challenges db @
             [\<lparr>ch_xid = xid, ch_phone = phone, ch_hash = hash (xid @ '':'' @ code), ch_ip = ip, ch_created = now,
               ch_expires = now + OTP_TTL, ch_attempts = 0, ch_max = OTP_MAX_ATTEMPTS, ch_consumed = False\<rparr>]\<rparr>)))"

subsection \<open>Charging and spending a challenge\<close>

text \<open>The first transaction of \<open>_consume_challenge\<close>: the attempt is charged and committed.\<close>

definition open_row :: "string \<Rightarrow> challenge \<Rightarrow> bool" where
  "open_row xid c \<longleftrightarrow> ch_xid c = xid \<and> \<not> ch_consumed c"

definition charged_row :: "challenge \<Rightarrow> challenge" where
  "charged_row c = c\<lparr>ch_attempts := Suc (ch_attempts c)\<rparr>"

definition charge :: "string \<Rightarrow> auth_db \<Rightarrow> challenge option \<times> auth_db" where
  "charge xid db =
     (map_option charged_row (find (open_row xid) (challenges db)),
      db\<lparr>challenges := map (\<lambda>c. if open_row xid c then charged_row c else c) (challenges db)\<rparr>)"

text \<open>What is refused of the row the charge returned, before the code is spent.\<close>

definition examine :: "(string \<Rightarrow> string) \<Rightarrow> int \<Rightarrow> string \<Rightarrow> string \<Rightarrow> challenge option \<Rightarrow> refusal + challenge" where
  "examine hash now xid code row =
     (case row of
        None \<Rightarrow> Inl (Unauthenticated ''That code is not valid.'' ''invalid_code'')
      | Some c \<Rightarrow>
          if ch_expires c < now then Inl (Gone ''That code has expired. Request a new one.'' ''expired'')
          else if ch_max c < ch_attempts c then Inl (Gone ''Too many incorrect attempts. Request a new code.'' ''expired'')
          else if ch_hash c \<noteq> hash (xid @ '':'' @ code) then Inl (Unauthenticated ''That code is not valid.'' ''invalid_code'')
          else Inr c)"

text \<open>The claim carries the predicate itself: it takes the row only if nobody spent it meanwhile.\<close>

definition claim :: "challenge \<Rightarrow> auth_db \<Rightarrow> refusal + auth_db" where
  "claim c db =
     (if list_ex (open_row (ch_xid c)) (challenges db)
      then Inr (db\<lparr>challenges := map (\<lambda>d. if open_row (ch_xid c) d then d\<lparr>ch_consumed := True\<rparr> else d) (challenges db)\<rparr>)
      else Inl (Unauthenticated ''That code is not valid.'' ''invalid_code''))"

definition open_session :: "nat \<Rightarrow> auth_db \<Rightarrow> auth_db" where
  "open_session u db = db\<lparr>auth_sessions := auth_sessions db @ [u]\<rparr>"

definition verified :: "nat \<Rightarrow> auth_db \<Rightarrow> auth_db" where
  "verified u db = db\<lparr>users := (users db)[u := (users db ! u)\<lparr>us_verified := True\<rparr>]\<rparr>"

text \<open>
  The second transaction of \<open>otp_verify\<close>. A refusal rolls all of it back; the account signed in is
  returned with the new database.
\<close>

definition otp_verify ::
  "(string \<Rightarrow> string) \<Rightarrow> int \<Rightarrow> string \<Rightarrow> string \<Rightarrow> challenge option \<Rightarrow> auth_db \<Rightarrow> refusal + (nat \<times> auth_db)"
where
  "otp_verify hash now xid code row db =
     (case examine hash now xid code row of
        Inl r \<Rightarrow> Inl r
      | Inr c \<Rightarrow> (case claim c db of
          Inl r \<Rightarrow> Inl r
        | Inr db \<Rightarrow> (case user_of (ch_phone c) (users db) of
            None \<Rightarrow> Inl (NotFound ''No account exists for this number.'')
          | Some u \<Rightarrow> Inr (u, open_session u (verified u db)))))"

subsection \<open>Invitations\<close>

definition check_invite :: "int \<Rightarrow> invitation option \<Rightarrow> string \<Rightarrow> refusal + invitation" where
  "check_invite now row phone =
     (case row of
        None \<Rightarrow> Inl (NotFound ''Invite not found.'')
      | Some iv \<Rightarrow>
          if iv_phone iv \<noteq> phone then Inl (Forbidden ''This invitation was sent to a different phone number.'' ''invite_not_yours'')
          else if iv_revoked iv then Inl (Gone ''This invitation was withdrawn.'' ''invite_revoked'')
          else if iv_accepted iv \<noteq> None \<or> iv_expires iv < now then
            Inl (Gone ''This invite has expired or was already used.'' ''invite_unusable'')
          else Inr iv)"

definition invite_for :: "(string \<Rightarrow> string) \<Rightarrow> int \<Rightarrow> string \<Rightarrow> auth_db \<Rightarrow> refusal + invitation" where
  "invite_for hash now token db =
     (let row = find (\<lambda>iv. iv_hash iv = hash token) (invitations db)
      in check_invite now row (case row of None \<Rightarrow> [] | Some iv \<Rightarrow> iv_phone iv))"

record preview =
  pv_org :: nat
  pv_role :: string
  pv_hint :: string
  needs_account :: bool

definition invite_preview :: "(string \<Rightarrow> string) \<Rightarrow> int \<Rightarrow> string \<Rightarrow> auth_db \<Rightarrow> refusal + preview" where
  "invite_preview hash now token db =
     (case invite_for hash now token db of
        Inl r \<Rightarrow> Inl r
      | Inr iv \<Rightarrow> Inr \<lparr>pv_org = iv_org iv, pv_role = iv_role iv,
          pv_hint = drop (length (iv_phone iv) - 4) (iv_phone iv), needs_account = (user_of (iv_phone iv) (users db) = None)\<rparr>)"

definition role_rank :: "string \<Rightarrow> nat" where
  "role_rank r = nullish (map_of [(''student'', 1), (''teacher'', 2), (''centre_admin'', 3)] r) 0"

definition in_org :: "nat \<Rightarrow> nat \<Rightarrow> membership \<Rightarrow> bool" where
  "in_org org u m \<longleftrightarrow> mb_org m = org \<and> mb_user m = u"

definition enrol :: "invitation \<Rightarrow> nat \<Rightarrow> membership list \<Rightarrow> membership list" where
  "enrol iv u ms =
     (case find (in_org (iv_org iv) u) ms of
        None \<Rightarrow> ms @ [\<lparr>mb_org = iv_org iv, mb_user = u, mb_role = iv_role iv\<rparr>]
      | Some m \<Rightarrow> map (\<lambda>m. if in_org (iv_org iv) u m \<and> role_rank (mb_role m) < role_rank (iv_role iv)
          then m\<lparr>mb_role := iv_role iv\<rparr> else m) ms)"

text \<open>A class is joined only if it belongs to the inviting centre.\<close>

definition join_invited_cohort :: "invitation \<Rightarrow> nat \<Rightarrow> auth_db \<Rightarrow> auth_db" where
  "join_invited_cohort iv u db =
     (case iv_cohort iv of
        None \<Rightarrow> db
      | Some c \<Rightarrow> if cohort_org db c \<noteq> Some (iv_org iv) \<or> (c, u) \<in> set (cohort_members db) then db
          else db\<lparr>cohort_members := cohort_members db @ [(c, u)]\<rparr>)"

definition redeem_invite :: "invitation \<Rightarrow> nat \<Rightarrow> auth_db \<Rightarrow> auth_db" where
  "redeem_invite iv u db =
     (let db = join_invited_cohort iv u (db\<lparr>memberships := enrol iv u (memberships db)\<rparr>)
      in db\<lparr>invitations := map (\<lambda>i. if iv_id i = iv_id iv then i\<lparr>iv_accepted := Some u\<rparr> else i) (invitations db)\<rparr>)"

definition register :: "string \<Rightarrow> string option \<Rightarrow> string \<Rightarrow> auth_db \<Rightarrow> nat \<times> auth_db" where
  "register phone given_name born db =
     (length (users db), db\<lparr>users := users db @ [\<lparr>us_phone = phone, us_name = nullish given_name [],
        us_birth = Some born, us_verified = True, us_deleted = False, us_active = True\<rparr>]\<rparr>)"

text \<open>
  The second transaction of \<open>invite_redeem\<close>; \<open>iv\<close> is the row its first lines read, before the
  charge was committed.
\<close>

definition invite_redeem ::
  "(string \<Rightarrow> string) \<Rightarrow> int \<Rightarrow> invitation \<Rightarrow> string \<Rightarrow> string \<Rightarrow> string option \<Rightarrow> string option \<Rightarrow> challenge option \<Rightarrow>
     auth_db \<Rightarrow> refusal + (nat \<times> auth_db)"
where
  "invite_redeem hash now iv xid code born given_name row db =
     (case examine hash now xid code row of
        Inl r \<Rightarrow> Inl r
      | Inr c \<Rightarrow> (case claim c db of
          Inl r \<Rightarrow> Inl r
        | Inr db \<Rightarrow> (case check_invite now (Some iv) (ch_phone c) of
            Inl r \<Rightarrow> Inl r
          | Inr _ \<Rightarrow> (case user_of (ch_phone c) (users db) of
              Some u \<Rightarrow> Inr (u, open_session u (redeem_invite iv u (verified u db)))
            | None \<Rightarrow> (case born of
                None \<Rightarrow> Inl (Forbidden ''A date of birth is required to register.'' ''date_of_birth_required'')
              | Some b \<Rightarrow> (case register (ch_phone c) given_name b db of
                  (u, db) \<Rightarrow> Inr (u, open_session u (redeem_invite iv u db))))))))"

subsection \<open>Requests that overlap\<close>

text \<open>
  A request between its two transactions holds the row its charge returned; \<open>Redeems\<close> also the
  invitation. A request may be lost there, and other
  handlers may change everything but the challenges. The history keeps what was answered.
\<close>

datatype purpose = Verifies | Redeems invitation "string option" "string option"

record half_done =
  hd_purpose :: purpose
  hd_xid :: string
  hd_code :: string
  hd_row :: "challenge option"

record auth_world =
  db :: auth_db
  half :: "half_done list"
  answered :: "(half_done \<times> (refusal + nat)) list"

definition second_half :: "(string \<Rightarrow> string) \<Rightarrow> int \<Rightarrow> half_done \<Rightarrow> auth_db \<Rightarrow> refusal + (nat \<times> auth_db)" where
  "second_half hash now h d =
     (case hd_purpose h of
        Verifies \<Rightarrow> otp_verify hash now (hd_xid h) (hd_code h) (hd_row h) d
      | Redeems iv born given_name \<Rightarrow> invite_redeem hash now iv (hd_xid h) (hd_code h) born given_name (hd_row h) d)"

definition first_half :: "purpose \<Rightarrow> string \<Rightarrow> string \<Rightarrow> auth_world \<Rightarrow> auth_world" where
  "first_half p xid code w =
     (case charge xid (db w) of (row, d) \<Rightarrow>
        w\<lparr>db := d, half := \<lparr>hd_purpose = p, hd_xid = xid, hd_code = code, hd_row = row\<rparr> # half w\<rparr>)"

definition finish :: "(string \<Rightarrow> string) \<Rightarrow> int \<Rightarrow> half_done \<Rightarrow> auth_world \<Rightarrow> auth_world" where
  "finish hash now h w =
     (case second_half hash now h (db w) of
        Inl r \<Rightarrow> w\<lparr>half := remove1 h (half w), answered := (h, Inl r) # answered w\<rparr>
      | Inr (u, d) \<Rightarrow> w\<lparr>db := d, half := remove1 h (half w), answered := (h, Inr u) # answered w\<rparr>)"

inductive auth_step :: "(string \<Rightarrow> string) \<Rightarrow> auth_world \<Rightarrow> auth_world \<Rightarrow> bool" for hash where
  Asks: "otp_request hash pilot now ip xid code phone (db w) = Inr (a, d) \<Longrightarrow> xid \<notin> ch_xid ` set (challenges (db w)) \<Longrightarrow>
    auth_step hash w (w\<lparr>db := d\<rparr>)"
| Charges: "auth_step hash w (first_half Verifies xid code w)"
| ChargesInvited: "invite_for hash now token (db w) = Inr iv \<Longrightarrow>
    auth_step hash w (first_half (Redeems iv born given_name) xid code w)"
| Finishes: "h \<in> set (half w) \<Longrightarrow> auth_step hash w (finish hash now h w)"
| Elsewhere: "challenges d = challenges (db w) \<Longrightarrow> auth_step hash w (w\<lparr>db := d\<rparr>)"
| Breaks: "h \<in> set (half w) \<Longrightarrow> auth_step hash w (w\<lparr>half := remove1 h (half w)\<rparr>)"

text \<open>A run starts before any code was asked for, over whatever accounts and invitations there are.\<close>

inductive auth_run :: "(string \<Rightarrow> string) \<Rightarrow> auth_world \<Rightarrow> bool" for hash where
  Starts: "challenges d = [] \<Longrightarrow> auth_run hash \<lparr>db = d, half = [], answered = []\<rparr>"
| Goes: "auth_run hash w \<Longrightarrow> auth_step hash w w' \<Longrightarrow> auth_run hash w'"

inductive_cases auth_stepE: "auth_step hash w w'"

subsection \<open>One code, one session\<close>

definition opened :: "string \<Rightarrow> half_done \<times> (refusal + nat) \<Rightarrow> bool" where
  "opened xid a \<longleftrightarrow> hd_xid (fst a) = xid \<and> \<not> isl (snd a)"

text \<open>A guess is judged when its charge was within the limit: only then is the code compared.\<close>

definition judged :: "string \<Rightarrow> half_done \<Rightarrow> bool" where
  "judged xid h \<longleftrightarrow> hd_xid h = xid \<and> (case hd_row h of None \<Rightarrow> False | Some s \<Rightarrow> ch_attempts s \<le> ch_max s)"

text \<open>The attempt number each request holds, and the facts that tie it to its challenge.\<close>

definition moment :: "half_done \<Rightarrow> (string \<times> nat) multiset" where
  "moment h = (case hd_row h of None \<Rightarrow> {#} | Some s \<Rightarrow> {#(hd_xid h, ch_attempts s)#})"

definition moments :: "half_done list \<Rightarrow> (string \<times> nat) multiset" where
  "moments hs = sum_list (map moment hs)"

definition requests :: "auth_world \<Rightarrow> half_done list" where
  "requests w = half w @ map fst (answered w)"

definition row_ok :: "challenge list \<Rightarrow> half_done \<Rightarrow> bool" where
  "row_ok cs h = (case hd_row h of None \<Rightarrow> True | Some s \<Rightarrow>
     ch_xid s = hd_xid h \<and> ch_max s = OTP_MAX_ATTEMPTS \<and> 1 \<le> ch_attempts s \<and>
     (\<exists>c \<in> set cs. ch_xid c = hd_xid h \<and> ch_attempts s \<le> ch_attempts c))"

definition spent :: "string \<Rightarrow> challenge \<Rightarrow> bool" where
  "spent xid c \<longleftrightarrow> ch_xid c = xid \<and> ch_consumed c"

definition auth_inv :: "auth_world \<Rightarrow> bool" where
  "auth_inv w \<longleftrightarrow> distinct (map ch_xid (challenges (db w))) \<and>
     list_all (\<lambda>c. ch_max c = OTP_MAX_ATTEMPTS) (challenges (db w)) \<and>
     list_all (row_ok (challenges (db w))) (requests w) \<and>
     (\<forall>k. count (moments (requests w)) k \<le> 1) \<and>
     (\<forall>xid. length (filter (opened xid) (answered w)) = length (filter (spent xid) (challenges (db w))))"

lemma moments_simps [simp]:
  "moments [] = {#}" "moments (h # hs) = moment h + moments hs" "moments (hs @ hs') = moments hs + moments hs'"
  by (simp_all add: moments_def)

lemma moments_remove1: "h \<in> set hs \<Longrightarrow> moments hs = moment h + moments (remove1 h hs)"
  unfolding moments_def by (rule sum_list_map_remove1)

lemma charge_rows:
  assumes "charge xid d = (row, d')"
  shows "challenges d' = map (\<lambda>c. if open_row xid c then charged_row c else c) (challenges d)"
    "row = map_option charged_row (find (open_row xid) (challenges d))"
  using assms by (auto simp: charge_def)

lemma charged_row_fields [simp]:
  "ch_xid (charged_row c) = ch_xid c" "ch_max (charged_row c) = ch_max c" "ch_consumed (charged_row c) = ch_consumed c"
  "ch_hash (charged_row c) = ch_hash c" "ch_phone (charged_row c) = ch_phone c" "ch_expires (charged_row c) = ch_expires c"
  "ch_attempts (charged_row c) = Suc (ch_attempts c)"
  by (simp_all add: charged_row_def)

lemma row_ok_mono:
  assumes "row_ok cs h" and "\<And>c. c \<in> set cs \<Longrightarrow> \<exists>c' \<in> set cs'. ch_xid c' = ch_xid c \<and> ch_attempts c \<le> ch_attempts c'"
  shows "row_ok cs' h"
proof (cases "hd_row h")
  case (Some s)
  with assms(1) obtain c where c: "c \<in> set cs" "ch_xid c = hd_xid h" "ch_attempts s \<le> ch_attempts c"
    by (auto simp: row_ok_def)
  with assms(2) [OF c(1)] Some assms(1) show ?thesis
    by (auto simp: row_ok_def intro: order_trans)
qed (simp add: row_ok_def)

lemma rows_ok_mono:
  assumes "list_all (row_ok cs) hs" and "\<And>c. c \<in> set cs \<Longrightarrow> \<exists>c' \<in> set cs'. ch_xid c' = ch_xid c \<and> ch_attempts c \<le> ch_attempts c'"
  shows "list_all (row_ok cs') hs"
  using assms row_ok_mono by (fastforce simp: list_all_iff)

lemma rows_ok_map:
  assumes "list_all (row_ok cs) hs" and "\<And>c. ch_xid (f c) = ch_xid c" "\<And>c. ch_attempts c \<le> ch_attempts (f c)"
  shows "list_all (row_ok (map f cs)) hs"
  using assms(1) by (rule rows_ok_mono) (simp, metis assms(2,3))

lemma moment_in:
  assumes "(xid, n) \<in># moments hs" "list_all (row_ok cs) hs"
  shows "1 \<le> n \<and> (\<exists>c \<in> set cs. ch_xid c = xid \<and> n \<le> ch_attempts c)"
  using assms by (induction hs) (auto simp: moment_def row_ok_def split: option.splits)

lemma filter_map_same:
  "(\<And>c. P (f c) = P c) \<Longrightarrow> length (filter P (map f cs)) = length (filter P cs)"
  by (induction cs) auto

lemma once_held: "auth_inv w \<Longrightarrow> count (moments (requests w)) k \<le> 1"
  unfolding auth_inv_def by blast

lemma auth_inv_charge:
  assumes inv: "auth_inv w"
  shows "auth_inv (first_half p xid code w)"
proof -
  obtain row d where ch: "charge xid (db w) = (row, d)" by (cases "charge xid (db w)")
  let ?h = "\<lparr>hd_purpose = p, hd_xid = xid, hd_code = code, hd_row = row\<rparr>"
  let ?f = "\<lambda>c. if open_row xid c then charged_row c else c"
  note rows = charge_rows [OF ch]
  have w': "first_half p xid code w = w\<lparr>db := d, half := ?h # half w\<rparr>" by (simp add: first_half_def ch)
  have keys: "map ch_xid (challenges d) = map ch_xid (challenges (db w))" unfolding rows by simp
  have maxes: "list_all (\<lambda>c. ch_max c = OTP_MAX_ATTEMPTS) (challenges d)"
    using inv unfolding rows by (auto simp: auth_inv_def list_all_iff)
  have old: "list_all (row_ok (challenges d)) (requests w)"
    unfolding rows by (rule rows_ok_map) (use inv in \<open>simp_all add: auth_inv_def\<close>)
  have new: "row_ok (challenges d) ?h \<and> count (moment ?h + moments (requests w)) k \<le> 1" for k
  proof (cases row)
    case (Some s)
    then obtain c where c: "find (open_row xid) (challenges (db w)) = Some c" "s = charged_row c"
      using rows by auto
    then have mem: "c \<in> set (challenges (db w))" and opn: "open_row xid c"
      by (auto simp: find_Some_iff)
    then have s_in: "s \<in> set (challenges d)" unfolding rows c(2) by (auto intro: image_eqI [of _ _ c])
    have "(xid, Suc (ch_attempts c)) \<notin># moments (requests w)"
    proof
      assume "(xid, Suc (ch_attempts c)) \<in># moments (requests w)"
      from moment_in [OF this] inv obtain c' where "c' \<in> set (challenges (db w))" "ch_xid c' = xid" "Suc (ch_attempts c) \<le> ch_attempts c'"
        by (auto simp: auth_inv_def)
      moreover have "c' = c"
        using calculation mem opn inv by (auto simp: auth_inv_def open_row_def distinct_map dest: inj_onD)
      ultimately show False by simp
    qed
    moreover have "count (moments (requests w)) k \<le> 1" for k using inv by (rule once_held)
    ultimately have "count (moment ?h + moments (requests w)) k \<le> 1"
      using Some c(2) by (auto simp: moment_def not_in_iff)
    moreover have "ch_max c = OTP_MAX_ATTEMPTS" "ch_xid c = xid"
      using inv mem opn by (simp_all add: auth_inv_def list_all_iff open_row_def)
    then have "row_ok (challenges d) ?h"
      using Some s_in c(2) by (auto simp: row_ok_def intro!: bexI [of _ "charged_row c"])
    ultimately show ?thesis by blast
  next
    case None
    then show ?thesis using once_held [OF inv, of k] by (simp add: row_ok_def moment_def)
  qed
  have "length (filter (spent x) (challenges d)) = length (filter (spent x) (challenges (db w)))" for x
    unfolding rows by (rule filter_map_same) (simp add: spent_def)
  with inv keys maxes old new show ?thesis
    unfolding w' by (simp add: auth_inv_def requests_def)
qed

lemma claim_rows:
  assumes "claim c d = Inr d'"
  shows "challenges d' = map (\<lambda>e. if open_row (ch_xid c) e then e\<lparr>ch_consumed := True\<rparr> else e) (challenges d)"
    "list_ex (open_row (ch_xid c)) (challenges d)"
  using assms by (auto simp: claim_def split: if_splits)

lemma account_work_rows [simp]:
  "challenges (open_session u d) = challenges d" "challenges (verified u d) = challenges d"
  "challenges (redeem_invite iv u d) = challenges d" "challenges (snd (register phone given_name born d)) = challenges d"
  by (simp_all add: open_session_def verified_def redeem_invite_def join_invited_cohort_def register_def Let_def split: option.split)

lemma examine_row:
  "examine hash now xid code row = Inr c \<Longrightarrow>
     row = Some c \<and> ch_attempts c \<le> ch_max c \<and> now \<le> ch_expires c \<and> ch_hash c = hash (xid @ '':'' @ code)"
  by (auto simp: examine_def split: option.splits if_splits)

text \<open>A request that opens a session claimed the challenge whose code it was given.\<close>

lemma second_half_claims:
  assumes "second_half hash now h d = Inr (u, d')"
  obtains c d1 where "hd_row h = Some c" "ch_hash c = hash (hd_xid h @ '':'' @ hd_code h)" "ch_attempts c \<le> ch_max c"
    "claim c d = Inr d1" "challenges d' = challenges d1"
proof (cases "hd_purpose h")
  case Verifies
  with assms that show thesis
    by (auto simp: second_half_def otp_verify_def dest!: examine_row split: sum.splits option.splits)
next
  case (Redeems iv born given_name)
  with assms obtain c d1 where "examine hash now (hd_xid h) (hd_code h) (hd_row h) = Inr c" "claim c d = Inr d1"
    and rest: "challenges d' = challenges d1"
    by (auto simp: second_half_def invite_redeem_def register_def split: sum.splits option.splits)
  then show thesis using that examine_row by blast
qed

lemma spent_after_claim:
  assumes "distinct (map ch_xid cs)"
  shows "length (filter (spent x) (map (\<lambda>e. if open_row xid e then e\<lparr>ch_consumed := True\<rparr> else e) cs)) =
    length (filter (spent x) cs) + (if x = xid \<and> list_ex (open_row xid) cs then 1 else 0)"
  using assms
proof (induction cs)
  case (Cons c cs)
  show ?case
  proof (cases "open_row xid c")
    case True
    with Cons.prems have none: "\<not> list_ex (open_row xid) cs"
      by (auto simp: open_row_def list_ex_iff image_iff)
    then have "map (\<lambda>e. if open_row xid e then e\<lparr>ch_consumed := True\<rparr> else e) cs = cs"
      by (auto simp: list_ex_iff intro: map_idI)
    moreover have "spent x (c\<lparr>ch_consumed := True\<rparr>) \<longleftrightarrow> x = xid" "\<not> spent x c"
      using True by (auto simp: spent_def open_row_def)
    ultimately show ?thesis using True by simp
  next
    case False
    with Cons show ?thesis by (cases "x = xid") auto
  qed
qed simp

lemma auth_inv_finish:
  assumes inv: "auth_inv w" and h: "h \<in> set (half w)"
  shows "auth_inv (finish hash now h w)"
proof -
  have same: "count (moments (remove1 h (half w))) k + (count (moment h) k + count (moments (map fst (answered w))) k) \<le> 1" for k
    using once_held [OF inv, of k] moments_remove1 [OF h] by (simp add: requests_def)
  have rows: "list_all (row_ok (challenges (db w))) (remove1 h (half w) @ h # map fst (answered w))"
    using inv h set_remove1_subset [of h "half w"] by (auto simp: auth_inv_def requests_def list_all_iff)
  show ?thesis
  proof (cases "second_half hash now h (db w)")
    case (Inl r)
    with inv rows same show ?thesis
      by (simp add: finish_def auth_inv_def requests_def opened_def)
  next
    case (Inr ud)
    obtain u d where ud: "ud = (u, d)" by (cases ud)
    with Inr obtain c d1 where c: "hd_row h = Some c" "claim c (db w) = Inr d1" "challenges d = challenges d1"
      using second_half_claims by metis
    have xid: "ch_xid c = hd_xid h" using rows c(1) by (auto simp: row_ok_def)
    note d1 = claim_rows [OF c(2)]
    have keys: "map ch_xid (challenges d) = map ch_xid (challenges (db w))" unfolding c(3) d1 by simp
    have maxes: "list_all (\<lambda>c. ch_max c = OTP_MAX_ATTEMPTS) (challenges d)"
      using inv unfolding c(3) d1 by (auto simp: auth_inv_def list_all_iff)
    have rows': "list_all (row_ok (challenges d)) (remove1 h (half w) @ h # map fst (answered w))"
      unfolding c(3) d1 using rows by (rule rows_ok_map) simp_all
    have "length (filter (spent x) (challenges d)) = length (filter (spent x) (challenges (db w))) + (if x = hd_xid h then 1 else 0)" for x
      unfolding c(3) d1(1) using spent_after_claim inv d1(2) xid by (simp add: auth_inv_def)
    with inv keys maxes rows' same show ?thesis
      by (simp add: finish_def Inr ud auth_inv_def requests_def opened_def)
  qed
qed

lemma otp_request_rows:
  assumes "otp_request hash pilot now ip xid code phone d = Inr (a, d')"
  shows "challenges d' = challenges d @ [\<lparr>ch_xid = xid, ch_phone = phone, ch_hash = hash (xid @ '':'' @ code), ch_ip = ip,
    ch_created = now, ch_expires = now + OTP_TTL, ch_attempts = 0, ch_max = OTP_MAX_ATTEMPTS, ch_consumed = False\<rparr>]"
  using assms by (auto simp: otp_request_def queue_code_def Let_def split: if_splits option.splits)

lemma auth_inv_request:
  assumes inv: "auth_inv w" and asked: "otp_request hash pilot now ip xid code phone (db w) = Inr (a, d)"
    and fresh: "xid \<notin> ch_xid ` set (challenges (db w))"
  shows "auth_inv (w\<lparr>db := d\<rparr>)"
proof -
  note rows = otp_request_rows [OF asked]
  have "list_all (row_ok (challenges d)) (requests w)"
    by (rule rows_ok_mono [of "challenges (db w)"]) (use inv rows in \<open>auto simp: auth_inv_def\<close>)
  moreover have "length (filter (spent x) (challenges d)) = length (filter (spent x) (challenges (db w)))" for x
    unfolding rows by (simp add: spent_def)
  ultimately show ?thesis
    using inv fresh once_held [OF inv] by (simp add: auth_inv_def requests_def rows)
qed

lemma auth_inv_step:
  assumes "auth_step hash w w'" "auth_inv w"
  shows "auth_inv w'"
  using assms(1)
proof cases
  case (Asks pilot now ip xid code phone a d)
  with auth_inv_request assms(2) show ?thesis by blast
next
  case (Breaks h)
  then have "count (moments (requests w')) k \<le> count (moments (requests w)) k" for k
    using moments_remove1 by (simp add: requests_def)
  then have "count (moments (requests w')) k \<le> 1" for k
    using once_held [OF assms(2), of k] by (meson order_trans)
  moreover have "list_all (row_ok (challenges (db w))) (requests w')"
    using assms(2) set_remove1_subset [of h "half w"] Breaks(1) by (auto simp: auth_inv_def requests_def list_all_iff)
  ultimately show ?thesis using assms(2) Breaks(1) by (simp add: auth_inv_def)
next
  case (Elsewhere d)
  then show ?thesis using assms(2) by (simp add: auth_inv_def requests_def)
qed (use assms(2) auth_inv_charge auth_inv_finish in auto)

lemma auth_inv_run: "auth_run hash w \<Longrightarrow> auth_inv w"
  by (induction rule: auth_run.induct) (auto simp: auth_inv_step, simp add: auth_inv_def requests_def)

definition proved :: "(string \<Rightarrow> string) \<Rightarrow> half_done \<Rightarrow> bool" where
  "proved hash h \<longleftrightarrow> (\<exists>s. hd_row h = Some s \<and> ch_attempts s \<le> ch_max s \<and> ch_hash s = hash (hd_xid h @ '':'' @ hd_code h))"

lemma opened_proved:
  "auth_run hash w \<Longrightarrow> a \<in> set (answered w) \<Longrightarrow> \<not> isl (snd a) \<Longrightarrow> proved hash (fst a)"
proof (induction rule: auth_run.induct)
  case (Goes w w')
  from Goes.hyps(2) show ?case
  proof cases
    case (Finishes h now)
    then show ?thesis using Goes
      by (cases "second_half hash now h (db w)")
        (auto simp: finish_def proved_def elim!: second_half_claims)
  qed (use Goes in \<open>auto simp: first_half_def split: prod.splits\<close>)
qed simp

text \<open>At most five guesses are judged: each holds an attempt number of its own.\<close>

lemma judged_le:
  assumes "list_all (row_ok cs) hs"
  shows "length (filter (judged xid) hs) \<le> size (filter_mset (\<lambda>m. fst m = xid \<and> snd m \<le> OTP_MAX_ATTEMPTS) (moments hs))"
  using assms by (induction hs) (auto simp: judged_def moment_def row_ok_def split: option.splits)

lemma size_le_card:
  assumes "\<And>k. count M k \<le> 1" and "set_mset M \<subseteq> S" and "finite S"
  shows "size M \<le> card S"
proof -
  have "size M = sum (count M) (set_mset M)" by (rule size_multiset_overloaded_eq)
  also have "\<dots> \<le> sum (\<lambda>_. 1) (set_mset M)" by (rule sum_mono) (rule assms(1))
  also have "\<dots> \<le> card S" using assms(2,3) by (simp add: card_mono)
  finally show ?thesis .
qed

lemma few_judged:
  assumes inv: "auth_inv w"
  shows "length (filter (judged xid) (map fst (answered w))) \<le> OTP_MAX_ATTEMPTS"
proof -
  let ?M = "filter_mset (\<lambda>m. fst m = xid \<and> snd m \<le> OTP_MAX_ATTEMPTS) (moments (map fst (answered w)))"
  have rows: "list_all (row_ok (challenges (db w))) (map fst (answered w))"
    using inv by (simp add: auth_inv_def requests_def)
  have "size ?M \<le> card ({xid} \<times> {1..OTP_MAX_ATTEMPTS})"
  proof (rule size_le_card)
    show "count ?M k \<le> 1" for k using once_held [OF inv, of k] by (simp add: requests_def)
    show "set_mset ?M \<subseteq> {xid} \<times> {1..OTP_MAX_ATTEMPTS}" using moment_in [OF _ rows] by auto
  qed simp
  then show ?thesis using judged_le [OF rows, of xid] by simp
qed

lemma spent_once: "distinct (map ch_xid cs) \<Longrightarrow> length (filter (spent xid) cs) \<le> 1"
proof (induction cs)
  case (Cons c cs)
  then have "filter (spent xid) cs = []" if "ch_xid c = xid"
    using that by (auto simp: filter_empty_conv spent_def image_iff)
  moreover have "spent xid c \<Longrightarrow> ch_xid c = xid" by (simp add: spent_def)
  ultimately show ?case using Cons by auto
qed simp

text \<open>
  C7: However requests overlap, one code opens at most one session; at most five guesses against it
  are compared with it at all, each having its attempt charged and committed first; and a session is
  opened only by a request that gave the code.
\<close>

theorem one_code_one_session:
  assumes "auth_run hash w"
  shows "length (filter (opened xid) (answered w)) \<le> 1 \<and>
    length (filter (judged xid) (map fst (answered w))) \<le> OTP_MAX_ATTEMPTS \<and>
    (\<forall>a \<in> set (answered w). opened xid a \<longrightarrow> proved hash (fst a))"
proof (intro conjI ballI impI)
  from assms have inv: "auth_inv w" by (rule auth_inv_run)
  then show "length (filter (opened xid) (answered w)) \<le> 1"
    using spent_once by (simp add: auth_inv_def)
  show "length (filter (judged xid) (map fst (answered w))) \<le> OTP_MAX_ATTEMPTS" using inv by (rule few_judged)
  show "proved hash (fst a)" if "a \<in> set (answered w)" "opened xid a" for a
    using opened_proved [OF assms that(1)] that(2) by (simp add: opened_def)
qed

definition one_student :: auth_db where
  "one_student = \<lparr>challenges = [], users = [\<lparr>us_phone = ''+998901234567'', us_name = ''A'', us_birth = Some ''2008-01-01'',
     us_verified = False, us_deleted = False, us_active = True\<rparr>], invitations = [], memberships = [], cohort_org = Map.empty,
     cohort_members = [], auth_sessions = [], queued = []\<rparr>"

definition asked_world :: auth_world where
  "asked_world = \<lparr>db = snd (projr (otp_request id False 0 None ''x'' ''123456'' ''+998901234567'' one_student)), half = [], answered = []\<rparr>"

definition raced_world :: auth_world where
  "raced_world = (let w = first_half Verifies ''x'' ''123456'' (first_half Verifies ''x'' ''123456'' asked_world);
     w = finish id 1 (hd (half w)) w in finish id 2 (hd (half w)) w)"

lemmas auth_eval = raced_world_def asked_world_def one_student_def otp_request_def first_half_def finish_def second_half_def
  charge_def open_row_def charged_row_def otp_verify_def examine_def claim_def user_of_def verified_def open_session_def
  queue_code_def recent_def Unauthenticated_def OTP_PER_PHONE_PER_HOUR_def OTP_PER_IP_PER_HOUR_def OTP_MAX_ATTEMPTS_def
  OTP_TTL_def HOUR_def Let_def

lemma raced_run: "auth_run id raced_world"
proof -
  have "auth_run id \<lparr>db = one_student, half = [], answered = []\<rparr>"
    by (rule auth_run.Starts) (simp add: one_student_def)
  moreover have "auth_step id \<lparr>db = one_student, half = [], answered = []\<rparr>
      (\<lparr>db = one_student, half = [], answered = []\<rparr>\<lparr>db := db asked_world\<rparr>)"
    by (rule auth_step.Asks [where xid = "''x''" and pilot = False and now = 0 and ip = None and code = "''123456''"
      and phone = "''+998901234567''" and a = "\<lparr>challenge_xid = ''x'', pilot_code = None\<rparr>"]) (simp_all add: auth_eval)
  ultimately have "auth_run id asked_world"
    using auth_run.Goes by (fastforce simp: asked_world_def)
  then have "auth_run id (first_half Verifies ''x'' ''123456'' (first_half Verifies ''x'' ''123456'' asked_world))" (is "auth_run _ ?w")
    by (intro auth_run.Goes [OF _ auth_step.Charges])
  moreover have "half ?w = [hd (half ?w), hd (tl (half ?w))]" by (simp add: first_half_def split_beta asked_world_def)
  ultimately have v: "auth_run id (finish id 1 (hd (half ?w)) ?w)" (is "auth_run _ ?v")
    by (metis auth_run.Goes auth_step.Finishes list.set_intros(1))
  have "hd (half ?v) \<in> set (half ?v)" by (simp add: auth_eval)
  from auth_run.Goes [OF v auth_step.Finishes [OF this, of id 2]] show ?thesis
    unfolding raced_world_def Let_def .
qed

theorem one_code_one_session_witness:
  "length (answered raced_world) = 2 \<and> length (filter (opened ''x'') (answered raced_world)) \<le> 1"
  using one_code_one_session [OF raced_run, of "''x''"] by (simp add: auth_eval)

subsection \<open>Who is signed in\<close>

lemma user_of_Some:
  assumes "user_of phone us = Some u"
  shows "u < length us \<and> us_phone (us ! u) = phone \<and> \<not> us_deleted (us ! u)"
proof -
  from assms obtain j where "j < length [0..<length us]" "us_phone (us ! ([0..<length us] ! j)) = phone"
    "\<not> us_deleted (us ! ([0..<length us] ! j))" "u = [0..<length us] ! j"
    unfolding user_of_def find_Some_iff by blast
  then show ?thesis by simp
qed

lemma account_work_users [simp]:
  "users (open_session u d) = users d" "users (redeem_invite iv u d) = users d"
  "auth_sessions (redeem_invite iv u d) = auth_sessions d" "auth_sessions (verified u d) = auth_sessions d"
  "auth_sessions (open_session u d) = auth_sessions d @ [u]" "memberships (open_session u d) = memberships d"
  "memberships (redeem_invite iv u d) = enrol iv u (memberships d)" "memberships (verified u d) = memberships d"
  "users (verified u d) = (users d)[u := (users d ! u)\<lparr>us_verified := True\<rparr>]"
  by (simp_all add: open_session_def verified_def redeem_invite_def join_invited_cohort_def Let_def split: option.split)

lemma claim_keeps:
  assumes "claim c d = Inr d'"
  shows "users d' = users d" "memberships d' = memberships d" "auth_sessions d' = auth_sessions d"
  using assms by (auto simp: claim_def split: if_splits)

text \<open>Enrolling gives at least the invited role, and never takes one away.\<close>

lemma enrol_gives: "\<exists>m \<in> set (enrol iv u ms). in_org (iv_org iv) u m \<and> role_rank (iv_role iv) \<le> role_rank (mb_role m)"
proof (cases "find (in_org (iv_org iv) u) ms")
  case None
  then show ?thesis by (simp add: enrol_def in_org_def)
next
  case (Some m)
  then have m: "m \<in> set ms" "in_org (iv_org iv) u m" by (auto simp: find_Some_iff)
  let ?f = "\<lambda>m. if in_org (iv_org iv) u m \<and> role_rank (mb_role m) < role_rank (iv_role iv) then m\<lparr>mb_role := iv_role iv\<rparr> else m"
  have "?f m \<in> set (enrol iv u ms)" using m(1) Some by (simp add: enrol_def)
  moreover have "in_org (iv_org iv) u (?f m) \<and> role_rank (iv_role iv) \<le> role_rank (mb_role (?f m))"
    using m(2) by (simp add: in_org_def)
  ultimately show ?thesis by blast
qed

lemma enrol_keeps:
  "m \<in> set ms \<Longrightarrow> \<exists>m' \<in> set (enrol iv u ms). mb_org m' = mb_org m \<and> mb_user m' = mb_user m \<and> role_rank (mb_role m) \<le> role_rank (mb_role m')"
proof (cases "find (in_org (iv_org iv) u) ms")
  case (Some a)
  let ?f = "\<lambda>m. if in_org (iv_org iv) u m \<and> role_rank (mb_role m) < role_rank (iv_role iv) then m\<lparr>mb_role := iv_role iv\<rparr> else m"
  assume "m \<in> set ms"
  then have "?f m \<in> set (enrol iv u ms)" by (simp add: enrol_def Some)
  moreover have "mb_org (?f m) = mb_org m" "mb_user (?f m) = mb_user m" "role_rank (mb_role m) \<le> role_rank (mb_role (?f m))"
    by simp_all
  ultimately show ?thesis by blast
qed (auto simp: enrol_def)


definition invited_db :: auth_db where
  "invited_db = one_student\<lparr>users := [], invitations := [\<lparr>iv_id = 1, iv_hash = ''t'', iv_org = 7, iv_cohort = None,
     iv_role = ''student'', iv_phone = ''+998901234567'', iv_expires = 9, iv_accepted = None, iv_revoked = False\<rparr>]\<rparr>"

definition sent_code :: challenge where
  "sent_code = \<lparr>ch_xid = ''x'', ch_phone = ''+998901234567'', ch_hash = ''x:123456'', ch_ip = None, ch_created = 0,
     ch_expires = 5, ch_attempts = 1, ch_max = 5, ch_consumed = False\<rparr>"


subsection \<open>The sign-in screen\<close>

text \<open>
  The stage of the screen, the requests it makes and what comes back. \<open>Dropped\<close> is a request whose
  \<open>fetch\<close> rejects: the generated client throws, and the rest of the handler does not run.
\<close>

datatype stage = Checking | DeadEnd string | AtPhone | AtCode string "string option"

datatype call =
    AskCode string
  | VerifyCode string string
  | PreviewInvite string
  | RedeemInvite string string string "(string \<times> string option) option"

datatype reply = RefusedWith "problem option" | CodeSent code_answer | Previewed preview | SessionOpened string

record sign_in =
  si_stage :: stage
  si_phone :: string
  si_code :: string
  si_error :: "string option"
  si_busy :: bool
  si_waiting :: "call option"
  si_sent :: "call list"
  si_session :: session
  si_entered :: bool

definition fresh_sign_in :: "session \<Rightarrow> sign_in" where
  "fresh_sign_in s = \<lparr>si_stage = AtPhone, si_phone = ''+998'', si_code = [], si_error = None, si_busy = False,
     si_waiting = None, si_sent = [], si_session = s, si_entered = False\<rparr>"

definition call_out :: "call \<Rightarrow> 'a sign_in_scheme \<Rightarrow> 'a sign_in_scheme" where
  "call_out c p = p\<lparr>si_busy := True, si_error := None, si_waiting := Some c, si_sent := si_sent p @ [c]\<rparr>"

definition six_digits :: "string \<Rightarrow> bool" where
  "six_digits c \<longleftrightarrow> length c = 6 \<and> list_all is_digit c"

text \<open>Submitting: the button is not disabled and the patterns of the inputs hold.\<close>

definition requestCode :: "'a sign_in_scheme \<Rightarrow> 'a sign_in_scheme" where
  "requestCode p = (if si_stage p = AtPhone \<and> \<not> si_busy p \<and> uz_phone (si_phone p) then call_out (AskCode (si_phone p)) p else p)"

definition submitCode :: "'a sign_in_scheme \<Rightarrow> 'a sign_in_scheme" where
  "submitCode p = (case si_stage p of
      AtCode xid _ \<Rightarrow> if \<not> si_busy p \<and> six_digits (si_code p) then call_out (VerifyCode xid (si_code p)) p else p
    | _ \<Rightarrow> p)"

definition code_requested :: "reply \<Rightarrow> 'a sign_in_scheme \<Rightarrow> 'a sign_in_scheme" where
  "code_requested r p =
     (let p = p\<lparr>si_busy := False\<rparr>
      in case r of
        CodeSent a \<Rightarrow> p\<lparr>si_stage := AtCode (challenge_xid a) (if truthy_str (pilot_code a) then pilot_code a else None)\<rparr>
      | RefusedWith f \<Rightarrow> p\<lparr>si_error := Some (problemText f)\<rparr>
      | _ \<Rightarrow> p)"

definition code_verified :: "reply \<Rightarrow> 'a sign_in_scheme \<Rightarrow> 'a sign_in_scheme" where
  "code_verified r p =
     (let p = p\<lparr>si_busy := False\<rparr>
      in case r of
        SessionOpened access \<Rightarrow> p\<lparr>si_session := storeSession access (si_session p), si_entered := True\<rparr>
      | RefusedWith f \<Rightarrow> p\<lparr>si_error := Some (problemText f)\<rparr>
      | _ \<Rightarrow> p)"

definition different_number :: "'a sign_in_scheme \<Rightarrow> 'a sign_in_scheme" where
  "different_number p = (case si_stage p of
      AtCode _ _ \<Rightarrow> p\<lparr>si_stage := AtPhone, si_code := [], si_error := None\<rparr>
    | _ \<Rightarrow> p)"

datatype sign_in_event = TypePhone string | TypeCode string | PressSend | PressSignIn | PressDifferent | Answered reply | Dropped

text \<open>\<open>maxLength\<close> keeps a seventh digit out.\<close>

definition sign_in_event :: "sign_in_event \<Rightarrow> sign_in \<Rightarrow> sign_in" where
  "sign_in_event ev p = (case ev of
      TypePhone s \<Rightarrow> if si_stage p = AtPhone then p\<lparr>si_phone := s\<rparr> else p
    | TypeCode s \<Rightarrow> (case si_stage p of AtCode _ _ \<Rightarrow> p\<lparr>si_code := take 6 s\<rparr> | _ \<Rightarrow> p)
    | PressSend \<Rightarrow> requestCode p
    | PressSignIn \<Rightarrow> submitCode p
    | PressDifferent \<Rightarrow> different_number p
    | Answered r \<Rightarrow> (case si_waiting p of
          None \<Rightarrow> p
        | Some (AskCode _) \<Rightarrow> code_requested r (p\<lparr>si_waiting := None\<rparr>)
        | Some _ \<Rightarrow> code_verified r (p\<lparr>si_waiting := None\<rparr>))
    | Dropped \<Rightarrow> p\<lparr>si_waiting := None\<rparr>)"

text \<open>Busy with nothing in flight: whatever is pressed or typed, nothing more is ever sent.\<close>

definition stuck :: "'a sign_in_scheme \<Rightarrow> bool" where
  "stuck p \<longleftrightarrow> si_busy p \<and> si_waiting p = None"

lemma stuck_stays:
  assumes "stuck p"
  shows "stuck (sign_in_event ev p) \<and> si_sent (sign_in_event ev p) = si_sent p \<and>
    si_session (sign_in_event ev p) = si_session p \<and> si_entered (sign_in_event ev p) = si_entered p \<and>
    (si_error p = None \<longrightarrow> si_error (sign_in_event ev p) = None)"
  using assms by (cases ev)
    (auto simp: stuck_def sign_in_event_def requestCode_def submitCode_def different_number_def split: stage.split)

lemma stuck_for_good:
  assumes "stuck p" "si_error p = None"
  shows "stuck (fold sign_in_event evs p) \<and> si_sent (fold sign_in_event evs p) = si_sent p \<and>
    si_session (fold sign_in_event evs p) = si_session p \<and> si_entered (fold sign_in_event evs p) = si_entered p \<and>
    si_error (fold sign_in_event evs p) = None"
  using assms
proof (induction evs arbitrary: p)
  case (Cons ev evs)
  with stuck_stays [OF Cons.prems(1), of ev] show ?case by simp
qed simp

text \<open>While a request is out the form is busy and shows no error.\<close>

definition calm :: "'a sign_in_scheme \<Rightarrow> bool" where
  "calm p \<longleftrightarrow> (si_waiting p \<noteq> None \<longrightarrow> si_busy p \<and> si_error p = None)"

lemma calm_event: "calm p \<Longrightarrow> calm (sign_in_event ev p)"
  by (cases ev) (auto simp: calm_def sign_in_event_def requestCode_def submitCode_def different_number_def call_out_def
    code_requested_def code_verified_def Let_def split: stage.split call.split reply.split option.split)

lemma calm_run: "calm p \<Longrightarrow> calm (fold sign_in_event evs p)"
  by (induction evs arbitrary: p) (simp_all add: calm_event)

text \<open>
  C9: A single dropped request locks the sign-in form for good. Whatever led to the request and whatever
  the student does after it was lost, no further request is sent, no error is shown and nobody is
  signed in: the handler stops at the exception, before it clears the flag that disables the button.
\<close>

theorem dropped_request_locks_the_form:
  assumes "p = fold sign_in_event earlier (fresh_sign_in s)" and "si_waiting p \<noteq> None"
  shows "let q = fold sign_in_event later (sign_in_event Dropped p)
     in si_sent q = si_sent p \<and> si_busy q \<and> si_error q = None \<and> si_session q = si_session p \<and> si_entered q = si_entered p"
proof -
  have "calm (fresh_sign_in s)" by (simp add: calm_def fresh_sign_in_def)
  with assms have "stuck (sign_in_event Dropped p)" "si_error (sign_in_event Dropped p) = None"
    using calm_run by (auto simp: calm_def stuck_def sign_in_event_def)
  from stuck_for_good [OF this, of later] show ?thesis
    by (simp add: stuck_def sign_in_event_def Let_def)
qed

theorem dropped_request_locks_the_form_witness:
  "si_sent (fold sign_in_event [PressSend, TypePhone ''+998901234567'', PressSend]
     (sign_in_event Dropped (fold sign_in_event [TypePhone ''+998901234568'', PressSend]
       (fresh_sign_in \<lparr>accessToken = None, storage = Map.empty, refreshing = False\<rparr>)))) = [AskCode ''+998901234568'']"
  using dropped_request_locks_the_form [OF refl, of "[TypePhone ''+998901234568'', PressSend]"
      "\<lparr>accessToken = None, storage = Map.empty, refreshing = False\<rparr>"
      "[PressSend, TypePhone ''+998901234567'', PressSend]"]
  by (simp add: sign_in_event_def fresh_sign_in_def requestCode_def call_out_def uz_phone_def is_digit_def)

subsection \<open>Joining by an invitation\<close>

record join = sign_in +
  jn_token :: string
  jn_invite :: "preview option"
  jn_dob :: string
  jn_name :: string
  jn_address_bar :: bool

text \<open>Mounting asks for the preview; \<open>cancelled\<close> is an unmounted screen, which takes no more events.\<close>

definition fresh_join :: "string \<Rightarrow> session \<Rightarrow> join" where
  "fresh_join token s = \<lparr>si_stage = Checking, si_phone = ''+998'', si_code = [], si_error = None, si_busy = False,
     si_waiting = Some (PreviewInvite token), si_sent = [PreviewInvite token], si_session = s, si_entered = False,
     jn_token = token, jn_invite = None, jn_dob = [], jn_name = [], jn_address_bar = True\<rparr>"

definition invite_previewed :: "reply \<Rightarrow> join \<Rightarrow> join" where
  "invite_previewed r p = (case r of
      Previewed iv \<Rightarrow> p\<lparr>jn_invite := Some iv, si_stage := AtPhone\<rparr>
    | RefusedWith f \<Rightarrow> p\<lparr>si_stage := DeadEnd (problemText f)\<rparr>
    | _ \<Rightarrow> p)"

definition asks_account :: "join \<Rightarrow> bool" where
  "asks_account p \<longleftrightarrow> (case jn_invite p of None \<Rightarrow> False | Some iv \<Rightarrow> needs_account iv)"

definition redeem_call :: "string \<Rightarrow> join \<Rightarrow> call" where
  "redeem_call xid p = RedeemInvite (jn_token p) xid (si_code p)
     (if asks_account p then Some (jn_dob p, if jn_name p = [] then None else Some (jn_name p)) else None)"

text \<open>\<open>date_ok\<close> is the browser's check of a required date input and its maximum.\<close>

definition redeem :: "(string \<Rightarrow> bool) \<Rightarrow> join \<Rightarrow> join" where
  "redeem date_ok p = (case si_stage p of
      AtCode xid _ \<Rightarrow>
        if \<not> si_busy p \<and> six_digits (si_code p) \<and> (asks_account p \<longrightarrow> jn_dob p \<noteq> [] \<and> date_ok (jn_dob p))
        then call_out (redeem_call xid p) p else p
    | _ \<Rightarrow> p)"

definition invite_redeemed :: "reply \<Rightarrow> join \<Rightarrow> join" where
  "invite_redeemed r p =
     (let p = p\<lparr>si_busy := False\<rparr>
      in case r of
        SessionOpened access \<Rightarrow>
          p\<lparr>si_session := storeSession access (si_session p), jn_address_bar := False, si_entered := True\<rparr>
      | RefusedWith f \<Rightarrow> p\<lparr>si_error := Some (problemText f)\<rparr>
      | _ \<Rightarrow> p)"

datatype join_event = JoinTypesPhone string | JoinTypesCode string | JoinTypesName string | JoinTypesDob string
  | JoinPressesSend | JoinPressesJoin | JoinPressesDifferent | JoinAnswered reply | JoinDropped

definition join_event :: "(string \<Rightarrow> bool) \<Rightarrow> join_event \<Rightarrow> join \<Rightarrow> join" where
  "join_event date_ok ev p = (case ev of
      JoinTypesPhone s \<Rightarrow> if si_stage p = AtPhone then p\<lparr>si_phone := s\<rparr> else p
    | JoinTypesCode s \<Rightarrow> (case si_stage p of AtCode _ _ \<Rightarrow> p\<lparr>si_code := take 6 s\<rparr> | _ \<Rightarrow> p)
    | JoinTypesName s \<Rightarrow> (case si_stage p of AtCode _ _ \<Rightarrow> if asks_account p then p\<lparr>jn_name := s\<rparr> else p | _ \<Rightarrow> p)
    | JoinTypesDob s \<Rightarrow> (case si_stage p of AtCode _ _ \<Rightarrow> if asks_account p then p\<lparr>jn_dob := s\<rparr> else p | _ \<Rightarrow> p)
    | JoinPressesSend \<Rightarrow> requestCode p
    | JoinPressesJoin \<Rightarrow> redeem date_ok p
    | JoinPressesDifferent \<Rightarrow> different_number p
    | JoinAnswered r \<Rightarrow> (case si_waiting p of
          None \<Rightarrow> p
        | Some (PreviewInvite _) \<Rightarrow> invite_previewed r (p\<lparr>si_waiting := None\<rparr>)
        | Some (AskCode _) \<Rightarrow> code_requested r (p\<lparr>si_waiting := None\<rparr>)
        | Some _ \<Rightarrow> invite_redeemed r (p\<lparr>si_waiting := None\<rparr>))
    | JoinDropped \<Rightarrow> p\<lparr>si_waiting := None\<rparr>)"

text \<open>
  The invitation leaves the address bar exactly when somebody has been signed in by it; a redemption
  carries the token of the page, and a date of birth exactly when there is no account yet.
\<close>

fun good_call :: "string \<Rightarrow> bool \<Rightarrow> call \<Rightarrow> bool" where
  "good_call token asks (RedeemInvite t x c e) \<longleftrightarrow> t = token \<and> six_digits c \<and>
     (case e of None \<Rightarrow> \<not> asks | Some (dob, _) \<Rightarrow> asks \<and> dob \<noteq> [])"
| "good_call token asks c \<longleftrightarrow> True"

fun is_redeem :: "call \<Rightarrow> bool" where
  "is_redeem (RedeemInvite t x c e) \<longleftrightarrow> True"
| "is_redeem c \<longleftrightarrow> False"

definition previewing :: "join \<Rightarrow> bool" where
  "previewing p \<longleftrightarrow> (case si_waiting p of Some (PreviewInvite _) \<Rightarrow> True | _ \<Rightarrow> False)"

definition join_inv :: "join \<Rightarrow> bool" where
  "join_inv p \<longleftrightarrow> (jn_address_bar p \<longleftrightarrow> \<not> si_entered p) \<and>
     list_all (good_call (jn_token p) (asks_account p)) (si_sent p) \<and>
     (si_stage p = Checking \<longrightarrow> \<not> list_ex is_redeem (si_sent p)) \<and>
     (previewing p \<longrightarrow> si_stage p = Checking)"

lemma asks_account_same [simp]:
  "asks_account (p\<lparr>si_stage := a\<rparr>) = asks_account p" "asks_account (p\<lparr>si_phone := b\<rparr>) = asks_account p"
  "asks_account (p\<lparr>si_code := b\<rparr>) = asks_account p" "asks_account (p\<lparr>si_error := e\<rparr>) = asks_account p"
  "asks_account (p\<lparr>si_busy := y\<rparr>) = asks_account p" "asks_account (p\<lparr>si_waiting := w\<rparr>) = asks_account p"
  "asks_account (p\<lparr>si_sent := cs\<rparr>) = asks_account p" "asks_account (p\<lparr>si_session := s\<rparr>) = asks_account p"
  "asks_account (p\<lparr>si_entered := y\<rparr>) = asks_account p" "asks_account (p\<lparr>jn_dob := b\<rparr>) = asks_account p"
  "asks_account (p\<lparr>jn_name := b\<rparr>) = asks_account p" "asks_account (p\<lparr>jn_address_bar := y\<rparr>) = asks_account p"
  by (simp_all add: asks_account_def)

lemma no_redeem_good: "\<not> list_ex is_redeem cs \<Longrightarrow> list_all (good_call t b) cs"
proof (induction cs)
  case (Cons c cs)
  then show ?case by (cases c) simp_all
qed simp

lemma join_inv_fresh: "join_inv (fresh_join token s)"
  by (simp add: join_inv_def fresh_join_def previewing_def)

lemma join_inv_request: "join_inv p \<Longrightarrow> join_inv (requestCode p)"
  by (simp add: join_inv_def requestCode_def call_out_def previewing_def)

lemma join_inv_redeem: "join_inv p \<Longrightarrow> join_inv (redeem date_ok p)"
  by (cases "si_stage p") (simp_all add: join_inv_def redeem_def call_out_def redeem_call_def previewing_def)

lemma join_inv_different: "join_inv p \<Longrightarrow> join_inv (different_number p)"
  by (cases "si_stage p") (simp_all add: join_inv_def different_number_def previewing_def)

lemma join_inv_answers:
  assumes "join_inv p"
  shows "previewing p \<Longrightarrow> join_inv (invite_previewed r (p\<lparr>si_waiting := None\<rparr>))"
    "join_inv (code_requested r (p\<lparr>si_waiting := None\<rparr>))" "join_inv (invite_redeemed r (p\<lparr>si_waiting := None\<rparr>))"
proof -
  show "join_inv (invite_previewed r (p\<lparr>si_waiting := None\<rparr>))" if "previewing p"
    using assms that by (cases r) (simp_all add: join_inv_def invite_previewed_def previewing_def no_redeem_good)
  show "join_inv (code_requested r (p\<lparr>si_waiting := None\<rparr>))"
    using assms by (cases r) (simp_all add: join_inv_def code_requested_def previewing_def Let_def)
  show "join_inv (invite_redeemed r (p\<lparr>si_waiting := None\<rparr>))"
    using assms by (cases r) (simp_all add: join_inv_def invite_redeemed_def previewing_def Let_def)
qed

lemma join_inv_typing:
  assumes "join_inv p"
  shows "join_inv (p\<lparr>si_phone := b\<rparr>)" "join_inv (p\<lparr>si_code := b\<rparr>)" "join_inv (p\<lparr>jn_name := b\<rparr>)" "join_inv (p\<lparr>jn_dob := b\<rparr>)"
    "join_inv (p\<lparr>si_waiting := None\<rparr>)"
  using assms by (simp_all add: join_inv_def previewing_def)

lemmas join_inv_intros = join_inv_request join_inv_redeem join_inv_different join_inv_answers join_inv_typing

lemma join_inv_event:
  assumes "join_inv p"
  shows "join_inv (join_event date_ok ev p)"
proof (cases ev)
  case (JoinAnswered r)
  have "previewing p" if "si_waiting p = Some (PreviewInvite t)" for t using that by (simp add: previewing_def)
  with assms JoinAnswered show ?thesis
    by (simp add: join_event_def join_inv_intros split: option.split call.split)
qed (use assms in \<open>simp_all add: join_event_def join_inv_intros split: stage.split\<close>)

lemma join_inv_run: "join_inv p \<Longrightarrow> join_inv (fold (join_event date_ok) evs p)"
  by (induction evs arbitrary: p) (simp_all add: join_inv_event)

text \<open>
  The invitation leaves the address bar when somebody has been signed in by it and not before;
  every redemption sent names the token of the page and a code of six digits, and a date of birth
  exactly when the invited number has no account.
\<close>

theorem invitation_spent_once_used:
  "let p = fold (join_event date_ok) evs (fresh_join token s)
   in (jn_address_bar p \<longleftrightarrow> \<not> si_entered p) \<and> list_all (good_call (jn_token p) (asks_account p)) (si_sent p)"
  using join_inv_run [OF join_inv_fresh] by (simp add: join_inv_def Let_def)

subsection \<open>A wrong code, as the client sees it\<close>

text \<open>
  The middleware leaves the anonymous routes alone, and redeeming an invitation is not in its list,
  though it is used signed out and answers 401 for a wrong code. Charging twice is what the second
  request does to the challenge.
\<close>

definition redeem_url :: string where "redeem_url = ''/api/v1/auth/invite/redeem''"

lemma redeem_not_anonymous: "\<not> isAnonymous redeem_url"
  by code_simp

lemma charge_twice:
  "map ch_attempts (filter (open_row xid) (challenges (snd (charge xid (snd (charge xid d)))))) =
     map (\<lambda>c. ch_attempts c + 2) (filter (open_row xid) (challenges d))"
proof -
  have "open_row xid (charged_row c) \<longleftrightarrow> open_row xid c" for c by (simp add: open_row_def)
  then have "map ch_attempts (filter (open_row xid) (map (\<lambda>c. if open_row xid c then charged_row c else c)
        (map (\<lambda>c. if open_row xid c then charged_row c else c) cs))) = map (\<lambda>c. ch_attempts c + 2) (filter (open_row xid) cs)" for cs
    by (induction cs) auto
  then show ?thesis by (simp add: charge_def)
qed


definition redeeming :: client where
  "redeeming = onRequest ''1'' \<lparr>url = redeem_url, authorization = None, body = Some ''{}'', body_used = False\<rparr> (fresh_page Map.empty)"


end
