(* ===== verification/Screens.thy ===== *)
theory Screens
  imports Assignments Marking Problems
begin

text \<open>
  The student's screens around the exam, as what each shows: which screen is up (\<open>app/App.tsx\<close>), the
  display settings (\<open>app/Settings.tsx\<close>), the work list (\<open>home/Home.tsx\<close>), the band
  (\<open>result/Result.tsx\<close>) and the marked paper (\<open>review/Review.tsx\<close>), over the rules of \<open>Assignments\<close>
  and \<open>Marking\<close>. A query is its data, its error and whether it is pending; local date formats are
  parameters.
\<close>

record 'a query =
  q_data :: "'a option"
  q_error :: "problem option"
  q_pending :: bool

definition loading :: "'a query" where
  "loading = \<lparr>q_data = None, q_error = None, q_pending = True\<rparr>"

definition loaded :: "'a \<Rightarrow> 'a query" where
  "loaded d = \<lparr>q_data = Some d, q_error = None, q_pending = False\<rparr>"

definition refused :: "problem \<Rightarrow> 'a query" where
  "refused p = \<lparr>q_data = None, q_error = Some p, q_pending = False\<rparr>"

subsection \<open>Which screen is up\<close>

datatype screen = JoinScreen string | SignInScreen | HomeScreen | ResultScreen string | ReviewScreen string
  | ExamScreen string | GoHome

record app =
  ap_signedIn :: bool
  ap_invite :: "string option"
  ap_path :: "string list"

text \<open>\<open>ap_path\<close> is the path cut at its slashes.\<close>

definition route :: "string list \<Rightarrow> screen" where
  "route segs = (case segs of
      [] \<Rightarrow> HomeScreen
    | [what, xid] \<Rightarrow>
        if what = ''result'' then ResultScreen xid
        else if what = ''review'' then ReviewScreen xid
        else if what = ''exam'' then ExamScreen xid else GoHome
    | _ \<Rightarrow> GoHome)"

definition app_screen :: "app \<Rightarrow> screen" where
  "app_screen a =
     (if \<not> ap_signedIn a
      then (if truthy_str (ap_invite a) then JoinScreen (nullish (ap_invite a) []) else SignInScreen)
      else route (ap_path a))"

definition has_settings_button :: "screen \<Rightarrow> bool" where
  "has_settings_button s = (case s of ExamScreen _ \<Rightarrow> False | GoHome \<Rightarrow> False | _ \<Rightarrow> True)"

definition signed_out :: "app \<Rightarrow> app" where
  "signed_out a = a\<lparr>ap_signedIn := False\<rparr>"

definition entered :: "app \<Rightarrow> app" where
  "entered a = a\<lparr>ap_signedIn := True\<rparr>"

subsection \<open>Display settings\<close>

definition SIZE_KEY :: string where "SIZE_KEY = ''ielts.student.size''"
definition THEME_KEY :: string where "THEME_KEY = ''ielts.student.theme''"

definition SIZES :: "(string \<times> string) list" where
  "SIZES = [(''standard'', ''Standard''), (''large'', ''Large''), (''x-large'', ''Extra large'')]"

definition THEMES :: "(string \<times> string) list" where
  "THEMES = [(''default'', ''Standard''), (''inverse'', ''White on black''), (''cream'', ''Black on cream''),
     (''yellow-on-black'', ''Yellow on black'')]"

text \<open>The hook's state, the attributes of the root element and the browser's storage.\<close>

record display =
  ds_size :: string
  ds_theme :: string
  root_size :: "string option"
  root_theme :: "string option"
  ds_storage :: "string \<rightharpoonup> string"

definition size_effect :: "display \<Rightarrow> display" where
  "size_effect d = d\<lparr>root_size := (if ds_size d = ''standard'' then None else Some (ds_size d)),
     ds_storage := (ds_storage d)(SIZE_KEY \<mapsto> ds_size d)\<rparr>"

definition theme_effect :: "display \<Rightarrow> display" where
  "theme_effect d = d\<lparr>root_theme := (if ds_theme d = ''default'' then None else Some (ds_theme d)),
     ds_storage := (ds_storage d)(THEME_KEY \<mapsto> ds_theme d)\<rparr>"

definition useDisplaySettings :: "(string \<rightharpoonup> string) \<Rightarrow> display" where
  "useDisplaySettings st =
     theme_effect (size_effect \<lparr>ds_size = nullish (st SIZE_KEY) ''standard'', ds_theme = nullish (st THEME_KEY) ''default'',
       root_size = None, root_theme = None, ds_storage = st\<rparr>)"

definition setSize :: "string \<Rightarrow> display \<Rightarrow> display" where
  "setSize s d = (if s = ds_size d then d else size_effect (d\<lparr>ds_size := s\<rparr>))"

definition setTheme :: "string \<Rightarrow> display \<Rightarrow> display" where
  "setTheme t d = (if t = ds_theme d then d else theme_effect (d\<lparr>ds_theme := t\<rparr>))"

definition useDisplay :: "display option \<Rightarrow> string + display" where
  "useDisplay provided = (case provided of
      None \<Rightarrow> Inl ''useDisplay() was called outside <DisplaySettingsProvider>''
    | Some d \<Rightarrow> Inr d)"

definition radios :: "(string \<times> string) list \<Rightarrow> string \<Rightarrow> (string \<times> bool) list" where
  "radios choices chosen = map (\<lambda>(v, label). (label, chosen = v)) choices"

text \<open>What can be pressed in the panel, and a reload of the page.\<close>

datatype display_event = PressSize nat | PressTheme nat | Reload

definition display_event :: "display_event \<Rightarrow> display \<Rightarrow> display" where
  "display_event ev d = (case ev of
      PressSize i \<Rightarrow> if i < length SIZES then setSize (fst (SIZES ! i)) d else d
    | PressTheme i \<Rightarrow> if i < length THEMES then setTheme (fst (THEMES ! i)) d else d
    | Reload \<Rightarrow> useDisplaySettings (ds_storage d))"

definition display_inv :: "display \<Rightarrow> bool" where
  "display_inv d \<longleftrightarrow> root_size d = (if ds_size d = ''standard'' then None else Some (ds_size d)) \<and>
     root_theme d = (if ds_theme d = ''default'' then None else Some (ds_theme d)) \<and>
     ds_storage d SIZE_KEY = Some (ds_size d) \<and> ds_storage d THEME_KEY = Some (ds_theme d)"

lemma keys_differ [simp]: "SIZE_KEY \<noteq> THEME_KEY" "THEME_KEY \<noteq> SIZE_KEY"
  by (simp_all add: SIZE_KEY_def THEME_KEY_def)

lemma display_inv_mount: "display_inv (useDisplaySettings st)"
  by (simp add: display_inv_def useDisplaySettings_def size_effect_def theme_effect_def)

lemma display_inv_set:
  assumes "display_inv d"
  shows "display_inv (setSize s d)" "display_inv (setTheme s d)"
  using assms by (simp_all add: setSize_def setTheme_def display_inv_def size_effect_def theme_effect_def)

lemma display_inv_event: "display_inv d \<Longrightarrow> display_inv (display_event ev d)"
  by (cases ev) (simp_all add: display_inv_mount display_event_def display_inv_set)

lemma display_inv_run: "display_inv d \<Longrightarrow> display_inv (fold display_event evs d)"
  by (induction evs arbitrary: d) (simp_all add: display_inv_event)

lemma reload_same: "display_inv d \<Longrightarrow> useDisplaySettings (ds_storage d) = d"
  by (cases d) (auto simp: display_inv_def useDisplaySettings_def size_effect_def theme_effect_def fun_upd_idem_iff)

text \<open>
  Whatever is pressed, in whatever order and however often the page is reloaded, the root element
  shows the size and theme chosen, and a reload changes nothing at all.
\<close>

theorem display_survives_reload:
  "let d = fold display_event evs (useDisplaySettings st)
   in useDisplaySettings (ds_storage d) = d \<and>
      root_size d = (if ds_size d = ''standard'' then None else Some (ds_size d)) \<and>
      root_theme d = (if ds_theme d = ''default'' then None else Some (ds_theme d))"
  using display_inv_run [OF display_inv_mount] reload_same by (simp add: display_inv_def Let_def)

text \<open>The stored value is cast, not checked: one that is no choice is written back and checks no button.\<close>

lemma unknown_size_kept:
  assumes "st SIZE_KEY = Some v" and "v \<notin> fst ` set SIZES"
  shows "ds_size (useDisplaySettings st) = v \<and> root_size (useDisplaySettings st) = Some v \<and>
    \<not> list_ex snd (radios SIZES (ds_size (useDisplaySettings st)))"
  using assms by (auto simp: useDisplaySettings_def size_effect_def theme_effect_def radios_def list_ex_iff SIZES_def)

subsection \<open>The work list\<close>

text \<open>A stat is its label and value; \<^const>\<open>None\<close> is the dash.\<close>

definition band_stat :: "string \<Rightarrow> real option \<Rightarrow> string \<times> string option" where
  "band_stat label value = (label, map_option to_fixed_1 value)"

record titled_work =
  tw_work :: assignment
  tw_title :: "string option"
  tw_mode :: string

datatype work_action = StartLink string string | Blocked string

record work_card =
  wc_title :: string
  wc_badge :: string
  wc_meta :: "string list"
  wc_action :: work_action

definition left_words :: "assignment \<Rightarrow> string" where
  "left_words a = (let limit = nullish (max_attempts a) 1
     in show_int (attemptsLeft a) @ '' of '' @ show_int limit @ '' '' @ (if limit = 1 then ''attempt'' else ''attempts'') @ '' left'')"

definition work_card :: "real \<Rightarrow> titled_work \<Rightarrow> work_card" where
  "work_card now t =
     (let a = tw_work t; state = stateOf a now; limit = limitText a
      in \<lparr>wc_title = nullish (tw_title t) ''Untitled paper'', wc_badge = tw_mode t,
          wc_meta = [deadlineText a now] @ (if truthy_str limit then [nullish limit []] else []) @ [left_words a],
          wc_action = (case state of
              Startable \<Rightarrow> StartLink (''/exam/'' @ as_xid a) (if tw_mode t = ''exam'' then ''Sit this mock'' else ''Practise'')
            | Upcoming \<Rightarrow> Blocked ''Not open yet. It will appear here when it opens.''
            | Closed \<Rightarrow> Blocked ''This closed. Ask your teacher to reopen it if you need another go.''
            | Exhausted \<Rightarrow> Blocked ''You have used every attempt on this one.'')\<rparr>)"

record progress =
  latest_band :: "real option"
  best_band :: "real option"
  mocks_sat :: "nat option"

record home =
  hm_error :: "string option"
  hm_stats :: "(string \<times> string option) list"
  hm_loading :: bool
  hm_empty :: bool
  hm_work :: "work_card list"

definition home_screen :: "(assignment \<Rightarrow> string option \<times> string) \<Rightarrow> real \<Rightarrow> assignment list query \<Rightarrow> progress query \<Rightarrow> home" where
  "home_screen rest now assignments progress =
     (let work = ordered (nullish (q_data assignments) []) now; held = q_data progress
      in \<lparr>hm_error = (if q_error assignments \<noteq> None \<or> q_error progress \<noteq> None
            then Some (problemText (coalesce (q_error assignments) (q_error progress))) else None),
          hm_stats = [band_stat ''Latest band'' (Option.bind held latest_band), band_stat ''Best band'' (Option.bind held best_band),
            (''Mocks sat'', map_option show_nat (Option.bind held mocks_sat))],
          hm_loading = q_pending assignments,
          hm_empty = (q_data assignments \<noteq> None \<and> work = []),
          hm_work = map (\<lambda>a. work_card now \<lparr>tw_work = a, tw_title = fst (rest a), tw_mode = snd (rest a)\<rparr>) work\<rparr>)"

definition starts :: "home \<Rightarrow> string list" where
  "starts h = concat (map (\<lambda>c. case wc_action c of StartLink to _ \<Rightarrow> [to] | Blocked _ \<Rightarrow> []) (hm_work h))"

text \<open>
  The list offers a start for exactly the work that may be started, each under its own address; what
  failed to load is said even beside what did.
\<close>

theorem home_starts_what_may_start:
  "set (starts (home_screen rest now assignments progress)) =
     (\<lambda>a. ''/exam/'' @ as_xid a) ` {a \<in> set (nullish (q_data assignments) []). stateOf a now = Startable} \<and>
   (hm_error (home_screen rest now assignments progress) = None \<longleftrightarrow> q_error assignments = None \<and> q_error progress = None) \<and>
   length (hm_work (home_screen rest now assignments progress)) = length (nullish (q_data assignments) [])"
proof -
  have "set (concat (map (\<lambda>c. case wc_action c of StartLink to _ \<Rightarrow> [to] | Blocked _ \<Rightarrow> [])
        (map (\<lambda>a. work_card now \<lparr>tw_work = a, tw_title = fst (rest a), tw_mode = snd (rest a)\<rparr>) as))) =
      (\<lambda>a. ''/exam/'' @ as_xid a) ` {a \<in> set as. stateOf a now = Startable}" for as
    by (induction as) (auto simp: work_card_def Let_def split: work_state.splits)
  then show ?thesis
    by (simp add: starts_def home_screen_def ordered_def Let_def)
qed

subsection \<open>The band\<close>

record score =
  sc_status :: "string option"
  sc_band :: "real option"
  sc_raw :: "int option"
  sc_max :: "int option"
  sc_sections :: "(string \<times> real option) list option"
  sc_late :: "real option"

definition result_interval :: "score option \<Rightarrow> nat option" where
  "result_interval held = (case held of
      Some d \<Rightarrow> if sc_status d \<noteq> Some ''scored'' then Some 1500 else None
    | None \<Rightarrow> None)"

datatype result_line = ResultError string | Marking | StillMarking | BandCell "string option"
  | RawCell "int option" "int option" | SkillCell string "string option" | LateLine string | ReviewLink string | BackLink

definition late_line :: "real option \<Rightarrow> result_line list" where
  "late_line late = (case late of
      Some ms \<Rightarrow> if 0 < ms then [LateLine (show_int (math_round (ms / 1000)))] else []
    | None \<Rightarrow> [])"

definition scored_lines :: "score \<Rightarrow> result_line list" where
  "scored_lines d = [BandCell (map_option to_fixed_1 (sc_band d)), RawCell (sc_raw d) (sc_max d)] @
     map (\<lambda>(skill, b). SkillCell skill (map_option to_fixed_1 b)) (nullish (sc_sections d) []) @ late_line (sc_late d)"

definition result_screen :: "string \<Rightarrow> score query \<Rightarrow> result_line list" where
  "result_screen xid q =
     (case q_error q of Some p \<Rightarrow> [ResultError (problemText (Some p))] | None \<Rightarrow> []) @
     (if q_pending q then [Marking] else []) @
     (case q_data q of
        None \<Rightarrow> []
      | Some d \<Rightarrow> if sc_status d = Some ''scored'' then scored_lines d @ [ReviewLink (''/review/'' @ xid)] else [StillMarking]) @
     [BackLink]"

text \<open>
  The page goes on asking exactly as long as it says so, and offers the review exactly when it has
  stopped asking because the marking is there.
\<close>

lemma result_asks_while_marking:
  "(result_interval (q_data q) \<noteq> None \<longleftrightarrow> StillMarking \<in> set (result_screen xid q)) \<and>
   (ReviewLink to \<in> set (result_screen xid q) \<longleftrightarrow>
      to = ''/review/'' @ xid \<and> q_data q \<noteq> None \<and> result_interval (q_data q) = None)"
  by (auto simp: result_interval_def result_screen_def scored_lines_def late_line_def split: option.splits)

text \<open>Under half a second late reads as none.\<close>

lemma half_second_reads_zero: "0 < ms \<Longrightarrow> ms < 500 \<Longrightarrow> late_line (Some ms) = [LateLine (show_int 0)]"
proof -
  assume "0 < ms" "ms < 500"
  then have "math_round (ms / 1000) = 0" unfolding math_round_def by linarith
  with \<open>0 < ms\<close> show ?thesis by (simp add: late_line_def)
qed

subsection \<open>The marked paper\<close>

definition VERDICT_LABEL :: "(string \<times> string) list" where
  "VERDICT_LABEL = [(''correct'', ''Correct''), (''incorrect'', ''Wrong''), (''partial'', ''Part marks''),
     (''unanswered'', ''Left blank''), (''void'', ''Not marked'')]"

record refusal_body =
  rb_problem :: problem
  rb_opens_at :: "string option"
  rb_ends_at :: "string option"

text \<open>\<open>local\<close> is \<open>toLocaleString\<close>; an absent or empty time gives nothing.\<close>

definition local_time :: "(string \<Rightarrow> string) \<Rightarrow> string option \<Rightarrow> string option" where
  "local_time local t = (if truthy_str t then Some (local (nullish t [])) else None)"

definition withheld :: "(string \<Rightarrow> string) \<Rightarrow> refusal_body \<Rightarrow> string \<times> string" where
  "withheld local b =
     (let code = problem_code (rb_problem b); said = problemText (Some (rb_problem b))
      in if code = Some ''review_not_permitted'' then
           (''Answers are not shown for this paper'', ''Your centre has chosen not to release the answers for this one. '' @
             ''Your teacher can still go through it with you.'')
         else if code = Some ''review_not_yet_open'' then
           (''Answers open when the assignment closes'', (case local_time local (rb_opens_at b) of
               Some t \<Rightarrow> ''Come back after '' @ t @ ''. Classmates are still sitting this paper.''
             | None \<Rightarrow> ''Come back after the deadline. Classmates are still sitting this paper.''))
         else if code = Some ''competition_still_live'' then
           (''Answers open when the contest finishes'', (case local_time local (rb_ends_at b) of
               Some t \<Rightarrow> ''The contest ends at '' @ t @ ''.''
             | None \<Rightarrow> said))
         else if code = Some ''not_scored'' then
           (''This paper has not been marked yet'', ''If you have just submitted, give it a moment and reload.'')
         else (''You cannot see this yet'', said))"

record slot_line =
  sl_item :: item
  sl_verdict :: string
  sl_written :: "string option"
  sl_accepted :: "(string \<times> string list) option"
  sl_hint :: "string option"

definition slot_line :: "item \<Rightarrow> slot_line" where
  "slot_line i =
     (let written = js_trim (nullish (raw_response i) []); accepted = nullish (accepted_answers i) []
      in \<lparr>sl_item = i, sl_verdict = nullish (map_of VERDICT_LABEL (verdict i)) (verdict i),
          sl_written = (if written = [] then None else Some written),
          sl_accepted = (if accepted = [] then None
            else Some (if length accepted = 1 then ''Accepted: '' else ''Accepted any of: '', accepted)),
          sl_hint = nearMiss i\<rparr>)"

record marked_view =
  mv_number :: int
  mv_score :: "(real \<times> real) option"
  mv_question :: "(question \<times> (string, slot_value) jsmap) option"
  mv_slots :: "slot_line list"
  mv_heard :: "string option"

text \<open>\<open>heard\<close> reads \<open>transcript_excerpt\<close> of an item; the first that is not empty is shown.\<close>

definition marked_view :: "(item \<Rightarrow> string option) \<Rightarrow> marked_question \<Rightarrow> marked_view" where
  "marked_view heard entry =
     \<lparr>mv_number = mq_number entry,
      mv_score = (if 1 < length (mq_items entry) then Some (mq_awarded entry, mq_max entry) else None),
      mv_question = map_option (\<lambda>q. (q, answersFor entry)) (mq_question entry),
      mv_slots = map slot_line (mq_items entry),
      mv_heard = Option.bind (find (\<lambda>t. truthy_str t) (map heard (mq_items entry))) id\<rparr>"

record review_data =
  rd_items :: "item list option"
  rd_band :: "real option"

datatype review_line = ReadingMarking | WithheldView string string | ReviewBand "string option" | Right nat nat
  | FetchingPaper | OnlyMarking | SectionHead string real real | MarkedView marked_view | NothingMarked

definition review_screen ::
  "(item \<Rightarrow> item \<Rightarrow> bool) \<Rightarrow> (item \<Rightarrow> string option) \<Rightarrow> (string \<Rightarrow> string) \<Rightarrow> (problem \<Rightarrow> refusal_body) \<Rightarrow>
     review_data query \<Rightarrow> section_of list query \<Rightarrow> review_line list"
where
  "review_screen slot_after heard local refusal marking paper =
     (if q_pending marking then [ReadingMarking]
      else case q_error marking of
        Some p \<Rightarrow> [case withheld local (refusal p) of (heading, said) \<Rightarrow> WithheldView heading said]
      | None \<Rightarrow>
          let items = nullish (Option.bind (q_data marking) rd_items) [];
              grouped = organise slot_after (nullish (q_data paper) []) items; overall = tally items
          in [ReviewBand (map_option to_fixed_1 (Option.bind (q_data marking) rd_band)), Right (t_right overall) (t_of overall)] @
             (if q_pending paper then [FetchingPaper] else []) @ (if q_error paper \<noteq> None then [OnlyMarking] else []) @
             concat (map (\<lambda>s. SectionHead (ms_title s) (ms_awarded s) (ms_max s) #
               map (\<lambda>e. MarkedView (marked_view heard e)) (ms_questions s)) grouped) @
             (if grouped = [] then [NothingMarked] else []))"

text \<open>The paper is asked for once the marking is there.\<close>

definition paper_enabled :: "string \<Rightarrow> review_data query \<Rightarrow> bool" where
  "paper_enabled xid marking \<longleftrightarrow> xid \<noteq> [] \<and> \<not> q_pending marking \<and> q_error marking = None"

definition reviewed :: "review_line list \<Rightarrow> item list" where
  "reviewed ls = concat (map (\<lambda>l. case l of MarkedView v \<Rightarrow> map sl_item (mv_slots v) | _ \<Rightarrow> []) ls)"

lemma reviewed_simps [simp]:
  "reviewed [] = []" "reviewed (ls @ ls') = reviewed ls @ reviewed ls'"
  "reviewed (MarkedView v # ls) = map sl_item (mv_slots v) @ reviewed ls" "reviewed (SectionHead t a m # ls) = reviewed ls"
  "reviewed (ReviewBand b # ls) = reviewed ls" "reviewed (Right r n # ls) = reviewed ls"
  "reviewed (FetchingPaper # ls) = reviewed ls" "reviewed (OnlyMarking # ls) = reviewed ls" "reviewed (NothingMarked # ls) = reviewed ls"
  by (simp_all add: reviewed_def)

lemma reviewed_questions: "reviewed (map (\<lambda>e. MarkedView (marked_view heard e)) qs) = concat (map mq_items qs)"
  by (induction qs) (simp_all add: marked_view_def slot_line_def Let_def comp_def)

lemma reviewed_sections:
  "reviewed (concat (map (\<lambda>s. SectionHead (ms_title s) (ms_awarded s) (ms_max s) #
     map (\<lambda>e. MarkedView (marked_view heard e)) (ms_questions s)) ss)) = shown_items ss"
  by (induction ss) (simp_all add: reviewed_questions shown_items_def)

text \<open>
  Once the marking is there every marked slot is on the screen, and each of them once when the
  questions of the paper are told apart by their ids; this holds while the paper is still being fetched
  and when it cannot be had at all.
\<close>

theorem review_shows_every_mark:
  assumes "\<not> q_pending marking" and "q_error marking = None" and "Option.bind (q_data marking) rd_items = Some items"
  shows "let ls = review_screen slot_after heard local refusal marking paper in
     set (reviewed ls) = set items \<and>
     (distinct (map q_xid (paper_questions (nullish (q_data paper) []))) \<longrightarrow> mset (reviewed ls) = mset items) \<and>
     Right (length (filter (\<lambda>i. verdict i = ''correct'') items)) (length items) \<in> set ls"
proof -
  let ?o = "organise slot_after (nullish (q_data paper) []) items"
  have "reviewed (review_screen slot_after heard local refusal marking paper) = shown_items ?o"
    using assms by (simp add: review_screen_def Let_def nullish_def reviewed_sections)
  moreover have "Right (length (filter (\<lambda>i. verdict i = ''correct'') items)) (length items)
      \<in> set (review_screen slot_after heard local refusal marking paper)"
    using assms by (simp add: review_screen_def Let_def nullish_def tally_sums)
  ultimately show ?thesis
    using organise_complete [of slot_after "nullish (q_data paper) []" items] by (simp add: Let_def)
qed

theorem review_shows_every_mark_witness:
  "set (reviewed (review_screen (\<lambda>_ _. False) (\<lambda>_. None) id (\<lambda>p. \<lparr>rb_problem = p, rb_opens_at = None, rb_ends_at = None\<rparr>)
     (loaded \<lparr>rd_items = Some [sample_item ''1''], rd_band = None\<rparr>) loading)) = {sample_item ''1''}"
  using review_shows_every_mark [of "loaded \<lparr>rd_items = Some [sample_item ''1''], rd_band = None\<rparr>" "[sample_item ''1'']"
    "\<lambda>_ _. False" "\<lambda>_. None" id "\<lambda>p. \<lparr>rb_problem = p, rb_opens_at = None, rb_ends_at = None\<rparr>" loading]
  by (simp add: loaded_def loading_def Let_def)

end
