(* ===== verification/Billing.thy ===== *)
theory Billing
  imports Money Problems
begin

text \<open>
  Buying for a centre, \<open>web/src/features/billing/Billing.tsx\<close>: the form, its idempotency keys and the
  orders it keeps, against \<open>create_order\<close> of \<open>app/api/routers/platform_ops.py\<close> and the store of keyed
  answers of \<open>app/api/deps.py\<close>; and the standing of a grant, against \<open>status_at\<close> of
  \<open>app/modules/billing/entitlements.py\<close>.
\<close>

subsection \<open>The standing of a grant\<close>

datatype reason = Granted | Expired | NotStarted | Revoked | Exhausted

record grant =
  gr_starts :: real
  gr_expires :: "real option"
  gr_revoked :: "real option"
  gr_quantity :: "int option"
  gr_consumed :: int

definition remaining_of :: "grant \<Rightarrow> int option" where
  "remaining_of g = map_option (\<lambda>q. max 0 (q - gr_consumed g)) (gr_quantity g)"

definition status_at :: "grant \<Rightarrow> real \<Rightarrow> reason" where
  "status_at g now =
     (if (case gr_revoked g of Some r \<Rightarrow> r \<le> now | None \<Rightarrow> False) then Revoked
      else if now < gr_starts g then NotStarted
      else if (case gr_expires g of Some e \<Rightarrow> e \<le> now | None \<Rightarrow> False) then Expired
      else if gr_quantity g \<noteq> None \<and> remaining_of g = Some 0 then Exhausted
      else Granted)"

text \<open>A row of \<open>GET /me/entitlements\<close>; revoked grants are not listed.\<close>

record entitlement_row =
  er_starts_at :: "string option"
  er_expires_at :: "string option"
  er_quantity :: "int option"
  er_remaining :: "int option"

definition my_entitlement :: "(real \<Rightarrow> string) \<Rightarrow> grant \<Rightarrow> entitlement_row option" where
  "my_entitlement iso_of g =
     (if gr_revoked g \<noteq> None then None
      else Some \<lparr>er_starts_at = Some (iso_of (gr_starts g)), er_expires_at = map_option iso_of (gr_expires g),
        er_quantity = gr_quantity g, er_remaining = remaining_of g\<rparr>)"

definition standing :: "entitlement_row \<Rightarrow> real \<Rightarrow> string" where
  "standing row now =
     (if truthy_str (er_starts_at row) \<and> Num now < date_parse (nullish (er_starts_at row) []) then ''Not started''
      else if truthy_str (er_expires_at row) \<and> date_parse (nullish (er_expires_at row) []) \<le> Num now then ''Expired''
      else if er_quantity row \<noteq> None \<and> nullish (er_remaining row) 0 \<le> 0 then ''Used up''
      else ''Live'')"

definition reason_word :: "reason \<Rightarrow> string" where
  "reason_word r = (case r of NotStarted \<Rightarrow> ''Not started'' | Expired \<Rightarrow> ''Expired'' | Exhausted \<Rightarrow> ''Used up'' | _ \<Rightarrow> ''Live'')"

text \<open>
  The last column of the list says of every grant listed what the server's check would answer for it
  at that moment, by the dates and the balance the response carries.
\<close>

theorem standing_agrees_with_check:
  assumes "my_entitlement iso_of g = Some row"
    and "date_parse (iso_of (gr_starts g)) = Num (gr_starts g)"
    and "\<forall>e. gr_expires g = Some e \<longrightarrow> date_parse (iso_of e) = Num e"
  shows "standing row now = reason_word (status_at g now)"
proof -
  have some: "t \<noteq> []" if "date_parse t = Num x" for t x
    using that by (auto simp: date_parse_eval)
  from assms(1) have row: "gr_revoked g = None" "row = \<lparr>er_starts_at = Some (iso_of (gr_starts g)),
      er_expires_at = map_option iso_of (gr_expires g), er_quantity = gr_quantity g, er_remaining = remaining_of g\<rparr>"
    by (auto simp: my_entitlement_def split: if_splits)
  moreover have "iso_of (gr_starts g) \<noteq> []" using assms(2) by (rule some)
  moreover have "iso_of e \<noteq> []" if "gr_expires g = Some e" for e using assms(3) that some by blast
  ultimately show ?thesis
    using assms(2,3)
    by (auto simp: standing_def status_at_def reason_word_def remaining_of_def truthy_str_def nullish_def split: option.splits)
qed

definition sample_grant :: grant where
  "sample_grant = \<lparr>gr_starts = 1772323200000, gr_expires = None, gr_revoked = None, gr_quantity = Some 3, gr_consumed = 3\<rparr>"

theorem standing_agrees_with_check_witness:
  "standing \<lparr>er_starts_at = Some ''2026-03-01T00:00:00Z'', er_expires_at = None, er_quantity = Some 3, er_remaining = Some 0\<rparr>
     1772323200001 = ''Used up''"
proof -
  have "my_entitlement (\<lambda>_. ''2026-03-01T00:00:00Z'') sample_grant =
      Some \<lparr>er_starts_at = Some ''2026-03-01T00:00:00Z'', er_expires_at = None, er_quantity = Some 3, er_remaining = Some 0\<rparr>"
    by (simp add: my_entitlement_def sample_grant_def remaining_of_def)
  from standing_agrees_with_check [OF this, of 1772323200001] show ?thesis
    by (simp add: sample_grant_def date_parse_eval status_at_def reason_word_def remaining_of_def)
qed

subsection \<open>Placing an order\<close>

definition PROVIDERS :: "(string \<times> string) list" where
  "PROVIDERS = [(''click'', ''Click''), (''payme'', ''Payme'')]"

record price =
  pr_xid :: "int option"
  pr_amount :: "real option"
  pr_currency :: string

record order_body =
  ob_price :: int
  ob_quantity :: nat
  ob_provider :: string
  ob_org :: "string option"
  ob_return :: string

text \<open>A row of \<open>orders\<close>, and the answer built of it.\<close>

record order_row =
  or_body :: order_body
  or_user :: nat
  or_org :: "nat option"
  or_amount :: int
  or_currency :: string
  or_reference :: string

record order_reply =
  rp_reference :: string
  rp_amount :: int
  rp_currency :: string
  rp_redirect :: string

definition reply_of :: "order_row \<Rightarrow> order_reply" where
  "reply_of r = \<lparr>rp_reference = or_reference r, rp_amount = or_amount r, rp_currency = or_currency r,
     rp_redirect = ''https://checkout.'' @ ob_provider (or_body r) @ ''.uz/pay?order='' @ or_reference r\<rparr>"

record shop =
  sh_prices :: "int \<rightharpoonup> int \<times> string"
  sh_orgs :: "string \<rightharpoonup> nat"
  sh_manages :: "nat \<Rightarrow> bool"
  sh_user :: nat
  sh_orders :: "order_row list"
  sh_keys :: "string \<rightharpoonup> order_body \<times> order_reply"

definition conflict_problem :: problem where
  "conflict_problem = \<lparr>problem_title = Some ''This idempotency key was used with a different request body.'',
     problem_code = Some ''idempotency_key_reused'', findings = None\<rparr>"

definition refused_with :: "string \<Rightarrow> string \<Rightarrow> problem" where
  "refused_with said c = \<lparr>problem_title = Some said, problem_code = Some c, findings = None\<rparr>"

definition billed_org :: "order_body \<Rightarrow> shop \<Rightarrow> problem + nat option" where
  "billed_org b s = (case ob_org b of
      None \<Rightarrow> Inr None
    | Some x \<Rightarrow> (case sh_orgs s x of
        None \<Rightarrow> Inl (refused_with ''Organization not found.'' ''not_found'')
      | Some i \<Rightarrow> if sh_manages s i then Inr (Some i) else Inl (refused_with ''You may not manage_org this.'' ''manage_org_not_permitted'')))"

text \<open>\<open>fresh\<close> is the random part of the reference.\<close>

definition create_order :: "string \<Rightarrow> string \<Rightarrow> order_body \<Rightarrow> shop \<Rightarrow> (problem + order_reply) \<times> shop" where
  "create_order fresh key b s =
     (case sh_keys s key of
        Some (b', reply) \<Rightarrow> if b' = b then (Inr reply, s) else (Inl conflict_problem, s)
      | None \<Rightarrow> (case sh_prices s (ob_price b) of
          None \<Rightarrow> (Inl (refused_with ''Price not found.'' ''not_found''), s)
        | Some (amount, cur) \<Rightarrow> (case billed_org b s of
            Inl p \<Rightarrow> (Inl p, s)
          | Inr org \<Rightarrow>
              let row = \<lparr>or_body = b, or_user = sh_user s, or_org = org, or_amount = amount * int (ob_quantity b),
                    or_currency = cur, or_reference = ''ORD-'' @ fresh\<rparr>
              in (Inr (reply_of row), s\<lparr>sh_orders := sh_orders s @ [row], sh_keys := (sh_keys s)(key \<mapsto> (b, reply_of row))\<rparr>))))"

text \<open>The page. A key is held per body: the signature of a body is the body.\<close>

record billing =
  bl_chosen :: "price option"
  bl_quantity :: string
  bl_provider :: string
  bl_org :: string
  bl_return :: string
  bl_keys :: "order_body \<rightharpoonup> string"
  bl_placed :: "order_reply list"
  bl_error :: "string option"

definition fresh_billing :: "string \<Rightarrow> string \<Rightarrow> billing" where
  "fresh_billing org ret = \<lparr>bl_chosen = None, bl_quantity = ''1'', bl_provider = ''click'', bl_org = org, bl_return = ret,
     bl_keys = Map.empty, bl_placed = [], bl_error = None\<rparr>"

definition shown_total :: "billing \<Rightarrow> int option" where
  "shown_total p = (case bl_chosen p of
      None \<Rightarrow> None
    | Some pr \<Rightarrow> (case (pr_amount pr, parseQuantity (bl_quantity p)) of
        (Some u, Some q) \<Rightarrow> lineTotal u (real q)
      | _ \<Rightarrow> None))"

definition order_body :: "billing \<Rightarrow> string + order_body" where
  "order_body p = (case bl_chosen p of
      None \<Rightarrow> Inl ''Choose what to buy.''
    | Some pr \<Rightarrow> (case parseQuantity (bl_quantity p) of
        None \<Rightarrow> Inl ''How many is not a whole number.''
      | Some q \<Rightarrow> (case pr_xid pr of
          None \<Rightarrow> Inl ''This price has no identifier.''
        | Some x \<Rightarrow> Inr \<lparr>ob_price = x, ob_quantity = q, ob_provider = bl_provider p,
            ob_org = (if bl_org p = [] then None else Some (bl_org p)), ob_return = bl_return p\<rparr>)))"

text \<open>What becomes of a request: the answer arrives, the answer is lost, or it never reaches the server.\<close>

datatype fate = Arrives | ReplyLost | NeverSent

definition buy_failed :: "failure \<Rightarrow> billing \<Rightarrow> billing" where
  "buy_failed f p = p\<lparr>bl_error := Some (problemText (as_problem f))\<rparr>"

definition buy_succeeded :: "order_body \<Rightarrow> order_reply \<Rightarrow> billing \<Rightarrow> billing" where
  "buy_succeeded b reply p = p\<lparr>bl_keys := (bl_keys p)(b := None), bl_error := None, bl_placed := reply # bl_placed p\<rparr>"

definition place_order :: "string \<Rightarrow> string \<Rightarrow> fate \<Rightarrow> billing \<times> shop \<Rightarrow> billing \<times> shop" where
  "place_order uuid fresh fate w = (case w of (p, s) \<Rightarrow>
     (case order_body p of
        Inl said \<Rightarrow> (buy_failed (JsError said) p, s)
      | Inr b \<Rightarrow>
          let key = nullish (bl_keys p b) uuid; p = p\<lparr>bl_keys := (bl_keys p)(b \<mapsto> key), bl_error := None\<rparr>
          in case fate of
            NeverSent \<Rightarrow> (buy_failed (JsError ''Failed to fetch'') p, s)
          | ReplyLost \<Rightarrow> (buy_failed (JsError ''Failed to fetch'') p, snd (create_order fresh key b s))
          | Arrives \<Rightarrow> (case create_order fresh key b s of
              (Inl problem, s) \<Rightarrow> (buy_failed (ApiProblem problem) p, s)
            | (Inr reply, s) \<Rightarrow> (buy_succeeded b reply p, s))))"

datatype form_edit = Choose price | Quantity string | Provider nat | Centre string | Address string

definition edit_form :: "form_edit \<Rightarrow> billing \<Rightarrow> billing" where
  "edit_form e p = (case e of
      Choose pr \<Rightarrow> p\<lparr>bl_chosen := Some pr, bl_error := None\<rparr>
    | Quantity t \<Rightarrow> p\<lparr>bl_quantity := t\<rparr>
    | Provider i \<Rightarrow> if i < length PROVIDERS then p\<lparr>bl_provider := fst (PROVIDERS ! i)\<rparr> else p
    | Centre x \<Rightarrow> p\<lparr>bl_org := x\<rparr>
    | Address a \<Rightarrow> p\<lparr>bl_return := a\<rparr>)"

text \<open>\<open>crypto.randomUUID\<close> and the reference are new; the button is not pressed while a request is out.\<close>

inductive billing_step :: "billing \<times> shop \<Rightarrow> billing \<times> shop \<Rightarrow> bool" where
  Edits: "billing_step (p, s) (edit_form e p, s)"
| Places: "uuid \<notin> ran (bl_keys p) \<Longrightarrow> uuid \<notin> dom (sh_keys s) \<Longrightarrow> ''ORD-'' @ fresh \<notin> or_reference ` set (sh_orders s) \<Longrightarrow>
    billing_step (p, s) (place_order uuid fresh fate (p, s))"
| PriceChanges: "billing_step (p, s) (p, s\<lparr>sh_prices := prices\<rparr>)"

inductive billing_run :: "billing \<times> shop \<Rightarrow> bool" where
  Opens: "sh_orders s = [] \<Longrightarrow> sh_keys s = Map.empty \<Longrightarrow> billing_run (fresh_billing org ret, s)"
| Steps: "billing_run w \<Longrightarrow> billing_step w w' \<Longrightarrow> billing_run w'"

subsection \<open>One order for one purchase\<close>

text \<open>The orders for a body that no answer has shown yet.\<close>

definition unshown :: "order_reply list \<Rightarrow> order_row list \<Rightarrow> order_body \<Rightarrow> order_row list" where
  "unshown P rs b = filter (\<lambda>r. or_body r = b \<and> or_reference r \<notin> rp_reference ` set P) rs"

definition shop_inv ::
  "(order_body \<rightharpoonup> string) \<Rightarrow> order_reply list \<Rightarrow> order_row list \<Rightarrow> (string \<rightharpoonup> order_body \<times> order_reply) \<Rightarrow> bool"
where
  "shop_inv K P rs S \<longleftrightarrow> distinct (map or_reference rs) \<and> distinct (map rp_reference P) \<and> set P \<subseteq> reply_of ` set rs \<and>
     inj_on K (dom K) \<and>
     (\<forall>b. case K b of
        None \<Rightarrow> unshown P rs b = []
      | Some k \<Rightarrow> (case S k of
          None \<Rightarrow> unshown P rs b = []
        | Some (b', rep) \<Rightarrow> b' = b \<and> (\<exists>row. unshown P rs b = [row] \<and> rep = reply_of row)))"

lemma shop_invE:
  assumes "shop_inv K P rs S"
  shows "K b = None \<Longrightarrow> unshown P rs b = []"
    "K b = Some k \<Longrightarrow> S k = None \<Longrightarrow> unshown P rs b = []"
    "K b = Some k \<Longrightarrow> S k = Some (b', rep) \<Longrightarrow> b' = b \<and> (\<exists>row. unshown P rs b = [row] \<and> rep = reply_of row)"
proof -
  have "case K b of
        None \<Rightarrow> unshown P rs b = []
      | Some k \<Rightarrow> (case S k of
          None \<Rightarrow> unshown P rs b = []
        | Some (b', rep) \<Rightarrow> b' = b \<and> (\<exists>row. unshown P rs b = [row] \<and> rep = reply_of row))"
    using assms unfolding shop_inv_def by blast
  then show "K b = None \<Longrightarrow> unshown P rs b = []" "K b = Some k \<Longrightarrow> S k = None \<Longrightarrow> unshown P rs b = []"
    "K b = Some k \<Longrightarrow> S k = Some (b', rep) \<Longrightarrow> b' = b \<and> (\<exists>row. unshown P rs b = [row] \<and> rep = reply_of row)"
    by simp_all
qed

lemma reply_reference [simp]: "rp_reference (reply_of r) = or_reference r"
  by (simp add: reply_of_def)

lemma hold_key:
  assumes inv: "shop_inv K P rs S" and key: "key = nullish (K b) uuid" and fresh: "uuid \<notin> ran K" "S uuid = None"
  shows "shop_inv (K(b \<mapsto> key)) P rs S"
proof (cases "K b")
  case (Some k)
  then have "K(b \<mapsto> key) = K" using key by (auto simp: nullish_def)
  then show ?thesis using inv by simp
next
  case None
  then have "key = uuid" using key by (simp add: nullish_def)
  moreover have "inj_on (K(b \<mapsto> uuid)) (dom (K(b \<mapsto> uuid)))"
    using inv fresh(1) by (auto simp: shop_inv_def inj_on_def ran_def)
  moreover have "unshown P rs b = []" using shop_invE(1) [OF inv None] .
  ultimately show ?thesis using inv fresh(2) by (simp add: shop_inv_def)
qed

lemma server_creates:
  assumes inv: "shop_inv K P rs S" and b: "K b = Some key" "S key = None"
    and row: "or_body row = b" "or_reference row \<notin> or_reference ` set rs"
  shows "shop_inv K P (rs @ [row]) (S(key \<mapsto> (b, reply_of row)))"
proof -
  have unseen: "or_reference row \<notin> rp_reference ` set P"
    using inv row(2) by (auto simp: shop_inv_def)
  have new: "unshown P (rs @ [row]) c = unshown P rs c @ (if c = b then [row] else [])" for c
    using unseen row(1) by (auto simp: unshown_def)
  have other: "K c \<noteq> Some key" if "c \<noteq> b" for c
    using inv b(1) that by (auto simp: shop_inv_def inj_on_def dom_def)
  have "case K c of
        None \<Rightarrow> unshown P (rs @ [row]) c = []
      | Some k \<Rightarrow> (case (S(key \<mapsto> (b, reply_of row))) k of
          None \<Rightarrow> unshown P (rs @ [row]) c = []
        | Some (b', rep) \<Rightarrow> b' = c \<and> (\<exists>r. unshown P (rs @ [row]) c = [r] \<and> rep = reply_of r))" for c
  proof (cases "c = b")
    case True
    then show ?thesis using b shop_invE(2) [OF inv b] new by simp
  next
    case False
    then show ?thesis using other [OF False] new shop_invE [OF inv, of c] by (auto split: option.split)
  qed
  then show ?thesis using inv row(2) by (auto simp: shop_inv_def)
qed

lemma reply_arrives:
  assumes inv: "shop_inv K P rs S" and b: "K b = Some key" "S key = Some (b, rep)"
  shows "shop_inv (K(b := None)) (rep # P) rs S"
proof -
  obtain row where row: "unshown P rs b = [row]" "rep = reply_of row" using shop_invE(3) [OF inv b] by blast
  then have "row \<in> set (unshown P rs b)" by simp
  then have mem: "row \<in> set rs" "or_body row = b" "or_reference row \<notin> rp_reference ` set P"
    by (auto simp: unshown_def)
  have uniq: "r = row" if "r \<in> set rs" "or_reference r = or_reference row" for r
    using inv that mem(1) by (auto simp: shop_inv_def distinct_map dest: inj_onD)
  have "unshown (rep # P) rs c = filter (\<lambda>r. r \<noteq> row) (unshown P rs c)" for c
    unfolding unshown_def row(2) filter_filter by (rule filter_cong) (use uniq in auto)
  moreover have "filter (\<lambda>r. r \<noteq> row) (unshown P rs c) = unshown P rs c" if "c \<noteq> b" for c
    by (rule filter_True) (use mem(2) that in \<open>auto simp: unshown_def\<close>)
  ultimately have new: "unshown (rep # P) rs c = (if c = b then [] else unshown P rs c)" for c
    using row(1) by simp
  have "inj_on (K(b := None)) (dom (K(b := None)))"
    using inv by (auto simp: shop_inv_def inj_on_def)
  moreover have "case (K(b := None)) c of
        None \<Rightarrow> unshown (rep # P) rs c = []
      | Some k \<Rightarrow> (case S k of
          None \<Rightarrow> unshown (rep # P) rs c = []
        | Some (b', r) \<Rightarrow> b' = c \<and> (\<exists>row. unshown (rep # P) rs c = [row] \<and> r = reply_of row))" for c
    using shop_invE [OF inv, of c] by (cases "c = b") (auto simp: new split: option.split)
  moreover have "distinct (map rp_reference (rep # P))" "set (rep # P) \<subseteq> reply_of ` set rs" "distinct (map or_reference rs)"
    using inv mem row(2) by (auto simp: shop_inv_def)
  ultimately show ?thesis unfolding shop_inv_def by blast
qed

lemma create_order_cases:
  assumes "create_order fresh key b s = (res, s')"
  obtains (Refused) problem where "res = Inl problem" "s' = s"
  | (Replayed) rep where "res = Inr rep" "s' = s" "sh_keys s key = Some (b, rep)"
  | (Created) row where "res = Inr (reply_of row)" "sh_keys s key = None" "or_body row = b" "or_reference row = ''ORD-'' @ fresh"
      "sh_orders s' = sh_orders s @ [row]" "sh_keys s' = (sh_keys s)(key \<mapsto> (b, reply_of row))"
proof (cases "sh_keys s key")
  case (Some x)
  with assms Refused Replayed show thesis
    by (cases x) (auto simp: create_order_def split: if_splits)
next
  case None
  show thesis
  proof (cases "sh_prices s (ob_price b)")
    case (Some x)
    obtain amount cur where x: "x = (amount, cur)" by (cases x)
    show thesis
    proof (cases "billed_org b s")
      case (Inl problem)
      with assms None Some x have "res = Inl problem" "s' = s" by (simp_all add: create_order_def)
      then show thesis by (rule Refused)
    next
      case (Inr org)
      define row where "row = \<lparr>or_body = b, or_user = sh_user s, or_org = org, or_amount = amount * int (ob_quantity b),
        or_currency = cur, or_reference = ''ORD-'' @ fresh\<rparr>"
      have "(res, s') = (Inr (reply_of row), s\<lparr>sh_orders := sh_orders s @ [row], sh_keys := (sh_keys s)(key \<mapsto> (b, reply_of row))\<rparr>)"
        unfolding assms [symmetric] by (simp add: create_order_def None Some x Inr Let_def row_def)
      then show thesis using Created [of row] None by (simp add: row_def)
    qed
  next
    case None': None
    with assms None have "res = Inl (refused_with ''Price not found.'' ''not_found'')" "s' = s" by (simp_all add: create_order_def)
    then show thesis by (rule Refused)
  qed
qed

definition world_inv :: "billing \<times> shop \<Rightarrow> bool" where
  "world_inv w = (case w of (p, s) \<Rightarrow> shop_inv (bl_keys p) (bl_placed p) (sh_orders s) (sh_keys s))"

lemma world_inv_server:
  assumes "shop_inv K P (sh_orders s) (sh_keys s)" "K b = Some key" "''ORD-'' @ fresh \<notin> or_reference ` set (sh_orders s)"
    and "create_order fresh key b s = (res, s')"
  shows "shop_inv K P (sh_orders s') (sh_keys s') \<and> (\<forall>rep. res = Inr rep \<longrightarrow> sh_keys s' key = Some (b, rep))"
  using assms(4)
proof (cases rule: create_order_cases)
  case (Created row)
  with assms(1-3) server_creates [of K P "sh_orders s" "sh_keys s" b key row] show ?thesis by simp
qed (use assms in auto)

lemma world_inv_place:
  assumes inv: "world_inv (p, s)" and fresh: "uuid \<notin> ran (bl_keys p)" "uuid \<notin> dom (sh_keys s)"
    and ref: "''ORD-'' @ fresh \<notin> or_reference ` set (sh_orders s)"
  shows "world_inv (place_order uuid fresh fate (p, s))"
proof (cases "order_body p")
  case (Inl said)
  with inv show ?thesis by (simp add: place_order_def world_inv_def buy_failed_def)
next
  case (Inr b)
  define key where "key = nullish (bl_keys p b) uuid"
  let ?K = "(bl_keys p)(b \<mapsto> key)"
  have held: "shop_inv ?K (bl_placed p) (sh_orders s) (sh_keys s)"
    by (rule hold_key [where K = "bl_keys p" and b = b and uuid = uuid, OF _ key_def]) (use inv fresh in \<open>auto simp: world_inv_def\<close>)
  obtain res s' where made: "create_order fresh key b s = (res, s')" by (cases "create_order fresh key b s")
  from world_inv_server [OF held _ ref made] have after_it: "shop_inv ?K (bl_placed p) (sh_orders s') (sh_keys s')"
    and keyed: "\<And>rep. res = Inr rep \<Longrightarrow> sh_keys s' key = Some (b, rep)" by simp_all
  have arrived: "shop_inv ((bl_keys p)(b := None)) (rep # bl_placed p) (sh_orders s') (sh_keys s')" if "res = Inr rep" for rep
    using reply_arrives [OF after_it _ keyed [OF that]] by simp
  show ?thesis
    using held after_it arrived
    by (cases fate; cases res)
      (simp_all add: place_order_def Inr made world_inv_def buy_failed_def buy_succeeded_def Let_def flip: key_def)
qed

lemma world_inv_run: "billing_run w \<Longrightarrow> world_inv w"
proof (induction rule: billing_run.induct)
  case (Opens s org ret)
  then show ?case by (simp add: world_inv_def fresh_billing_def shop_inv_def unshown_def)
next
  case (Steps w w')
  from Steps(2,3) show ?case
  proof (cases rule: billing_step.cases)
    case (Edits p s e)
    then show ?thesis using Steps.IH by (cases e) (simp_all add: world_inv_def edit_form_def)
  next
    case (Places uuid p s fresh fate)
    then show ?thesis using Steps.IH world_inv_place by blast
  next
    case (PriceChanges p s prices)
    then show ?thesis using Steps.IH by (simp add: world_inv_def)
  qed
qed


text \<open>The total shown before pressing is the amount of the order, when the price has not changed.\<close>

lemma shown_total_is_charged:
  assumes "shown_total p = Some t" and "order_body p = Inr b" and "bl_chosen p = Some pr"
    and "sh_prices s (ob_price b) = Some (amount, cur)" and "pr_amount pr = Some (real_of_int amount)"
    and "create_order fresh key b s = (Inr reply, s')" and "sh_keys s key = None"
  shows "rp_amount reply = t"
proof -
  obtain q where q: "parseQuantity (bl_quantity p) = Some q" "lineTotal (real_of_int amount) (real q) = Some t"
    using assms(1,3,5) by (auto simp: shown_total_def split: option.splits)
  then have "ob_quantity b = q" using assms(2,3) by (auto simp: order_body_def split: option.splits)
  moreover have "t = amount * int q"
  proof -
    from q(2) have "t = \<lfloor>real_of_int amount\<rfloor> * \<lfloor>real q\<rfloor>" by (auto simp: lineTotal_def Let_def split: if_splits)
    then show ?thesis by simp
  qed
  ultimately show ?thesis
    using assms(4,6,7) by (auto simp: create_order_def reply_of_def Let_def split: sum.splits)
qed

lemma order_body_frame [simp]:
  "order_body (p\<lparr>bl_keys := ks\<rparr>) = order_body p" "order_body (p\<lparr>bl_error := e\<rparr>) = order_body p"
  by (simp_all add: order_body_def cong: option.case_cong)

definition sample_shop :: shop where
  "sample_shop = \<lparr>sh_prices = [7 \<mapsto> (500, ''UZS'')], sh_orgs = [''c'' \<mapsto> 1], sh_manages = (\<lambda>_. True), sh_user = 4,
     sh_orders = [], sh_keys = Map.empty\<rparr>"

definition sample_order :: order_body where
  "sample_order = \<lparr>ob_price = 7, ob_quantity = 1, ob_provider = ''click'', ob_org = Some ''c'', ob_return = ''u''\<rparr>"

definition chosen_page :: billing where
  "chosen_page = edit_form (Choose \<lparr>pr_xid = Some 7, pr_amount = Some 500, pr_currency = ''UZS''\<rparr>) (fresh_billing ''c'' ''u'')"

lemma chosen_body: "order_body chosen_page = Inr sample_order"
  by (simp add: chosen_page_def fresh_billing_def edit_form_def order_body_def sample_order_def parseQuantity_def js_trim_def
    trim_start_def is_space_def is_digit_def read_nat_def MAX_SAFE_INTEGER_def digit_val_def Let_def)

definition lost_world :: "billing \<times> shop" where
  "lost_world = place_order ''k'' ''1'' ReplyLost (chosen_page, sample_shop)"

lemma lost_run: "billing_run (fst lost_world, snd lost_world)"
proof -
  have "billing_run (fresh_billing ''c'' ''u'', sample_shop)" by (rule billing_run.Opens) (simp_all add: sample_shop_def)
  then have "billing_run (chosen_page, sample_shop)"
    unfolding chosen_page_def by (rule billing_run.Steps) (rule billing_step.Edits)
  then have "billing_run lost_world"
    unfolding lost_world_def
    by (rule billing_run.Steps)
      (rule billing_step.Places, simp_all add: chosen_page_def fresh_billing_def edit_form_def sample_shop_def)
  then show ?thesis by simp
qed


end
