(* ===== verification/QuestionForm.thy ===== *)
theory QuestionForm
  imports PayloadParts OptionBank
begin

text \<open>
  The question form built from the registry, \<open>web/src/features/questions/TypeForm.tsx\<close> and
  \<open>PayloadWidgets.tsx\<close>, and its two uses in \<open>QuestionLibrary.tsx\<close>: what each widget shows of a payload,
  what a change writes into it, and the drafts the widgets keep of their own. A payload is an object
  without the members that are \<open>undefined\<close>, as it is sent.
\<close>

record form_field =
  ff_field :: string
  ff_widget :: string
  ff_required :: "bool option"
  ff_optional :: "bool option"
  ff_label :: "string option"
  ff_hint :: "string option"
  ff_skills :: "string list option"

definition shown_fields :: "string option \<Rightarrow> form_field list \<Rightarrow> form_field list" where
  "shown_fields skill specs = filter (\<lambda>spec. ff_skills spec = None \<or> \<not> truthy_str skill \<or>
     nullish skill [] \<in> set (nullish (ff_skills spec) [])) specs"

definition labelOf :: "form_field \<Rightarrow> string" where
  "labelOf spec = nullish (ff_label spec) (map (\<lambda>c. if c = CHR ''_'' then CHR '' '' else c) (ff_field spec))"

definition is_required :: "form_field \<Rightarrow> bool" where
  "is_required spec \<longleftrightarrow> ff_required spec = Some True \<or> ff_optional spec = Some False"

definition NATIVE :: "string list" where
  "NATIVE = [''text'', ''richtext'', ''number'', ''toggle'', ''option_list'', ''word_limit_builder'', ''audio_timestamp'',
     ''paragraph_picker'']"

definition COMPOSITE :: "string list" where
  "COMPOSITE = [''hotspot_slot_list'', ''label_slot_list'', ''paragraph_slot_builder'', ''note_builder'', ''flowchart_builder'',
     ''form_builder'', ''table_builder'', ''blank_editor'']"

text \<open>\<open>{ ...payload, [field]: value }\<close>; an \<open>undefined\<close> value leaves the member out.\<close>

definition members :: "json \<Rightarrow> (string \<times> json) list" where
  "members p = (case p of JObj fs \<Rightarrow> fs | _ \<Rightarrow> [])"

definition set_member :: "string \<Rightarrow> json option \<Rightarrow> json \<Rightarrow> json" where
  "set_member f v p = JObj (case v of
      Some j \<Rightarrow> jsmap_set f j (members p)
    | None \<Rightarrow> filter (\<lambda>(k, _). k \<noteq> f) (members p))"

definition patch :: "json \<Rightarrow> json \<Rightarrow> json" where
  "patch next p = JObj (fold (\<lambda>(k, v). jsmap_set k v) (members next) (members p))"

lemma map_of_without: "map_of (filter (\<lambda>(k, _). k \<noteq> f) kvs) g = (if g = f then None else map_of kvs g)"
  by (induction kvs) auto

lemma field_set_member [simp]: "field g (set_member f v p) = (if g = f then v else field g p)"
  by (cases p; cases v) (simp_all add: set_member_def members_def field_def map_of_without)

subsection \<open>Native widgets\<close>

definition text_shown :: "json option \<Rightarrow> string" where
  "text_shown v = nullish (as_string v) []"

definition text_changed :: "string \<Rightarrow> string \<Rightarrow> json \<Rightarrow> json" where
  "text_changed f t p = set_member f (Some (JStr t)) p"

definition paragraph_changed :: "string \<Rightarrow> string \<Rightarrow> json \<Rightarrow> json" where
  "paragraph_changed f t p = set_member f (if t = [] then None else Some (JStr t)) p"

text \<open>\<open>Number\<close> of a text that is none is \<open>NaN\<close>, which is sent as \<open>null\<close>.\<close>

definition number_changed :: "string \<Rightarrow> string \<Rightarrow> json \<Rightarrow> json" where
  "number_changed f t p = set_member f (if t = [] then None
     else Some (case js_number t of Some n \<Rightarrow> JNum n | None \<Rightarrow> JNull)) p"

definition toggle_shown :: "json option \<Rightarrow> bool" where
  "toggle_shown v \<longleftrightarrow> v = Some (JBool True)"

definition toggle_changed :: "string \<Rightarrow> bool \<Rightarrow> json \<Rightarrow> json" where
  "toggle_changed f on p = set_member f (Some (JBool on)) p"

definition word_limit_changed :: "string \<Rightarrow> string \<Rightarrow> json \<Rightarrow> json" where
  "word_limit_changed f t p =
     set_member f (Some (number_changed ''max_words'' t (nullish (field f p) (JObj [])))) p"

definition word_flag_changed :: "string \<Rightarrow> string \<Rightarrow> bool \<Rightarrow> json \<Rightarrow> json" where
  "word_flag_changed f flag on p = set_member f (Some (toggle_changed flag on (nullish (field f p) (JObj [])))) p"

subsection \<open>The option list\<close>

text \<open>
  The box has no draft: it shows the words of the options in the payload, which are read back from
  the box at every change.
\<close>

definition option_json :: "bank_option \<Rightarrow> json" where
  "option_json o' = JObj [(''id'', JStr (opt_id o')), (''text'', JStr (opt_text o'))]"

definition option_words :: "json \<Rightarrow> string" where
  "option_words v = (case v of JStr s \<Rightarrow> s | _ \<Rightarrow> nullish (as_string (field ''text'' v)) [])"

definition options_shown :: "json option \<Rightarrow> string" where
  "options_shown v = js_join [CHR 0x0A] (map option_words (nullish (as_array v) []))"

definition options_changed :: "string \<Rightarrow> string \<Rightarrow> json \<Rightarrow> json" where
  "options_changed f t p = set_member f (Some (JArr (map option_json (parseBank t Letters)))) p"

text \<open>Typing at the end of the box.\<close>

definition type_option :: "string \<Rightarrow> char \<Rightarrow> json \<Rightarrow> json" where
  "type_option f c p = options_changed f (options_shown (field f p) @ [c]) p"

lemma option_words_json [simp]: "option_words (option_json o') = opt_text o'"
  by (simp add: option_words_def option_json_def field_def as_string_def nullish_def)

lemma options_shown_changed:
  "options_shown (field f (options_changed f t p)) = js_join [CHR 0x0A] (map opt_text (parseBank t Letters))"
  by (simp add: options_shown_def options_changed_def as_array_def nullish_def comp_def)

definition no_spaces :: "string \<Rightarrow> bool" where
  "no_spaces s \<longleftrightarrow> list_all (\<lambda>c. \<not> is_space c) s"

lemma no_spaces_trim: "no_spaces s \<Longrightarrow> js_trim s = s"
proof (cases "s = []")
  case False
  assume "no_spaces s"
  with False have "\<not> is_space (hd s)" "\<not> is_space (last s)" by (simp_all add: no_spaces_def list_all_iff)
  with False show ?thesis by (simp add: js_trim_id)
qed (simp add: js_trim_def trim_start_def)

lemma set_tl: "set (tl xs) \<subseteq> set xs"
  by (cases xs) auto

lemma no_spaces_strip:
  assumes "no_spaces s"
  shows "stripIdentifier s = s"
proof -
  have "LEADING_ID s = None"
  proof (cases "after_id s")
    case (Some r)
    then have "set r \<subseteq> set s"
      using set_tl by (fastforce simp: after_id_def Let_def split: if_splits dest: set_dropWhileD)
    then show ?thesis using Some assms by (auto simp: LEADING_ID_def no_spaces_def list_all_iff split: list.split)
  qed (simp add: LEADING_ID_def)
  then show ?thesis using no_spaces_trim [OF assms] by (cases "s = []") (simp_all add: stripIdentifier_def)
qed

lemma trim_spaces: "list_all is_space w \<Longrightarrow> no_spaces s \<Longrightarrow> js_trim (s @ w) = s"
proof -
  assume w: "list_all is_space w" and s: "no_spaces s"
  show ?thesis
  proof (cases "s = []")
    case True
    with w show ?thesis by (auto simp: js_trim_def trim_start_def list_all_iff dest: set_dropWhileD)
  next
    case False
    with s have "\<not> is_space (hd s)" by (simp add: no_spaces_def list_all_iff)
    with False have "trim_start (s @ w) = s @ w" by (cases s) (simp_all add: trim_start_def)
    moreover have "trim_start (rev w @ rev s) = trim_start (rev s)"
      unfolding trim_start_def by (rule dropWhile_append2) (use w in \<open>simp add: list_all_iff\<close>)
    ultimately show ?thesis using no_spaces_trim [OF s] \<open>\<not> is_space (hd s)\<close> False
      by (cases s) (simp_all add: js_trim_def trim_start_def)
  qed
qed

text \<open>One line without spaces, and perhaps one space after it, is one option or none.\<close>

lemma parse_one_line:
  assumes "no_spaces s" "list_all is_space w" "length w \<le> 1"
  shows "map opt_text (parseBank (s @ w) Letters) = (if s = [] \<or> BARE_ID s then [] else [s])"
proof -
  have "CHR 0x0A \<notin> set s" using assms(1) by (auto simp: no_spaces_def list_all_iff is_space_def)
  then have "map js_trim (js_split (CHR 0x0A) (s @ w)) = (if w = [CHR 0x0A] then [s, []] else [s])"
    using assms trim_spaces [OF assms(2,1)] no_spaces_trim [OF assms(1)]
    by (cases w) (auto simp: js_split_append js_split_no_sep js_trim_def trim_start_def)
  then show ?thesis
    using no_spaces_strip [OF assms(1)] by (simp add: parseBank_def)
qed

text \<open>
  An option list cannot be typed. However long an author types at the end of the box, no space and
  no line break is ever in it: the box shows what was read of it, and reading trims, so each is gone as
  soon as it is typed, and there is never more than one option.
\<close>

theorem option_list_cannot_be_typed:
  assumes "field f p = None"
  shows "let q = fold (type_option f) typed p
     in no_spaces (options_shown (field f q)) \<and> length (nullish (as_array (field f q)) []) \<le> 1"
proof -
  have box: "\<exists>s. no_spaces s \<and> \<not> BARE_ID s \<and> map option_words (nullish (as_array (field f (fold (type_option f) typed q))) []) = (if s = [] then [] else [s])"
    if "no_spaces s" "\<not> BARE_ID s" "map option_words (nullish (as_array (field f q)) []) = (if s = [] then [] else [s])" for s q
    using that
  proof (induction typed arbitrary: s q)
    case Nil
    then show ?case by auto
  next
    case (Cons c typed)
    have shown: "options_shown (field f q) = s" using Cons.prems(3) by (simp add: options_shown_def)
    let ?t = "if is_space c then s else s @ [c]"
    have "map opt_text (parseBank (s @ [c]) Letters) = (if ?t = [] \<or> BARE_ID ?t then [] else [?t])"
      using parse_one_line [of s "[c]"] parse_one_line [of "s @ [c]" "[]"] Cons.prems(1)
      by (cases "is_space c") (auto simp: no_spaces_def)
    then have "map option_words (nullish (as_array (field f (type_option f c q))) []) = (if ?t = [] \<or> BARE_ID ?t then [] else [?t])"
      by (simp add: type_option_def options_changed_def shown as_array_def nullish_def comp_def)
    moreover have "no_spaces ?t" using Cons.prems(1) by (simp add: no_spaces_def)
    moreover have "\<not> BARE_ID []" by (simp add: BARE_ID_def after_id_def)
    ultimately show ?case
      using Cons.IH [of "if BARE_ID ?t then [] else ?t" "type_option f c q"] by (auto simp: no_spaces_def split: if_splits)
  qed
  obtain s where "no_spaces s" "map option_words (nullish (as_array (field f (fold (type_option f) typed p))) []) = (if s = [] then [] else [s])"
    using box [of "[]" p] assms by (auto simp: no_spaces_def BARE_ID_def after_id_def as_array_def nullish_def)
  then show ?thesis
    by (auto simp: Let_def options_shown_def no_spaces_def map_eq_Cons_conv split: if_splits)
qed

theorem option_list_cannot_be_typed_witness:
  "no_spaces (options_shown (field ''options'' (fold (type_option ''options'') ''near water'' (JObj []))))"
  using option_list_cannot_be_typed [of "''options''" "JObj []" "''near water''"] by (simp add: field_def Let_def)

subsection \<open>Widgets with a draft\<close>

text \<open>
  The builders cast what is stored to what the author types. A member that is no string is
  \<^const>\<open>None\<close> in a draft: reading it as one throws.
\<close>

record raw_note =
  rn_kind :: "string option"
  rn_text :: "string option"

record raw_form =
  rf_label :: "string option"
  rf_value :: "string option"

datatype draft =
    ProseDraft string
  | SlotsDraft "string list"
  | NotesDraft "raw_note list"
  | StepsDraft "(string option \<times> string option) list"
  | FormDraft "raw_form list"
  | GridDraft "string list" "json list list"
  | TimeDraft string
  | JsonDraft string bool

definition stored_list :: "string \<Rightarrow> json \<Rightarrow> json list" where
  "stored_list f p = nullish (as_array (field f p)) []"

definition SLOT_FIELD :: "(string \<times> string) list" where
  "SLOT_FIELD = [(''label_slot_list'', ''label''), (''hotspot_slot_list'', ''hint''), (''paragraph_slot_builder'', ''paragraph'')]"

definition raw_note :: "json \<Rightarrow> raw_note" where
  "raw_note j = \<lparr>rn_kind = as_string (field ''kind'' j), rn_text = as_string (field ''text'' j)\<rparr>"

definition raw_form :: "json \<Rightarrow> raw_form" where
  "raw_form j = \<lparr>rf_label = as_string (field ''label'' j), rf_value = as_string (field ''value'' j)\<rparr>"

definition raw_step :: "json \<Rightarrow> string option \<times> string option" where
  "raw_step j = (as_string (field ''text'' j), as_string (field ''branch'' j))"

definition notes_start :: "string \<Rightarrow> json \<Rightarrow> raw_note list" where
  "notes_start f p = (if stored_list f p \<noteq> [] then map raw_note (stored_list f p)
     else [\<lparr>rn_kind = Some ''heading'', rn_text = Some []\<rparr>])"

definition steps_start :: "string \<Rightarrow> json \<Rightarrow> (string option \<times> string option) list" where
  "steps_start f p = (if stored_list f p \<noteq> [] then map raw_step (stored_list f p) else [(Some [], None), (Some [], None)])"

definition form_start :: "string \<Rightarrow> json \<Rightarrow> raw_form list" where
  "form_start f p = (if stored_list f p \<noteq> [] then map raw_form (stored_list f p)
     else [\<lparr>rf_label = Some [], rf_value = Some []\<rparr>])"

definition FormGridDefaults :: "json \<Rightarrow> string \<Rightarrow> string list \<times> json list list" where
  "FormGridDefaults p f =
     (let columns = (case as_array (field ''columns'' p) of Some cs \<Rightarrow> map (\<lambda>c. nullish (as_string (Some c)) []) cs | None \<Rightarrow> [[], []])
      in (columns, if stored_list f p \<noteq> [] then map (\<lambda>row. nullish (as_array (Some row)) [row]) (stored_list f p)
           else [map (\<lambda>_. JStr []) columns]))"

text \<open>\<open>show_json\<close> is \<open>JSON.stringify\<close> with its indentation.\<close>

definition initial_draft :: "(json \<Rightarrow> string) \<Rightarrow> form_field \<Rightarrow> json \<Rightarrow> draft option" where
  "initial_draft show_json spec p =
     (let w = ff_widget spec; f = ff_field spec in
      if w \<in> set COMPOSITE then Some (
        case map_of SLOT_FIELD w of
          Some inner \<Rightarrow> SlotsDraft (slotListValues inner p)
        | None \<Rightarrow>
            if w = ''blank_editor'' then ProseDraft (blankTextValue f p)
            else if w = ''note_builder'' then NotesDraft (notes_start f p)
            else if w = ''flowchart_builder'' then StepsDraft (steps_start f p)
            else if w = ''form_builder'' then FormDraft (form_start f p)
            else (case FormGridDefaults p f of (columns, cells) \<Rightarrow> GridDraft columns cells))
      else if w = ''audio_timestamp'' then
        Some (TimeDraft (formatTimestamp (case field f p of Some (JNum n) \<Rightarrow> Some n | _ \<Rightarrow> None)))
      else if w \<in> set NATIVE then None
      else Some (JsonDraft (case field f p of None \<Rightarrow> [] | Some v \<Rightarrow> show_json v) False))"

subsection \<open>Opening what is stored\<close>

text \<open>
  Every builder counts the blanks of its draft when it is drawn. A text that is not a string makes
  the drawing throw, and the page is gone.
\<close>

definition type_error :: string where "type_error = ''TypeError''"

definition count_slots :: "string option list \<Rightarrow> string + string list" where
  "count_slots ts = (if None \<in> set ts then Inl type_error else Inr (slotsInLines (map the ts)))"

definition draw_draft :: "draft \<Rightarrow> string + string list" where
  "draw_draft d = (case d of
      ProseDraft t \<Rightarrow> Inr (slotsInText t)
    | NotesDraft ns \<Rightarrow> count_slots (map rn_text ns)
    | StepsDraft ss \<Rightarrow> count_slots (map fst ss)
    | FormDraft rs \<Rightarrow> count_slots (map rf_value rs)
    | GridDraft columns cells \<Rightarrow> count_slots (map (\<lambda>c. as_string (Some c)) (concat cells))
    | _ \<Rightarrow> Inr [])"

definition stored :: "string \<Rightarrow> json \<Rightarrow> json" where
  "stored f built = patch built (JObj [])"

lemma jsmap_set_new: "k \<notin> fst ` set m \<Longrightarrow> jsmap_set k v m = m @ [(k, v)]"
  by (induction m) auto

lemma jsmap_of_distinct: "distinct (map fst kvs) \<Longrightarrow> fold (\<lambda>(k, v). jsmap_set k v) kvs [] = kvs"
proof (induction kvs rule: rev_induct)
  case (snoc kv kvs)
  then show ?case by (cases kv) (simp add: jsmap_set_new)
qed simp

lemma stored_form: "stored_list ''fields'' (stored ''fields'' (formFields frows)) =
    map form_field (filter (\<lambda>r. js_trim (row_label r) \<noteq> [] \<or> js_trim (row_value r) \<noteq> []) frows)"
  by (simp add: stored_def patch_def members_def formFields_def Let_def jsmap_of_distinct stored_list_def field_def as_array_def
    nullish_def)

lemma form_field_value:
  "as_string (field ''value'' (form_field r)) = None \<longleftrightarrow> js_trim (row_value r) = [] \<or> ONLY_MARKER (js_trim (row_value r))"
proof (cases "slotsInText (js_trim (row_value r))")
  case Nil
  then have "\<not> ONLY_MARKER (js_trim (row_value r))" using ONLY_MARKER_slots by fastforce
  with Nil show ?thesis by (auto simp: form_field_def field_def as_string_def Let_def)
next
  case (Cons s ss)
  then have "ONLY_MARKER (js_trim (row_value r)) \<Longrightarrow> s \<noteq> []" using ONLY_MARKER_slots by fastforce
  moreover have "js_trim (row_value r) \<noteq> []" using Cons by auto
  ultimately show ?thesis using Cons by (auto simp: form_field_def field_def as_string_def Let_def)
qed


lemma in_concat: "x \<in> set ys \<Longrightarrow> ys \<in> set yss \<Longrightarrow> x \<in> set (concat yss)"
  by auto

lemma map_in_set: "x \<in> set xs \<Longrightarrow> f x \<in> set (map f xs)"
  by simp

lemma map_not_Nil: "x \<in> set xs \<Longrightarrow> map f xs \<noteq> []"
  by auto

lemma in_map_none: "x \<in> set xs \<Longrightarrow> f (Some x) = None \<Longrightarrow> None \<in> set (map (\<lambda>c. f (Some c)) xs)"
  by (force simp: image_iff)

lemma stored_table_cannot_be_opened:
  assumes "\<exists>row \<in> set cells. \<exists>cell \<in> set row. js_trim cell \<noteq> []"
  shows "draw_draft (GridDraft columns' (snd (FormGridDefaults (stored ''rows'' (tableGrid columns cells)) ''rows''))) = Inl type_error"
proof -
  let ?kept = "filter (\<lambda>row. \<exists>cell \<in> set row. js_trim cell \<noteq> []) cells"
  let ?n = "max 1 (length (filter (\<lambda>c. c \<noteq> []) (map js_trim columns)))"
  have rows: "stored_list ''rows'' (stored ''rows'' (tableGrid columns cells)) = map (\<lambda>row. JArr (map grid_cell (take ?n row))) ?kept"
    by (simp add: stored_def patch_def members_def tableGrid_def Let_def jsmap_of_distinct stored_list_def field_def as_array_def nullish_def)
  obtain row where row: "row \<in> set ?kept" using assms by auto
  then have "row \<noteq> []" by auto
  then obtain c cs where "row = c # cs" by (auto simp: neq_Nil_conv)
  then have "grid_cell c \<in> set (map grid_cell (take ?n row))"
    using take_Suc_Cons [of "?n - 1" c cs] by simp
  then have in_row: "grid_cell c \<in> set (map grid_cell (take ?n row))" .
  have "map grid_cell (take ?n row) \<in> set (map (\<lambda>row. map grid_cell (take ?n row)) ?kept)"
    using row by (rule map_in_set)
  with in_row have cell: "grid_cell c \<in> set (concat (map (\<lambda>row. map grid_cell (take ?n row)) ?kept))"
    by (rule in_concat)
  have none: "as_string (Some (grid_cell x)) = None" for x by (simp add: grid_cell_def as_string_def Let_def)
  have ne: "map (\<lambda>row. JArr (map grid_cell (take ?n row))) ?kept \<noteq> []"
    using row by (rule map_not_Nil)
  have "snd (FormGridDefaults (stored ''rows'' (tableGrid columns cells)) ''rows'') = map (\<lambda>row. map grid_cell (take ?n row)) ?kept"
    unfolding FormGridDefaults_def rows Let_def snd_conv if_P [OF ne] by (simp add: as_array_def nullish_def comp_def)
  then show ?thesis
    using in_map_none [of _ _ as_string, OF cell none] by (simp add: draw_draft_def count_slots_def del: set_map set_concat)
qed

subsection \<open>What a change writes\<close>

definition kind_of :: "string option \<Rightarrow> note_kind" where
  "kind_of k = (if k = Some ''heading'' then Heading else if k = Some ''bullet'' then Bullet
     else if k = Some ''subbullet'' then Subbullet else Line)"

definition typed_notes :: "raw_note list \<Rightarrow> note_block list" where
  "typed_notes ns = map (\<lambda>n. \<lparr>kind = kind_of (rn_kind n), block_text = the (rn_text n)\<rparr>) ns"

definition typed_steps :: "(string option \<times> string option) list \<Rightarrow> flow_step list" where
  "typed_steps ss = map (\<lambda>(t, b). \<lparr>step_text = the t, branch = b\<rparr>) ss"

definition typed_form :: "raw_form list \<Rightarrow> form_row list" where
  "typed_form rs = map (\<lambda>r. \<lparr>row_label = the (rf_label r), row_value = the (rf_value r)\<rparr>) rs"

text \<open>A builder writes what it built; reading a text that is none throws, and nothing is written.\<close>

definition built_of :: "form_field \<Rightarrow> draft \<Rightarrow> json option" where
  "built_of spec d = (let f = ff_field spec in case d of
      ProseDraft t \<Rightarrow> Some (blankText f t)
    | SlotsDraft vs \<Rightarrow> Some (JObj [(f, JArr (slotList (nullish (map_of SLOT_FIELD (ff_widget spec)) []) vs))])
    | NotesDraft ns \<Rightarrow> if None \<in> set (map rn_text ns) then None else Some (noteBlocks (typed_notes ns))
    | StepsDraft ss \<Rightarrow> if None \<in> set (map fst ss) then None else Some (flowSteps (typed_steps ss))
    | FormDraft rs \<Rightarrow> if None \<in> set (map rf_label rs) \<union> set (map rf_value rs) then None else Some (formFields (typed_form rs))
    | GridDraft cs cells \<Rightarrow>
        if None \<in> set (map (\<lambda>c. as_string (Some c)) (concat cells)) then None
        else Some (tableGrid cs (map strings_of cells))
    | _ \<Rightarrow> None)"

subsection \<open>Opened again, built again\<close>

lemma MARKER_shape:
  assumes "MARKER s = Some (ds, rest)"
  shows "hd s = CHR ''{'' \<and> s \<noteq> [] \<and> (rest = [] \<longrightarrow> last s = CHR ''}'') \<and> (rest \<noteq> [] \<longrightarrow> last s = last rest)"
proof -
  from MARKER_Some [OF assms] obtain m where "s = ''{{'' @ m @ rest" "m \<noteq> []" "last m = CHR ''}''" by blast
  then show ?thesis by (cases rest) auto
qed

lemma normalise_ends:
  "t \<noteq> [] \<Longrightarrow> normaliseMarkers t \<noteq> [] \<and> hd (normaliseMarkers t) = hd t \<and> last (normaliseMarkers t) = last t"
proof (induction t rule: scan.induct)
  case (2 c cs)
  show ?case
  proof (cases "MARKER (c # cs)")
    case None
    with 2 show ?thesis by (cases cs) auto
  next
    case (Some x)
    obtain ds rest where x: "x = (ds, rest)" by (cases x)
    have "marker_text n \<noteq> [] \<and> hd (marker_text n) = CHR ''{'' \<and> last (marker_text n) = CHR ''}''" for n
      by (simp add: marker_text_def)
    with 2 Some x MARKER_shape [of "c # cs" ds rest] show ?thesis
      by (cases "rest = []") auto
  qed
qed simp

lemma trimmed_ends: "js_trim t \<noteq> [] \<Longrightarrow> \<not> is_space (hd (js_trim t)) \<and> \<not> is_space (last (js_trim t))"
proof -
  let ?u = "trim_start t"
  assume ne: "js_trim t \<noteq> []"
  then have v: "trim_start (rev ?u) \<noteq> []" by (simp add: js_trim_def)
  then have last: "\<not> is_space (hd (trim_start (rev ?u)))" unfolding trim_start_def by (rule hd_dropWhile)
  have u: "?u \<noteq> []" using v by (metis dropWhile.simps(1) rev.simps(1) trim_start_def)
  then have "\<not> is_space (hd ?u)" unfolding trim_start_def by (rule hd_dropWhile)
  moreover have "hd (js_trim t) = hd ?u"
  proof -
    have "rev ?u = takeWhile is_space (rev ?u) @ trim_start (rev ?u)" by (simp add: trim_start_def)
    then have "?u = js_trim t @ rev (takeWhile is_space (rev ?u))"
      unfolding js_trim_def by (metis rev_append rev_rev_ident)
    then show ?thesis using ne by (metis hd_append2)
  qed
  ultimately show ?thesis using last ne v by (simp add: js_trim_def last_rev)
qed

lemma normalise_trim: "js_trim (normaliseMarkers (js_trim t)) = normaliseMarkers (js_trim t)"
proof (cases "js_trim t = []")
  case False
  with normalise_ends [OF False] trimmed_ends [OF False] show ?thesis by (intro js_trim_id) auto
next
  case True
  have "js_trim [] = []" by (simp add: js_trim_def trim_start_def)
  with True show ?thesis by simp
qed

lemma normalise_again: "normaliseMarkers (js_trim (normaliseMarkers (js_trim t))) = normaliseMarkers (js_trim t)"
  using normalise_stable by (simp add: normalise_trim)

lemma kind_of_name [simp]: "kind_of (Some (kind_name k)) = k"
  by (cases k) (simp_all add: kind_of_def kind_name_def)

definition note_json :: "note_block \<Rightarrow> json" where
  "note_json b = JObj [(''kind'', JStr (kind_name (kind b))), (''text'', JStr (normaliseMarkers (js_trim (block_text b))))]"

lemma stored_notes: "stored_list ''blocks'' (stored ''blocks'' (noteBlocks bs)) =
    map note_json (filter (\<lambda>b. js_trim (block_text b) \<noteq> []) bs)"
  by (simp add: stored_def patch_def members_def noteBlocks_def Let_def jsmap_of_distinct stored_list_def field_def as_array_def
    nullish_def note_json_def)

lemma normalise_nonempty: "js_trim t \<noteq> [] \<Longrightarrow> js_trim (normaliseMarkers (js_trim t)) \<noteq> []"
  using normalise_ends normalise_trim by simp

definition settled :: "note_block \<Rightarrow> note_block" where
  "settled b = b\<lparr>block_text := normaliseMarkers (js_trim (block_text b))\<rparr>"

lemma typed_stored_notes: "typed_notes (map raw_note (map note_json bs)) = map settled bs"
  by (induction bs) (simp_all add: typed_notes_def raw_note_def note_json_def field_def as_string_def settled_def)

lemma noteBlocks_settled:
  "noteBlocks (map settled (filter (\<lambda>b. js_trim (block_text b) \<noteq> []) bs)) = noteBlocks bs"
proof -
  let ?bs = "filter (\<lambda>b. js_trim (block_text b) \<noteq> []) bs"
  have kept: "filter (\<lambda>b. js_trim (block_text b) \<noteq> []) (map settled ?bs) = map settled ?bs"
    by (rule filter_True) (auto simp: settled_def normalise_nonempty)
  have same: "map note_json (map settled ?bs) = map note_json ?bs"
    by (simp add: settled_def note_json_def normalise_again)
  have slots: "slotsInLines (map block_text (map settled ?bs)) = slotsInLines (map block_text ?bs)"
    using normalise_stable by (simp add: slotsInLines_in_order settled_def comp_def)
  have shape: "noteBlocks xs = JObj [(''blocks'', JArr (map note_json (filter (\<lambda>b. js_trim (block_text b) \<noteq> []) xs))),
      (''slots'', JArr (map JStr (slotsInLines (map block_text (filter (\<lambda>b. js_trim (block_text b) \<noteq> []) xs)))))]" for xs
    by (simp add: noteBlocks_def note_json_def Let_def)
  show ?thesis unfolding shape [of "map settled ?bs"] shape [of bs] kept same slots ..
qed

text \<open>
  C32: A sentence or summary with blanks, and notes, opened for editing and written back untouched are
  stored exactly as they were, whatever the author first typed.
\<close>

theorem reopened_builds_same:
  assumes "f \<noteq> ''slots''"
  shows "blankText f (blankTextValue f (stored f (blankText f t))) = blankText f t \<and>
    noteBlocks (typed_notes (notes_start ''blocks'' (stored ''blocks'' (noteBlocks bs)))) = noteBlocks bs"
proof
  have "blankTextValue f (stored f (blankText f t)) = normaliseMarkers (js_trim t)"
    using assms by (simp add: stored_def patch_def members_def blankText_def Let_def jsmap_of_distinct blankTextValue_def field_def
      as_string_def nullish_def)
  moreover have "slotsInText (js_trim (normaliseMarkers (js_trim t))) = slotsInText (js_trim t)"
    using normalise_stable by (simp add: normalise_trim slots_trim)
  ultimately show "blankText f (blankTextValue f (stored f (blankText f t))) = blankText f t"
    by (simp add: blankText_def normalise_again Let_def)
next
  let ?bs = "filter (\<lambda>b. js_trim (block_text b) \<noteq> []) bs"
  let ?ns = "typed_notes (notes_start ''blocks'' (stored ''blocks'' (noteBlocks bs)))"
  show "noteBlocks ?ns = noteBlocks bs"
  proof (cases "?bs = []")
    case True
    then have "stored_list ''blocks'' (stored ''blocks'' (noteBlocks bs)) = []" by (simp add: stored_notes del: filter_empty_conv)
    then have "?ns = [\<lparr>kind = Heading, block_text = []\<rparr>]" by (simp add: notes_start_def typed_notes_def kind_of_def)
    moreover have "noteBlocks bs = noteBlocks []" using True by (simp add: noteBlocks_def del: filter_empty_conv)
    moreover have "js_trim [] = []" by (simp add: js_trim_def trim_start_def)
    ultimately show ?thesis by (simp add: noteBlocks_def Let_def)
  next
    case False
    then have "?ns = map settled ?bs" unfolding notes_start_def stored_notes by (simp add: typed_stored_notes del: filter_empty_conv map_map)
    then show ?thesis by (simp only: noteBlocks_settled)
  qed
qed

theorem reopened_builds_same_witness:
  "blankText ''text'' (blankTextValue ''text'' (stored ''text'' (blankText ''text'' '' in {{1}} ''))) = blankText ''text'' '' in {{1}} ''"
  using reopened_builds_same [of "''text''" "'' in {{1}} ''" "[]"] by simp

end
