(* ===== verification/QuestionPage.thy ===== *)
theory QuestionPage
  imports QuestionForm AnswerKey
begin

text \<open>
  The question library page, \<open>web/src/features/questions/QuestionLibrary.tsx\<close>: the form that creates a
  question, the rows with their \<open>Edit\<close> and \<open>Where used\<close> buttons, the form that edits a draft, and the
  drafts the widgets of both forms keep while they stay on the page.
\<close>

record question_type =
  qt_key :: string
  qt_version :: nat
  qt_form :: "form_field list"
  qt_scoring :: definition_of

record question_row =
  qr_xid :: string
  qr_type :: string
  qr_skill :: string
  qr_version :: string
  qr_status :: string
  qr_payload :: "json option"

record opened =
  o_question :: string
  o_version :: string
  o_type :: string
  o_skill :: string
  o_editing :: bool

subsection \<open>Widgets that stay\<close>

text \<open>
  React keeps what a component holds as long as one of the same kind stays at the same key, whatever
  it is drawn with. A builder's key is its widget and its field; the time and the JSON box are drawn
  inside a \<open>Field\<close>, whose key is the field.
\<close>

definition box_key :: "form_field \<Rightarrow> string \<times> string" where
  "box_key spec =
     (if ff_widget spec \<in> set COMPOSITE then (ff_widget spec, ff_field spec)
      else if ff_widget spec = ''audio_timestamp'' then (''AudioTimestamp'', ff_field spec)
      else (''JsonField'', ff_field spec))"

type_synonym mounted = "((string \<times> string) \<times> draft) list"

definition draw_box :: "(json \<Rightarrow> string) \<Rightarrow> json \<Rightarrow> mounted \<Rightarrow> form_field \<Rightarrow> mounted" where
  "draw_box show_json p held spec =
     (case initial_draft show_json spec p of
        None \<Rightarrow> []
      | Some d \<Rightarrow> [(box_key spec, nullish (map_of held (box_key spec)) d)])"

definition draw_form :: "(json \<Rightarrow> string) \<Rightarrow> form_field list \<Rightarrow> string \<Rightarrow> json \<Rightarrow> mounted \<Rightarrow> mounted" where
  "draw_form show_json form skill p held =
     concat (map (draw_box show_json p held) (shown_fields (Some skill) form))"

text \<open>
  What a change writes: a builder its structure, the time box its milliseconds or nothing, the JSON
  box the value read, nothing when it is empty, and what was there when it cannot be read.
\<close>

definition written :: "(string \<Rightarrow> json option) \<Rightarrow> form_field \<Rightarrow> draft \<Rightarrow> json \<Rightarrow> json" where
  "written parse_json spec d p =
     (case d of
        TimeDraft t \<Rightarrow> set_member (ff_field spec) (map_option (\<lambda>ms. JNum (real ms)) (parseTimestamp t)) p
      | JsonDraft t _ \<Rightarrow>
          (if js_trim t = [] then set_member (ff_field spec) None p
           else case parse_json t of Some j \<Rightarrow> set_member (ff_field spec) (Some j) p | None \<Rightarrow> p)
      | _ \<Rightarrow> (case built_of spec d of Some next \<Rightarrow> patch next p | None \<Rightarrow> p))"

definition held_as :: "(string \<Rightarrow> json option) \<Rightarrow> draft \<Rightarrow> draft" where
  "held_as parse_json d =
     (case d of JsonDraft t _ \<Rightarrow> JsonDraft t (js_trim t \<noteq> [] \<and> parse_json t = None) | _ \<Rightarrow> d)"

definition keep_draft :: "string \<times> string \<Rightarrow> draft \<Rightarrow> mounted \<Rightarrow> mounted" where
  "keep_draft k d held = map (\<lambda>(k', d'). if k' = k then (k', d) else (k', d')) held"

definition insertBlank :: "nat \<Rightarrow> nat \<Rightarrow> string \<Rightarrow> string" where
  "insertBlank start stop text = take start text @ nextMarker text @ drop stop text"

lemma map_of_draw_box:
  "k \<noteq> box_key spec \<Longrightarrow> map_of (draw_box show_json p held spec @ rest) k = map_of rest k"
  by (simp add: draw_box_def split: option.split)

text \<open>A box that is on the page shows what it held, whatever payload it is drawn with.\<close>

lemma draw_keeps:
  assumes "spec \<in> set (shown_fields (Some skill) form)" "initial_draft show_json spec p \<noteq> None"
    and "map_of held (box_key spec) = Some d"
  shows "map_of (draw_form show_json form skill p held) (box_key spec) = Some d"
proof -
  have "spec \<in> set specs \<Longrightarrow> map_of (concat (map (draw_box show_json p held) specs)) (box_key spec) = Some d" for specs
  proof (induction specs)
    case (Cons s specs)
    show ?case
    proof (cases "box_key s = box_key spec")
      case True
      show ?thesis
      proof (cases "initial_draft show_json s p")
        case None
        with assms(2) have "s \<noteq> spec" by auto
        with None Cons show ?thesis by (simp add: draw_box_def)
      next
        case (Some d')
        with True assms(3) show ?thesis by (simp add: draw_box_def nullish_def)
      qed
    next
      case False
      with assms(2) have "s \<noteq> spec" by auto
      with False Cons show ?thesis using map_of_draw_box [of "box_key spec" s show_json p held] by simp
    qed
  qed simp
  with assms(1) show ?thesis by (simp add: draw_form_def)
qed

subsection \<open>Editing\<close>

record page =
  opened_q :: "opened option"
  edit_payload :: json
  edit_boxes :: mounted
  page_error :: "string option"

definition type_of :: "question_type list \<Rightarrow> string \<Rightarrow> question_type option" where
  "type_of types k = find (\<lambda>t. qt_key t = k) types"

definition form_of :: "question_type option \<Rightarrow> form_field list" where
  "form_of t = (case t of None \<Rightarrow> [] | Some t \<Rightarrow> qt_form t)"

definition opened_for :: "bool \<Rightarrow> page \<Rightarrow> question_row \<Rightarrow> bool" where
  "opened_for editing pg row = (case opened_q pg of None \<Rightarrow> False | Some o' \<Rightarrow> o_question o' = qr_xid row \<and> o_editing o' = editing)"

definition open_row :: "bool \<Rightarrow> question_row \<Rightarrow> opened" where
  "open_row editing row = \<lparr>o_question = qr_xid row, o_version = qr_version row, o_type = qr_type row, o_skill = qr_skill row, o_editing = editing\<rparr>"

text \<open>The edit form is on the page while a question is opened for editing, and only then.\<close>

definition redraw :: "(json \<Rightarrow> string) \<Rightarrow> question_type list \<Rightarrow> page \<Rightarrow> page" where
  "redraw show_json types pg = pg\<lparr>edit_boxes := (case opened_q pg of
       None \<Rightarrow> []
     | Some o' \<Rightarrow> if o_editing o' then draw_form show_json (form_of (type_of types (o_type o'))) (o_skill o') (edit_payload pg) (edit_boxes pg)
         else [])\<rparr>"

definition press_used :: "(json \<Rightarrow> string) \<Rightarrow> question_type list \<Rightarrow> question_row \<Rightarrow> page \<Rightarrow> page" where
  "press_used show_json types row pg = redraw show_json types
     (pg\<lparr>page_error := None, opened_q := if opened_for False pg row then None else Some (open_row False row)\<rparr>)"

definition can_edit :: "question_row \<Rightarrow> bool" where
  "can_edit row \<longleftrightarrow> qr_status row = ''draft''"

definition press_edit :: "(json \<Rightarrow> string) \<Rightarrow> question_type list \<Rightarrow> question_row \<Rightarrow> page \<Rightarrow> page" where
  "press_edit show_json types row pg = redraw show_json types
     (pg\<lparr>page_error := None, opened_q := if opened_for True pg row then None else Some (open_row True row),
        edit_payload := nullish (qr_payload row) (JObj [])\<rparr>)"

definition press_cancel :: "page \<Rightarrow> page" where
  "press_cancel pg = pg\<lparr>opened_q := None, edit_boxes := []\<rparr>"

definition change_edit :: "(string \<Rightarrow> json option) \<Rightarrow> form_field \<Rightarrow> draft \<Rightarrow> page \<Rightarrow> page" where
  "change_edit parse_json spec d pg =
     pg\<lparr>edit_boxes := keep_draft (box_key spec) (held_as parse_json d) (edit_boxes pg),
        edit_payload := written parse_json spec d (edit_payload pg)\<rparr>"

text \<open>\<open>Save\<close> addresses the version with the payload; a version that is not there cannot be saved.\<close>

definition save_request :: "page \<Rightarrow> (string \<times> json) option" where
  "save_request pg = (case opened_q pg of
      Some o' \<Rightarrow> if o_editing o' \<and> o_version o' \<noteq> [] then Some (o_version o', JObj [(''payload'', edit_payload pg)]) else None
    | None \<Rightarrow> None)"

definition saved :: "(string, unit) sum \<Rightarrow> page \<Rightarrow> page" where
  "saved reply pg = (case reply of Inr _ \<Rightarrow> press_cancel pg | Inl e \<Rightarrow> pg\<lparr>page_error := Some e\<rparr>)"


definition sentence_field :: form_field where
  "sentence_field = \<lparr>ff_field = ''text'', ff_widget = ''blank_editor'', ff_required = None, ff_optional = None, ff_label = None,
     ff_hint = None, ff_skills = None\<rparr>"

definition sentence_type :: question_type where
  "sentence_type = \<lparr>qt_key = ''sentence'', qt_version = 1, qt_form = [sentence_field],
     qt_scoring = \<lparr>key_widget = None, scoring_primitive = None, scoring_opts = None\<rparr>\<rparr>"

definition sentence_row :: "string \<Rightarrow> string \<Rightarrow> question_row" where
  "sentence_row x t = \<lparr>qr_xid = x, qr_type = ''sentence'', qr_skill = ''reading'', qr_version = x @ ''v'', qr_status = ''draft'',
     qr_payload = Some (JObj [(''text'', JStr t)])\<rparr>"

lemma sentence_drawn:
  "map_of (edit_boxes (press_edit show_json [sentence_type] (sentence_row x t) \<lparr>opened_q = None, edit_payload = JObj [], edit_boxes = [], page_error = None\<rparr>))
     (box_key sentence_field) = Some (ProseDraft t)"
  by (simp add: press_edit_def redraw_def opened_for_def open_row_def form_of_def type_of_def sentence_type_def sentence_row_def
    draw_form_def shown_fields_def sentence_field_def draw_box_def initial_draft_def box_key_def COMPOSITE_def SLOT_FIELD_def
    blankTextValue_def field_def as_string_def nullish_def)


subsection \<open>Creating\<close>

record maker =
  m_type :: string
  m_skill :: string
  m_payload :: json
  m_boxes :: mounted
  m_keytext :: string
  m_key :: key_value
  m_slots :: int

definition fresh_maker :: maker where
  "fresh_maker = \<lparr>m_type = [], m_skill = ''reading'', m_payload = JObj [], m_boxes = [], m_keytext = [], m_key = emptyValue, m_slots = 1\<rparr>"

definition redraw_maker :: "(json \<Rightarrow> string) \<Rightarrow> question_type list \<Rightarrow> maker \<Rightarrow> maker" where
  "redraw_maker show_json types m =
     m\<lparr>m_boxes := draw_form show_json (form_of (type_of types (m_type m))) (m_skill m) (m_payload m) (m_boxes m)\<rparr>"

definition choose_type :: "(json \<Rightarrow> string) \<Rightarrow> question_type list \<Rightarrow> string \<Rightarrow> maker \<Rightarrow> maker" where
  "choose_type show_json types k m = redraw_maker show_json types
     (m\<lparr>m_type := k, m_payload := JObj [], m_key := emptyValue, m_keytext := [], m_slots := 1\<rparr>)"

definition choose_skill :: "(json \<Rightarrow> string) \<Rightarrow> question_type list \<Rightarrow> string \<Rightarrow> maker \<Rightarrow> maker" where
  "choose_skill show_json types s m = redraw_maker show_json types (m\<lparr>m_skill := s\<rparr>)"

definition change_made :: "(string \<Rightarrow> json option) \<Rightarrow> form_field \<Rightarrow> draft \<Rightarrow> maker \<Rightarrow> maker" where
  "change_made parse_json spec d m =
     m\<lparr>m_boxes := keep_draft (box_key spec) (held_as parse_json d) (m_boxes m), m_payload := written parse_json spec d (m_payload m)\<rparr>"

text \<open>The options a key can name, with their words: the objects among the payload's \<open>options\<close> that have an \<open>id\<close>.\<close>

definition payloadOptions :: "json \<Rightarrow> json list" where
  "payloadOptions p = filter is_object (nullish (as_array (field ''options'' p)) [])"

definition option_id :: "json \<Rightarrow> string" where
  "option_id j = nullish (as_string (field ''id'' j)) []"

definition bank_of :: "json \<Rightarrow> string list" where
  "bank_of p = filter (\<lambda>x. x \<noteq> []) (map option_id (payloadOptions p))"

definition bankLabels :: "json \<Rightarrow> (string, string) jsmap" where
  "bankLabels p = fold (\<lambda>j m. jsmap_set (option_id j) (nullish (as_string (field ''text'' j)) []) m)
     (filter (\<lambda>j. option_id j \<noteq> []) (payloadOptions p)) []"

definition json_truthy :: "json \<Rightarrow> bool" where
  "json_truthy j = (case j of JNull \<Rightarrow> False | JBool b \<Rightarrow> b | JNum n \<Rightarrow> n \<noteq> 0 | JStr s \<Rightarrow> s \<noteq> [] | _ \<Rightarrow> True)"

text \<open>
  The key that goes with the question: the typed text when there is one, and otherwise what the
  control built, over the blanks the body has settled or as many rows as were asked for.
\<close>

definition made_key :: "(string \<Rightarrow> json option) \<Rightarrow> question_type list \<Rightarrow> maker \<Rightarrow> string + json option" where
  "made_key parse_json types m =
     (if js_trim (m_keytext m) \<noteq> [] then
        (case parse_json (m_keytext m) of
           None \<Rightarrow> Inl ''The answer key is not valid JSON.''
         | Some j \<Rightarrow> Inr (if json_truthy j then Some j else None))
      else Inr (toKey (controlFor (map_option qt_scoring (type_of types (m_type m)))
        (nullish (slotIdsOf (m_payload m)) (slotIds (m_slots m))) (bank_of (m_payload m))) (m_key m)))"

definition create_body :: "(string \<Rightarrow> json option) \<Rightarrow> question_type list \<Rightarrow> maker \<Rightarrow> string + json" where
  "create_body parse_json types m =
     (case made_key parse_json types m of
        Inl e \<Rightarrow> Inl e
      | Inr k \<Rightarrow> Inr (JObj ([(''type_key'', JStr (m_type m)),
          (''type_version'', JNum (case type_of types (m_type m) of Some t \<Rightarrow> real (qt_version t) | None \<Rightarrow> 1)),
          (''skill'', JStr (m_skill m)), (''points'', JNum 1), (''payload'', m_payload m)] @
          (case k of None \<Rightarrow> [] | Some j \<Rightarrow> [(''key'', JObj [(''key'', j), (''reason'', JStr ''initial'')])]))))"

definition may_create :: "bool \<Rightarrow> maker \<Rightarrow> bool" where
  "may_create pending m \<longleftrightarrow> \<not> pending \<and> m_type m \<noteq> []"

definition created :: "(json \<Rightarrow> string) \<Rightarrow> question_type list \<Rightarrow> maker \<Rightarrow> maker" where
  "created show_json types m = redraw_maker show_json types (m\<lparr>m_payload := JObj [], m_keytext := []\<rparr>)"

lemma field_JObj_Nil [simp]: "field k (JObj []) = None"
  by (simp add: field_def)

text \<open>
  Once a question is created the form looks as if nothing had happened, and sends nothing of what
  it shows: the builder still holds the text, the payload is empty, and pressing \<open>Create question\<close>
  again stores a question of the same type with no body, under the key chosen for the one before.
\<close>

theorem created_form_sends_nothing:
  assumes "type_of types (m_type m) = Some t" "spec \<in> set (shown_fields (Some (m_skill m)) (qt_form t))"
    and "ff_widget spec = ''blank_editor''" "map_of (m_boxes m) (box_key spec) = Some (ProseDraft text)"
  shows "let m' = created show_json types m in
      map_of (m_boxes m') (box_key spec) = Some (ProseDraft text) \<and> may_create False m' = may_create False m \<and>
      create_body parse_json types m' = Inr (JObj ([(''type_key'', JStr (m_type m)), (''type_version'', JNum (real (qt_version t))),
        (''skill'', JStr (m_skill m)), (''points'', JNum 1), (''payload'', JObj [])] @
        (case toKey (controlFor (Some (qt_scoring t)) (slotIds (m_slots m)) []) (m_key m) of
           None \<Rightarrow> [] | Some j \<Rightarrow> [(''key'', JObj [(''key'', j), (''reason'', JStr ''initial'')])])))"
proof -
  have "initial_draft show_json spec (JObj []) \<noteq> None"
    using assms(3) by (simp add: initial_draft_def COMPOSITE_def Let_def)
  then have "map_of (draw_form show_json (qt_form t) (m_skill m) (JObj []) (m_boxes m)) (box_key spec) = Some (ProseDraft text)"
    using assms(2,4) by (intro draw_keeps)
  moreover have "js_trim [] = []" by (simp add: js_trim_def trim_start_def)
  moreover have "slotIdsOf (JObj []) = None" "bank_of (JObj []) = []"
    by (simp_all add: slotIdsOf_def bank_of_def payloadOptions_def as_array_def nullish_def)
  ultimately show ?thesis
    using assms(1) by (simp add: created_def redraw_maker_def form_of_def may_create_def create_body_def made_key_def nullish_def Let_def)
qed

definition sentence_made :: maker where
  "sentence_made = change_made (\<lambda>_. None) sentence_field (ProseDraft ''One {{1}}'')
     (choose_type (\<lambda>_. []) [sentence_type] ''sentence'' fresh_maker)"

lemma sentence_made_holds: "map_of (m_boxes sentence_made) (box_key sentence_field) = Some (ProseDraft ''One {{1}}'')"
  by (simp add: sentence_made_def change_made_def choose_type_def redraw_maker_def form_of_def type_of_def sentence_type_def
    draw_form_def shown_fields_def sentence_field_def draw_box_def initial_draft_def box_key_def COMPOSITE_def SLOT_FIELD_def
    blankTextValue_def field_def as_string_def nullish_def fresh_maker_def keep_draft_def held_as_def)

theorem created_form_sends_nothing_witness:
  "map_of (m_boxes (created (\<lambda>_. []) [sentence_type] sentence_made)) (box_key sentence_field) = Some (ProseDraft ''One {{1}}'')"
proof -
  have "type_of [sentence_type] (m_type sentence_made) = Some sentence_type"
    by (simp add: type_of_def sentence_made_def change_made_def choose_type_def redraw_maker_def sentence_type_def)
  from created_form_sends_nothing [OF this _ _ sentence_made_holds, of "\<lambda>_. []" "\<lambda>_. None"] show ?thesis
    by (simp add: sentence_type_def sentence_field_def shown_fields_def Let_def)
qed

subsection \<open>The builders' controls\<close>

datatype draft_edit =
    TypeText string
  | InsertBlank nat nat
  | AddRow
  | DropRow
  | SetText nat string
  | SetKind nat string
  | SetBranch nat string
  | SetValue nat string
  | AddColumn
  | SetColumn nat string
  | SetCell nat nat string

definition change_at :: "nat \<Rightarrow> ('a \<Rightarrow> 'a) \<Rightarrow> 'a list \<Rightarrow> 'a list" where
  "change_at i f xs = (if i < length xs then xs[i := f (xs ! i)] else xs)"

text \<open>\<open>Remove the last one\<close> is offered above so many rows.\<close>

definition drop_row :: "nat \<Rightarrow> 'a list \<Rightarrow> 'a list" where
  "drop_row least xs = (if length xs > least then butlast xs else xs)"

definition edit_slots :: "draft_edit \<Rightarrow> string list \<Rightarrow> string list" where
  "edit_slots e vs = (case e of
      AddRow \<Rightarrow> vs @ [[]] | DropRow \<Rightarrow> drop_row 1 vs | SetText i t \<Rightarrow> change_at i (\<lambda>_. t) vs | _ \<Rightarrow> vs)"

definition edit_notes :: "draft_edit \<Rightarrow> raw_note list \<Rightarrow> raw_note list" where
  "edit_notes e ns = (case e of
      AddRow \<Rightarrow> ns @ [\<lparr>rn_kind = Some ''bullet'', rn_text = Some []\<rparr>]
    | DropRow \<Rightarrow> drop_row 1 ns
    | SetText i t \<Rightarrow> change_at i (\<lambda>n. n\<lparr>rn_text := Some t\<rparr>) ns
    | SetKind i k \<Rightarrow> change_at i (\<lambda>n. n\<lparr>rn_kind := Some k\<rparr>) ns
    | _ \<Rightarrow> ns)"

definition edit_steps :: "draft_edit \<Rightarrow> (string option \<times> string option) list \<Rightarrow> (string option \<times> string option) list" where
  "edit_steps e ss = (case e of
      AddRow \<Rightarrow> ss @ [(Some [], None)]
    | DropRow \<Rightarrow> drop_row 2 ss
    | SetText i t \<Rightarrow> change_at i (\<lambda>(_, b). (Some t, b)) ss
    | SetBranch i b \<Rightarrow> change_at i (\<lambda>(t, _). (t, Some b)) ss
    | _ \<Rightarrow> ss)"

definition edit_lines :: "draft_edit \<Rightarrow> raw_form list \<Rightarrow> raw_form list" where
  "edit_lines e rs = (case e of
      AddRow \<Rightarrow> rs @ [\<lparr>rf_label = Some [], rf_value = Some []\<rparr>]
    | DropRow \<Rightarrow> drop_row 1 rs
    | SetText i t \<Rightarrow> change_at i (\<lambda>r. r\<lparr>rf_label := Some t\<rparr>) rs
    | SetValue i t \<Rightarrow> change_at i (\<lambda>r. r\<lparr>rf_value := Some t\<rparr>) rs
    | _ \<Rightarrow> rs)"

definition edit_grid :: "draft_edit \<Rightarrow> string list \<Rightarrow> json list list \<Rightarrow> string list \<times> json list list" where
  "edit_grid e columns cells = (case e of
      AddRow \<Rightarrow> (columns, cells @ [map (\<lambda>_. JStr []) columns])
    | DropRow \<Rightarrow> (columns, drop_row 1 cells)
    | AddColumn \<Rightarrow> (columns @ [[]], map (\<lambda>r. r @ [JStr []]) cells)
    | SetColumn c t \<Rightarrow> (change_at c (\<lambda>_. t) columns, cells)
    | SetCell r c t \<Rightarrow> (columns, change_at r (change_at c (\<lambda>_. JStr t)) cells)
    | _ \<Rightarrow> (columns, cells))"

definition edit_draft :: "draft_edit \<Rightarrow> draft \<Rightarrow> draft" where
  "edit_draft e d = (case d of
      ProseDraft t \<Rightarrow> ProseDraft (case e of TypeText t' \<Rightarrow> t' | InsertBlank a b \<Rightarrow> insertBlank a b t | _ \<Rightarrow> t)
    | SlotsDraft vs \<Rightarrow> SlotsDraft (edit_slots e vs)
    | NotesDraft ns \<Rightarrow> NotesDraft (edit_notes e ns)
    | StepsDraft ss \<Rightarrow> StepsDraft (edit_steps e ss)
    | FormDraft rs \<Rightarrow> FormDraft (edit_lines e rs)
    | GridDraft columns cells \<Rightarrow> (case edit_grid e columns cells of (columns, cells) \<Rightarrow> GridDraft columns cells)
    | _ \<Rightarrow> d)"

text \<open>Every control sets the draft and patches the payload with what the draft builds.\<close>

definition use_builder :: "form_field \<Rightarrow> draft_edit \<Rightarrow> draft \<times> json \<Rightarrow> draft \<times> json" where
  "use_builder spec e w = (case w of (d, p) \<Rightarrow>
     (edit_draft e d, written (\<lambda>_. None) spec (edit_draft e d) p))"

text \<open>A draft of a builder in which every text is one, and every row of a table has its columns.\<close>

definition well_typed :: "draft \<Rightarrow> bool" where
  "well_typed d = (case d of
      ProseDraft _ \<Rightarrow> True
    | SlotsDraft vs \<Rightarrow> vs \<noteq> []
    | NotesDraft ns \<Rightarrow> ns \<noteq> [] \<and> list_all (\<lambda>n. rn_text n \<noteq> None) ns
    | StepsDraft ss \<Rightarrow> ss \<noteq> [] \<and> list_all (\<lambda>s. fst s \<noteq> None) ss
    | FormDraft rs \<Rightarrow> rs \<noteq> [] \<and> list_all (\<lambda>r. rf_label r \<noteq> None \<and> rf_value r \<noteq> None) rs
    | GridDraft columns cells \<Rightarrow> cells \<noteq> [] \<and>
        list_all (\<lambda>row. length row = length columns \<and> list_all (\<lambda>c. as_string (Some c) \<noteq> None) row) cells
    | _ \<Rightarrow> False)"

lemma list_all_change_at: "list_all P xs \<Longrightarrow> (\<And>x. P x \<Longrightarrow> P (f x)) \<Longrightarrow> list_all P (change_at i f xs)"
  by (auto simp: change_at_def list_all_length nth_list_update)

lemma length_change_at [simp]: "length (change_at i f xs) = length xs"
  by (simp add: change_at_def)

lemma change_at_Nil [simp]: "change_at i f xs = [] \<longleftrightarrow> xs = []"
  by (simp add: change_at_def)

lemma list_all_drop_row: "list_all P xs \<Longrightarrow> list_all P (drop_row n xs)"
  by (auto simp: drop_row_def list_all_iff dest: in_set_butlastD)

lemma drop_row_Nil [simp]: "drop_row (Suc n) xs = [] \<longleftrightarrow> xs = []" "drop_row 2 xs = [] \<longleftrightarrow> xs = []"
proof -
  have shrunk: "drop_row (Suc k) xs = [] \<longleftrightarrow> xs = []" for k
    by (auto simp: drop_row_def length_0_conv [symmetric] simp del: length_0_conv)
  show "drop_row (Suc n) xs = [] \<longleftrightarrow> xs = []" "drop_row 2 xs = [] \<longleftrightarrow> xs = []"
    using shrunk [of n] shrunk [of 1] by (simp_all add: numeral_2_eq_2)
qed

lemmas edit_rows = list_all_change_at list_all_drop_row

lemma edit_well_typed: "well_typed d \<Longrightarrow> well_typed (edit_draft e d)"
proof (cases d)
  case (GridDraft columns cells)
  assume "well_typed d"
  let ?ok = "\<lambda>n row. length row = n \<and> list_all (\<lambda>c. as_string (Some c) \<noteq> None) row"
  have ok: "cells \<noteq> []" "list_all (?ok (length columns)) cells"
    using \<open>well_typed d\<close> GridDraft by (simp_all add: well_typed_def)
  have new: "?ok n row \<Longrightarrow> ?ok n (change_at c (\<lambda>_. JStr t) row)" for n row c t
    by (auto intro!: list_all_change_at simp: as_string_def)
  have "list_all (?ok (length columns)) (change_at r (change_at c (\<lambda>_. JStr t)) cells)" for r c t
    using ok(2) by (rule list_all_change_at) (rule new)
  moreover have "list_all (?ok (Suc (length columns))) (map (\<lambda>r. r @ [JStr []]) cells)"
    using ok(2) by (simp add: list_all_iff as_string_def)
  ultimately show ?thesis using ok GridDraft
    by (cases e) (simp_all add: edit_draft_def edit_grid_def well_typed_def edit_rows list_all_iff [of _ "map _ _"] as_string_def)
next
  case (NotesDraft ns)
  moreover assume "well_typed d"
  ultimately show ?thesis
    by (cases e) (auto simp: well_typed_def edit_draft_def edit_notes_def intro!: edit_rows)
next
  case (StepsDraft ss)
  moreover assume "well_typed d"
  ultimately show ?thesis
    by (cases e) (auto simp: well_typed_def edit_draft_def edit_steps_def intro!: edit_rows)
next
  case (FormDraft rs)
  moreover assume "well_typed d"
  ultimately show ?thesis
    by (cases e) (auto simp: well_typed_def edit_draft_def edit_lines_def intro!: edit_rows)
next
  case (SlotsDraft vs)
  moreover assume "well_typed d"
  ultimately show ?thesis
    by (cases e) (auto simp: well_typed_def edit_draft_def edit_slots_def intro!: edit_rows)
qed (simp_all add: well_typed_def edit_draft_def)

text \<open>Which members a builder writes.\<close>

definition written_members :: "form_field \<Rightarrow> draft \<Rightarrow> string list" where
  "written_members spec d = (case d of
      ProseDraft _ \<Rightarrow> [ff_field spec, ''slots'']
    | SlotsDraft _ \<Rightarrow> [ff_field spec]
    | NotesDraft _ \<Rightarrow> [''blocks'', ''slots'']
    | StepsDraft _ \<Rightarrow> [''steps'', ''slots'']
    | FormDraft _ \<Rightarrow> [''fields'', ''slots'']
    | GridDraft _ _ \<Rightarrow> [''columns'', ''rows'', ''slots'']
    | _ \<Rightarrow> [])"

lemma members_edit: "written_members spec (edit_draft e d) = written_members spec d"
  by (cases d) (simp_all add: written_members_def edit_draft_def split: prod.split)

lemma built_well_typed:
  assumes "well_typed d"
  obtains b where "built_of spec d = Some b" "set (map fst (members b)) = set (written_members spec d)"
proof (cases d)
  case (GridDraft columns cells)
  with assms have "None \<notin> set (map (\<lambda>c. as_string (Some c)) (concat cells))"
    by (auto simp: well_typed_def list_all_iff image_iff eq_commute [of None])
  with GridDraft that show ?thesis
    by (simp add: built_of_def tableGrid_def Let_def members_def written_members_def del: set_map set_concat)
next
  case (NotesDraft ns)
  then have "None \<notin> set (map rn_text ns)" using assms by (auto simp: well_typed_def list_all_iff image_iff eq_commute [of None])
  with NotesDraft that show ?thesis
    by (simp add: built_of_def noteBlocks_def Let_def members_def written_members_def del: set_map)
next
  case (StepsDraft ss)
  then have "None \<notin> set (map fst ss)" using assms by (auto simp: well_typed_def list_all_iff image_iff eq_commute [of None])
  with StepsDraft that show ?thesis
    by (simp add: built_of_def flowSteps_def Let_def members_def written_members_def del: set_map)
next
  case (FormDraft rs)
  then have "None \<notin> set (map rf_label rs) \<union> set (map rf_value rs)"
    using assms by (auto simp: well_typed_def list_all_iff image_iff eq_commute [of None])
  with FormDraft that show ?thesis
    by (simp add: built_of_def formFields_def Let_def members_def written_members_def del: set_map)
next
  case (ProseDraft t)
  with that show ?thesis
    by (simp add: built_of_def blankText_def Let_def members_def written_members_def split: if_splits)
next
  case (SlotsDraft vs)
  with that show ?thesis by (simp add: built_of_def Let_def members_def written_members_def)
qed (use assms in \<open>simp_all add: well_typed_def\<close>)

lemma written_built: "well_typed d \<Longrightarrow> built_of spec d = Some b \<Longrightarrow> written pj spec d p = patch b p"
  by (cases d) (simp_all add: written_def well_typed_def)

lemma map_of_written: "map_of (fold (\<lambda>(k, v). jsmap_set k v) kvs m) = map_of m ++ map_of (rev kvs)"
proof (induction kvs arbitrary: m)
  case (Cons kv kvs)
  obtain k v where "kv = (k, v)" by (cases kv)
  with Cons show ?case by (simp add: update_conv' map_add_def fun_eq_iff split: option.split)
qed simp

lemma field_patch: "field g (patch b p) = (map_of (members p) ++ map_of (rev (members b))) g"
  by (simp add: patch_def field_def map_of_written)

lemma field_members: "field g p = map_of (members p) g"
  by (cases p) (simp_all add: field_def members_def)

lemma members_JObj: "members (JObj kvs) = kvs"
  by (simp add: members_def)

lemma field_JObj: "field g (JObj kvs) = map_of kvs g"
  by (simp add: field_def)

text \<open>Of two builds of the same members only the later counts.\<close>

lemma later_build:
  assumes "set (map fst (members b')) = set (map fst (members b))"
  shows "field g (patch b (patch b' p)) = field g (patch b p)"
proof -
  have "dom (map_of (rev (members b'))) = dom (map_of (rev (members b)))"
    using assms by (simp add: dom_map_of_conv_image_fst)
  then have "map_of (rev (members b')) g = None" if "map_of (rev (members b)) g = None"
    using that by blast
  then show ?thesis
    by (cases "map_of (rev (members b)) g")
      (simp_all add: field_patch map_add_def field_members [symmetric])
qed

lemma built_same_fields:
  assumes "\<And>g. field g p = field g q"
  shows "field g (patch b p) = field g (patch b q)"
  unfolding field_patch map_add_def using assms [of g] by (simp only: field_members)



end
