(* ===== verification/GroupLibrary.thy ===== *)
theory GroupLibrary
  imports VersionEdit OptionBank
begin

text \<open>
  Question groups: the page \<open>web/src/features/groups/GroupLibrary.tsx\<close> against the group handlers of
  \<open>app/api/routers/assets.py\<close>. A group version holds the instructions by language, the word limit the
  marker enforces, the option bank and the questions in it by reference.
\<close>

subsection \<open>The server\<close>

text \<open>The one value of \<open>on_violation\<close> is left out.\<close>

record word_limit =
  max_words :: nat
  allow_number :: bool
  hyphen_counts_as_one :: bool

record group_content =
  gc_instructions :: "(string, string) jsmap"
  gc_limit :: "word_limit option"
  gc_bank :: "bank_option list"
  gc_items :: "(string \<times> nat) list"

type_synonym group_version = "group_content draft_version"

record group_row =
  go_title :: string
  go_skill :: string
  go_version :: string

record group_server =
  gs_groups :: "group_row list"
  gs_versions :: "string \<rightharpoonup> group_version"
  gs_questions :: "string set"
  gs_may_edit :: "string \<Rightarrow> bool"

record group_create =
  gb_title :: string
  gb_skill :: string
  gb_instructions :: "(string, string) jsmap"
  gb_limit :: "word_limit option"
  gb_bank :: "bank_option list"

record group_update =
  gu_instructions :: "(string, string) jsmap option"
  gu_limit :: "word_limit option"

definition no_group :: failure where
  "no_group = refusal_of ''Question group version not found.'' ''not_found''"

definition not_yours :: failure where
  "not_yours = refusal_of ''You may not edit this.'' ''edit_not_permitted''"

definition frozen_group :: failure where
  "frozen_group = refusal_of ''A published group version is immutable; create a new one.'' ''version_immutable''"

text \<open>\<open>question_group_items_pos_uq\<close>: one question at a position; breaking the index is a server error.\<close>

definition position_taken :: failure where
  "position_taken = refusal_of ''Something went wrong on our side.'' ''internal_error''"

text \<open>\<open>xid\<close> is the identifier of the new version.\<close>

definition create_group :: "string \<Rightarrow> group_create \<Rightarrow> group_server \<Rightarrow> group_server" where
  "create_group xid b s = s\<lparr>
     gs_groups := gs_groups s @ [\<lparr>go_title = gb_title b, go_skill = gb_skill b, go_version = xid\<rparr>],
     gs_versions := (gs_versions s)(xid \<mapsto> \<lparr>dv_status = ''draft'', dv_no = 1, dv_checksum = [],
       dv_content = \<lparr>gc_instructions = gb_instructions b, gc_limit = gb_limit b, gc_bank = gb_bank b, gc_items = []\<rparr>\<rparr>)\<rparr>"

text \<open>\<open>model_dump(exclude_none=True)\<close>: what is not sent, or sent as null, is left as it is.\<close>

definition put_group :: "group_update \<Rightarrow> group_content \<Rightarrow> group_content" where
  "put_group b c = c\<lparr>gc_instructions := nullish (gu_instructions b) (gc_instructions c),
     gc_limit := (case gu_limit b of None \<Rightarrow> gc_limit c | Some l \<Rightarrow> Some l)\<rparr>"

definition update_group_version :: "string \<Rightarrow> string option \<Rightarrow> group_update \<Rightarrow> group_server \<Rightarrow> failure option \<times> group_server" where
  "update_group_version xid if_match b s =
     (case gs_versions s xid of
        None \<Rightarrow> (Some no_group, s)
      | Some v \<Rightarrow>
          if \<not> gs_may_edit s xid then (Some not_yours, s)
          else if dv_status v = ''published'' then (Some frozen_group, s)
          else if \<not> check_if_match (version_etag v) if_match then (Some stale_refusal, s)
          else (None, s\<lparr>gs_versions := (gs_versions s)(xid \<mapsto> v\<lparr>dv_content := put_group b (dv_content v)\<rparr>)\<rparr>))"

text \<open>\<open>read_group_version\<close> lists the items by position.\<close>

definition listed_items :: "group_content \<Rightarrow> string list" where
  "listed_items c = map fst (sort_key snd (gc_items c))"

definition next_position :: "(string \<times> nat) list \<Rightarrow> nat" where
  "next_position items = (if items = [] then 0 else Max (snd ` set items)) + 1"

definition add_group_item :: "string \<Rightarrow> string \<Rightarrow> nat option \<Rightarrow> group_server \<Rightarrow> failure option \<times> group_server" where
  "add_group_item xid q at_position s =
     (case gs_versions s xid of
        None \<Rightarrow> (Some no_group, s)
      | Some v \<Rightarrow>
          if \<not> gs_may_edit s xid then (Some not_yours, s)
          else if q \<notin> gs_questions s then (Some (refusal_of ''Question version not found.'' ''not_found''), s)
          else
            let c = dv_content v; pos = nullish at_position (next_position (gc_items c))
            in if pos \<in> snd ` set (gc_items c) then (Some position_taken, s)
              else (None, s\<lparr>gs_versions := (gs_versions s)(xid \<mapsto> v\<lparr>dv_content := c\<lparr>gc_items := gc_items c @ [(q, pos)]\<rparr>\<rparr>)\<rparr>))"

subsection \<open>The page\<close>

record group_page =
  g_title :: string
  g_skill :: string
  g_rubric :: string
  g_words :: string
  g_bank :: string
  g_style :: bank_style
  g_opened :: "string option"
  g_detail :: "string \<rightharpoonup> group_version"
  g_adding :: string
  g_error :: "string option"
  g_editing :: bool
  g_edit_rubric :: string
  g_edit_words :: string

definition fresh_page :: group_page where
  "fresh_page = \<lparr>g_title = [], g_skill = ''reading'', g_rubric = [], g_words = [], g_bank = [], g_style = Letters,
     g_opened = None, g_detail = Map.empty, g_adding = [], g_error = None, g_editing = False, g_edit_rubric = [], g_edit_words = []\<rparr>"

text \<open>The limit both forms send for a choice of the menu, which offers numerals or nothing.\<close>

definition sent_limit :: "string \<Rightarrow> word_limit option" where
  "sent_limit choice = (if choice = [] then None
     else Some \<lparr>max_words = read_nat choice, allow_number = True, hyphen_counts_as_one = True\<rparr>)"

definition in_english :: "string \<Rightarrow> (string, string) jsmap" where
  "in_english rubric = (if js_trim rubric = [] then [] else [(''en'', js_trim rubric)])"

definition group_body :: "group_page \<Rightarrow> group_create" where
  "group_body p = \<lparr>gb_title = js_trim (g_title p), gb_skill = g_skill p, gb_instructions = in_english (g_rubric p),
     gb_limit = sent_limit (g_words p), gb_bank = parseBank (g_bank p) (g_style p)\<rparr>"

definition may_create_group :: "bool \<Rightarrow> group_page \<Rightarrow> bool" where
  "may_create_group pending p \<longleftrightarrow> \<not> pending \<and> js_trim (g_title p) \<noteq> []"

definition group_created :: "string \<Rightarrow> group_page \<Rightarrow> group_page" where
  "group_created xid p = p\<lparr>g_error := None, g_title := [], g_rubric := [], g_words := [], g_bank := [], g_style := Letters,
     g_opened := Some xid\<rparr>"

definition press_questions :: "string \<Rightarrow> group_page \<Rightarrow> group_page" where
  "press_questions xid p = p\<lparr>g_opened := if g_opened p = Some xid then None else Some xid\<rparr>"

text \<open>The answer of the query of the version that is open.\<close>

definition detail_loads :: "group_server \<Rightarrow> group_page \<Rightarrow> group_page" where
  "detail_loads s p = (case g_opened p of
      None \<Rightarrow> p
    | Some xid \<Rightarrow> p\<lparr>g_detail := (g_detail p)(xid := gs_versions s xid)\<rparr>)"

definition shown_detail :: "group_page \<Rightarrow> group_version option" where
  "shown_detail p = Option.bind (g_opened p) (g_detail p)"

definition english :: "group_content \<Rightarrow> string" where
  "english c = nullish (jsmap_get (gc_instructions c) ''en'') []"

definition offers_edit :: "group_page \<Rightarrow> bool" where
  "offers_edit p \<longleftrightarrow> \<not> g_editing p \<and> (case shown_detail p of None \<Rightarrow> False | Some v \<Rightarrow> dv_status v = ''draft'')"

definition press_edit_group :: "group_page \<Rightarrow> group_page" where
  "press_edit_group p = (case shown_detail p of
      None \<Rightarrow> p
    | Some v \<Rightarrow> p\<lparr>g_error := None, g_edit_rubric := english (dv_content v),
        g_edit_words := (case gc_limit (dv_content v) of None \<Rightarrow> [] | Some l \<Rightarrow> show_nat (max_words l)), g_editing := True\<rparr>)"

definition save_body :: "group_page \<Rightarrow> group_update" where
  "save_body p = \<lparr>gu_instructions = Some (in_english (g_edit_rubric p)), gu_limit = sent_limit (g_edit_words p)\<rparr>"

definition cancel_edit :: "group_page \<Rightarrow> group_page" where
  "cancel_edit p = p\<lparr>g_editing := False\<rparr>"

text \<open>What is typed or chosen in the two forms and in the menu of questions.\<close>

datatype group_input =
    Title string | Skill string | Rubric string | Words string | Bank string | Style bank_style
  | EditRubric string | EditWords string | Adding string

definition fill_in :: "group_input \<Rightarrow> group_page \<Rightarrow> group_page" where
  "fill_in i p = (case i of
      Title t \<Rightarrow> p\<lparr>g_title := t\<rparr> | Skill t \<Rightarrow> p\<lparr>g_skill := t\<rparr> | Rubric t \<Rightarrow> p\<lparr>g_rubric := t\<rparr>
    | Words t \<Rightarrow> p\<lparr>g_words := t\<rparr> | Bank t \<Rightarrow> p\<lparr>g_bank := t\<rparr> | Style st \<Rightarrow> p\<lparr>g_style := st\<rparr>
    | EditRubric t \<Rightarrow> p\<lparr>g_edit_rubric := t\<rparr> | EditWords t \<Rightarrow> p\<lparr>g_edit_words := t\<rparr> | Adding x \<Rightarrow> p\<lparr>g_adding := x\<rparr>)"

text \<open>\<open>useVersionEdit\<close>: the tag is read, then the body is sent under it.\<close>

definition group_api :: "string \<Rightarrow> (group_update, group_server) version_api" where
  "group_api xid = \<lparr>api_read = (\<lambda>s. (map_option version_etag (gs_versions s xid), s)),
     api_patch = (\<lambda>tag b s. update_group_version xid (Some tag) b s)\<rparr>"

definition save_group :: "group_page \<times> group_server \<Rightarrow> group_page \<times> group_server" where
  "save_group w = (case w of (p, s) \<Rightarrow>
     (case g_opened p of
        None \<Rightarrow> (p, s)
      | Some xid \<Rightarrow> (case version_edit (group_api xid) (save_body p) s of
            (None, s) \<Rightarrow> (detail_loads s (p\<lparr>g_editing := False\<rparr>), s)
          | (Some f, s) \<Rightarrow> (p\<lparr>g_error := Some (editError f)\<rparr>, s))))"

text \<open>Adding: the questions offered are those with a version that is not shown in the group.\<close>

definition offered_questions :: "string option list \<Rightarrow> group_page \<Rightarrow> string list" where
  "offered_questions known p =
     (case shown_detail p of
        None \<Rightarrow> []
      | Some v \<Rightarrow> filter (\<lambda>x. x \<notin> set (listed_items (dv_content v))) (map the (filter (\<lambda>x. truthy_str x) known)))"

definition press_add :: "group_page \<times> group_server \<Rightarrow> group_page \<times> group_server" where
  "press_add w = (case w of (p, s) \<Rightarrow>
     (case g_opened p of
        None \<Rightarrow> (p, s)
      | Some xid \<Rightarrow>
          if g_adding p = [] then (p\<lparr>g_error := None\<rparr>, s)
          else (case add_group_item xid (g_adding p) None s of
            (None, s) \<Rightarrow> (detail_loads s (p\<lparr>g_error := None, g_adding := []\<rparr>), s)
          | (Some f, s) \<Rightarrow> (p\<lparr>g_error := Some (problemText (as_problem f))\<rparr>, s))))"

definition BankPreview :: "string \<Rightarrow> bank_style \<Rightarrow> (bank_option list \<times> string option) option" where
  "BankPreview t style = (let options = parseBank t style in
     if options = [] then None else Some (options, bankProblem options 0 0))"

subsection \<open>Reading and adding\<close>

lemma sort_key_snoc: "(\<And>y. y \<in> set xs \<Longrightarrow> f y \<le> f x) \<Longrightarrow> sort_key f (xs @ [x]) = sort_key f xs @ [x]"
proof -
  assume above: "\<And>y. y \<in> set xs \<Longrightarrow> f y \<le> f x"
  show "sort_key f (xs @ [x]) = sort_key f xs @ [x]"
  proof (rule properties_for_sort_key)
    show "mset (sort_key f xs @ [x]) = mset (xs @ [x])" by simp
    show "sorted (map f (sort_key f xs @ [x]))" using above by (auto simp: sorted_append)
    show "filter (\<lambda>y. f k = f y) (sort_key f xs @ [x]) = filter (\<lambda>y. f k = f y) (xs @ [x])" for k
      using sort_key_stable [of f "f k" xs] by (simp add: eq_commute [of "f k"])
  qed
qed

lemma next_position_above: "(q, n) \<in> set items \<Longrightarrow> n < next_position items"
proof -
  assume q: "(q, n) \<in> set items"
  then have "n \<le> Max (snd ` set items)" by (intro Max_ge) force+
  with q show ?thesis by (auto simp: next_position_def)
qed

lemma next_position_free: "next_position items \<notin> snd ` set items"
  using next_position_above by fastforce

lemma listed_added: "listed_items (c\<lparr>gc_items := gc_items c @ [(q, next_position (gc_items c))]\<rparr>) = listed_items c @ [q]"
proof -
  have "snd y \<le> snd (q, next_position (gc_items c))" if "y \<in> set (gc_items c)" for y
    using that next_position_above [of "fst y" "snd y" "gc_items c"] by simp
  then show ?thesis by (simp add: listed_items_def sort_key_snoc del: sort_key_simps)
qed

text \<open>Adding question after question to a version its author may edit.\<close>

definition add_all :: "string \<Rightarrow> string list \<Rightarrow> group_server \<Rightarrow> group_server" where
  "add_all xid qs s = fold (\<lambda>q s. snd (add_group_item xid q None s)) qs s"

lemma add_all_Cons [simp]: "add_all xid [] s = s" "add_all xid (q # qs) s = add_all xid qs (snd (add_group_item xid q None s))"
  by (simp_all add: add_all_def)

lemma added_one:
  assumes "gs_versions s xid = Some v" "gs_may_edit s xid" "q \<in> gs_questions s"
  obtains v' where "gs_versions (snd (add_group_item xid q None s)) xid = Some v'"
    "listed_items (dv_content v') = listed_items (dv_content v) @ [q]" "gc_bank (dv_content v') = gc_bank (dv_content v)"
    "gs_may_edit (snd (add_group_item xid q None s)) = gs_may_edit s" "gs_questions (snd (add_group_item xid q None s)) = gs_questions s"
  using assms that next_position_free by (simp add: add_group_item_def nullish_def Let_def listed_added)

text \<open>
  A group is read back as it was filled. A group created from the form and filled through it lists
  its questions in the order in which they were added, whatever they are, and its option bank is the
  one the preview under the form showed.
\<close>

theorem group_as_filled:
  assumes "set qs \<subseteq> gs_questions s" "gs_may_edit s xid"
  shows "\<exists>v. gs_versions (add_all xid qs (create_group xid (group_body p) s)) xid = Some v \<and> listed_items (dv_content v) = qs \<and>
      map_option fst (BankPreview (g_bank p) (g_style p)) = (if gc_bank (dv_content v) = [] then None else Some (gc_bank (dv_content v)))"
proof -
  have filled: "\<exists>v'. gs_versions (add_all xid qs s) xid = Some v' \<and> listed_items (dv_content v') = listed_items (dv_content v) @ qs \<and>
      gc_bank (dv_content v') = gc_bank (dv_content v)"
    if "gs_versions s xid = Some v" "gs_may_edit s xid" "set qs \<subseteq> gs_questions s" for s v
    using that
  proof (induction qs arbitrary: s v)
    case (Cons q qs)
    obtain v' where one: "gs_versions (snd (add_group_item xid q None s)) xid = Some v'"
      "listed_items (dv_content v') = listed_items (dv_content v) @ [q]" "gc_bank (dv_content v') = gc_bank (dv_content v)"
      "gs_may_edit (snd (add_group_item xid q None s)) = gs_may_edit s" "gs_questions (snd (add_group_item xid q None s)) = gs_questions s"
      using added_one [of s xid v q] Cons.prems by auto
    have "set qs \<subseteq> gs_questions (snd (add_group_item xid q None s))" using one(5) Cons.prems(3) by simp
    with Cons.IH [of _ v', OF one(1)] show ?case using one Cons.prems(2) by simp
  qed simp
  let ?s = "create_group xid (group_body p) s"
  have made: "gs_versions ?s xid = Some \<lparr>dv_status = ''draft'', dv_no = 1, dv_checksum = [],
      dv_content = \<lparr>gc_instructions = gb_instructions (group_body p), gc_limit = gb_limit (group_body p),
        gc_bank = gb_bank (group_body p), gc_items = []\<rparr>\<rparr>"
    by (simp add: create_group_def)
  have "gs_may_edit ?s xid" "set qs \<subseteq> gs_questions ?s" using assms by (simp_all add: create_group_def)
  from filled [OF made this] obtain v where "gs_versions (add_all xid qs ?s) xid = Some v" "listed_items (dv_content v) = qs"
      "gc_bank (dv_content v) = parseBank (g_bank p) (g_style p)"
    by (auto simp: listed_items_def group_body_def)
  then show ?thesis by (intro exI [of _ v]) (simp add: BankPreview_def Let_def)
qed

subsection \<open>Saving the instructions\<close>

lemma group_saved:
  assumes "g_opened p = Some xid" "gs_versions s xid = Some v" "gs_may_edit s xid"
    and "dv_status v \<noteq> ''published''" "CHR '','' \<notin> set (dv_checksum v)"
  shows "gs_versions (snd (save_group (p, s))) = (gs_versions s)(xid \<mapsto> v\<lparr>dv_content := put_group (save_body p) (dv_content v)\<rparr>)"
proof -
  have "truthy_str (Some (version_etag v))" by (simp add: version_etag_def)
  then show ?thesis
    using assms own_tag_passes [OF assms(5)]
    by (simp add: save_group_def version_edit_def group_api_def update_group_version_def nullish_def)
qed

text \<open>
  C34: Opening \<open>Edit instructions and word limit\<close> and saving without a change is not without effect. What
  the marker enforces changes: a limit under which a number did not count, or a hyphenated word counted
  as two, is stored with both allowed. Every language but English is dropped from the instructions. And
  a limit cannot be taken off: saved with \<open>No limit\<close> chosen, the version keeps the limit it had.
\<close>

theorem untouched_save_rewrites:
  assumes "g_opened p = Some xid" "g_detail p xid = Some v" "gs_versions s xid = Some v" "gs_may_edit s xid"
    and "dv_status v \<noteq> ''published''" "CHR '','' \<notin> set (dv_checksum v)"
  shows "gs_versions (snd (save_group (press_edit_group p, s))) xid = Some (v\<lparr>dv_content := (dv_content v)
      \<lparr>gc_instructions := in_english (english (dv_content v)),
       gc_limit := map_option (\<lambda>l. l\<lparr>allow_number := True, hyphen_counts_as_one := True\<rparr>) (gc_limit (dv_content v))\<rparr>\<rparr>) \<and>
    map_option (\<lambda>v. gc_limit (dv_content v)) (gs_versions (snd (save_group ((press_edit_group p)\<lparr>g_edit_words := []\<rparr>, s))) xid) =
      Some (gc_limit (dv_content v))"
proof -
  let ?p = "press_edit_group p"
  have opened: "g_opened ?p = Some xid" using assms(1,2) by (simp add: press_edit_group_def shown_detail_def)
  have limit: "sent_limit (show_nat (max_words l)) = Some (l\<lparr>allow_number := True, hyphen_counts_as_one := True\<rparr>)" for l
    by (simp add: sent_limit_def)
  have "save_body ?p = \<lparr>gu_instructions = Some (in_english (english (dv_content v))),
      gu_limit = map_option (\<lambda>l. l\<lparr>allow_number := True, hyphen_counts_as_one := True\<rparr>) (gc_limit (dv_content v))\<rparr>"
    using assms(1,2) limit by (cases "gc_limit (dv_content v)") (simp_all add: save_body_def press_edit_group_def shown_detail_def sent_limit_def)
  moreover have "gu_limit (save_body (?p\<lparr>g_edit_words := []\<rparr>)) = None" by (simp add: save_body_def sent_limit_def)
  ultimately show ?thesis
    using group_saved [of ?p, OF opened assms(3-6)] group_saved [of "?p\<lparr>g_edit_words := []\<rparr>", OF _ assms(3-6)] opened
    by (cases "gc_limit (dv_content v)") (simp_all add: put_group_def nullish_def)
qed

text \<open>
  C33: The edit form outlives the group it was opened for. With the form open on one group, pressing
  \<open>Questions\<close> on another and then \<open>Save\<close> stores the first group's instructions and word limit on the
  second, which was never opened for editing.
\<close>

theorem edit_lands_on_other_group:
  assumes "g_opened p = Some a" "g_editing p" "a \<noteq> b" "gs_versions s b = Some v" "gs_may_edit s b"
    and "dv_status v \<noteq> ''published''" "CHR '','' \<notin> set (dv_checksum v)"
  shows "let p' = detail_loads s (press_questions b p); (p'', s') = save_group (p', s) in
      g_editing p' \<and> g_edit_rubric p' = g_edit_rubric p \<and> \<not> g_editing p'' \<and> gs_versions s' a = gs_versions s a \<and>
      gs_versions s' b = Some (v\<lparr>dv_content := put_group (save_body p) (dv_content v)\<rparr>)"
proof -
  let ?p = "detail_loads s (press_questions b p)"
  have p': "g_opened ?p = Some b" "g_editing ?p" "g_edit_rubric ?p = g_edit_rubric p" "save_body ?p = save_body p"
    using assms(1-3) by (simp_all add: press_questions_def detail_loads_def save_body_def)
  have saved: "gs_versions (snd (save_group (?p, s))) = (gs_versions s)(b \<mapsto> v\<lparr>dv_content := put_group (save_body p) (dv_content v)\<rparr>)"
    using group_saved [OF p'(1) assms(4-7)] p'(4) by simp
  have "fst (version_edit (group_api b) (save_body ?p) s) = None"
    using assms(4-6) own_tag_passes [OF assms(7)]
    by (simp add: version_edit_def group_api_def update_group_version_def nullish_def version_etag_def)
  then have "\<not> g_editing (fst (save_group (?p, s)))"
    using p'(1) by (cases "version_edit (group_api b) (save_body ?p) s") (simp add: save_group_def detail_loads_def)
  with p' saved assms(3) show ?thesis
    by (cases "save_group (?p, s)") (simp add: Let_def)
qed

subsection \<open>A small server\<close>

definition two_groups :: group_server where
  "two_groups = create_group ''b'' \<lparr>gb_title = ''B'', gb_skill = ''reading'', gb_instructions = [(''en'', ''Two words'')],
       gb_limit = Some \<lparr>max_words = 2, allow_number = False, hyphen_counts_as_one = True\<rparr>, gb_bank = []\<rparr>
     (create_group ''a'' \<lparr>gb_title = ''A'', gb_skill = ''reading'', gb_instructions = [(''en'', ''One word'')],
       gb_limit = Some \<lparr>max_words = 1, allow_number = False, hyphen_counts_as_one = True\<rparr>, gb_bank = []\<rparr>
     \<lparr>gs_groups = [], gs_versions = Map.empty, gs_questions = {''q1'', ''q2''}, gs_may_edit = (\<lambda>_. True)\<rparr>)"

definition limited :: "string \<Rightarrow> string \<Rightarrow> nat \<Rightarrow> group_version" where
  "limited status rubric n = \<lparr>dv_status = status, dv_no = 1, dv_checksum = [],
     dv_content = \<lparr>gc_instructions = [(''en'', rubric)], gc_limit = Some \<lparr>max_words = n, allow_number = False, hyphen_counts_as_one = True\<rparr>,
       gc_bank = [], gc_items = []\<rparr>\<rparr>"

lemma two_groups_versions: "gs_versions two_groups ''a'' = Some (limited ''draft'' ''One word'' 1)"
    "gs_versions two_groups ''b'' = Some (limited ''draft'' ''Two words'' 2)" "gs_may_edit two_groups x" "gs_questions two_groups = {''q1'', ''q2''}"
  by (simp_all add: two_groups_def create_group_def limited_def)

theorem group_as_filled_witness:
  "map_option (\<lambda>v. listed_items (dv_content v)) (gs_versions (add_all ''c'' [''q2'', ''q1''] (create_group ''c'' (group_body fresh_page) two_groups)) ''c'') =
     Some [''q2'', ''q1'']"
  using group_as_filled [of "[''q2'', ''q1'']" two_groups "''c''" fresh_page] by (auto simp: two_groups_versions)

definition page_at_a :: group_page where
  "page_at_a = detail_loads two_groups (press_questions ''a'' fresh_page)"

theorem untouched_save_rewrites_witness:
  "map_option (\<lambda>v. gc_limit (dv_content v)) (gs_versions (snd (save_group (press_edit_group page_at_a, two_groups))) ''a'') =
     Some (Some \<lparr>max_words = 1, allow_number = True, hyphen_counts_as_one = True\<rparr>)"
  using untouched_save_rewrites [of page_at_a "''a''" "limited ''draft'' ''One word'' 1" two_groups]
  by (simp add: page_at_a_def press_questions_def detail_loads_def fresh_page_def two_groups_versions) (simp add: limited_def)

theorem edit_lands_on_other_group_witness:
  "map_option (\<lambda>v. gc_limit (dv_content v))
      (gs_versions (snd (save_group (detail_loads two_groups (press_questions ''b'' (press_edit_group page_at_a)), two_groups))) ''b'') =
     Some (Some \<lparr>max_words = 1, allow_number = True, hyphen_counts_as_one = True\<rparr>)"
proof -
  have shown: "shown_detail page_at_a = Some (limited ''draft'' ''One word'' 1)" "g_opened page_at_a = Some ''a''"
    by (simp_all add: page_at_a_def shown_detail_def press_questions_def detail_loads_def fresh_page_def two_groups_versions)
  have "g_opened (press_edit_group page_at_a) = Some ''a''" "g_editing (press_edit_group page_at_a)"
    using shown by (simp_all add: press_edit_group_def)
  from edit_lands_on_other_group [OF this, of "''b''" two_groups "limited ''draft'' ''Two words'' 2"]
  have "gs_versions (snd (save_group (detail_loads two_groups (press_questions ''b'' (press_edit_group page_at_a)), two_groups))) ''b'' =
      Some ((limited ''draft'' ''Two words'' 2)\<lparr>dv_content := put_group (save_body (press_edit_group page_at_a)) (dv_content (limited ''draft'' ''Two words'' 2))\<rparr>)"
    by (simp add: two_groups_versions Let_def case_prod_beta) (simp add: limited_def)
  moreover have "gu_limit (save_body (press_edit_group page_at_a)) = Some \<lparr>max_words = 1, allow_number = True, hyphen_counts_as_one = True\<rparr>"
    using shown by (simp add: press_edit_group_def save_body_def sent_limit_def limited_def)
  ultimately show ?thesis by (simp add: put_group_def)
qed

end
