(* ===== verification/Spec2Isabelle.thy ===== *)
theory Spec2Isabelle
  imports ExamRun Runner Audio ReadingPane Palette Assignments Marking AnswerKey Authoring BandMap Money
    Realtime Upload Moderation OptionBank Items Cohort Slots
    Ordering Composition Account Paging Shell VersionEdit Passages Registry Transcripts Governance Regrade SignIn Screens
    Billing QuestionPage GroupLibrary
begin

text \<open>
  A verification development for the TypeScript clients of an IELTS platform: the student client
  (\<open>student/src\<close>), in which a timed paper is sat, and the rules behind the console of a centre
  (\<open>web/src\<close>), in which papers are written, marked and moderated. The Python backend (\<open>app\<close>) appears
  only where a client's correctness rests on what it promises.

  \<^bold>\<open>How the program hangs together.\<close> A student starts an attempt from the assignment list; the runner
  holds the paper, the answers on screen and a clock taken from server readings. Every keystroke is
  numbered per slot and written to an IndexedDB outbox before anything else happens; a loop flushes
  the outbox in batches, each under an idempotency key derived from its rows, and the server's reply
  is at once the clock and the verdict on each row. Submitting flushes first, carries what would not
  go in the request body and drops the local rows only when the server has them. Under all of it an
  API client attaches a token, refreshes it once for any number of failing requests and replays each
  request from a copy of it.

  \<^bold>\<open>Theories and the code they model.\<close>
  \<^item> \<open>Prelude\<close>, \<open>JsNum\<close>, \<open>Json\<close>, \<open>Markers\<close>: the JavaScript the sources use. Optional fields, decimal
    printing and reading, insertion-ordered maps, string scanning, sorting by a comparator (with the
    locale \<open>list_order\<close>), numbers with \<open>NaN\<close>, \<open>Date.parse\<close>, \<open>Number\<close>, values of type \<open>unknown\<close>.
  \<^item> \<open>Clock\<close> (\<open>exam/clock.ts\<close>), \<open>OutboxRules\<close> and \<open>OutboxStore\<close> (\<open>exam/outbox.ts\<close>), \<open>Attempt\<close>
    (\<open>exam/attempt.ts\<close>), \<open>Flow\<close> (\<open>exam/flow.ts\<close>): the exam's rules, one definition per function. The store
    is a map of rows under keys; every operation is a transaction that happens or changes nothing. The
    locale \<open>answer_store\<close> states what the flow relies on of a store, \<open>flush_env\<close>, \<open>tracked_env\<close> and
    \<open>submit_env\<close> what it relies on of its dependencies; they are interpreted on the store and, in
    \<open>ExamWorld\<close> and \<open>ExamRun\<close>, on the dependencies that \<open>Runner.tsx\<close> really passes.
  \<^item> \<open>ExamServer\<close> (\<open>modules/exam/session.py\<close>, \<open>api/deps.py\<close>, \<open>api/routers/exam.py\<close>): what the server does
    with a batch of answers, the store-and-replay of a keyed request, and submit.
  \<^item> \<open>ExamWorld\<close>, \<open>ExamRun\<close> (\<open>FLUSH_DEPS\<close>, \<open>flushNow\<close>, \<open>doSubmit\<close> of \<open>exam/Runner.tsx\<close>): the page in a world
    with a network that may lose requests and replies, other tasks that may write between two awaits
    and a store that may fail; \<open>page_step\<close> and \<open>page_run\<close> are its runs.
  \<^item> \<open>Runner\<close> (\<open>exam/Runner.tsx\<close>, \<open>exam/viewport.ts\<close>): the component's state and refs as a record and each
    handler and effect as a function on it.
  \<^item> \<open>Question\<close> (\<open>exam/Question.tsx\<close>), \<open>Audio\<close> (\<open>exam/Audio.tsx\<close>), \<open>ReadingPane\<close> (\<open>exam/Reading.tsx\<close>,
    \<open>exam/Chrome.tsx\<close>), \<open>Highlights\<close>, \<open>Palette\<close> (files of the same names): what the student sees and
    can do, as the controls rendered and the state each of them changes.
  \<^item> \<open>Assignments\<close> (\<open>home/assignments.ts\<close>), \<open>Marking\<close> (\<open>review/marking.ts\<close>): before and after the paper.
  \<^item> \<open>ApiClient\<close> (\<open>api/session.ts\<close>, \<open>api/client.ts\<close>): sessions, refresh and replay as a step relation over
    requests in flight; the text of a problem document. The console has the same two files.
  \<^item> \<open>AnswerKey\<close>, \<open>PayloadParts\<close> (\<open>features/questions\<close>), \<open>OptionBank\<close> (\<open>features/groups\<close>), \<open>BandMap\<close>
    (\<open>features/bandmaps\<close>): what an author types and what is stored. \<open>Authoring\<close> joins the two clients.
  \<^item> \<open>Upload\<close> (\<open>features/audio/upload.ts\<close>), \<open>Realtime\<close> (\<open>api/realtime.ts\<close>): the two protocols of the console.
  \<^item> \<open>Moderation\<close> (\<open>features/moderation\<close>), \<open>Items\<close> and \<open>Cohort\<close> (\<open>features/analytics\<close>, with the rules of
    \<open>modules/analytics/stats.py\<close>), \<open>Slots\<close> (\<open>features/speaking/slotRules.ts\<close>), \<open>Money\<close> (\<open>features/billing\<close>).
  \<^item> \<open>Ordering\<close> (\<open>features/compose/ordering.ts\<close>) and \<open>Composition\<close> (\<open>features/compose/Composition.tsx\<close>): the
    moves a drag sends and every mutation of the page, against the section and group handlers of
    \<open>api/routers/tests_authoring.py\<close>.
  \<^item> \<open>VersionEdit\<close> (\<open>features/edit/useVersionEdit.ts\<close>), \<open>Passages\<close> (\<open>features/passages/PassageLibrary.tsx\<close>):
    the read-then-write of a version against the lock of \<open>api/routers/assets.py\<close>, and the editor over it.
  \<^item> \<open>Account\<close> (\<open>features/account\<close>, \<open>api/principal.ts\<close>), with the consents of \<open>api/routers/identity.py\<close> and
    the booking query of \<open>api/routers/speaking.py\<close>; \<open>Paging\<close> (\<open>app/paging.tsx\<close>) against keyset paging
    (\<open>api/paging.py\<close>); \<open>Shell\<close> (\<open>app/nav.ts\<close>, \<open>Sidebar.tsx\<close>, \<open>Toast.tsx\<close>, \<open>Confirm.tsx\<close>);
    \<open>Problems\<close>: the problem documents both clients read, with \<open>problemText\<close>.
  \<^item> \<open>Registry\<close> (\<open>features/registry\<close>), \<open>Transcripts\<close> (\<open>features/audio/transcript.ts\<close>, \<open>player.ts\<close>), \<open>Governance\<close>
    (\<open>features/governance\<close>, \<open>usage\<close>, \<open>platform\<close>, \<open>cuecards\<close>, \<open>results/distribution.ts\<close>) and \<open>Regrade\<close>
    (\<open>features/regrade/Regrades.tsx\<close> with the regrade handlers of \<open>api/routers/teaching.py\<close> and
    \<open>competitions.py\<close>).
  \<^item> \<open>SignIn\<close> (\<open>auth/SignIn.tsx\<close>, \<open>auth/Join.tsx\<close> with the codes and invitations of \<open>api/routers/auth.py\<close>) and
    \<open>Screens\<close> (\<open>app/App.tsx\<close>, \<open>app/Settings.tsx\<close>, \<open>home/Home.tsx\<close>, \<open>result/Result.tsx\<close>,
    \<open>review/Review.tsx\<close>): the student's way in and the screens around the paper.
  \<^item> \<open>Billing\<close> (\<open>features/billing/Billing.tsx\<close> with \<open>create_order\<close> of \<open>api/routers/platform_ops.py\<close> and
    \<open>billing/entitlements.py\<close>); \<open>QuestionForm\<close> (\<open>features/questions/TypeForm.tsx\<close>,
    \<open>PayloadWidgets.tsx\<close>): widgets, drafts and what they write; \<open>QuestionPage\<close>
    (\<open>QuestionLibrary.tsx\<close>): creating and editing, with the drafts that stay when React keeps a widget;
    \<open>GroupLibrary\<close> (\<open>features/groups/GroupLibrary.tsx\<close> with the group handlers of \<open>api/routers/assets.py\<close>).

  \<^bold>\<open>What the theorems show.\<close>
  \<^item> No answer is lost: at every moment of a run each row is on the device or a row at least as new is
    held by the server; a submit that reports success has delivered everything; a resumed paper never
    mints a number that the server would refuse as stale.
  \<^item> The rules under that: reconciling, collapsing and partitioning a batch, the latch of a submit, the
    retry ladder, resuming sections, closing and leaving a section at its own deadline.
  \<^item> The client's transport: one refresh at a time, each request replayed once and intact; one activity
    of the realtime connection at any moment, closing it final, silence noticed; an upload that closes
    what it opens and sends exactly the file.
  \<^item> What is shown: every slot of a question has a control, a sentence is rendered in full, the order of
    lists, tallies and segments that add up, verdicts that agree with the server's.
  \<^item> Authoring against the server: a drag leaves the order shown, sections keep their positions 1 to n,
    a walk over a paged list misses nobody, a registered definition is one that was checked, and what
    the lock of a version and the walk of a regrade do and do not protect; one order for a purchase
    however its requests fail; what a builder writes is what it shows, until the form is given another
    question.
  \<^item> Round trips of every text an author edits, with the inputs on which they fail.
  \<^item> Several theorems show the code doing something it does not mean to; each says so in its text.

  \<^bold>\<open>Conventions and bounds.\<close> A call that may fail returns a sum, \<open>Inl\<close> the value thrown. Awaited I/O is a
  function on an opaque world; where other tasks run during an await they are part of it. Numbers are
  exact: rounding of doubles beyond 2^53 is not modelled, and \<open>Money\<close> refuses what lies there, as the code
  does. A string is a list of 8-bit characters, so the typographic dashes and the dash for "nothing" are
  not characters here; where one matters the theory says so. Loops are structural except the group
  loop of \<open>Money\<close> and the scanners of markers (terminating by length) and the poll of \<open>Upload\<close>, which has
  fuel: \<open>poll_settles\<close> shows that one more unit than the reads needed is enough, and
  \<open>archived_track_polls_forever\<close> that without a settling read none is. Complaints of a form that are long
  sentences are constructors of a datatype.

  \<^bold>\<open>Not modelled.\<close> Markup, styles and the query cache; the generated HTTP client and its types, which
  are parameters; the browser's IndexedDB, sockets and media elements beyond the behaviour their users
  rely on; the remaining screens of the console and of the student client, which render the rules
  above; and the backend beyond the handlers named above.
\<close>

end
